(* ===== verification/Prelude.thy ===== *)
theory Prelude
  imports Main "HOL-Library.Word" "HOL-Library.Monad_Syntax"
begin

section \<open>Shared notation, automation and lemmas\<close>

text \<open>
  The C types the components share, and the generic facts their proofs use.

  A C function that may fault is a HOL function into \<open>option\<close>: \<open>None\<close> stands for an
  execution that leaves defined behaviour (a null or dangling pointer is dereferenced, an
  uninitialised object is read, a block is overrun, an \<open>assert\<close> fails) or that never returns
  (a thread waits for a lock it holds itself). Error codes the source returns are ordinary
  values. State is passed explicitly: a function that changes the program state takes the state
  and returns the new one, sequenced by the \<open>do\<close> notation of \<open>Option.bind\<close>.
\<close>

subsection \<open>C scalar types\<close>

type_synonym ptr = nat \<comment> \<open>an address; \<open>0\<close> is \<open>NULL\<close>\<close>
type_synonym u8 = "8 word"
type_synonym u16 = "16 word"
type_synonym u32 = "32 word"
type_synonym u64 = "64 word" \<comment> \<open>also \<open>size_t\<close>\<close>

text \<open>A C \<open>float\<close> that is only stored, compared with NaN and read back.\<close>

datatype c_float = NAN | FLOAT u32

abbreviation isnan :: "c_float \<Rightarrow> bool" where
  "isnan x \<equiv> x = NAN"

text \<open>\<open>INT32_MAX\<close> and \<open>UINT64_MAX\<close>.\<close>

abbreviation INT32_MAX :: int where
  "INT32_MAX \<equiv> 2147483647"

abbreviation UINT64_MAX :: u64 where
  "UINT64_MAX \<equiv> - 1"

subsection \<open>Collections of rules\<close>

named_theorems zsa_defs \<open>definitions of the C functions, unfolded to execute a call\<close>
named_theorems zsa_frame \<open>what an operation leaves unchanged\<close>

subsection \<open>Option\<close>

lemma bind_Some_iff: "(Option.bind x f = Some y) = (\<exists>a. x = Some a \<and> f a = Some y)"
  by (cases x) auto

lemma bind_SomeE:
  assumes "Option.bind x f = Some y"
  obtains a where "x = Some a" "f a = Some y"
  using assms by (cases x) auto

lemma bind_cong_Some:
  "x = Some a \<Longrightarrow> Option.bind x f = f a"
  by simp

subsection \<open>Lists\<close>

lemma take_Suc_snoc: "n < length xs \<Longrightarrow> take (Suc n) xs = take n xs @ [xs ! n]"
  by (rule take_Suc_conv_app_nth)

text \<open>Positions \<open>r\<close>, \<open>r + 1\<close>, \<dots> of a ring of \<open>n\<close> slots do not meet again before \<open>n\<close> steps.\<close>

lemma ring_index_inj:
  fixes r i j n :: nat
  assumes "i < n" "j < n" "(r + i) mod n = (r + j) mod n"
  shows "i = j"
proof -
  have "i' = j'" if "i' < n" "j' < n" "(r + i') mod n = (r + j') mod n" "i' \<le> j'" for i' j'
  proof -
    have "n dvd (r + j') - (r + i')"
      using that(3,4) mod_eq_dvd_iff_nat [of "r + i'" "r + j'" n] by simp
    then have dvd: "n dvd j' - i'" by simp
    show ?thesis
    proof (rule ccontr)
      assume "i' \<noteq> j'"
      then have "0 < j' - i'" using that(4) by simp
      then have "n \<le> j' - i'" using dvd by (rule dvd_imp_le [rotated])
      then show False using that(2) by simp
    qed
  qed
  from this [of i j] this [of j i] show ?thesis using assms by (cases "i \<le> j") auto
qed

text \<open>Adding to a list of at most \<open>n\<close> elements that loses its first one when it is full.\<close>

definition push_newest :: "nat \<Rightarrow> 'a list \<Rightarrow> 'a \<Rightarrow> 'a list" where
  "push_newest n xs x = (if length xs = n then tl xs else xs) @ [x]"

lemma length_push_newest: "length xs \<le> n \<Longrightarrow> 0 < n \<Longrightarrow> length (push_newest n xs x) \<le> n"
  by (auto simp: push_newest_def)

lemma foldl_push_newest:
  "length xs \<le> n \<Longrightarrow> 0 < n \<Longrightarrow>
   foldl (push_newest n) xs ys = drop (length (xs @ ys) - n) (xs @ ys)"
proof (induction ys arbitrary: xs)
  case (Cons y ys)
  have "foldl (push_newest n) xs (y # ys) =
      drop (length (push_newest n xs y @ ys) - n) (push_newest n xs y @ ys)"
    using Cons.IH [OF length_push_newest [OF Cons.prems]] Cons.prems(2) by simp
  also have "\<dots> = drop (length (xs @ y # ys) - n) (xs @ y # ys)"
  proof (cases "length xs = n")
    case True
    then obtain x zs where xs: "xs = x # zs" using Cons.prems(2) by (cases xs) auto
    then have n: "n = Suc (length zs)" using True by simp
    have "push_newest n xs y @ ys = zs @ y # ys" by (simp add: push_newest_def n xs)
    moreover have "length (zs @ y # ys) - n = length ys" "length (xs @ y # ys) - n = Suc (length ys)"
      by (simp_all add: n xs)
    ultimately show ?thesis by (simp add: xs del: drop_append)
  qed (simp add: push_newest_def)
  finally show ?case .
qed simp

subsection \<open>Words\<close>

lemma u64_less: "unat (x :: u64) < 2 ^ 64"
  using unsigned_less [of x] by simp

lemma u32_less: "unat (x :: u32) < 2 ^ 32"
  using unsigned_less [of x] by simp

lemma unat_UINT64_MAX: "unat (- 1 :: u64) = 2 ^ 64 - 1"
  using unat_minus_one [of "0 :: u64"] by (simp add: unsigned_minus_1_eq_mask mask_eq_exp_minus_1)

lemma mod_add_once: "m < M \<Longrightarrow> k \<le> M \<Longrightarrow> (m + k) mod M = (if m + k < M then m + k else m + k - M)"
  for m k M :: nat
  by (simp add: le_mod_geq)

text \<open>Unsigned addition wraps around at most once.\<close>

lemma unat_add_wrap:
  "unat (x + y :: u64) = (if unat x + unat y < 2 ^ 64 then unat x + unat y else unat x + unat y - 2 ^ 64)"
  unfolding unat_word_ariths(1) using mod_add_once [OF u64_less [of x] less_imp_le [OF u64_less [of y]]] by simp

end
