(* ===== verification/Zsa_Types.thy ===== *)
theory Zsa_Types
  imports Prelude
begin

section \<open>Public types and conversions\<close>

text \<open>
  The enumerations and the configuration struct of \<open>include/zsa/zsatypes.h\<close>, the allocation
  sources of \<open>include/zsainternal/allocator.h\<close>, the result macros of
  \<open>include/zsainternal/logging.h\<close> and the conversions of \<open>include/zsainternal/common.h\<close>.

  A C variable of an enumeration type can hold a value that is no enumerator. Where the code
  guards against that, the datatype has one more constructor (\<open>_OTHER\<close>) that carries such a value.
\<close>

subsection \<open>Results\<close>

datatype zsa_result_t = ZSA_RESULT_SUCCEEDED | ZSA_RESULT_FAILED

datatype zsa_buffer_result_t =
  ZSA_BUFFER_RESULT_SUCCEEDED | ZSA_BUFFER_RESULT_FAILED | ZSA_BUFFER_RESULT_TOO_SMALL

datatype zsa_wait_result_t =
  ZSA_WAIT_RESULT_SUCCEEDED | ZSA_WAIT_RESULT_FAILED | ZSA_WAIT_RESULT_TIMEOUT

definition ZSA_SUCCEEDED :: "zsa_result_t \<Rightarrow> bool" where
  "ZSA_SUCCEEDED r = (r = ZSA_RESULT_SUCCEEDED)"

definition ZSA_FAILED :: "zsa_result_t \<Rightarrow> bool" where
  "ZSA_FAILED r = (\<not> ZSA_SUCCEEDED r)"

definition ZSA_RESULT_FROM_BOOL :: "bool \<Rightarrow> zsa_result_t" where
  "ZSA_RESULT_FROM_BOOL b = (if b then ZSA_RESULT_SUCCEEDED else ZSA_RESULT_FAILED)"

lemma result_from_bool_simps [simp]:
  "ZSA_SUCCEEDED (ZSA_RESULT_FROM_BOOL b) = b"
  "ZSA_FAILED (ZSA_RESULT_FROM_BOOL b) = (\<not> b)"
  "ZSA_SUCCEEDED ZSA_RESULT_SUCCEEDED" "\<not> ZSA_SUCCEEDED ZSA_RESULT_FAILED"
  "ZSA_FAILED ZSA_RESULT_FAILED" "\<not> ZSA_FAILED ZSA_RESULT_SUCCEEDED"
  "(ZSA_RESULT_FROM_BOOL b = ZSA_RESULT_SUCCEEDED) = b"
  "(ZSA_RESULT_FROM_BOOL b = ZSA_RESULT_FAILED) = (\<not> b)"
  "ZSA_RESULT_FROM_BOOL True = ZSA_RESULT_SUCCEEDED"
  "ZSA_RESULT_FROM_BOOL False = ZSA_RESULT_FAILED"
  by (auto simp: ZSA_SUCCEEDED_def ZSA_FAILED_def ZSA_RESULT_FROM_BOOL_def)

lemma succeeded_iff: "ZSA_SUCCEEDED r \<longleftrightarrow> r = ZSA_RESULT_SUCCEEDED"
  and failed_iff: "ZSA_FAILED r \<longleftrightarrow> r = ZSA_RESULT_FAILED"
  by (cases r; simp)+

subsection \<open>Sensor enumerations\<close>

datatype zsa_depth_mode_t =
    ZSA_DEPTH_MODE_OFF
  | ZSA_DEPTH_MODE_NFOV_2X2BINNED
  | ZSA_DEPTH_MODE_NFOV_UNBINNED
  | ZSA_DEPTH_MODE_WFOV_2X2BINNED
  | ZSA_DEPTH_MODE_WFOV_UNBINNED
  | ZSA_DEPTH_MODE_PASSIVE_IR
  | ZSA_DEPTH_MODE_OTHER int

datatype zsa_color_resolution_t =
    ZSA_COLOR_RESOLUTION_OFF
  | ZSA_COLOR_RESOLUTION_720P
  | ZSA_COLOR_RESOLUTION_1080P
  | ZSA_COLOR_RESOLUTION_1440P
  | ZSA_COLOR_RESOLUTION_1536P
  | ZSA_COLOR_RESOLUTION_2160P
  | ZSA_COLOR_RESOLUTION_3072P
  | ZSA_COLOR_RESOLUTION_OTHER int

datatype zsa_image_format_t =
    ZSA_IMAGE_FORMAT_COLOR_MJPG
  | ZSA_IMAGE_FORMAT_COLOR_NV12
  | ZSA_IMAGE_FORMAT_COLOR_YUY2
  | ZSA_IMAGE_FORMAT_COLOR_BGRA32
  | ZSA_IMAGE_FORMAT_DEPTH16
  | ZSA_IMAGE_FORMAT_IR16
  | ZSA_IMAGE_FORMAT_CUSTOM8
  | ZSA_IMAGE_FORMAT_CUSTOM16
  | ZSA_IMAGE_FORMAT_CUSTOM
  | ZSA_IMAGE_FORMAT_OTHER int

text \<open>The guard \<open>format >= ZSA_IMAGE_FORMAT_COLOR_MJPG && format <= ZSA_IMAGE_FORMAT_CUSTOM\<close>.\<close>

fun format_in_range :: "zsa_image_format_t \<Rightarrow> bool" where
  "format_in_range (ZSA_IMAGE_FORMAT_OTHER _) = False"
| "format_in_range _ = True"

datatype zsa_fps_t =
    ZSA_FRAMES_PER_SECOND_5
  | ZSA_FRAMES_PER_SECOND_15
  | ZSA_FRAMES_PER_SECOND_30
  | ZSA_FRAMES_PER_SECOND_OTHER int

datatype zsa_wired_sync_mode_t =
    ZSA_WIRED_SYNC_MODE_STANDALONE
  | ZSA_WIRED_SYNC_MODE_MASTER
  | ZSA_WIRED_SYNC_MODE_SUBORDINATE
  | ZSA_WIRED_SYNC_MODE_OTHER int

record zsa_device_configuration_t =
  cfg_color_format :: zsa_image_format_t
  cfg_color_resolution :: zsa_color_resolution_t
  cfg_depth_mode :: zsa_depth_mode_t
  cfg_camera_fps :: zsa_fps_t
  cfg_synchronized_images_only :: bool
  cfg_depth_delay_off_color_usec :: int
  cfg_wired_sync_mode :: zsa_wired_sync_mode_t
  cfg_subordinate_delay_off_master_usec :: u32
  cfg_disable_streaming_indicator :: bool

definition ZSA_DEVICE_CONFIG_INIT_DISABLE_ALL :: zsa_device_configuration_t where
  "ZSA_DEVICE_CONFIG_INIT_DISABLE_ALL =
     \<lparr>cfg_color_format = ZSA_IMAGE_FORMAT_COLOR_MJPG,
      cfg_color_resolution = ZSA_COLOR_RESOLUTION_OFF,
      cfg_depth_mode = ZSA_DEPTH_MODE_OFF,
      cfg_camera_fps = ZSA_FRAMES_PER_SECOND_30,
      cfg_synchronized_images_only = False,
      cfg_depth_delay_off_color_usec = 0,
      cfg_wired_sync_mode = ZSA_WIRED_SYNC_MODE_STANDALONE,
      cfg_subordinate_delay_off_master_usec = 0,
      cfg_disable_streaming_indicator = False\<rparr>"

subsection \<open>Allocation sources\<close>

datatype allocation_source_t =
    ALLOCATION_SOURCE_USER
  | ALLOCATION_SOURCE_DEPTH
  | ALLOCATION_SOURCE_COLOR
  | ALLOCATION_SOURCE_IMU
  | ALLOCATION_SOURCE_USB_DEPTH
  | ALLOCATION_SOURCE_USB_IMU
  | ALLOCATION_SOURCE_COM_DEPTH
  | ALLOCATION_SOURCE_COM_IMU

fun source_val :: "allocation_source_t \<Rightarrow> int" where
  "source_val ALLOCATION_SOURCE_USER = 0"
| "source_val ALLOCATION_SOURCE_DEPTH = 1"
| "source_val ALLOCATION_SOURCE_COLOR = 2"
| "source_val ALLOCATION_SOURCE_IMU = 3"
| "source_val ALLOCATION_SOURCE_USB_DEPTH = 4"
| "source_val ALLOCATION_SOURCE_USB_IMU = 5"
| "source_val ALLOCATION_SOURCE_COM_DEPTH = 6"
| "source_val ALLOCATION_SOURCE_COM_IMU = 7"

text \<open>The guard \<open>source < ALLOCATION_SOURCE_USER || source > ALLOCATION_SOURCE_USB_IMU\<close>.\<close>

definition source_out_of_range :: "allocation_source_t \<Rightarrow> bool" where
  "source_out_of_range s \<longleftrightarrow>
     source_val s < source_val ALLOCATION_SOURCE_USER \<or>
     source_val s > source_val ALLOCATION_SOURCE_USB_IMU"

lemma source_out_of_range_iff:
  "source_out_of_range s \<longleftrightarrow> s = ALLOCATION_SOURCE_COM_DEPTH \<or> s = ALLOCATION_SOURCE_COM_IMU"
  by (cases s) (auto simp: source_out_of_range_def)

subsection \<open>Conversions\<close>

text \<open>The \<open>default\<close> branch asserts: no value.\<close>

fun zsa_convert_fps_to_uint :: "zsa_fps_t \<Rightarrow> u32 option" where
  "zsa_convert_fps_to_uint ZSA_FRAMES_PER_SECOND_5 = Some 5"
| "zsa_convert_fps_to_uint ZSA_FRAMES_PER_SECOND_15 = Some 15"
| "zsa_convert_fps_to_uint ZSA_FRAMES_PER_SECOND_30 = Some 30"
| "zsa_convert_fps_to_uint (ZSA_FRAMES_PER_SECOND_OTHER _) = None"

text \<open>
  The two conversions to a width and a height return \<open>false\<close> and write nothing, or \<open>true\<close> and
  write both out parameters (when they are not \<open>NULL\<close>); \<open>None\<close> is the \<open>false\<close> result.
\<close>

fun zsa_convert_resolution_to_width_height :: "zsa_color_resolution_t \<Rightarrow> (u32 \<times> u32) option" where
  "zsa_convert_resolution_to_width_height ZSA_COLOR_RESOLUTION_720P = Some (1280, 720)"
| "zsa_convert_resolution_to_width_height ZSA_COLOR_RESOLUTION_1080P = Some (1920, 1080)"
| "zsa_convert_resolution_to_width_height ZSA_COLOR_RESOLUTION_1440P = Some (2560, 1440)"
| "zsa_convert_resolution_to_width_height ZSA_COLOR_RESOLUTION_1536P = Some (2048, 1536)"
| "zsa_convert_resolution_to_width_height ZSA_COLOR_RESOLUTION_2160P = Some (3840, 2160)"
| "zsa_convert_resolution_to_width_height ZSA_COLOR_RESOLUTION_3072P = Some (4096, 3072)"
| "zsa_convert_resolution_to_width_height _ = None"

fun zsa_convert_depth_mode_to_width_height :: "zsa_depth_mode_t \<Rightarrow> (u32 \<times> u32) option" where
  "zsa_convert_depth_mode_to_width_height ZSA_DEPTH_MODE_NFOV_2X2BINNED = Some (320, 288)"
| "zsa_convert_depth_mode_to_width_height ZSA_DEPTH_MODE_NFOV_UNBINNED = Some (640, 576)"
| "zsa_convert_depth_mode_to_width_height ZSA_DEPTH_MODE_WFOV_2X2BINNED = Some (512, 512)"
| "zsa_convert_depth_mode_to_width_height ZSA_DEPTH_MODE_WFOV_UNBINNED = Some (1024, 1024)"
| "zsa_convert_depth_mode_to_width_height ZSA_DEPTH_MODE_PASSIVE_IR = Some (1024, 1024)"
| "zsa_convert_depth_mode_to_width_height _ = None"

text \<open>
  \<open>ZSA_90K_HZ_TICK_TO_USEC\<close> computes in \<open>uint64_t\<close>; \<open>ZSA_USEC_TO_90K_HZ_TICK\<close> computes in the type
  of its argument: \<open>uint32_t\<close> at one call site and \<open>int32_t\<close> (C division truncates) at the other.
\<close>

definition ZSA_90K_HZ_TICK_TO_USEC :: "u64 \<Rightarrow> u64" where
  "ZSA_90K_HZ_TICK_TO_USEC x = x * 100 div 9"

definition ZSA_USEC_TO_90K_HZ_TICK_u32 :: "u32 \<Rightarrow> u32" where
  "ZSA_USEC_TO_90K_HZ_TICK_u32 x = x * 9 div 100"

definition c_div :: "int \<Rightarrow> int \<Rightarrow> int" where
  "c_div a b = sgn a * sgn b * (\<bar>a\<bar> div \<bar>b\<bar>)"

text \<open>Signed overflow of \<open>x * 9\<close> has no defined result.\<close>

definition ZSA_USEC_TO_90K_HZ_TICK_i32 :: "int \<Rightarrow> int option" where
  "ZSA_USEC_TO_90K_HZ_TICK_i32 x =
     (if - 2147483648 \<le> x * 9 \<and> x * 9 \<le> INT32_MAX then Some (c_div (x * 9) 100) else None)"

end
