(* ===== verification/Platform.thy ===== *)
theory Platform
  imports Zsa_Types
begin

section \<open>Memory and the threading primitives below the SDK\<close>

text \<open>
  The bottom layer of the program state, and what the SDK calls of the layer below it:
  \<open>malloc\<close>/\<open>free\<close>, the mutex and condition adapters of
  \<open>extern/azure_c_shared/src/adapters/lock_pthreads.c\<close> and \<open>condition_pthreads.c\<close>, the
  reader/writer lock of \<open>src/rwlock/rwlock_linux.c\<close> and the one-time initialisation of
  \<open>src/global/global.c\<close>.

  Whether a request to the operating system succeeds is not up to the program: the state carries
  an answer sheet \<open>os_grants\<close> (a function from the number of the request to its answer), which
  every theorem leaves arbitrary. Addresses are never reused, so a dangling address is told from
  a live one, and using one is a fault.
\<close>

datatype handle_type =
    H_image | H_capture | H_queue | H_capturesync | H_usbcmd | H_comcmd | H_colormcu | H_color | H_device

record mem =
  next_addr :: ptr                              \<comment> \<open>the next address \<open>malloc\<close> hands out\<close>
  os_grants :: "nat \<Rightarrow> bool"                    \<comment> \<open>answer to the n-th request\<close>
  os_requests :: nat                            \<comment> \<open>requests made so far\<close>
  htype :: "ptr \<Rightarrow> handle_type option"          \<comment> \<open>live handle wrappers and their \<open>handleType\<close>\<close>
  locks :: "ptr \<Rightarrow> bool option"                 \<comment> \<open>live mutexes; whether held\<close>
  conds :: "ptr \<Rightarrow> bool"                        \<comment> \<open>live condition variables\<close>

definition os_request :: "'a mem_scheme \<Rightarrow> bool \<times> 'a mem_scheme" where
  "os_request w = (os_grants w (os_requests w), w\<lparr>os_requests := Suc (os_requests w)\<rparr>)"

text \<open>\<open>malloc(n)\<close>: a fresh block of \<open>n\<close> bytes, or \<open>NULL\<close>.\<close>

definition c_malloc :: "nat \<Rightarrow> 'a mem_scheme \<Rightarrow> ptr \<times> 'a mem_scheme" where
  "c_malloc n w =
     (case os_request w of (ok, w1) \<Rightarrow>
        if ok then (next_addr w1, w1\<lparr>next_addr := next_addr w1 + n + 1\<rparr>) else (0, w1))"

text \<open>Well-formed memory: live objects lie below the next address, and none of them at \<open>NULL\<close>.\<close>

definition mem_ok :: "'a mem_scheme \<Rightarrow> bool" where
  "mem_ok w \<longleftrightarrow> 0 < next_addr w \<and>
     (\<forall>h. htype w h \<noteq> None \<longrightarrow> 0 < h \<and> h < next_addr w) \<and>
     (\<forall>l. locks w l \<noteq> None \<longrightarrow> 0 < l \<and> l < next_addr w) \<and>
     (\<forall>c. conds w c \<longrightarrow> 0 < c \<and> c < next_addr w)"

subsection \<open>Mutexes\<close>

datatype LOCK_RESULT = LOCK_OK | LOCK_ERROR

definition Lock_Init :: "'a mem_scheme \<Rightarrow> ptr \<times> 'a mem_scheme" where
  "Lock_Init w =
     (case c_malloc 1 w of (result, w1) \<Rightarrow>
        if result = 0 then (0, w1)
        else case os_request w1 of (ok, w2) \<Rightarrow>
          if ok then (result, w2\<lparr>locks := (locks w2)(result := Some False)\<rparr>) else (0, w2))"

text \<open>
  A default \<open>pthread\<close> mutex: locking one the thread already holds never returns, and unlocking or
  destroying one in the wrong state is undefined.
\<close>

definition Lock :: "ptr \<Rightarrow> 'a mem_scheme \<Rightarrow> (LOCK_RESULT \<times> 'a mem_scheme) option" where
  "Lock handle w =
     (if handle = 0 then Some (LOCK_ERROR, w)
      else if locks w handle = Some False
        then Some (LOCK_OK, w\<lparr>locks := (locks w)(handle := Some True)\<rparr>)
        else None)"

definition Unlock :: "ptr \<Rightarrow> 'a mem_scheme \<Rightarrow> (LOCK_RESULT \<times> 'a mem_scheme) option" where
  "Unlock handle w =
     (if handle = 0 then Some (LOCK_ERROR, w)
      else if locks w handle = Some True
        then Some (LOCK_OK, w\<lparr>locks := (locks w)(handle := Some False)\<rparr>)
        else None)"

definition Lock_Deinit :: "ptr \<Rightarrow> 'a mem_scheme \<Rightarrow> (LOCK_RESULT \<times> 'a mem_scheme) option" where
  "Lock_Deinit handle w =
     (if handle = 0 then Some (LOCK_ERROR, w)
      else if locks w handle = Some False
        then Some (LOCK_OK, w\<lparr>locks := (locks w)(handle := None)\<rparr>)
        else None)"

subsection \<open>Condition variables\<close>

datatype COND_RESULT = COND_OK | COND_INVALID_ARG | COND_ERROR | COND_TIMEOUT

definition Condition_Init :: "'a mem_scheme \<Rightarrow> ptr \<times> 'a mem_scheme" where
  "Condition_Init w =
     (case c_malloc 1 w of (cond, w1) \<Rightarrow>
        if cond = 0 then (0, w1) else (cond, w1\<lparr>conds := (conds w1)(cond := True)\<rparr>))"

text \<open>
  A post wakes at most one waiter; the waiter's own step is another thread's, so a post changes no
  state of this one.
\<close>

definition Condition_Post :: "ptr \<Rightarrow> 'a mem_scheme \<Rightarrow> COND_RESULT option" where
  "Condition_Post handle w =
     (if handle = 0 then Some COND_INVALID_ARG
      else if conds w handle then Some COND_OK else None)"

text \<open>
  \<open>Condition_Wait\<close> releases the lock, lets the other threads run and returns with the lock held
  again. What they do meanwhile (\<open>others\<close>) and how the wait ends (\<open>outcome\<close>) are arguments; the
  timed and the untimed call to \<open>pthread\<close> differ in the outcomes they can have.
\<close>

definition Condition_Wait ::
  "('a mem_scheme \<Rightarrow> 'a mem_scheme) \<Rightarrow> COND_RESULT \<Rightarrow> ptr \<Rightarrow> ptr \<Rightarrow> int \<Rightarrow> 'a mem_scheme \<Rightarrow>
     (COND_RESULT \<times> 'a mem_scheme) option" where
  "Condition_Wait others outcome handle lock timeout_milliseconds w =
     (if handle = 0 \<or> lock = 0 then Some (COND_INVALID_ARG, w)
      else if \<not> conds w handle \<or> locks w lock \<noteq> Some True then None
      else do {
        (_, w) \<leftarrow> Unlock lock w;
        let w = others w;
        (_, w) \<leftarrow> Lock lock w;
        Some (if outcome = COND_OK then COND_OK
              else if outcome = COND_TIMEOUT \<and> timeout_milliseconds > 0 then COND_TIMEOUT
              else COND_ERROR, w)
      })"

definition Condition_Deinit :: "ptr \<Rightarrow> 'a mem_scheme \<Rightarrow> 'a mem_scheme option" where
  "Condition_Deinit handle w =
     (if handle = 0 then Some w
      else if conds w handle then Some (w\<lparr>conds := (conds w)(handle := False)\<rparr>) else None)"

subsection \<open>Reader/writer locks\<close>

text \<open>
  The state of a \<open>pthread_rwlock_t\<close>, which lives inside the struct that uses it. The functions of
  \<open>rwlock_linux.c\<close> assert that \<open>pthread\<close> reports no error; a lock that is not free for this
  thread is waited for, which in a single thread never ends.
\<close>

datatype zsa_rwlock_t = RW_UNINIT | RW_READERS nat | RW_WRITER

definition rwlock_init :: "'a mem_scheme \<Rightarrow> (zsa_rwlock_t \<times> 'a mem_scheme) option" where
  "rwlock_init w = (case os_request w of (ok, w1) \<Rightarrow> if ok then Some (RW_READERS 0, w1) else None)"

fun rwlock_deinit :: "zsa_rwlock_t \<Rightarrow> zsa_rwlock_t option" where
  "rwlock_deinit (RW_READERS 0) = Some RW_UNINIT"
| "rwlock_deinit _ = None"

fun rwlock_acquire_read :: "zsa_rwlock_t \<Rightarrow> zsa_rwlock_t option" where
  "rwlock_acquire_read (RW_READERS n) = Some (RW_READERS (Suc n))"
| "rwlock_acquire_read _ = None"

fun rwlock_try_acquire_read :: "zsa_rwlock_t \<Rightarrow> (bool \<times> zsa_rwlock_t) option" where
  "rwlock_try_acquire_read (RW_READERS n) = Some (True, RW_READERS (Suc n))"
| "rwlock_try_acquire_read RW_WRITER = Some (False, RW_WRITER)"
| "rwlock_try_acquire_read RW_UNINIT = None"

fun rwlock_acquire_write :: "zsa_rwlock_t \<Rightarrow> zsa_rwlock_t option" where
  "rwlock_acquire_write (RW_READERS 0) = Some RW_WRITER"
| "rwlock_acquire_write _ = None"

fun rwlock_try_acquire_write :: "zsa_rwlock_t \<Rightarrow> (bool \<times> zsa_rwlock_t) option" where
  "rwlock_try_acquire_write (RW_READERS 0) = Some (True, RW_WRITER)"
| "rwlock_try_acquire_write RW_UNINIT = None"
| "rwlock_try_acquire_write l = Some (False, l)"

text \<open>Both releases are \<open>pthread_rwlock_unlock\<close>.\<close>

fun pthread_rwlock_unlock :: "zsa_rwlock_t \<Rightarrow> zsa_rwlock_t option" where
  "pthread_rwlock_unlock RW_WRITER = Some (RW_READERS 0)"
| "pthread_rwlock_unlock (RW_READERS (Suc n)) = Some (RW_READERS n)"
| "pthread_rwlock_unlock _ = None"

definition rwlock_release_read :: "zsa_rwlock_t \<Rightarrow> zsa_rwlock_t option" where
  "rwlock_release_read l = pthread_rwlock_unlock l"

definition rwlock_release_write :: "zsa_rwlock_t \<Rightarrow> zsa_rwlock_t option" where
  "rwlock_release_write l = pthread_rwlock_unlock l"

subsection \<open>One-time initialisation\<close>

text \<open>\<open>global_init_once\<close>: the flag says whether \<open>init_function\<close> has already run.\<close>

definition global_init_once :: "bool \<Rightarrow> ('w \<Rightarrow> 'w option) \<Rightarrow> 'w \<Rightarrow> (bool \<times> 'w) option" where
  "global_init_once init_once init_function w =
     (if init_once then Some (True, w)
      else do { w \<leftarrow> init_function w; Some (True, w) })"

subsection \<open>Facts\<close>

lemmas lock_defs = Lock_Init_def Lock_def Unlock_def Lock_Deinit_def
lemmas cond_defs = Condition_Init_def Condition_Post_def Condition_Wait_def Condition_Deinit_def

lemma os_request_simps [simp]:
  "next_addr (snd (os_request w)) = next_addr w" "htype (snd (os_request w)) = htype w"
  "locks (snd (os_request w)) = locks w" "conds (snd (os_request w)) = conds w"
  "os_grants (snd (os_request w)) = os_grants w"
  by (simp_all add: os_request_def)

lemma Lock_free: "locks w l = Some False \<Longrightarrow> l \<noteq> 0 \<Longrightarrow>
    Lock l w = Some (LOCK_OK, w\<lparr>locks := (locks w)(l := Some True)\<rparr>)"
  by (simp add: Lock_def)

lemma Unlock_held: "locks w l = Some True \<Longrightarrow> l \<noteq> 0 \<Longrightarrow>
    Unlock l w = Some (LOCK_OK, w\<lparr>locks := (locks w)(l := Some False)\<rparr>)"
  by (simp add: Unlock_def)

lemma mem_update_id [simp]:
  "w\<lparr>locks := locks w\<rparr> = w" "w\<lparr>htype := htype w\<rparr> = w" "w\<lparr>conds := conds w\<rparr> = w"
  by (cases w; simp)+

text \<open>A lock/unlock pair around nothing changes nothing.\<close>

lemma Lock_Unlock:
  "Lock l w = Some (r, w1) \<Longrightarrow> Unlock l w1 = Some (r, w)"
  by (auto simp: Lock_def Unlock_def fun_upd_idem split: if_splits)

lemma mem_ok_malloc: "mem_ok w \<Longrightarrow> c_malloc n w = (p, w1) \<Longrightarrow> mem_ok w1"
  by (auto simp: mem_ok_def c_malloc_def os_request_def split: if_splits) (metis less_Suc_eq less_SucI trans_less_add1 add_Suc_right)+

lemma mem_ok_Lock_Init: "mem_ok w \<Longrightarrow> Lock_Init w = (l, w1) \<Longrightarrow> mem_ok w1"
  by (auto simp: mem_ok_def Lock_Init_def c_malloc_def os_request_def split: if_splits) (metis less_Suc_eq)+

text \<open>A write lock that was free is free again after its release; so is the count of readers.\<close>

lemma rwlock_write_cycle:
  "rwlock_acquire_write l = Some l1 \<Longrightarrow> rwlock_release_write l1 = Some l"
  by (cases l rule: rwlock_acquire_write.cases) (auto simp: rwlock_release_write_def)

lemma rwlock_read_cycle:
  "rwlock_acquire_read l = Some l1 \<Longrightarrow> rwlock_release_read l1 = Some l"
  by (cases l) (auto simp: rwlock_release_read_def)

text \<open>What a successful and a failed \<open>Lock_Init\<close> or \<open>Condition_Init\<close> change.\<close>

lemma Lock_Init_cases:
  assumes "0 < next_addr w" and "Lock_Init w = (l, w1)"
  obtains (failed) n r where "l = 0" "w1 = w\<lparr>next_addr := n, os_requests := r\<rparr>" "next_addr w \<le> n"
  | (made) r where "l = next_addr w"
      "w1 = w\<lparr>next_addr := next_addr w + 2, os_requests := r, locks := (locks w)(l := Some False)\<rparr>"
proof (cases "os_grants w (os_requests w) \<and> os_grants w (Suc (os_requests w))")
  case True
  then show ?thesis using assms
    by (intro made [of "Suc (Suc (os_requests w))"]) (auto simp: Lock_Init_def c_malloc_def os_request_def)
next
  case False
  show ?thesis
  proof (cases "os_grants w (os_requests w)")
    case True
    then show ?thesis using assms False
      by (intro failed [where n = "next_addr w + 2" and r = "Suc (Suc (os_requests w))"])
        (auto simp: Lock_Init_def c_malloc_def os_request_def)
  next
    case False
    then show ?thesis using assms
      by (intro failed [where n = "next_addr w" and r = "Suc (os_requests w)"])
        (cases w; auto simp: Lock_Init_def c_malloc_def os_request_def)+
  qed
qed

lemma Condition_Init_cases:
  assumes "0 < next_addr w" and "Condition_Init w = (c, w1)"
  obtains (failed) "c = 0" "w1 = w\<lparr>os_requests := Suc (os_requests w)\<rparr>"
  | (made) "c = next_addr w"
      "w1 = w\<lparr>next_addr := next_addr w + 2, os_requests := Suc (os_requests w), conds := (conds w)(c := True)\<rparr>"
  using assms by (auto simp: Condition_Init_def c_malloc_def os_request_def split: if_splits)

end
