(* ===== verification/Handles.thy ===== *)
theory Handles
  imports Platform
begin

section \<open>Typed handles\<close>

text \<open>
  \<open>ZSA_DECLARE_CONTEXT\<close> of \<open>include/zsainternal/handle.h\<close> generates, for each handle type, a
  \<open>_create\<close>, a \<open>_get_context\<close> and a \<open>_destroy\<close> function. The model has each of them once,
  with the handle type and the store of that type's contexts as parameters. A wrapper holds the
  \<open>handleType\<close> field (\<open>htype\<close> of the memory) and the context (in a store of its component).
\<close>

definition handle_create :: "handle_type \<Rightarrow> 'a mem_scheme \<Rightarrow> ptr \<times> 'a mem_scheme" where
  "handle_create T w =
     (case c_malloc 1 w of (p, w1) \<Rightarrow>
        if p = 0 then (0, w1) else (p, w1\<lparr>htype := (htype w1)(p := Some T)\<rparr>))"

text \<open>
  The result of \<open>_get_context\<close>: \<open>Some None\<close> is the \<open>NULL\<close> it returns for a null handle or for a
  handle of another type; reading the type field of a freed wrapper is a fault.
\<close>

definition handle_get_context ::
  "handle_type \<Rightarrow> ('a mem_scheme \<Rightarrow> ptr \<Rightarrow> 'c) \<Rightarrow> ptr \<Rightarrow> 'a mem_scheme \<Rightarrow> 'c option option" where
  "handle_get_context T get h w =
     (if h = 0 then Some None
      else case htype w h of
             None \<Rightarrow> None
           | Some t \<Rightarrow> Some (if t = T then Some (get w h) else None))"

definition handle_destroy :: "ptr \<Rightarrow> 'a mem_scheme \<Rightarrow> 'a mem_scheme option" where
  "handle_destroy h w =
     (if h = 0 \<or> htype w h = None then None else Some (w\<lparr>htype := (htype w)(h := None)\<rparr>))"

definition live :: "handle_type \<Rightarrow> 'a mem_scheme \<Rightarrow> ptr \<Rightarrow> bool" where
  "live T w h \<longleftrightarrow> h \<noteq> 0 \<and> htype w h = Some T"

lemma get_context_live [simp]: "live T w h \<Longrightarrow> handle_get_context T get h w = Some (Some (get w h))"
  by (simp add: live_def handle_get_context_def)

lemma get_context_NULL [simp]: "handle_get_context T get 0 w = Some None"
  by (simp add: handle_get_context_def)

lemma get_context_SomeD:
  "handle_get_context T get h w = Some (Some c) \<Longrightarrow> live T w h \<and> c = get w h"
  by (auto simp: handle_get_context_def live_def split: if_splits option.splits)

lemma get_context_Some_iff:
  "handle_get_context T get h w = Some (Some c) \<longleftrightarrow> live T w h \<and> c = get w h"
  by (auto simp: get_context_SomeD)

lemma handle_destroy_live:
  "live T w h \<Longrightarrow> handle_destroy h w = Some (w\<lparr>htype := (htype w)(h := None)\<rparr>)"
  by (simp add: live_def handle_destroy_def)

text \<open>A destroyed handle is dangling: every later use of it is a fault.\<close>

lemma destroyed_dangling:
  "handle_destroy h w = Some w' \<Longrightarrow> handle_get_context T get h w' = None"
  by (auto simp: handle_destroy_def handle_get_context_def split: if_splits)

lemma handle_create_fresh:
  assumes "mem_ok w" and "handle_create T w = (p, w1)" and "p \<noteq> 0"
  shows "live T w1 p" and "htype w p = None" and "\<And>h. h \<noteq> p \<Longrightarrow> htype w1 h = htype w h"
  using assms by (auto simp: handle_create_def c_malloc_def os_request_def live_def mem_ok_def split: if_splits)

lemma mem_ok_handle_create: "mem_ok w \<Longrightarrow> handle_create T w = (p, w1) \<Longrightarrow> mem_ok w1"
  by (auto simp: mem_ok_def handle_create_def c_malloc_def os_request_def split: if_splits)
     (metis less_Suc_eq)+

lemma mem_ok_handle_destroy: "mem_ok w \<Longrightarrow> handle_destroy h w = Some w1 \<Longrightarrow> mem_ok w1"
  by (auto simp: mem_ok_def handle_destroy_def split: if_splits)

lemma handle_create_cases:
  assumes "0 < next_addr w" and "handle_create T w = (p, w1)"
  obtains (failed) "p = 0" "w1 = w\<lparr>os_requests := Suc (os_requests w)\<rparr>"
  | (made) "p = next_addr w"
      "w1 = w\<lparr>next_addr := next_addr w + 2, os_requests := Suc (os_requests w), htype := (htype w)(p := Some T)\<rparr>"
  using assms by (auto simp: handle_create_def c_malloc_def os_request_def split: if_splits)

subsection \<open>The store of one type's contexts\<close>

text \<open>
  What every component relies on: its contexts are stored by address, writing one leaves the
  others, the handle types, the locks and the allocation state alone.
\<close>

locale context_store =
  fixes T :: handle_type
    and get :: "'a mem_scheme \<Rightarrow> ptr \<Rightarrow> 'c"
    and put :: "ptr \<Rightarrow> 'c \<Rightarrow> 'a mem_scheme \<Rightarrow> 'a mem_scheme"
  assumes get_put: "get (put h c w) = (get w)(h := c)"
    and put_put: "put h c (put h d w) = put h c w"
    and put_get: "put h (get w h) w = w"
    and htype_put: "htype (put h c w) = htype w"
    and locks_put: "locks (put h c w) = locks w"
    and conds_put: "conds (put h c w) = conds w"
    and next_addr_put: "next_addr (put h c w) = next_addr w"
    and get_htype: "get (w\<lparr>htype := t\<rparr>) = get w"
begin

lemma live_put: "live S (put h c w) x = live S w x"
  by (simp add: live_def htype_put)

lemma mem_ok_put: "mem_ok (put h c w) = mem_ok w"
  by (simp add: mem_ok_def htype_put locks_put conds_put next_addr_put)

lemma read_own_write: "live T w h \<Longrightarrow> handle_get_context T get h (put h c w) = Some (Some c)"
  by (simp add: live_put get_put)

lemma read_other_write:
  "x \<noteq> h \<Longrightarrow> handle_get_context T get x (put h c w) = handle_get_context T get x w"
  by (auto simp: handle_get_context_def htype_put get_put split: option.splits)

text \<open>
  A fresh handle is valid and its zero-initialised context is what is read back; every older
  handle keeps its validity and its context.
\<close>

lemma create_then_read:
  assumes "mem_ok w" and "handle_create T w = (p, w1)" and "p \<noteq> 0"
  shows "handle_get_context T get p (put p c w1) = Some (Some c)"
  using handle_create_fresh (1) [OF assms] by (rule read_own_write)

lemma destroy_then_read:
  assumes "handle_destroy h w = Some w1"
  shows "handle_get_context T get h w1 = None"
    and "x \<noteq> h \<Longrightarrow> handle_get_context T get x w1 = handle_get_context T get x w"
  using assms
  by (auto simp: handle_destroy_def handle_get_context_def get_htype split: if_splits option.splits)

end

subsection \<open>Reference-counted objects\<close>

text \<open>
  What the holders of references rely on, for images and for captures alike. \<open>refs w h\<close> is the number
  of references to \<open>h\<close> (0 when \<open>h\<close> is no object that somebody holds). Adding and releasing a
  reference to a held object always returns, changes no other count, and keeps everything the layer
  above can see (\<open>rest\<close>).
\<close>

locale refcounted =
  fixes inv :: "'w \<Rightarrow> bool"
    and refs :: "'w \<Rightarrow> ptr \<Rightarrow> int"
    and rest :: "'w \<Rightarrow> 'r"
    and inc :: "ptr \<Rightarrow> 'w \<Rightarrow> 'w option"
    and dec :: "ptr \<Rightarrow> 'w \<Rightarrow> 'w option"
  assumes refs_nonneg: "inv w \<Longrightarrow> 0 \<le> refs w h"
    and inc_held: "inv w \<Longrightarrow> 0 < refs w h \<Longrightarrow>
          \<exists>w'. inc h w = Some w' \<and> inv w' \<and> refs w' = (refs w)(h := refs w h + 1) \<and> rest w' = rest w"
    and dec_held: "inv w \<Longrightarrow> 0 < refs w h \<Longrightarrow>
          \<exists>w'. dec h w = Some w' \<and> inv w' \<and> refs w' = (refs w)(h := refs w h - 1) \<and> rest w' = rest w"
begin

text \<open>Releasing the references a container holds, one after the other.\<close>

primrec decs :: "ptr list \<Rightarrow> 'w \<Rightarrow> 'w option" where
  "decs [] w = Some w"
| "decs (h # hs) w = do { w \<leftarrow> dec h w; decs hs w }"

lemma decs_held:
  assumes "inv w" and "\<And>h. int (count_list hs h) \<le> refs w h"
  shows "\<exists>w'. decs hs w = Some w' \<and> inv w' \<and> refs w' = (\<lambda>h. refs w h - int (count_list hs h)) \<and> rest w' = rest w"
  using assms
proof (induction hs arbitrary: w)
  case (Cons h hs)
  have "0 < refs w h" using Cons.prems(2) [of h] by simp
  from dec_held [OF Cons.prems(1) this] obtain w1 where w1: "dec h w = Some w1" "inv w1"
      "refs w1 = (refs w)(h := refs w h - 1)" "rest w1 = rest w" by blast
  have "int (count_list hs k) \<le> refs w1 k" for k using Cons.prems(2) [of k] by (simp add: w1(3) split: if_splits)
  from Cons.IH [OF w1(2) this] obtain w' where "decs hs w1 = Some w'" "inv w'"
      "refs w' = (\<lambda>k. refs w1 k - int (count_list hs k))" "rest w' = rest w1" by blast
  then show ?case using w1 by (auto simp: fun_eq_iff)
qed simp

text \<open>Taking a reference and giving it back is as if nothing had happened.\<close>

lemma inc_then_dec:
  assumes "inv w" and "0 < refs w h"
  shows "\<exists>w1 w2. inc h w = Some w1 \<and> dec h w1 = Some w2 \<and> inv w2 \<and> refs w2 = refs w \<and> rest w2 = rest w"
proof -
  from inc_held [OF assms] obtain w1 where w1: "inc h w = Some w1" "inv w1"
      "refs w1 = (refs w)(h := refs w h + 1)" "rest w1 = rest w" by blast
  have "0 < refs w1 h" using assms(2) w1(3) by simp
  from dec_held [OF w1(2) this] show ?thesis using w1 by fastforce
qed

end

end
