(* ===== verification/Allocator.thy ===== *)
theory Allocator
  imports Handles
begin

section \<open>The SDK allocator\<close>

text \<open>
  \<open>src/allocator/allocator.c\<close>, lines 1 to 291: the allocator hook, the 32-byte header that is put in
  front of every buffer, the counts of outstanding buffers per source and the session count. (The
  captures of the same file are in the theory \<open>Capture\<close>.)

  A user callback is code outside the SDK. The model names it by a number, records each call to it
  with its arguments, takes the context it hands out from the parameter \<open>user_contexts\<close>, and
  assumes what \<open>zsatypes.h\<close> documents of it: an allocation returns \<open>NULL\<close> or a fresh block of
  the requested size, a release gives that block back.
\<close>

subsection \<open>State\<close>

datatype alloc_cb = CB_default_alloc | CB_user_alloc nat
datatype free_cb = CB_default_free | CB_user_free nat

text \<open>The \<open>context\<close> struct inside \<open>allocation_context_t\<close>.\<close>

record allocation_context_t =
  ac_source :: allocation_source_t
  ac_free :: free_cb
  ac_free_context :: ptr

text \<open>A block from \<open>g_allocator->alloc\<close>: its size, and the header once it has been copied in.\<close>

record block =
  blk_size :: nat
  blk_header :: "allocation_context_t option"

datatype callback =
    Called_free free_cb ptr ptr              \<comment> \<open>a \<open>zsa_memory_destroy_cb_t\<close>: buffer, context\<close>
  | Called_image_destroy nat ptr ptr         \<comment> \<open>an \<open>image_destroy_cb_t\<close>: buffer, context\<close>
  | Called_stream nat zsa_result_t ptr ptr   \<comment> \<open>a streaming callback: result, image, context\<close>

record alloc_world = mem +
  g_init_once :: bool                        \<comment> \<open>whether \<open>allocator_global_t_get\<close> has initialised\<close>
  g_lock :: zsa_rwlock_t
  g_alloc :: alloc_cb
  g_free :: free_cb
  image_count :: "allocation_source_t \<Rightarrow> int" \<comment> \<open>the six \<open>g_allocated_image_count_*\<close>\<close>
  g_allocator_sessions :: int
  blocks :: "ptr \<Rightarrow> block option"             \<comment> \<open>live blocks, by the address of the full buffer\<close>
  user_contexts :: "nat \<Rightarrow> ptr"
  callbacks :: "callback list"               \<comment> \<open>calls through function pointers, oldest first\<close>

definition sizeof_allocation_context_t :: nat where
  "sizeof_allocation_context_t = 32"

subsection \<open>Default callbacks and the hook\<close>

text \<open>The result of an allocation callback: the buffer, and the value written to \<open>*context\<close>.\<close>

definition new_block :: "int \<Rightarrow> 'a alloc_world_scheme \<Rightarrow> ptr \<times> 'a alloc_world_scheme" where
  "new_block sz w =
     (case c_malloc (nat sz) w of (p, w1) \<Rightarrow>
        (p, if p = 0 then w1
            else w1\<lparr>blocks := (blocks w1)(p \<mapsto> \<lparr>blk_size = nat sz, blk_header = None\<rparr>)\<rparr>))"

definition default_alloc :: "int \<Rightarrow> 'a alloc_world_scheme \<Rightarrow> ptr \<times> ptr \<times> 'a alloc_world_scheme" where
  "default_alloc sz w =
     (if sz < 0 then (0, 0, w)
      else case new_block sz w of (p, w1) \<Rightarrow> (p, 0, w1))"

definition call_alloc :: "alloc_cb \<Rightarrow> int \<Rightarrow> 'a alloc_world_scheme \<Rightarrow> ptr \<times> ptr \<times> 'a alloc_world_scheme" where
  "call_alloc cb sz w =
     (case cb of
        CB_default_alloc \<Rightarrow> default_alloc sz w
      | CB_user_alloc n \<Rightarrow>
          (case new_block sz w of (p, w1) \<Rightarrow> (p, user_contexts w (os_requests w), w1)))"

text \<open>\<open>free\<close> of a block that is not live (a double free, a wild pointer) is a fault.\<close>

definition c_free_block :: "ptr \<Rightarrow> 'a alloc_world_scheme \<Rightarrow> 'a alloc_world_scheme option" where
  "c_free_block p w =
     (if blocks w p = None then None else Some (w\<lparr>blocks := (blocks w)(p := None)\<rparr>))"

definition default_free :: "ptr \<Rightarrow> ptr \<Rightarrow> 'a alloc_world_scheme \<Rightarrow> 'a alloc_world_scheme option" where
  "default_free buffer context w = (if context \<noteq> 0 then None else c_free_block buffer w)"

definition call_free :: "free_cb \<Rightarrow> ptr \<Rightarrow> ptr \<Rightarrow> 'a alloc_world_scheme \<Rightarrow> 'a alloc_world_scheme option" where
  "call_free cb buffer context w =
     (let w1 = w\<lparr>callbacks := callbacks w @ [Called_free cb buffer context]\<rparr>
      in case cb of
           CB_default_free \<Rightarrow> default_free buffer context w1
         | CB_user_free n \<Rightarrow> c_free_block buffer w1)"

definition allocator_global_init :: "'a alloc_world_scheme \<Rightarrow> 'a alloc_world_scheme option" where
  "allocator_global_init w = do {
     (lock, w) \<leftarrow> rwlock_init w;
     Some (w\<lparr>g_lock := lock, g_alloc := CB_default_alloc, g_free := CB_default_free\<rparr>)
   }"

definition allocator_global_t_get :: "'a alloc_world_scheme \<Rightarrow> 'a alloc_world_scheme option" where
  "allocator_global_t_get w = do {
     (once, w) \<leftarrow> global_init_once (g_init_once w) allocator_global_init w;
     Some (w\<lparr>g_init_once := once\<rparr>)
   }"

definition allocator_initialize :: "'a alloc_world_scheme \<Rightarrow> 'a alloc_world_scheme" where
  "allocator_initialize w = w\<lparr>g_allocator_sessions := g_allocator_sessions w + 1\<rparr>"

definition allocator_deinitialize :: "'a alloc_world_scheme \<Rightarrow> 'a alloc_world_scheme" where
  "allocator_deinitialize w = w\<lparr>g_allocator_sessions := g_allocator_sessions w - 1\<rparr>"

definition allocator_set_allocator ::
  "alloc_cb option \<Rightarrow> free_cb option \<Rightarrow> 'a alloc_world_scheme \<Rightarrow> (zsa_result_t \<times> 'a alloc_world_scheme) option" where
  "allocator_set_allocator allocate free w =
     (if allocate = None \<and> free \<noteq> None then Some (ZSA_RESULT_FAILED, w)
      else if allocate \<noteq> None \<and> free = None then Some (ZSA_RESULT_FAILED, w)
      else do {
        w \<leftarrow> allocator_global_t_get w;
        l \<leftarrow> rwlock_acquire_write (g_lock w);
        let w = w\<lparr>g_lock := l\<rparr>;
        let w = w\<lparr>g_alloc := case_option CB_default_alloc id allocate,
                 g_free := case_option CB_default_free id free\<rparr>;
        l \<leftarrow> rwlock_release_write (g_lock w);
        Some (ZSA_RESULT_SUCCEEDED, w\<lparr>g_lock := l\<rparr>)
      })"

subsection \<open>Allocation and release\<close>

text \<open>
  The count that the \<open>switch\<close> on the source selects is \<open>image_count\<close> at that source; its \<open>default\<close>
  branch is unreachable after the range check. The copy of the header faults when the block is
  shorter than the header.
\<close>

definition allocator_alloc ::
  "allocation_source_t \<Rightarrow> u64 \<Rightarrow> 'a alloc_world_scheme \<Rightarrow> (ptr \<times> 'a alloc_world_scheme) option" where
  "allocator_alloc source alloc_size w = do {
     w \<leftarrow> allocator_global_t_get w;
     if source_out_of_range source then Some (0, w)
     else if alloc_size = 0 then Some (0, w)
     else (let required_bytes = alloc_size + word_of_nat sizeof_allocation_context_t
       in if uint required_bytes > INT32_MAX then Some (0, w)
       else do {
         let w = w\<lparr>image_count := (image_count w)(source := image_count w source + 1)\<rparr>;
         l \<leftarrow> rwlock_acquire_read (g_lock w);
         let w = w\<lparr>g_lock := l\<rparr>;
         let (full_buffer, user_context, w) = call_alloc (g_alloc w) (uint required_bytes) w;
         let header = \<lparr>ac_source = source, ac_free = g_free w, ac_free_context = user_context\<rparr>;
         l \<leftarrow> rwlock_release_read (g_lock w);
         let w = w\<lparr>g_lock := l\<rparr>;
         if full_buffer = 0 then Some (0, w)
         else case blocks w full_buffer of
           None \<Rightarrow> None
         | Some b \<Rightarrow>
             if blk_size b < sizeof_allocation_context_t then None
             else Some (full_buffer + sizeof_allocation_context_t,
                        w\<lparr>blocks := (blocks w)(full_buffer \<mapsto> b\<lparr>blk_header := Some header\<rparr>)\<rparr>)
       })
   }"

text \<open>
  \<open>allocator_free\<close> reads the header before it looks at its arguments, so a buffer that has none in
  front of it (\<open>NULL\<close> included) is a fault.
\<close>

definition allocator_free :: "ptr \<Rightarrow> 'a alloc_world_scheme \<Rightarrow> 'a alloc_world_scheme option" where
  "allocator_free buffer w =
     (if buffer < sizeof_allocation_context_t then None
      else let full_buffer = buffer - sizeof_allocation_context_t in
        case Option.bind (blocks w full_buffer) blk_header of
          None \<Rightarrow> None
        | Some allocation_context \<Rightarrow>
            (let source = ac_source allocation_context in
             if source_out_of_range source then Some w
             else if buffer = 0 then Some w
             else call_free (ac_free allocation_context) full_buffer (ac_free_context allocation_context)
                    (w\<lparr>image_count := (image_count w)(source := image_count w source - 1)\<rparr>)))"

definition allocator_test_for_leaks :: "'a alloc_world_scheme \<Rightarrow> int option" where
  "allocator_test_for_leaks w =
     (if g_allocator_sessions w \<noteq> 0 then Some 0
      else if image_count w ALLOCATION_SOURCE_USER \<noteq> 0 then None
      else if image_count w ALLOCATION_SOURCE_COLOR \<noteq> 0 then None
      else if image_count w ALLOCATION_SOURCE_DEPTH \<noteq> 0 then None
      else if image_count w ALLOCATION_SOURCE_IMU \<noteq> 0 then None
      else if image_count w ALLOCATION_SOURCE_USB_DEPTH \<noteq> 0 then None
      else if image_count w ALLOCATION_SOURCE_USB_IMU \<noteq> 0 then None
      else Some (image_count w ALLOCATION_SOURCE_USER + image_count w ALLOCATION_SOURCE_DEPTH +
                 image_count w ALLOCATION_SOURCE_COLOR + image_count w ALLOCATION_SOURCE_IMU +
                 image_count w ALLOCATION_SOURCE_USB_DEPTH + image_count w ALLOCATION_SOURCE_USB_IMU))"

subsection \<open>Invariant\<close>

text \<open>
  Live blocks lie below the next address and do not overlap it; the two hooks are both the default
  ones or both the user's; a header made for the default release has no context. The global lock
  is free between calls.
\<close>

definition blocks_ok :: "'a alloc_world_scheme \<Rightarrow> bool" where
  "blocks_ok w \<longleftrightarrow> finite (dom (blocks w)) \<and>
     (\<forall>p b. blocks w p = Some b \<longrightarrow> 0 < p \<and> p + blk_size b < next_addr w) \<and>
     (\<forall>p q b c. blocks w p = Some b \<longrightarrow> blocks w q = Some c \<longrightarrow> p < q \<longrightarrow> p + blk_size b < q)"

definition headers_ok :: "'a alloc_world_scheme \<Rightarrow> bool" where
  "headers_ok w \<longleftrightarrow> (\<forall>p b ctx. blocks w p = Some b \<longrightarrow> blk_header b = Some ctx \<longrightarrow>
     \<not> source_out_of_range (ac_source ctx) \<and> sizeof_allocation_context_t \<le> blk_size b \<and>
     (ac_free ctx = CB_default_free \<longrightarrow> ac_free_context ctx = 0))"

definition hook_ok :: "'a alloc_world_scheme \<Rightarrow> bool" where
  "hook_ok w \<longleftrightarrow> g_init_once w \<and> g_lock w = RW_READERS 0 \<and>
     (g_alloc w = CB_default_alloc \<longleftrightarrow> g_free w = CB_default_free)"

definition alloc_inv :: "'a alloc_world_scheme \<Rightarrow> bool" where
  "alloc_inv w \<longleftrightarrow> mem_ok w \<and> blocks_ok w \<and> headers_ok w \<and> hook_ok w"

lemmas alloc_inv_defs = alloc_inv_def blocks_ok_def headers_ok_def hook_ok_def

lemma alloc_invD:
  assumes "alloc_inv w"
  shows "mem_ok w" "g_init_once w" "g_lock w = RW_READERS 0" "finite (dom (blocks w))"
    "0 < next_addr w" "blocks w (next_addr w) = None"
proof -
  show "mem_ok w" "g_init_once w" "g_lock w = RW_READERS 0" "finite (dom (blocks w))"
    "0 < next_addr w"
    using assms by (auto simp: alloc_inv_defs mem_ok_def)
  have "next_addr w + blk_size b < next_addr w" if "blocks w (next_addr w) = Some b" for b
    using assms that by (auto simp: alloc_inv_def blocks_ok_def)
  then show "blocks w (next_addr w) = None" by (cases "blocks w (next_addr w)") auto
qed

text \<open>What \<open>allocator_alloc\<close> accepts (the guard computes modulo \<open>2 ^ 64\<close>).\<close>

definition required_bytes :: "u64 \<Rightarrow> int" where
  "required_bytes n = uint (n + 32)"

definition alloc_accepts :: "allocation_source_t \<Rightarrow> u64 \<Rightarrow> bool" where
  "alloc_accepts s n \<longleftrightarrow> \<not> source_out_of_range s \<and> n \<noteq> 0 \<and> required_bytes n \<le> INT32_MAX"

definition hook_context :: "'a alloc_world_scheme \<Rightarrow> ptr" where
  "hook_context w = (case g_alloc w of CB_default_alloc \<Rightarrow> 0 | CB_user_alloc _ \<Rightarrow> user_contexts w (os_requests w))"

definition counted :: "allocation_source_t \<Rightarrow> int \<Rightarrow> 'a alloc_world_scheme \<Rightarrow> 'a alloc_world_scheme" where
  "counted s d w = w\<lparr>image_count := (image_count w)(s := image_count w s + d)\<rparr>"

definition after_alloc :: "allocation_source_t \<Rightarrow> u64 \<Rightarrow> 'a alloc_world_scheme \<Rightarrow> 'a alloc_world_scheme" where
  "after_alloc s n w =
     (counted s 1 w)
       \<lparr>next_addr := next_addr w + nat (required_bytes n) + 1, os_requests := Suc (os_requests w),
        blocks := (blocks w)(next_addr w \<mapsto>
          \<lparr>blk_size = nat (required_bytes n),
           blk_header = Some \<lparr>ac_source = s, ac_free = g_free w, ac_free_context = hook_context w\<rparr>\<rparr>)\<rparr>"

lemma allocator_global_t_get_init: "g_init_once w \<Longrightarrow> allocator_global_t_get w = Some w"
  by (cases w) (simp add: allocator_global_t_get_def global_init_once_def)

lemma required_bytes_nonneg [simp]: "0 \<le> required_bytes n" "\<not> required_bytes n < 0"
  by (simp_all add: required_bytes_def)

lemma required_bytes_small:
  assumes "unat n + 32 < 2 ^ 64"
  shows "required_bytes n = int (unat n) + 32"
proof -
  have "unat (n + 32) = unat n + 32" using assms unat_add_wrap [of n 32] by simp
  then show ?thesis unfolding required_bytes_def by (metis of_nat_add of_nat_numeral uint_nat)
qed

lemma required_bytes_wrap:
  assumes "\<not> unat n + 32 < 2 ^ 64"
  shows "required_bytes n < 32"
proof -
  have "unat (n + 32) = unat n + 32 - 2 ^ 64" using assms unat_add_wrap [of n 32] by simp
  then have "unat (n + 32) < 32" using u64_less [of n] by linarith
  then show ?thesis unfolding required_bytes_def uint_nat by linarith
qed

text \<open>Every call of \<open>allocator_alloc\<close>, in one equation.\<close>

lemma allocator_alloc_eq:
  assumes "alloc_inv w"
  shows "allocator_alloc s n w =
    (if \<not> alloc_accepts s n then Some (0, w)
     else if \<not> os_grants w (os_requests w)
       then Some (0, counted s 1 (w\<lparr>os_requests := Suc (os_requests w)\<rparr>))
     else if required_bytes n < 32 then None
     else Some (next_addr w + 32, after_alloc s n w))"
proof (cases "alloc_accepts s n")
  case False
  then show ?thesis using alloc_invD [OF assms]
    by (auto simp: allocator_alloc_def allocator_global_t_get_init alloc_accepts_def
        required_bytes_def sizeof_allocation_context_t_def Let_def)
next
  case True
  then show ?thesis using alloc_invD [OF assms]
    by (cases w; cases "g_alloc w")
      (auto simp: allocator_alloc_def allocator_global_t_get_init alloc_accepts_def
        required_bytes_def [symmetric] sizeof_allocation_context_t_def Let_def call_alloc_def
        default_alloc_def new_block_def c_malloc_def os_request_def rwlock_release_read_def
        after_alloc_def hook_context_def counted_def split: prod.splits)
qed

definition after_free :: "allocation_context_t \<Rightarrow> ptr \<Rightarrow> 'a alloc_world_scheme \<Rightarrow> 'a alloc_world_scheme" where
  "after_free ctx p w =
     (counted (ac_source ctx) (- 1) w)
       \<lparr>blocks := (blocks w)(p := None),
        callbacks := callbacks w @ [Called_free (ac_free ctx) p (ac_free_context ctx)]\<rparr>"

lemma allocator_free_eq:
  assumes "alloc_inv w" and "blocks w p = Some b" and "blk_header b = Some ctx"
  shows "allocator_free (p + 32) w = Some (after_free ctx p w)"
proof -
  have "\<not> source_out_of_range (ac_source ctx)"
    and "ac_free ctx = CB_default_free \<Longrightarrow> ac_free_context ctx = 0"
    using assms by (auto simp: alloc_inv_def headers_ok_def)
  then show ?thesis using assms(2,3)
    by (cases w; cases "ac_free ctx")
      (auto simp: allocator_free_def sizeof_allocation_context_t_def Let_def call_free_def
        default_free_def c_free_block_def after_free_def counted_def)
qed

lemma allocator_set_allocator_eq:
  assumes "hook_ok w"
  shows "allocator_set_allocator a f w =
    (if (a = None) \<noteq> (f = None) then Some (ZSA_RESULT_FAILED, w)
     else Some (ZSA_RESULT_SUCCEEDED,
        w\<lparr>g_alloc := case_option CB_default_alloc id a, g_free := case_option CB_default_free id f\<rparr>))"
  using assms
  by (cases w; cases a; cases f)
    (auto simp: allocator_set_allocator_def hook_ok_def allocator_global_t_get_init rwlock_release_write_def)

subsection \<open>The invariant is kept\<close>

lemma alloc_inv_after_alloc:
  assumes "alloc_inv w" and "alloc_accepts s n" and "32 \<le> required_bytes n"
  shows "alloc_inv (after_alloc s n w)"
proof -
  have "mem_ok (after_alloc s n w)"
    using assms(1) by (auto simp: alloc_inv_def mem_ok_def after_alloc_def counted_def)
  moreover have "blocks_ok (after_alloc s n w)"
    using assms(1) by (auto simp: alloc_inv_def blocks_ok_def mem_ok_def after_alloc_def counted_def)
      (metis add_lessD1 less_SucI trans_less_add1 not_less_iff_gr_or_eq order.strict_trans)+
  moreover have "headers_ok (after_alloc s n w)"
    using assms by (auto simp: alloc_inv_defs after_alloc_def counted_def alloc_accepts_def
        sizeof_allocation_context_t_def hook_context_def split: alloc_cb.splits)
  moreover have "hook_ok (after_alloc s n w)"
    using assms(1) by (simp add: alloc_inv_def hook_ok_def after_alloc_def counted_def)
  ultimately show ?thesis by (simp add: alloc_inv_def)
qed

lemma alloc_inv_counted: "alloc_inv w \<Longrightarrow> alloc_inv (counted s d (w\<lparr>os_requests := n\<rparr>))"
  by (simp add: alloc_inv_defs mem_ok_def counted_def)

lemma alloc_inv_after_free: "alloc_inv w \<Longrightarrow> alloc_inv (after_free ctx p w)"
  by (auto simp: alloc_inv_defs mem_ok_def after_free_def counted_def)

lemma alloc_inv_set:
  "alloc_inv w \<Longrightarrow> (a = CB_default_alloc \<longleftrightarrow> f = CB_default_free) \<Longrightarrow> alloc_inv (w\<lparr>g_alloc := a, g_free := f\<rparr>)"
  by (auto simp: alloc_inv_defs mem_ok_def)

lemma alloc_inv_session: "alloc_inv w \<Longrightarrow> alloc_inv (w\<lparr>g_allocator_sessions := n\<rparr>)"
  by (simp add: alloc_inv_defs mem_ok_def)

text \<open>Calls that take fresh addresses but no allocator state keep the invariant.\<close>

lemma alloc_inv_other:
  assumes "alloc_inv w" and "mem_ok w'" and "next_addr w \<le> next_addr w'" and "blocks w' = blocks w"
    and "g_init_once w' = g_init_once w" "g_lock w' = g_lock w" "g_alloc w' = g_alloc w" "g_free w' = g_free w"
  shows "alloc_inv w'"
  using assms by (fastforce simp: alloc_inv_defs)

lemma alloc_inv_handle_create: "alloc_inv w \<Longrightarrow> handle_create T w = (h, w') \<Longrightarrow> alloc_inv w'"
proof -
  assume inv: "alloc_inv w" and make: "handle_create T w = (h, w')"
  note pos = alloc_invD(5) [OF inv]
  have "mem_ok w'" using alloc_invD(1) [OF inv] make by (rule mem_ok_handle_create)
  with pos make show ?thesis
    by (cases rule: handle_create_cases) (auto intro: alloc_inv_other [OF inv])
qed

lemma alloc_inv_Lock_Init: "alloc_inv w \<Longrightarrow> Lock_Init w = (l, w') \<Longrightarrow> alloc_inv w'"
proof -
  assume inv: "alloc_inv w" and make: "Lock_Init w = (l, w')"
  note pos = alloc_invD(5) [OF inv]
  have "mem_ok w'" using alloc_invD(1) [OF inv] make by (rule mem_ok_Lock_Init)
  with pos make show ?thesis
    by (cases rule: Lock_Init_cases) (auto intro: alloc_inv_other [OF inv])
qed

lemma alloc_inv_Condition_Init: "alloc_inv w \<Longrightarrow> Condition_Init w = (c, w') \<Longrightarrow> alloc_inv w'"
proof -
  assume inv: "alloc_inv w" and make: "Condition_Init w = (c, w')"
  note pos = alloc_invD(5) [OF inv]
  from pos make show ?thesis
  proof (cases rule: Condition_Init_cases)
    case failed
    then show ?thesis using inv by (simp add: alloc_inv_defs mem_ok_def)
  next
    case made
    have "mem_ok w'" using alloc_invD(1) [OF inv] unfolding made by (fastforce simp: mem_ok_def)
    then show ?thesis by (rule alloc_inv_other [OF inv]) (simp_all add: made)
  qed
qed

lemma alloc_inv_malloc:
  assumes "alloc_inv w" and "c_malloc n w = (p, w')"
  shows "alloc_inv w'"
  using mem_ok_malloc [OF alloc_invD(1) [OF assms(1)] assms(2)] assms(2)
  by (intro alloc_inv_other [OF assms(1)]) (auto simp: c_malloc_def os_request_def split: if_splits)

subsection \<open>Runs of the allocator\<close>

text \<open>
  The states the allocator can reach: any sequence of calls, where a buffer is released at most once
  and only if it came from \<open>allocator_alloc\<close>, and a user's allocation hook comes with a user's release
  hook.
\<close>

inductive alloc_step :: "'a alloc_world_scheme \<Rightarrow> 'a alloc_world_scheme \<Rightarrow> bool" where
  step_alloc: "allocator_alloc s n w = Some (b, w') \<Longrightarrow> alloc_step w w'"
| step_free: "blocks w p = Some b \<Longrightarrow> blk_header b \<noteq> None \<Longrightarrow> allocator_free (p + 32) w = Some w' \<Longrightarrow> alloc_step w w'"
| step_set: "allocator_set_allocator (map_option CB_user_alloc a) (map_option CB_user_free f) w = Some (r, w') \<Longrightarrow> alloc_step w w'"
| step_open: "alloc_step w (allocator_initialize w)"
| step_close: "alloc_step w (allocator_deinitialize w)"

inductive alloc_reach :: "'a alloc_world_scheme \<Rightarrow> 'a alloc_world_scheme \<Rightarrow> bool" for w0 where
  reach_start: "alloc_reach w0 w0"
| reach_step: "alloc_reach w0 w \<Longrightarrow> alloc_step w w' \<Longrightarrow> alloc_reach w0 w'"

definition owned :: "allocation_source_t \<Rightarrow> 'a alloc_world_scheme \<Rightarrow> ptr set" where
  "owned s w = {p. \<exists>b ctx. blocks w p = Some b \<and> blk_header b = Some ctx \<and> ac_source ctx = s}"

definition outstanding :: "allocation_source_t \<Rightarrow> 'a alloc_world_scheme \<Rightarrow> nat" where
  "outstanding s w = card (owned s w)"

lemma owned_finite: "alloc_inv w \<Longrightarrow> finite (owned s w)"
  by (rule finite_subset [of _ "dom (blocks w)"]) (auto simp: owned_def alloc_inv_def blocks_ok_def)

lemma outstanding_after_alloc:
  assumes "alloc_inv w"
  shows "outstanding s (after_alloc s' n w) = outstanding s w + (if s = s' then 1 else 0)"
proof -
  have fresh: "next_addr w \<notin> owned s w" using alloc_invD(6) [OF assms] by (simp add: owned_def)
  then have "owned s (after_alloc s' n w) = (if s = s' then insert (next_addr w) (owned s w) else owned s w)"
    by (auto simp: after_alloc_def counted_def owned_def)
  then show ?thesis using fresh owned_finite [OF assms, of s]
    by (cases "s = s'") (simp_all add: outstanding_def)
qed

lemma outstanding_after_free:
  assumes "alloc_inv w" and "blocks w p = Some b" and "blk_header b = Some ctx"
  shows "int (outstanding s (after_free ctx p w)) = int (outstanding s w) - (if s = ac_source ctx then 1 else 0)"
proof -
  have eq: "owned s (after_free ctx p w) = owned s w - {p}"
    by (auto simp: after_free_def counted_def owned_def)
  have mem: "p \<in> owned s w \<longleftrightarrow> s = ac_source ctx" using assms(2,3) by (auto simp: owned_def)
  show ?thesis
  proof (cases "s = ac_source ctx")
    case True
    then have "card (owned s w) = Suc (card (owned s w - {p}))"
      using mem owned_finite [OF assms(1), of s] by (simp only: card.remove)
    then have "int (card (owned s w - {p})) = int (card (owned s w)) - 1" by simp
    then show ?thesis using True unfolding outstanding_def eq by simp
  next
    case False
    then have "owned s w - {p} = owned s w" using mem by simp
    then show ?thesis using False by (simp add: outstanding_def eq)
  qed
qed

lemma outstanding_cong: "blocks w = blocks w' \<Longrightarrow> outstanding s w = outstanding s w'"
  by (simp add: outstanding_def owned_def)

text \<open>
  One call: the invariant is kept and the counts follow the outstanding buffers, except that a
  refused allocation adds one to the count of its source.
\<close>

definition refused :: "allocation_source_t \<Rightarrow> 'a alloc_world_scheme \<Rightarrow> int" where
  "refused s w = image_count w s - int (outstanding s w)"

lemma alloc_step_inv:
  assumes "alloc_step w w'" and "alloc_inv w"
  shows "alloc_inv w' \<and> refused s w \<le> refused s w' \<and> os_grants w' = os_grants w \<and>
    ((\<forall>n. os_grants w n) \<longrightarrow> refused s w' = refused s w)"
  using assms
proof (induction rule: alloc_step.induct)
  case (step_alloc s' n w b w')
  let ?w1 = "counted s' 1 (w\<lparr>os_requests := Suc (os_requests w)\<rparr>)"
  consider "w' = w" | "w' = ?w1" "\<not> os_grants w (os_requests w)"
    | "w' = after_alloc s' n w" "alloc_accepts s' n" "32 \<le> required_bytes n"
    using step_alloc.hyps allocator_alloc_eq [OF step_alloc.prems, of s' n]
    by (auto split: if_splits)
  then show ?case
  proof cases
    case 2
    moreover have "outstanding s ?w1 = outstanding s w"
      by (rule outstanding_cong) (simp add: counted_def)
    ultimately show ?thesis using alloc_inv_counted [OF step_alloc.prems]
      by (auto simp: refused_def counted_def)
  next
    case 3
    then show ?thesis
      using alloc_inv_after_alloc [OF step_alloc.prems] outstanding_after_alloc [OF step_alloc.prems, of s s' n]
      by (simp add: refused_def after_alloc_def counted_def)
  qed (use step_alloc.prems in simp)
next
  case (step_free w p b w')
  then obtain ctx where ctx: "blk_header b = Some ctx" by auto
  then have "w' = after_free ctx p w"
    using allocator_free_eq [OF step_free.prems step_free.hyps(1) ctx] step_free.hyps(3) by simp
  then show ?case
    using alloc_inv_after_free [OF step_free.prems, of ctx p]
      outstanding_after_free [OF step_free.prems step_free.hyps(1) ctx, of s]
    by (simp add: refused_def after_free_def counted_def)
next
  case (step_set a f w r w')
  then have "hook_ok w" by (simp add: alloc_inv_def)
  from step_set.hyps have "w' = w \<or> ((a = None) = (f = None) \<and>
      w' = w\<lparr>g_alloc := case_option CB_default_alloc id (map_option CB_user_alloc a),
             g_free := case_option CB_default_free id (map_option CB_user_free f)\<rparr>)"
    by (auto simp: allocator_set_allocator_eq [OF \<open>hook_ok w\<close>] split: if_splits)
  moreover have "outstanding s (w\<lparr>g_alloc := x, g_free := y\<rparr>) = outstanding s w" for x y
    by (rule outstanding_cong) simp
  ultimately show ?case using step_set.prems
    by (auto simp: refused_def intro!: alloc_inv_set split: option.splits)
next
  case (step_open w)
  then show ?case
    by (simp add: allocator_initialize_def alloc_inv_session refused_def outstanding_def owned_def)
next
  case (step_close w)
  then show ?case
    by (simp add: allocator_deinitialize_def alloc_inv_session refused_def outstanding_def owned_def)
qed

lemma alloc_reach_inv:
  "alloc_reach w0 w \<Longrightarrow> alloc_inv w0 \<Longrightarrow>
   alloc_inv w \<and> refused s w0 \<le> refused s w \<and> os_grants w = os_grants w0 \<and>
   ((\<forall>n. os_grants w0 n) \<longrightarrow> refused s w = refused s w0)"
proof (induction rule: alloc_reach.induct)
  case (reach_step w w')
  then show ?case using alloc_step_inv [OF reach_step.hyps(2), of s] by fastforce
qed simp

subsection \<open>Properties\<close>

text \<open>A program state before the first allocation, for concrete runs.\<close>

definition boot_alloc :: "(nat \<Rightarrow> bool) \<Rightarrow> alloc_world" where
  "boot_alloc grants =
     \<lparr>next_addr = 1, os_grants = grants, os_requests = 0, htype = (\<lambda>_. None), locks = (\<lambda>_. None),
      conds = (\<lambda>_. False), g_init_once = True, g_lock = RW_READERS 0, g_alloc = CB_default_alloc,
      g_free = CB_default_free, image_count = (\<lambda>_. 0), g_allocator_sessions = 0,
      blocks = (\<lambda>_. None), user_contexts = (\<lambda>_. 0), callbacks = []\<rparr>"

lemma boot_alloc_inv: "alloc_inv (boot_alloc grants)"
  by (simp add: boot_alloc_def alloc_inv_defs mem_ok_def)

text \<open>
  (C13) However the allocator is used (allocations, releases, changes of the hooks, sessions opened
  and closed), as long as the system grants every request, the count kept for each source is exactly
  the number of buffers of that source that are still outstanding.
\<close>

theorem alloc_counts_outstanding:
  assumes "alloc_reach w0 w" and "alloc_inv w0" and "blocks w0 = Map.empty"
    and "image_count w0 = (\<lambda>_. 0)" and "\<forall>n. os_grants w0 n"
  shows "alloc_inv w \<and> image_count w s = int (outstanding s w)"
proof -
  have "refused s w0 = 0" using assms(3,4) by (simp add: refused_def outstanding_def owned_def)
  then show ?thesis using alloc_reach_inv [OF assms(1,2), of s] assms(5) by (simp add: refused_def)
qed

lemma reach_one_alloc:
  "alloc_reach (boot_alloc (\<lambda>_. True)) (after_alloc ALLOCATION_SOURCE_COLOR 100 (boot_alloc (\<lambda>_. True)))"
proof (rule reach_step [OF reach_start], rule step_alloc)
  have "required_bytes 100 = 132" using required_bytes_small [of 100] by simp
  then show "allocator_alloc ALLOCATION_SOURCE_COLOR 100 (boot_alloc (\<lambda>_. True)) =
      Some (33, after_alloc ALLOCATION_SOURCE_COLOR 100 (boot_alloc (\<lambda>_. True)))"
    unfolding allocator_alloc_eq [OF boot_alloc_inv]
    by (simp add: alloc_accepts_def source_out_of_range_iff boot_alloc_def)
qed

theorem alloc_counts_outstanding_witness:
  "image_count (after_alloc ALLOCATION_SOURCE_COLOR 100 (boot_alloc (\<lambda>_. True))) ALLOCATION_SOURCE_COLOR
     = int (outstanding ALLOCATION_SOURCE_COLOR (after_alloc ALLOCATION_SOURCE_COLOR 100 (boot_alloc (\<lambda>_. True))))"
  using alloc_counts_outstanding [OF reach_one_alloc boot_alloc_inv, of ALLOCATION_SOURCE_COLOR]
  by (simp add: boot_alloc_def)

text \<open>
  An allocation that the system refuses returns \<open>NULL\<close> but has already added one to the count of
  its source, and nothing takes it back: the count no longer is the number of outstanding buffers,
  and a later leak check reports a leak that does not exist.
\<close>

lemma alloc_refused_still_counted:
  assumes "alloc_inv w" and "alloc_accepts s n" and "\<not> os_grants w (os_requests w)"
  shows "\<exists>w'. allocator_alloc s n w = Some (0, w') \<and> blocks w' = blocks w \<and>
      image_count w' s = image_count w s + 1 \<and> outstanding s w' = outstanding s w \<and>
      (\<forall>v. alloc_reach w' v \<longrightarrow> refused s w + 1 \<le> refused s v)"
proof -
  let ?w = "counted s 1 (w\<lparr>os_requests := Suc (os_requests w)\<rparr>)"
  have run: "allocator_alloc s n w = Some (0, ?w)"
    using assms by (simp add: allocator_alloc_eq)
  have same: "outstanding s ?w = outstanding s w" by (rule outstanding_cong) (simp add: counted_def)
  then have "refused s ?w = refused s w + 1" by (simp add: refused_def counted_def)
  then have "\<forall>v. alloc_reach ?w v \<longrightarrow> refused s w + 1 \<le> refused s v"
    using alloc_reach_inv [OF _ alloc_inv_counted [OF assms(1)], of s] by metis
  then show ?thesis using run same by (intro exI [of _ ?w]) (simp add: counted_def)
qed

lemma alloc_refused_still_counted_witness:
  "\<exists>w'. allocator_alloc ALLOCATION_SOURCE_USER 8 (boot_alloc (\<lambda>_. False)) = Some (0, w') \<and>
      image_count w' ALLOCATION_SOURCE_USER = 1 \<and> blocks w' = Map.empty"
proof -
  have "alloc_accepts ALLOCATION_SOURCE_USER 8"
    using required_bytes_small [of 8] by (simp add: alloc_accepts_def source_out_of_range_iff)
  from alloc_refused_still_counted [OF boot_alloc_inv [of "\<lambda>_. False"] this] show ?thesis
    by (auto simp: boot_alloc_def)
qed

text \<open>
  (C26) A buffer that \<open>allocator_alloc\<close> returns has the requested number of bytes after the header,
  all of them inside the fresh block, and that block overlaps no block that was live before.
\<close>

theorem alloc_buffer_fits:
  assumes "alloc_inv w" and "allocator_alloc s n w = Some (buf, w')" and "buf \<noteq> 0"
  shows "\<exists>b. blocks w' (buf - 32) = Some b \<and> blk_size b = 32 + unat n \<and> unat n + 32 \<le> 2147483647 \<and>
      blocks w (buf - 32) = None \<and>
      (\<forall>q c. blocks w q = Some c \<longrightarrow> q + blk_size c < buf - 32)"
proof -
  have acc: "alloc_accepts s n" and ge: "32 \<le> required_bytes n"
    and buf: "buf = next_addr w + 32" and w': "w' = after_alloc s n w"
    using assms(2,3) unfolding allocator_alloc_eq [OF assms(1)] by (auto split: if_splits)
  have small: "unat n + 32 < 2 ^ 64"
    using ge required_bytes_wrap [of n] by linarith
  have sz: "nat (required_bytes n) = 32 + unat n" and "unat n + 32 \<le> 2147483647"
    using required_bytes_small [OF small] acc unfolding alloc_accepts_def by linarith+
  moreover have "\<forall>q c. blocks w q = Some c \<longrightarrow> q + blk_size c < next_addr w"
    using assms(1) by (auto simp: alloc_inv_def blocks_ok_def)
  ultimately show ?thesis using alloc_invD(6) [OF assms(1)]
    by (simp add: buf w' after_alloc_def counted_def)
qed

theorem alloc_buffer_fits_witness:
  "\<exists>b. blocks (after_alloc ALLOCATION_SOURCE_USER 100 (boot_alloc (\<lambda>_. True))) (33 - 32) = Some b \<and> blk_size b = 132"
proof -
  have "required_bytes 100 = 132" using required_bytes_small [of 100] by simp
  then have "allocator_alloc ALLOCATION_SOURCE_USER 100 (boot_alloc (\<lambda>_. True)) =
      Some (33, after_alloc ALLOCATION_SOURCE_USER 100 (boot_alloc (\<lambda>_. True)))"
    unfolding allocator_alloc_eq [OF boot_alloc_inv]
    by (simp add: alloc_accepts_def source_out_of_range_iff boot_alloc_def)
  from alloc_buffer_fits [OF boot_alloc_inv this] show ?thesis by auto
qed

text \<open>
  The size check is made after the addition of the header size, which wraps around: a request
  within 32 bytes of \<open>SIZE_MAX\<close> passes it, a block of less than 32 bytes is allocated, and the copy
  of the 32-byte header overruns it.
\<close>

lemma alloc_size_check_wraps:
  assumes "alloc_inv w" and "\<not> source_out_of_range s" and "os_grants w (os_requests w)"
    and "2 ^ 64 - 32 \<le> unat n"
  shows "alloc_accepts s n \<and> allocator_alloc s n w = None"
proof -
  have "required_bytes n < 32"
    using assms(4) by (intro required_bytes_wrap) simp
  moreover have "n \<noteq> 0" using assms(4) by auto
  ultimately have "alloc_accepts s n" using assms(2) by (simp add: alloc_accepts_def)
  then show ?thesis using \<open>required_bytes n < 32\<close> assms(3) by (simp add: allocator_alloc_eq [OF assms(1)])
qed

lemma alloc_size_check_wraps_witness:
  "allocator_alloc ALLOCATION_SOURCE_USER (- 1) (boot_alloc (\<lambda>_. True)) = None"
proof -
  have "\<not> source_out_of_range ALLOCATION_SOURCE_USER" by (simp add: source_out_of_range_iff)
  moreover have "os_grants (boot_alloc (\<lambda>_. True)) (os_requests (boot_alloc (\<lambda>_. True)))"
    by (simp add: boot_alloc_def)
  moreover have "2 ^ 64 - 32 \<le> unat (- 1 :: u64)" by (simp add: unat_UINT64_MAX)
  ultimately show ?thesis using alloc_size_check_wraps [OF boot_alloc_inv] by blast
qed

text \<open>
  (C25) The release hook that runs for a buffer is the one that was set when the buffer was allocated,
  with the context its allocation hook handed out, whatever hooks are set in between; the call
  releases the block and takes the buffer off its source's count.
\<close>

theorem free_calls_hook_of_allocation:
  assumes "alloc_inv w" and "allocator_alloc s n w = Some (buf, w1)" and "buf \<noteq> 0"
    and "allocator_set_allocator (map_option CB_user_alloc a) (map_option CB_user_free f) w1 = Some (r, w2)"
  shows "\<exists>w3. allocator_free buf w2 = Some w3 \<and>
      callbacks w3 = callbacks w @ [Called_free (g_free w) (buf - 32) (hook_context w)] \<and>
      blocks w3 = blocks w \<and> image_count w3 = image_count w"
proof -
  have acc: "alloc_accepts s n" and ge: "32 \<le> required_bytes n"
    and buf: "buf = next_addr w + 32" and w1: "w1 = after_alloc s n w"
    using assms(2,3) unfolding allocator_alloc_eq [OF assms(1)] by (auto split: if_splits)
  have inv1: "alloc_inv w1" unfolding w1 by (rule alloc_inv_after_alloc [OF assms(1) acc ge])
  have inv2: "alloc_inv w2" using alloc_step_inv [OF step_set [OF assms(4)] inv1] by blast
  have w2: "blocks w2 = blocks w1" "callbacks w2 = callbacks w1" "image_count w2 = image_count w1"
    using assms(4) inv1 by (auto simp: allocator_set_allocator_eq alloc_inv_def split: if_splits)
  let ?p = "next_addr w"
  obtain b ctx where b: "blocks w2 ?p = Some b" "blk_header b = Some ctx" "ac_source ctx = s"
      "ac_free ctx = g_free w" "ac_free_context ctx = hook_context w"
    using w2 by (auto simp: w1 after_alloc_def counted_def)
  have "blocks w1 = (blocks w)(?p \<mapsto> b)" using b(1) w2(1) by (auto simp: w1 after_alloc_def counted_def)
  then have old: "(blocks w1)(?p := None) = blocks w" using alloc_invD(6) [OF assms(1)] by auto
  have "allocator_free buf w2 = Some (after_free ctx ?p w2)"
    unfolding buf by (rule allocator_free_eq [OF inv2 b(1,2)])
  then show ?thesis using b w2 old
    by (simp add: buf after_free_def counted_def w1 after_alloc_def)
qed

theorem free_calls_hook_of_allocation_witness:
  "\<exists>w3. allocator_free 33 ((after_alloc ALLOCATION_SOURCE_USER 100 (boot_alloc (\<lambda>_. True)))
            \<lparr>g_alloc := CB_user_alloc 7, g_free := CB_user_free 8\<rparr>) = Some w3 \<and>
      callbacks w3 = [Called_free CB_default_free 1 0]"
proof -
  let ?w1 = "after_alloc ALLOCATION_SOURCE_USER 100 (boot_alloc (\<lambda>_. True))"
  have "required_bytes 100 = 132" using required_bytes_small [of 100] by simp
  then have run: "allocator_alloc ALLOCATION_SOURCE_USER 100 (boot_alloc (\<lambda>_. True)) = Some (33, ?w1)"
    unfolding allocator_alloc_eq [OF boot_alloc_inv]
    by (simp add: alloc_accepts_def source_out_of_range_iff boot_alloc_def)
  have "hook_ok ?w1" by (simp add: after_alloc_def counted_def boot_alloc_def hook_ok_def)
  then have set: "allocator_set_allocator (map_option CB_user_alloc (Some 7)) (map_option CB_user_free (Some 8)) ?w1 =
      Some (ZSA_RESULT_SUCCEEDED, ?w1\<lparr>g_alloc := CB_user_alloc 7, g_free := CB_user_free 8\<rparr>)"
    by (simp add: allocator_set_allocator_eq)
  from free_calls_hook_of_allocation [OF boot_alloc_inv run _ set] show ?thesis
    by (auto simp: boot_alloc_def hook_context_def)
qed

text \<open>
  The leak check never returns a number of leaks: it returns 0 while a session is open or when
  every count is 0, and otherwise its assertions stop the program.
\<close>

lemma test_for_leaks_zero_or_abort:
  "allocator_test_for_leaks w =
     (if g_allocator_sessions w = 0 \<and> {s. image_count w s \<noteq> 0 \<and> \<not> source_out_of_range s} \<noteq> {}
      then None else Some 0)"
proof (cases "g_allocator_sessions w \<noteq> 0 \<or> (\<forall>s. \<not> source_out_of_range s \<longrightarrow> image_count w s = 0)")
  case True
  then show ?thesis by (auto simp: allocator_test_for_leaks_def source_out_of_range_iff)
next
  case False
  then obtain s where "\<not> source_out_of_range s" "image_count w s \<noteq> 0" by auto
  then have "allocator_test_for_leaks w = None" if "g_allocator_sessions w = 0"
    using that by (cases s) (auto simp: allocator_test_for_leaks_def source_out_of_range_iff)
  moreover have "{s. image_count w s \<noteq> 0 \<and> \<not> source_out_of_range s} \<noteq> {}" using False by auto
  ultimately show ?thesis using False by auto
qed

end
