(* ===== verification/Image.thy ===== *)
theory Image
  imports Allocator
begin

section \<open>Images\<close>

text \<open>
  \<open>src/image/image.c\<close>: reference-counted images, their creation over a caller's buffer or over a
  buffer of the allocator, and their accessors. The state adds the contexts of the images and the
  readings of the monotonic clock.
\<close>

subsection \<open>State\<close>

text \<open>
  The destroy callback of an image: the SDK's own (\<open>image_default_free_function\<close>) or the caller's,
  named by a number. Calls to the latter are recorded in \<open>callbacks\<close>.
\<close>

datatype image_destroy_cb_t = CB_image_default_free_function | CB_image_user nat

record image_context_t =
  img_ref_count :: int
  img_lock :: ptr
  img_buffer :: ptr
  img_buffer_size :: u64
  img_format :: zsa_image_format_t
  img_width_pixels :: int
  img_height_pixels :: int
  img_stride_bytes :: int
  img_dev_timestamp_usec :: u64
  img_sys_timestamp_nsec :: u64
  img_exposure_time_usec :: u64
  img_size_allocated :: u64
  img_memory_free_cb :: "image_destroy_cb_t option"
  img_memory_free_cb_context :: ptr
  img_white_balance :: u32
  img_iso_speed :: u32

definition image_zero :: image_context_t where
  "image_zero =
     \<lparr>img_ref_count = 0, img_lock = 0, img_buffer = 0, img_buffer_size = 0,
      img_format = ZSA_IMAGE_FORMAT_COLOR_MJPG, img_width_pixels = 0, img_height_pixels = 0,
      img_stride_bytes = 0, img_dev_timestamp_usec = 0, img_sys_timestamp_nsec = 0,
      img_exposure_time_usec = 0, img_size_allocated = 0, img_memory_free_cb = None,
      img_memory_free_cb_context = 0, img_white_balance = 0, img_iso_speed = 0\<rparr>"

record image_world = alloc_world +
  images :: "ptr \<Rightarrow> image_context_t"
  clock_gettime :: "nat \<Rightarrow> (u64 \<times> u64) option"  \<comment> \<open>the n-th reading: seconds and nanoseconds, if it works\<close>
  clock_reads :: nat

definition put_image :: "ptr \<Rightarrow> image_context_t \<Rightarrow> 'a image_world_scheme \<Rightarrow> 'a image_world_scheme" where
  "put_image h c w = w\<lparr>images := (images w)(h := c)\<rparr>"

definition zsa_image_t_create :: "'a image_world_scheme \<Rightarrow> ptr \<times> 'a image_world_scheme" where
  "zsa_image_t_create w =
     (case handle_create H_image w of (p, w1) \<Rightarrow> (p, if p = 0 then w1 else put_image p image_zero w1))"

abbreviation zsa_image_t_get_context :: "ptr \<Rightarrow> 'a image_world_scheme \<Rightarrow> image_context_t option option" where
  "zsa_image_t_get_context \<equiv> handle_get_context H_image images"

abbreviation zsa_image_t_destroy :: "ptr \<Rightarrow> 'a image_world_scheme \<Rightarrow> 'a image_world_scheme option" where
  "zsa_image_t_destroy \<equiv> handle_destroy"

subsection \<open>Reference counting\<close>

definition image_default_free_function :: "ptr \<Rightarrow> ptr \<Rightarrow> 'a image_world_scheme \<Rightarrow> 'a image_world_scheme option" where
  "image_default_free_function buffer context w = allocator_free buffer w"

definition call_image_destroy :: "image_destroy_cb_t \<Rightarrow> ptr \<Rightarrow> ptr \<Rightarrow> 'a image_world_scheme \<Rightarrow> 'a image_world_scheme option" where
  "call_image_destroy cb buffer context w =
     (case cb of
        CB_image_default_free_function \<Rightarrow> image_default_free_function buffer context w
      | CB_image_user n \<Rightarrow> Some (w\<lparr>callbacks := callbacks w @ [Called_image_destroy n buffer context]\<rparr>))"

definition image_dec_ref :: "ptr \<Rightarrow> 'a image_world_scheme \<Rightarrow> 'a image_world_scheme option" where
  "image_dec_ref image_handle w = do {
     ctx \<leftarrow> zsa_image_t_get_context image_handle w;
     case ctx of
       None \<Rightarrow> Some w
     | Some img \<Rightarrow>
         (let count = img_ref_count img - 1;
              w = put_image image_handle (img\<lparr>img_ref_count := count\<rparr>) w
          in if count = 0 then do {
               w \<leftarrow> (case img_memory_free_cb img of
                       None \<Rightarrow> Some w
                     | Some cb \<Rightarrow> call_image_destroy cb (img_buffer img) (img_memory_free_cb_context img) w);
               (_, w) \<leftarrow> Lock_Deinit (img_lock img) w;
               zsa_image_t_destroy image_handle w
             } else Some w)
   }"

text \<open>
  The accessors share one shape: an invalid handle gives the default value (or no change), a valid
  one reads (or replaces) a part of the context.
\<close>

definition image_read :: "'r \<Rightarrow> (image_context_t \<Rightarrow> 'r) \<Rightarrow> ptr \<Rightarrow> 'a image_world_scheme \<Rightarrow> 'r option" where
  "image_read fail_value f image_handle w = do {
     ctx \<leftarrow> zsa_image_t_get_context image_handle w;
     Some (case ctx of None \<Rightarrow> fail_value | Some img \<Rightarrow> f img)
   }"

definition image_write :: "(image_context_t \<Rightarrow> image_context_t) \<Rightarrow> ptr \<Rightarrow> 'a image_world_scheme \<Rightarrow> 'a image_world_scheme option" where
  "image_write f image_handle w = do {
     ctx \<leftarrow> zsa_image_t_get_context image_handle w;
     Some (case ctx of None \<Rightarrow> w | Some img \<Rightarrow> put_image image_handle (f img) w)
   }"

definition image_inc_ref :: "ptr \<Rightarrow> 'a image_world_scheme \<Rightarrow> 'a image_world_scheme option" where
  "image_inc_ref = image_write (\<lambda>img. img\<lparr>img_ref_count := img_ref_count img + 1\<rparr>)"

subsection \<open>Creation\<close>

text \<open>
  An out parameter \<open>zsa_image_t *image_handle\<close> is an \<open>option\<close>: \<open>None\<close> is a null pointer, \<open>Some v\<close> a
  variable that holds \<open>v\<close>; its content after the call is part of the result.
\<close>

definition image_create_from_buffer ::
  "zsa_image_format_t \<Rightarrow> int \<Rightarrow> int \<Rightarrow> int \<Rightarrow> ptr \<Rightarrow> u64 \<Rightarrow> image_destroy_cb_t option \<Rightarrow> ptr \<Rightarrow> ptr option \<Rightarrow>
     'a image_world_scheme \<Rightarrow> (zsa_result_t \<times> ptr option \<times> 'a image_world_scheme) option" where
  "image_create_from_buffer format width_pixels height_pixels stride_bytes buffer buffer_size
       buffer_destroy_cb buffer_destroy_cb_context image_handle w =
     (if image_handle = None then Some (ZSA_RESULT_FAILED, image_handle, w)
      else if \<not> format_in_range format then Some (ZSA_RESULT_FAILED, image_handle, w)
      else if width_pixels \<le> 0 \<or> width_pixels > 20000 then Some (ZSA_RESULT_FAILED, image_handle, w)
      else if height_pixels \<le> 0 \<or> height_pixels > 20000 then Some (ZSA_RESULT_FAILED, image_handle, w)
      else if buffer = 0 then Some (ZSA_RESULT_FAILED, image_handle, w)
      else if buffer_size = 0 then Some (ZSA_RESULT_FAILED, image_handle, w)
      else case zsa_image_t_create w of (h, w) \<Rightarrow>
        if h = 0 then Some (ZSA_RESULT_FAILED, Some 0, w)
        else case Lock_Init w of (lock, w) \<Rightarrow>
          (let w = put_image h
                 ((images w h)\<lparr>img_format := format, img_width_pixels := width_pixels,
                    img_height_pixels := height_pixels, img_stride_bytes := stride_bytes,
                    img_buffer_size := buffer_size, img_buffer := buffer, img_ref_count := 1,
                    img_memory_free_cb := buffer_destroy_cb,
                    img_memory_free_cb_context := buffer_destroy_cb_context, img_lock := lock\<rparr>) w
           in if lock \<noteq> 0 then Some (ZSA_RESULT_SUCCEEDED, Some h, w)
              else do {
                let w = put_image h ((images w h)\<lparr>img_buffer := 0\<rparr>) w;
                w \<leftarrow> zsa_image_t_destroy h w;
                Some (ZSA_RESULT_FAILED, Some 0, w)
              }))"

definition image_create_empty_image ::
  "allocation_source_t \<Rightarrow> u64 \<Rightarrow> ptr option \<Rightarrow> 'a image_world_scheme \<Rightarrow>
     (zsa_result_t \<times> ptr option \<times> 'a image_world_scheme) option" where
  "image_create_empty_image source sz image_handle w =
     (if image_handle = None then Some (ZSA_RESULT_FAILED, image_handle, w)
      else if sz = 0 then Some (ZSA_RESULT_FAILED, image_handle, w)
      else if source_out_of_range source then Some (ZSA_RESULT_FAILED, image_handle, w)
      else case zsa_image_t_create w of (h, w) \<Rightarrow> do {
        (result, w) \<leftarrow>
          (if h = 0 then Some (ZSA_RESULT_FAILED, w)
           else do {
             (buffer, w) \<leftarrow> allocator_alloc source sz w;
             let w = put_image h ((images w h)\<lparr>img_buffer := buffer\<rparr>) w;
             if buffer = 0 then Some (ZSA_RESULT_FAILED, w)
             else case Lock_Init w of (lock, w) \<Rightarrow>
               Some (ZSA_RESULT_FROM_BOOL (lock \<noteq> 0),
                 put_image h
                   ((images w h)\<lparr>img_ref_count := 1, img_buffer_size := sz,
                      img_memory_free_cb := Some CB_image_default_free_function,
                      img_memory_free_cb_context := 0, img_lock := lock\<rparr>) w)
           });
        if ZSA_FAILED result then do {
          w \<leftarrow> image_dec_ref h w;
          Some (result, Some 0, w)
        } else Some (result, Some h, w)
      })"

definition image_create_empty_internal ::
  "allocation_source_t \<Rightarrow> u64 \<Rightarrow> ptr option \<Rightarrow> 'a image_world_scheme \<Rightarrow>
     (zsa_result_t \<times> ptr option \<times> 'a image_world_scheme) option" where
  "image_create_empty_internal source sz image_handle w =
     (if image_handle = None then Some (ZSA_RESULT_FAILED, image_handle, w)
      else if source = ALLOCATION_SOURCE_USER then Some (ZSA_RESULT_FAILED, image_handle, w)
      else if sz = 0 then Some (ZSA_RESULT_FAILED, image_handle, w)
      else image_create_empty_image source sz image_handle w)"

text \<open>The \<open>switch\<close> of \<open>image_create\<close>: the number of bytes, or \<open>None\<close> for its failing branches.\<close>

definition size_t :: "int \<Rightarrow> u64" where
  "size_t n = word_of_int n"

fun image_create_size :: "zsa_image_format_t \<Rightarrow> int \<Rightarrow> int \<Rightarrow> int \<Rightarrow> u64 option" where
  "image_create_size ZSA_IMAGE_FORMAT_COLOR_MJPG width height stride = None"
| "image_create_size ZSA_IMAGE_FORMAT_COLOR_NV12 width height stride =
     (if height mod 2 \<noteq> 0 then None
      else if width mod 2 \<noteq> 0 then None
      else if stride < 1 * width then None
      else Some (3 * size_t height * size_t stride div 2))"
| "image_create_size ZSA_IMAGE_FORMAT_CUSTOM8 width height stride =
     (if stride < 1 * width then None else Some (size_t height * size_t stride))"
| "image_create_size ZSA_IMAGE_FORMAT_DEPTH16 width height stride =
     (if stride < 2 * width then None else Some (size_t height * size_t stride))"
| "image_create_size ZSA_IMAGE_FORMAT_IR16 width height stride =
     (if stride < 2 * width then None else Some (size_t height * size_t stride))"
| "image_create_size ZSA_IMAGE_FORMAT_CUSTOM16 width height stride =
     (if stride < 2 * width then None else Some (size_t height * size_t stride))"
| "image_create_size ZSA_IMAGE_FORMAT_COLOR_YUY2 width height stride =
     (if width mod 2 \<noteq> 0 then None
      else if stride < 2 * width then None
      else Some (size_t height * size_t stride))"
| "image_create_size ZSA_IMAGE_FORMAT_COLOR_BGRA32 width height stride =
     (if stride < 4 * width then None else Some (size_t height * size_t stride))"
| "image_create_size _ width height stride = Some (size_t height * size_t stride)"

definition image_create ::
  "zsa_image_format_t \<Rightarrow> int \<Rightarrow> int \<Rightarrow> int \<Rightarrow> allocation_source_t \<Rightarrow> ptr option \<Rightarrow> 'a image_world_scheme \<Rightarrow>
     (zsa_result_t \<times> ptr option \<times> 'a image_world_scheme) option" where
  "image_create format width_pixels height_pixels stride_bytes source image_handle w =
     (if image_handle = None then Some (ZSA_RESULT_FAILED, image_handle, w)
      else if \<not> format_in_range format then Some (ZSA_RESULT_FAILED, image_handle, w)
      else if \<not> (width_pixels > 0 \<and> width_pixels < 20000) then Some (ZSA_RESULT_FAILED, image_handle, w)
      else if \<not> (height_pixels > 0 \<and> height_pixels < 20000) then Some (ZSA_RESULT_FAILED, image_handle, w)
      else case image_create_size format width_pixels height_pixels stride_bytes of
        None \<Rightarrow> Some (ZSA_RESULT_FAILED, Some 0, w)
      | Some sz \<Rightarrow> do {
          (result, out, w) \<leftarrow> image_create_empty_image source sz (Some 0) w;
          let h = case_option 0 id out;
          (result, w) \<leftarrow>
            (if ZSA_FAILED result then Some (result, w)
             else do {
               ctx \<leftarrow> zsa_image_t_get_context h w;
               Some (case ctx of
                       None \<Rightarrow> (ZSA_RESULT_FAILED, w)
                     | Some img \<Rightarrow> (ZSA_RESULT_SUCCEEDED,
                         put_image h (img\<lparr>img_format := format, img_width_pixels := width_pixels,
                            img_height_pixels := height_pixels, img_stride_bytes := stride_bytes\<rparr>) w))
             });
          if ZSA_FAILED result \<and> h \<noteq> 0 then do {
            w \<leftarrow> image_dec_ref h w;
            Some (result, Some 0, w)
          } else Some (result, out, w)
        })"

subsection \<open>Accessors\<close>

definition image_get_buffer :: "ptr \<Rightarrow> 'a image_world_scheme \<Rightarrow> ptr option" where
  "image_get_buffer = image_read 0 img_buffer"

definition image_get_size :: "ptr \<Rightarrow> 'a image_world_scheme \<Rightarrow> u64 option" where
  "image_get_size = image_read 0 img_buffer_size"

definition image_set_size :: "ptr \<Rightarrow> u64 \<Rightarrow> 'a image_world_scheme \<Rightarrow> 'a image_world_scheme option" where
  "image_set_size image_handle sz w = do {
     ctx \<leftarrow> zsa_image_t_get_context image_handle w;
     case ctx of
       None \<Rightarrow> Some w
     | Some img \<Rightarrow>
         if img_buffer_size img \<ge> sz
         then Some (put_image image_handle (img\<lparr>img_buffer_size := sz\<rparr>) w)
         else None
   }"

definition image_get_format :: "ptr \<Rightarrow> 'a image_world_scheme \<Rightarrow> zsa_image_format_t option" where
  "image_get_format = image_read ZSA_IMAGE_FORMAT_CUSTOM img_format"

definition image_get_width_pixels :: "ptr \<Rightarrow> 'a image_world_scheme \<Rightarrow> int option" where
  "image_get_width_pixels = image_read 0 img_width_pixels"

definition image_get_height_pixels :: "ptr \<Rightarrow> 'a image_world_scheme \<Rightarrow> int option" where
  "image_get_height_pixels = image_read 0 img_height_pixels"

definition image_get_stride_bytes :: "ptr \<Rightarrow> 'a image_world_scheme \<Rightarrow> int option" where
  "image_get_stride_bytes = image_read 0 img_stride_bytes"

definition image_get_device_timestamp_usec :: "ptr \<Rightarrow> 'a image_world_scheme \<Rightarrow> u64 option" where
  "image_get_device_timestamp_usec = image_read 0 img_dev_timestamp_usec"

definition image_get_system_timestamp_nsec :: "ptr \<Rightarrow> 'a image_world_scheme \<Rightarrow> u64 option" where
  "image_get_system_timestamp_nsec = image_read 0 img_sys_timestamp_nsec"

definition image_get_exposure_usec :: "ptr \<Rightarrow> 'a image_world_scheme \<Rightarrow> u64 option" where
  "image_get_exposure_usec = image_read 0 img_exposure_time_usec"

definition image_get_white_balance :: "ptr \<Rightarrow> 'a image_world_scheme \<Rightarrow> u32 option" where
  "image_get_white_balance = image_read 0 img_white_balance"

definition image_get_iso_speed :: "ptr \<Rightarrow> 'a image_world_scheme \<Rightarrow> u32 option" where
  "image_get_iso_speed = image_read 0 img_iso_speed"

definition image_set_device_timestamp_usec :: "ptr \<Rightarrow> u64 \<Rightarrow> 'a image_world_scheme \<Rightarrow> 'a image_world_scheme option" where
  "image_set_device_timestamp_usec h timestamp_usec =
     image_write (\<lambda>img. img\<lparr>img_dev_timestamp_usec := timestamp_usec\<rparr>) h"

definition image_set_system_timestamp_nsec :: "ptr \<Rightarrow> u64 \<Rightarrow> 'a image_world_scheme \<Rightarrow> 'a image_world_scheme option" where
  "image_set_system_timestamp_nsec h timestamp_nsec =
     image_write (\<lambda>img. img\<lparr>img_sys_timestamp_nsec := timestamp_nsec\<rparr>) h"

definition image_apply_system_timestamp :: "ptr \<Rightarrow> 'a image_world_scheme \<Rightarrow> (zsa_result_t \<times> 'a image_world_scheme) option" where
  "image_apply_system_timestamp image_handle w = do {
     ctx \<leftarrow> zsa_image_t_get_context image_handle w;
     case ctx of
       None \<Rightarrow> Some (ZSA_RESULT_FAILED, w)
     | Some img \<Rightarrow>
         (let reading = clock_gettime w (clock_reads w);
              w = w\<lparr>clock_reads := Suc (clock_reads w)\<rparr>
          in case reading of
               None \<Rightarrow> Some (ZSA_RESULT_FAILED, w)
             | Some (tv_sec, tv_nsec) \<Rightarrow>
                 Some (ZSA_RESULT_SUCCEEDED,
                   put_image image_handle (img\<lparr>img_sys_timestamp_nsec := tv_sec * 1000000000 + tv_nsec\<rparr>) w))
   }"

definition image_set_exposure_usec :: "ptr \<Rightarrow> u64 \<Rightarrow> 'a image_world_scheme \<Rightarrow> 'a image_world_scheme option" where
  "image_set_exposure_usec h exposure_usec =
     image_write (\<lambda>img. img\<lparr>img_exposure_time_usec := exposure_usec\<rparr>) h"

definition image_set_white_balance :: "ptr \<Rightarrow> u32 \<Rightarrow> 'a image_world_scheme \<Rightarrow> 'a image_world_scheme option" where
  "image_set_white_balance h white_balance =
     image_write (\<lambda>img. img\<lparr>img_white_balance := white_balance\<rparr>) h"

definition image_set_iso_speed :: "ptr \<Rightarrow> u32 \<Rightarrow> 'a image_world_scheme \<Rightarrow> 'a image_world_scheme option" where
  "image_set_iso_speed h iso_speed =
     image_write (\<lambda>img. img\<lparr>img_iso_speed := iso_speed\<rparr>) h"

subsection \<open>The store of images\<close>

interpretation image_store: context_store H_image images put_image
  by unfold_locales (simp_all add: put_image_def)

lemma put_image_simps [simp]:
  "images (put_image h c w) = (images w)(h := c)" "htype (put_image h c w) = htype w"
  "locks (put_image h c w) = locks w" "conds (put_image h c w) = conds w"
  "next_addr (put_image h c w) = next_addr w" "blocks (put_image h c w) = blocks w"
  "callbacks (put_image h c w) = callbacks w" "image_count (put_image h c w) = image_count w"
  "os_grants (put_image h c w) = os_grants w" "os_requests (put_image h c w) = os_requests w"
  "live T (put_image h c w) x = live T w x" "alloc_inv (put_image h c w) = alloc_inv w"
  by (simp_all add: put_image_def live_def alloc_inv_defs mem_ok_def)

lemma image_read_live: "live H_image w h \<Longrightarrow> image_read d f h w = Some (f (images w h))"
  by (simp add: image_read_def)

lemma image_write_live: "live H_image w h \<Longrightarrow> image_write f h w = Some (put_image h (f (images w h)) w)"
  by (simp add: image_write_def)

lemmas image_getters = image_get_buffer_def image_get_size_def image_get_format_def
  image_get_width_pixels_def image_get_height_pixels_def image_get_stride_bytes_def
  image_get_device_timestamp_usec_def image_get_system_timestamp_nsec_def
  image_get_exposure_usec_def image_get_white_balance_def image_get_iso_speed_def

lemmas image_setters = image_set_device_timestamp_usec_def image_set_system_timestamp_nsec_def
  image_set_exposure_usec_def image_set_white_balance_def image_set_iso_speed_def image_inc_ref_def

subsection \<open>Invariant\<close>

text \<open>
  An image somebody holds has a lock of its own that is free between calls. When the SDK allocated
  its buffer, that buffer is a block of the allocator, belongs to no other image and has at least as
  many bytes as the image says.
\<close>

definition held :: "'a image_world_scheme \<Rightarrow> ptr set" where
  "held w = {h. live H_image w h \<and> 0 < img_ref_count (images w h)}"

definition owns_buffer :: "image_context_t \<Rightarrow> bool" where
  "owns_buffer c \<longleftrightarrow> img_memory_free_cb c = Some CB_image_default_free_function"

definition buffer_ok :: "'a image_world_scheme \<Rightarrow> image_context_t \<Rightarrow> bool" where
  "buffer_ok w c \<longleftrightarrow> (\<exists>p b. img_buffer c = p + 32 \<and> blocks w p = Some b \<and> blk_header b \<noteq> None \<and>
     unat (img_buffer_size c) + 32 \<le> blk_size b)"

definition image_wf :: "'a image_world_scheme \<Rightarrow> image_context_t \<Rightarrow> bool" where
  "image_wf w c \<longleftrightarrow> img_lock c \<noteq> 0 \<and> locks w (img_lock c) = Some False \<and> (owns_buffer c \<longrightarrow> buffer_ok w c)"

definition apart :: "image_context_t \<Rightarrow> image_context_t \<Rightarrow> bool" where
  "apart c d \<longleftrightarrow> img_lock c \<noteq> img_lock d \<and> (owns_buffer c \<longrightarrow> owns_buffer d \<longrightarrow> img_buffer c \<noteq> img_buffer d)"

definition images_ok :: "'a image_world_scheme \<Rightarrow> bool" where
  "images_ok w \<longleftrightarrow> (\<forall>h \<in> held w. image_wf w (images w h)) \<and>
     (\<forall>h \<in> held w. \<forall>k \<in> held w. h \<noteq> k \<longrightarrow> apart (images w h) (images w k))"

definition image_inv :: "'a image_world_scheme \<Rightarrow> bool" where
  "image_inv w \<longleftrightarrow> alloc_inv w \<and> images_ok w"

lemma image_invD: "image_inv w \<Longrightarrow> alloc_inv w" "image_inv w \<Longrightarrow> images_ok w"
  by (simp_all add: image_inv_def)

lemma held_live: "h \<in> held w \<Longrightarrow> live H_image w h"
  by (simp add: held_def)

lemma held_wf: "image_inv w \<Longrightarrow> h \<in> held w \<Longrightarrow> image_wf w (images w h)"
  by (simp add: image_inv_def images_ok_def)

lemma apart_sym: "apart c d = apart d c"
  by (auto simp: apart_def)

definition same_resources :: "image_context_t \<Rightarrow> image_context_t \<Rightarrow> bool" where
  "same_resources c d \<longleftrightarrow> img_lock c = img_lock d \<and> img_buffer c = img_buffer d \<and>
     img_memory_free_cb c = img_memory_free_cb d"

lemma apart_cong: "same_resources c c' \<Longrightarrow> same_resources d d' \<Longrightarrow> apart c d = apart c' d'"
  by (auto simp: same_resources_def apart_def owns_buffer_def)

lemma same_resources_refl [simp]: "same_resources c c"
  by (simp add: same_resources_def)

text \<open>Losing images, or changing them without exchanging their resources, keeps them apart.\<close>

lemma images_ok_sub:
  assumes "images_ok w" and "held w' \<subseteq> held w"
    and "\<And>h. h \<in> held w' \<Longrightarrow> same_resources (images w' h) (images w h)"
    and "\<And>h. h \<in> held w' \<Longrightarrow> image_wf w' (images w' h)"
  shows "images_ok w'"
proof -
  have "apart (images w' h) (images w' k)" if "h \<in> held w'" "k \<in> held w'" "h \<noteq> k" for h k
  proof -
    have "apart (images w h) (images w k)" using assms(1,2) that by (auto simp: images_ok_def)
    then show ?thesis using apart_cong [OF assms(3) [OF that(1)] assms(3) [OF that(2)]] by simp
  qed
  then show ?thesis using assms(4) by (auto simp: images_ok_def)
qed

lemma images_ok_add:
  assumes "images_ok w" and "held w' \<subseteq> insert h (held w)"
    and "\<And>k. k \<in> held w \<Longrightarrow> k \<noteq> h \<Longrightarrow> images w' k = images w k"
    and "\<And>k. k \<in> held w' \<Longrightarrow> image_wf w' (images w' k)"
    and "\<And>k. k \<in> held w \<Longrightarrow> apart (images w k) (images w' h)"
  shows "images_ok w'"
proof -
  have "apart (images w' a) (images w' b)" if "a \<in> held w'" "b \<in> held w'" "a \<noteq> b" for a b
  proof -
    from that assms(2) consider "a = h" "b \<noteq> h" "b \<in> held w" | "b = h" "a \<noteq> h" "a \<in> held w"
      | "a \<noteq> h" "b \<noteq> h" "a \<in> held w" "b \<in> held w" by auto
    then show ?thesis
    proof cases
      case 1 then show ?thesis using assms(3,5) apart_sym by metis
    next
      case 2 then show ?thesis using assms(3,5) by metis
    next
      case 3 then show ?thesis using assms(1,3) that(3) by (simp add: images_ok_def)
    qed
  qed
  then show ?thesis using assms(4) by (auto simp: images_ok_def)
qed

lemma image_wf_cong:
  "locks w' (img_lock c) = locks w (img_lock c) \<Longrightarrow>
   (\<And>p b. owns_buffer c \<Longrightarrow> img_buffer c = p + 32 \<Longrightarrow> blocks w p = Some b \<Longrightarrow> blocks w' p = Some b) \<Longrightarrow>
   image_wf w c \<Longrightarrow> image_wf w' c"
  by (fastforce simp: image_wf_def buffer_ok_def)

lemma held_put_image: "held (put_image h c w) = (if live H_image w h \<and> 0 < img_ref_count c then insert h (held w) else held w - {h})"
  by (auto simp: held_def)

lemma image_inv_put:
  assumes "image_inv w" and "h \<in> held w" and "same_resources c (images w h)"
    and "img_buffer_size c \<le> img_buffer_size (images w h)"
  shows "image_inv (put_image h c w)"
proof -
  have "images_ok (put_image h c w)"
  proof (rule images_ok_sub)
    show "images_ok w" using assms(1) by (rule image_invD)
    show "held (put_image h c w) \<subseteq> held w" using assms(2) by (auto simp: held_put_image)
    show "same_resources (images (put_image h c w) k) (images w k)" for k using assms(3) by simp
    show "image_wf (put_image h c w) (images (put_image h c w) k)" if "k \<in> held (put_image h c w)" for k
    proof (cases "k = h")
      case True
      have "unat (img_buffer_size c) \<le> unat (img_buffer_size (images w h))"
        using assms(4) by (simp add: word_le_nat_alt)
      then show ?thesis using True held_wf [OF assms(1,2)] assms(3)
        by (fastforce simp: image_wf_def buffer_ok_def same_resources_def owns_buffer_def)
    next
      case False
      then have "image_wf w (images w k)" using that by (intro held_wf [OF assms(1)]) (auto simp: held_put_image split: if_splits)
      then show ?thesis using False by (simp add: image_wf_def buffer_ok_def)
    qed
  qed
  then show ?thesis using image_invD(1) [OF assms(1)] by (simp add: image_inv_def)
qed

subsection \<open>Releasing a reference\<close>

definition block_header :: "'a image_world_scheme \<Rightarrow> image_context_t \<Rightarrow> allocation_context_t" where
  "block_header w c = the (blk_header (the (blocks w (img_buffer c - 32))))"

definition drop_buffer :: "image_context_t \<Rightarrow> 'a image_world_scheme \<Rightarrow> 'a image_world_scheme" where
  "drop_buffer c w =
     (case img_memory_free_cb c of
        None \<Rightarrow> w
      | Some (CB_image_user n) \<Rightarrow>
          w\<lparr>callbacks := callbacks w @ [Called_image_destroy n (img_buffer c) (img_memory_free_cb_context c)]\<rparr>
      | Some CB_image_default_free_function \<Rightarrow> after_free (block_header w c) (img_buffer c - 32) w)"

text \<open>The calls that the release of the last reference makes.\<close>

definition release_calls :: "'a image_world_scheme \<Rightarrow> image_context_t \<Rightarrow> callback list" where
  "release_calls w c =
     (case img_memory_free_cb c of
        None \<Rightarrow> []
      | Some (CB_image_user n) \<Rightarrow> [Called_image_destroy n (img_buffer c) (img_memory_free_cb_context c)]
      | Some CB_image_default_free_function \<Rightarrow>
          [Called_free (ac_free (block_header w c)) (img_buffer c - 32) (ac_free_context (block_header w c))])"

definition after_last :: "ptr \<Rightarrow> 'a image_world_scheme \<Rightarrow> 'a image_world_scheme" where
  "after_last h w =
     (drop_buffer (images w h) (put_image h ((images w h)\<lparr>img_ref_count := 0\<rparr>) w))
       \<lparr>locks := (locks w)(img_lock (images w h) := None), htype := (htype w)(h := None)\<rparr>"

lemma drop_buffer_simps [simp]:
  "images (drop_buffer c w) = images w" "htype (drop_buffer c w) = htype w"
  "locks (drop_buffer c w) = locks w" "conds (drop_buffer c w) = conds w"
  "next_addr (drop_buffer c w) = next_addr w" "os_grants (drop_buffer c w) = os_grants w"
  "os_requests (drop_buffer c w) = os_requests w"
  "callbacks (drop_buffer c w) = callbacks w @ release_calls w c"
  "blocks (drop_buffer c w) = (if owns_buffer c then (blocks w)(img_buffer c - 32 := None) else blocks w)"
  "alloc_inv w \<Longrightarrow> alloc_inv (drop_buffer c w)"
  by (auto simp: drop_buffer_def release_calls_def owns_buffer_def after_free_def counted_def
      alloc_inv_defs mem_ok_def split: option.splits image_destroy_cb_t.splits)

lemma drop_buffer_run:
  assumes "alloc_inv w" and "owns_buffer c \<longrightarrow> buffer_ok w c"
  shows "(case img_memory_free_cb c of None \<Rightarrow> Some w
          | Some cb \<Rightarrow> call_image_destroy cb (img_buffer c) (img_memory_free_cb_context c) w) = Some (drop_buffer c w)"
proof (cases "owns_buffer c")
  case False
  then show ?thesis
    by (auto simp: owns_buffer_def drop_buffer_def call_image_destroy_def split: option.splits image_destroy_cb_t.splits)
next
  case True
  then obtain p b where b: "img_buffer c = p + 32" "blocks w p = Some b" "blk_header b \<noteq> None"
    using assms(2) by (auto simp: buffer_ok_def)
  then obtain ctx where "blk_header b = Some ctx" by auto
  with b True allocator_free_eq [OF assms(1) b(2)] show ?thesis
    by (simp add: owns_buffer_def call_image_destroy_def image_default_free_function_def drop_buffer_def block_header_def)
qed

lemma image_dec_ref_keep:
  assumes "live H_image w h" and "img_ref_count (images w h) \<noteq> 1"
  shows "image_dec_ref h w = Some (put_image h ((images w h)\<lparr>img_ref_count := img_ref_count (images w h) - 1\<rparr>) w)"
  using assms by (simp add: image_dec_ref_def Let_def)

lemma image_dec_ref_last:
  assumes "image_inv w" and "live H_image w h" and "img_ref_count (images w h) = 1"
  shows "image_dec_ref h w = Some (after_last h w)"
proof -
  let ?c = "images w h" and ?w = "put_image h ((images w h)\<lparr>img_ref_count := 0\<rparr>) w"
  have wf: "image_wf w ?c" using assms by (intro held_wf) (auto simp: held_def)
  then have "owns_buffer ?c \<longrightarrow> buffer_ok ?w ?c" by (simp add: image_wf_def buffer_ok_def)
  moreover have "alloc_inv ?w" using image_invD(1) [OF assms(1)] by simp
  ultimately have run: "(case img_memory_free_cb ?c of None \<Rightarrow> Some ?w
      | Some cb \<Rightarrow> call_image_destroy cb (img_buffer ?c) (img_memory_free_cb_context ?c) ?w) = Some (drop_buffer ?c ?w)"
    using drop_buffer_run by blast
  moreover have "live H_image (drop_buffer ?c ?w) h" using assms(2) by (simp add: live_def)
  ultimately show ?thesis using assms(2,3) wf
    by (simp add: image_dec_ref_def Let_def Lock_Deinit_def image_wf_def after_last_def live_def handle_destroy_def)
qed

lemma block_header_put [simp]: "block_header (put_image h c w) d = block_header w d"
  by (simp add: block_header_def)

lemma release_calls_put [simp]: "release_calls (put_image h c w) d = release_calls w d"
  unfolding release_calls_def block_header_put ..

lemma after_last_simps [simp]:
  "images (after_last h w) = (images w)(h := (images w h)\<lparr>img_ref_count := 0\<rparr>)"
  "htype (after_last h w) = (htype w)(h := None)"
  "locks (after_last h w) = (locks w)(img_lock (images w h) := None)"
  "conds (after_last h w) = conds w" "next_addr (after_last h w) = next_addr w"
  "os_grants (after_last h w) = os_grants w" "os_requests (after_last h w) = os_requests w"
  "callbacks (after_last h w) = callbacks w @ release_calls w (images w h)"
  "blocks (after_last h w) =
     (if owns_buffer (images w h) then (blocks w)(img_buffer (images w h) - 32 := None) else blocks w)"
  by (simp_all add: after_last_def)

lemma held_after_last: "held (after_last h w) = held w - {h}"
  by (auto simp: held_def live_def)

lemma alloc_inv_locks_htype:
  "alloc_inv w \<Longrightarrow> locks w l \<noteq> None \<Longrightarrow> alloc_inv (w\<lparr>locks := (locks w)(l := v), htype := (htype w)(h := None)\<rparr>)"
  by (auto simp: alloc_inv_defs mem_ok_def)

lemma image_inv_after_last:
  assumes "image_inv w" and "h \<in> held w"
  shows "image_inv (after_last h w)"
proof -
  let ?c = "images w h"
  have wf: "image_wf w ?c" using assms by (rule held_wf)
  have "images_ok (after_last h w)"
  proof (rule images_ok_sub)
    show "images_ok w" using assms(1) by (rule image_invD)
    show "held (after_last h w) \<subseteq> held w" by (auto simp: held_after_last)
    show "same_resources (images (after_last h w) k) (images w k)" for k by (simp add: same_resources_def)
    show "image_wf (after_last h w) (images (after_last h w) k)" if "k \<in> held (after_last h w)" for k
    proof -
      have k: "k \<in> held w" "k \<noteq> h" using that by (auto simp: held_after_last)
      then have "apart ?c (images w k)" using assms by (auto simp: image_inv_def images_ok_def)
      then have "image_wf (after_last h w) (images w k)"
        using held_wf [OF assms(1) k(1)]
        by (intro image_wf_cong [of "after_last h w" _ w]) (use wf in \<open>auto simp: apart_def image_wf_def buffer_ok_def\<close>)
      then show ?thesis using k(2) by simp
    qed
  qed
  moreover have "alloc_inv (after_last h w)"
  proof -
    let ?d = "drop_buffer ?c (put_image h (?c\<lparr>img_ref_count := 0\<rparr>) w)"
    have "alloc_inv ?d" using image_invD(1) [OF assms(1)] by simp
    moreover have "locks ?d (img_lock ?c) \<noteq> None" using wf by (simp add: image_wf_def)
    ultimately have "alloc_inv (?d\<lparr>locks := (locks ?d)(img_lock ?c := None), htype := (htype ?d)(h := None)\<rparr>)"
      by (rule alloc_inv_locks_htype)
    then show ?thesis by (simp add: after_last_def)
  qed
  ultimately show ?thesis by (simp add: image_inv_def)
qed

subsection \<open>Making an image\<close>

text \<open>
  The parts of a creation: a fresh handle (held by nobody yet), a buffer, a lock, and the entry of
  the finished context.
\<close>

lemma images_ok_same:
  assumes "images_ok w" and "held w' = held w" and "\<And>h. h \<in> held w \<Longrightarrow> images w' h = images w h"
    and "\<And>h. h \<in> held w \<Longrightarrow> locks w' (img_lock (images w h)) = locks w (img_lock (images w h))"
    and "\<And>p b. blocks w p = Some b \<Longrightarrow> blocks w' p = Some b"
  shows "images_ok w'"
proof (rule images_ok_sub [OF assms(1)])
  fix h assume h: "h \<in> held w'"
  then show "same_resources (images w' h) (images w h)" using assms(2,3) by simp
  have "image_wf w (images w h)" using h assms(1,2) by (simp add: images_ok_def)
  then show "image_wf w' (images w' h)"
    using h assms by (auto intro: image_wf_cong [of w' _ w])
qed (simp add: assms(2))

lemma image_inv_put_dead:
  assumes "image_inv w" and "h \<notin> held w" and "img_ref_count c \<le> 0"
  shows "image_inv (put_image h c w)" and "held (put_image h c w) = held w"
proof -
  show held: "held (put_image h c w) = held w" using assms(2,3) by (simp add: held_put_image)
  have "images_ok (put_image h c w)"
    by (rule images_ok_same [OF image_invD(2) [OF assms(1)] held]) (use assms(2) in auto)
  then show "image_inv (put_image h c w)" using image_invD(1) [OF assms(1)] by (simp add: image_inv_def)
qed

lemma image_inv_new:
  assumes "image_inv w" and "live H_image w h" and "h \<notin> held w" and "0 < img_ref_count c"
    and "image_wf w c" and "\<And>k. k \<in> held w \<Longrightarrow> apart (images w k) c"
  shows "image_inv (put_image h c w)" and "held (put_image h c w) = insert h (held w)"
proof -
  show held: "held (put_image h c w) = insert h (held w)" using assms(2,4) by (simp add: held_put_image)
  have wf: "image_wf (put_image h c w) d = image_wf w d" for d by (simp add: image_wf_def buffer_ok_def)
  have "images_ok (put_image h c w)"
  proof (rule images_ok_add [OF image_invD(2) [OF assms(1)], of _ h])
    show "image_wf (put_image h c w) (images (put_image h c w) k)" if "k \<in> held (put_image h c w)" for k
      using that assms(3,5) held_wf [OF assms(1), of k] unfolding held wf by auto
  qed (use held assms(6) in auto)
  then show "image_inv (put_image h c w)" using image_invD(1) [OF assms(1)] by (simp add: image_inv_def)
qed

lemma zsa_image_t_create_inv:
  assumes "image_inv w" and "zsa_image_t_create w = (h, w1)"
  shows "image_inv w1" and "held w1 = held w" and "h \<notin> held w" and "blocks w1 = blocks w"
    and "callbacks w1 = callbacks w" and "locks w1 = locks w"
    and "h \<noteq> 0 \<Longrightarrow> live H_image w1 h \<and> htype w h = None"
    and "htype w1 = (if h = 0 then htype w else (htype w)(h := Some H_image))"
    and "images w1 = (if h = 0 then images w else (images w)(h := image_zero))"
proof -
  have inv: "alloc_inv w" and mem: "mem_ok w" and pos: "0 < next_addr w"
    using assms(1) by (auto simp: image_inv_def alloc_inv_def mem_ok_def)
  then have fresh: "htype w (next_addr w) = None" by (auto simp: mem_ok_def)
  obtain w2 where w2: "handle_create H_image w = (h, w2)" "w1 = (if h = 0 then w2 else put_image h image_zero w2)"
    using assms(2) by (auto simp: zsa_image_t_create_def split: prod.splits)
  show all: "blocks w1 = blocks w" "callbacks w1 = callbacks w" "locks w1 = locks w" "h \<notin> held w"
    "h \<noteq> 0 \<Longrightarrow> live H_image w1 h \<and> htype w h = None"
    "htype w1 = (if h = 0 then htype w else (htype w)(h := Some H_image))"
    "images w1 = (if h = 0 then images w else (images w)(h := image_zero))"
    using pos w2(1) fresh
    by (cases rule: handle_create_cases; auto simp: w2(2) held_def live_def put_image_def)+
  show held: "held w1 = held w"
    using all(4) unfolding held_def live_def all(6,7) by (auto simp: image_zero_def)
  have "images_ok w1"
    by (rule images_ok_same [OF image_invD(2) [OF assms(1)] held]) (use all in auto)
  moreover have "alloc_inv w1" using alloc_inv_handle_create [OF inv w2(1)] by (simp add: w2(2))
  ultimately show "image_inv w1" by (simp add: image_inv_def)
qed

lemma allocator_alloc_inv:
  assumes "image_inv w" and "allocator_alloc s n w = Some (b, w1)"
  shows "image_inv w1" and "held w1 = held w" and "images w1 = images w" and "htype w1 = htype w"
    and "callbacks w1 = callbacks w" and "locks w1 = locks w"
    and "b \<noteq> 0 \<Longrightarrow> \<exists>p k. b = p + 32 \<and> blocks w p = None \<and> blocks w1 p = Some k \<and> blk_header k \<noteq> None \<and>
          blk_size k = 32 + unat n \<and> unat n \<le> 2147483615"
    and "b = 0 \<Longrightarrow> blocks w1 = blocks w"
proof -
  note inv = image_invD(1) [OF assms(1)]
  have step: "alloc_inv w1" using alloc_step_inv [OF step_alloc [OF assms(2)] inv] by blast
  note run = assms(2) [unfolded allocator_alloc_eq [OF inv]]
  from run show all: "images w1 = images w" "htype w1 = htype w" "callbacks w1 = callbacks w" "locks w1 = locks w"
    "b = 0 \<Longrightarrow> blocks w1 = blocks w"
    by (auto simp: after_alloc_def counted_def split: if_splits)
  have old: "blocks w p = Some k \<Longrightarrow> blocks w1 p = Some k" for p k
    using run alloc_invD(6) [OF inv] by (auto simp: after_alloc_def counted_def split: if_splits)
  show held: "held w1 = held w" by (simp add: held_def live_def all)
  have "images_ok w1"
    by (rule images_ok_same [OF image_invD(2) [OF assms(1)] held]) (use all old in auto)
  then show "image_inv w1" using step by (simp add: image_inv_def)
  assume "b \<noteq> 0"
  then have b: "b = next_addr w + 32" "w1 = after_alloc s n w" "32 \<le> required_bytes n" "required_bytes n \<le> INT32_MAX"
    using run by (auto simp: alloc_accepts_def split: if_splits)
  then have "unat n + 32 < 2 ^ 64" using required_bytes_wrap [of n] by linarith
  then have "nat (required_bytes n) = 32 + unat n" "unat n \<le> 2147483615"
    using required_bytes_small [of n] b(4) by linarith+
  then show "\<exists>p k. b = p + 32 \<and> blocks w p = None \<and> blocks w1 p = Some k \<and> blk_header k \<noteq> None \<and>
      blk_size k = 32 + unat n \<and> unat n \<le> 2147483615"
    using b alloc_invD(6) [OF inv] by (intro exI [of _ "next_addr w"]) (simp add: after_alloc_def)
qed

lemma Lock_Init_inv:
  assumes "image_inv w" and "Lock_Init w = (l, w1)"
  shows "image_inv w1" and "held w1 = held w" and "images w1 = images w" and "htype w1 = htype w"
    and "callbacks w1 = callbacks w" and "blocks w1 = blocks w"
    and "locks w1 = (if l = 0 then locks w else (locks w)(l := Some False))" and "locks w l = None"
proof -
  have inv: "alloc_inv w" and mem: "mem_ok w" and pos: "0 < next_addr w"
    using assms(1) by (auto simp: image_inv_def alloc_inv_def mem_ok_def)
  have none: "locks w 0 = None" "locks w (next_addr w) = None" using mem by (auto simp: mem_ok_def)
  show all: "images w1 = images w" "htype w1 = htype w" "callbacks w1 = callbacks w" "blocks w1 = blocks w"
    "locks w1 = (if l = 0 then locks w else (locks w)(l := Some False))" "locks w l = None"
    using pos assms(2) none by (cases rule: Lock_Init_cases; simp)+
  show held: "held w1 = held w" by (simp add: held_def live_def all)
  have "images_ok w1"
    by (rule images_ok_same [OF image_invD(2) [OF assms(1)] held])
      (use all held_wf [OF assms(1)] in \<open>auto simp: image_wf_def\<close>)
  moreover have "alloc_inv w1" using inv assms(2) by (rule alloc_inv_Lock_Init)
  ultimately show "image_inv w1" by (simp add: image_inv_def)
qed

text \<open>A fresh buffer and a fresh lock keep the new image apart from those already held.\<close>

lemma fresh_apart:
  assumes "image_inv w" and "k \<in> held w" and "locks w (img_lock c) = None"
    and "\<And>p. owns_buffer c \<Longrightarrow> img_buffer c = p + 32 \<Longrightarrow> blocks w p = None"
  shows "apart (images w k) c"
  using held_wf [OF assms(1,2)] assms(3,4) by (fastforce simp: image_wf_def buffer_ok_def apart_def)

definition fresh_image :: "u64 \<Rightarrow> ptr \<Rightarrow> ptr \<Rightarrow> image_context_t" where
  "fresh_image n buffer lock =
     image_zero\<lparr>img_ref_count := 1, img_lock := lock, img_buffer := buffer, img_buffer_size := n,
       img_memory_free_cb := Some CB_image_default_free_function\<rparr>"

definition made_image :: "u64 \<Rightarrow> ptr \<Rightarrow> 'a image_world_scheme \<Rightarrow> 'a image_world_scheme \<Rightarrow> bool" where
  "made_image n h w w' \<longleftrightarrow> h \<noteq> 0 \<and> htype w h = None \<and> held w' = insert h (held w) \<and> callbacks w' = callbacks w \<and>
     (\<exists>p l b. images w' h = fresh_image n (p + 32) l \<and> blocks w p = None \<and> blocks w' p = Some b \<and>
        blk_size b = 32 + unat n \<and> unat n \<le> 2147483615) \<and>
     (\<forall>k. k \<noteq> h \<longrightarrow> images w' k = images w k \<and> htype w' k = htype w k)"

definition kept_images :: "'a image_world_scheme \<Rightarrow> 'a image_world_scheme \<Rightarrow> bool" where
  "kept_images w w' \<longleftrightarrow> held w' = held w \<and> (\<forall>k \<in> held w. images w' k = images w k)"

text \<open>Releasing an image that got its buffer but no lock gives both back.\<close>

definition unlocked_release :: "ptr \<Rightarrow> image_context_t \<Rightarrow> 'a image_world_scheme \<Rightarrow> 'a image_world_scheme" where
  "unlocked_release h c w =
     (drop_buffer c (put_image h (c\<lparr>img_ref_count := 0\<rparr>) w))\<lparr>htype := (htype w)(h := None)\<rparr>"

lemma image_dec_ref_unlocked:
  assumes "image_inv w" and "live H_image w h" and "img_ref_count c = 1" and "img_lock c = 0"
    and "owns_buffer c \<Longrightarrow> buffer_ok w c"
  shows "image_dec_ref h (put_image h c w) = Some (unlocked_release h c w)"
proof -
  let ?w = "put_image h (c\<lparr>img_ref_count := 0\<rparr>) w"
  have "alloc_inv ?w" using image_invD(1) [OF assms(1)] by simp
  moreover have "owns_buffer c \<longrightarrow> buffer_ok ?w c" using assms(5) by (simp add: buffer_ok_def)
  ultimately have run: "(case img_memory_free_cb c of None \<Rightarrow> Some ?w
      | Some cb \<Rightarrow> call_image_destroy cb (img_buffer c) (img_memory_free_cb_context c) ?w) = Some (drop_buffer c ?w)"
    using drop_buffer_run by blast
  have "put_image h d (put_image h c w) = put_image h d w" for d by (simp add: put_image_def)
  then show ?thesis using assms(2,3,4) run
    by (simp add: image_dec_ref_def Let_def Lock_Deinit_def unlocked_release_def live_def handle_destroy_def)
qed

lemma image_inv_unlocked_release:
  assumes "image_inv w" and "h \<notin> held w"
    and "\<And>k. k \<in> held w \<Longrightarrow> owns_buffer c \<Longrightarrow> owns_buffer (images w k) \<Longrightarrow> img_buffer (images w k) \<noteq> img_buffer c"
    and "owns_buffer c \<Longrightarrow> buffer_ok w c"
  shows "image_inv (unlocked_release h c w)" and "kept_images w (unlocked_release h c w)"
proof -
  let ?u = "unlocked_release h c w"
  have held: "held ?u = held w" using assms(2) by (auto simp: unlocked_release_def held_def live_def)
  then show "kept_images w ?u" using assms(2) by (auto simp: kept_images_def unlocked_release_def)
  have "images_ok ?u"
  proof (rule images_ok_sub [OF image_invD(2) [OF assms(1)]])
    fix k assume "k \<in> held ?u"
    then have k: "k \<in> held w" "k \<noteq> h" using held assms(2) by auto
    then show "same_resources (images ?u k) (images w k)" by (simp add: unlocked_release_def)
    have "image_wf ?u (images w k)"
      by (rule image_wf_cong [OF _ _ held_wf [OF assms(1) k(1)]])
        (use assms(3) [OF k(1)] assms(4) in \<open>auto simp: unlocked_release_def buffer_ok_def\<close>)
    then show "image_wf ?u (images ?u k)" using k(2) by (simp add: unlocked_release_def)
  qed (simp add: held)
  moreover have "alloc_inv ?u"
  proof -
    let ?d = "drop_buffer c (put_image h (c\<lparr>img_ref_count := 0\<rparr>) w)"
    have d: "alloc_inv ?d" using image_invD(1) [OF assms(1)] by simp
    then show ?thesis unfolding unlocked_release_def
      by (rule alloc_inv_other) (use d in \<open>auto simp: alloc_inv_def mem_ok_def\<close>)
  qed
  ultimately show "image_inv ?u" by (simp add: image_inv_def)
qed

text \<open>The stages of \<open>image_create_empty_image\<close> once it has its handle and asked for the buffer.\<close>

definition with_buffer :: "ptr \<Rightarrow> ptr \<Rightarrow> 'a image_world_scheme \<Rightarrow> 'a image_world_scheme" where
  "with_buffer h b w = put_image h ((images w h)\<lparr>img_buffer := b\<rparr>) w"

lemma empty_image_run:
  assumes "n \<noteq> 0" and "\<not> source_out_of_range s" and "zsa_image_t_create w = (h, w1)" and "h \<noteq> 0"
    and "image_inv w" and "allocator_alloc s n w1 = Some (b, w2)"
  shows "image_create_empty_image s n (Some v) w =
    (if b = 0 then map_option (\<lambda>w'. (ZSA_RESULT_FAILED, Some 0, w')) (image_dec_ref h (with_buffer h b w2))
     else case Lock_Init (with_buffer h b w2) of (l, w4) \<Rightarrow>
       if l = 0 then map_option (\<lambda>w'. (ZSA_RESULT_FAILED, Some 0, w')) (image_dec_ref h (put_image h (fresh_image n b l) w4))
       else Some (ZSA_RESULT_SUCCEEDED, Some h, put_image h (fresh_image n b l) w4))"
proof -
  have zero: "images w2 h = image_zero"
    using allocator_alloc_inv(3) [OF zsa_image_t_create_inv(1) assms(6)] zsa_image_t_create_inv(9) assms(3,4,5) by fastforce
  have "images w4 h = image_zero\<lparr>img_buffer := b\<rparr>" if "Lock_Init (with_buffer h b w2) = (l, w4)" for l w4
    using that zero by (auto simp: Lock_Init_def c_malloc_def os_request_def with_buffer_def split: if_splits)
  then show ?thesis using assms(1,2,3,4,6) unfolding image_create_empty_image_def
    by (auto simp: with_buffer_def Let_def fresh_image_def image_zero_def bind_map_option comp_def map_conv_bind_option
        split: prod.splits)
qed

lemma with_buffer_inv:
  assumes "image_inv w" and "zsa_image_t_create w = (h, w1)" and "h \<noteq> 0" and "allocator_alloc s n w1 = Some (b, w2)"
  shows "image_inv (with_buffer h b w2)" and "held (with_buffer h b w2) = held w" and "h \<notin> held w"
    and "live H_image (with_buffer h b w2) h" and "htype w h = None"
    and "images (with_buffer h b w2) h = image_zero\<lparr>img_buffer := b\<rparr>"
    and "\<And>k. k \<noteq> h \<Longrightarrow> images (with_buffer h b w2) k = images w k \<and> htype (with_buffer h b w2) k = htype w k"
    and "callbacks (with_buffer h b w2) = callbacks w" and "locks (with_buffer h b w2) = locks w"
    and "b \<noteq> 0 \<Longrightarrow> \<exists>p k. b = p + 32 \<and> blocks w p = None \<and> blocks (with_buffer h b w2) p = Some k \<and>
          blk_header k \<noteq> None \<and> blk_size k = 32 + unat n \<and> unat n \<le> 2147483615"
proof -
  note c1 = zsa_image_t_create_inv [OF assms(1,2)] and a1 = allocator_alloc_inv [OF zsa_image_t_create_inv(1) [OF assms(1,2)] assms(4)]
  have dead: "h \<notin> held w2" "images w2 h = image_zero" using a1 c1 assms(3) by auto
  show "image_inv (with_buffer h b w2)" "held (with_buffer h b w2) = held w"
    using image_inv_put_dead [OF a1(1) dead(1), of "(images w2 h)\<lparr>img_buffer := b\<rparr>"] dead a1(2) c1(2)
    by (simp_all add: with_buffer_def image_zero_def)
  show "\<exists>p k. b = p + 32 \<and> blocks w p = None \<and> blocks (with_buffer h b w2) p = Some k \<and>
          blk_header k \<noteq> None \<and> blk_size k = 32 + unat n \<and> unat n \<le> 2147483615" if "b \<noteq> 0"
    using a1(7) [OF that] c1(4) by (simp add: with_buffer_def)
qed (use zsa_image_t_create_inv [OF assms(1,2)] assms(3) allocator_alloc_inv [OF zsa_image_t_create_inv(1) [OF assms(1,2)] assms(4)]
     in \<open>auto simp: with_buffer_def live_def\<close>)

lemma empty_image_made:
  assumes inv: "image_inv w" and c: "zsa_image_t_create w = (h, w1)" "h \<noteq> 0"
    and a: "allocator_alloc s n w1 = Some (b, w2)" "b \<noteq> 0"
    and l: "Lock_Init (with_buffer h b w2) = (l, w4)" "l \<noteq> 0"
  shows "image_inv (put_image h (fresh_image n b l) w4) \<and> made_image n h w (put_image h (fresh_image n b l) w4)"
proof -
  note b1 = with_buffer_inv [OF inv c a(1)]
  note l1 = Lock_Init_inv [OF b1(1) l(1)]
  let ?c = "fresh_image n b l"
  obtain p k where p: "b = p + 32" "blocks w p = None" "blocks w4 p = Some k" "blk_header k \<noteq> None"
      "blk_size k = 32 + unat n" "unat n \<le> 2147483615" using b1(10) [OF a(2)] l1(6) by auto
  have live: "live H_image w4 h" using b1(4) l1(4) by (simp add: live_def)
  have "image_wf w4 ?c"
    using p l(2) l1(7) by (auto simp: image_wf_def buffer_ok_def fresh_image_def)
  moreover have "apart (images w4 j) ?c" if "j \<in> held w4" for j
  proof -
    have j: "j \<in> held w" "j \<noteq> h" using that l1(2) b1(2,3) by auto
    have "apart (images w j) ?c"
      using p(1,2) l1(8) b1(9) by (intro fresh_apart [OF inv j(1)]) (auto simp: fresh_image_def)
    then show ?thesis using b1(7) [OF j(2)] l1(3) by simp
  qed
  ultimately have "image_inv (put_image h ?c w4)" "held (put_image h ?c w4) = insert h (held w)"
    using image_inv_new [OF l1(1) live, of ?c] l1(2) b1(2,3) by (auto simp: fresh_image_def)
  moreover have "images (put_image h ?c w4) h = fresh_image n (p + 32) l" using p(1) by simp
  ultimately show ?thesis unfolding made_image_def using c(2) b1(5,7,8) l1(3,4,5) p(2,3,5,6) by fastforce
qed

lemma empty_image_no_lock:
  assumes inv: "image_inv w" and c: "zsa_image_t_create w = (h, w1)" "h \<noteq> 0"
    and a: "allocator_alloc s n w1 = Some (b, w2)" "b \<noteq> 0" and l: "Lock_Init (with_buffer h b w2) = (0, w4)"
  shows "\<exists>w'. image_dec_ref h (put_image h (fresh_image n b 0) w4) = Some w' \<and> image_inv w' \<and> kept_images w w'"
proof -
  note b1 = with_buffer_inv [OF inv c a(1)]
  note l1 = Lock_Init_inv [OF b1(1) l(1)]
  let ?c = "fresh_image n b 0"
  have c: "img_ref_count ?c = 1" "img_lock ?c = 0" "owns_buffer ?c" "img_buffer ?c = b"
    by (simp_all add: fresh_image_def owns_buffer_def)
  have live: "live H_image w4 h" and dead: "h \<notin> held w4" using b1(2,3,4) l1(2,4) by (simp_all add: live_def)
  have ok: "buffer_ok w4 ?c" using b1(10) [OF a(2)] l1(6) by (auto simp: buffer_ok_def fresh_image_def)
  have others: "img_buffer (images w4 k) \<noteq> img_buffer ?c" if k: "k \<in> held w4" "owns_buffer (images w4 k)" for k
  proof -
    have kw: "k \<in> held w" "k \<noteq> h" using k(1) l1(2) b1(2,3) by auto
    moreover have "images w4 k = images w k" using b1(7) [OF kw(2)] l1(3) by simp
    ultimately have "k \<in> held w" "images w4 k = images w k" by simp_all
    then show ?thesis using held_wf [OF inv, of k] k(2) b1(10) [OF a(2)] c(4)
      by (auto simp: image_wf_def buffer_ok_def)
  qed
  have "kept_images w w4" unfolding kept_images_def
    using l1(2,3) b1(2,3,7) by metis
  then have "kept_images w (unlocked_release h ?c w4)"
    using image_inv_unlocked_release(2) [OF l1(1) dead others ok] by (simp add: kept_images_def)
  then show ?thesis
    using image_dec_ref_unlocked [OF l1(1) live c(1,2) ok] image_inv_unlocked_release(1) [OF l1(1) dead others ok]
    by blast
qed

text \<open>
  Without a buffer the new image has the count 0 of a cleared context; the release of the error path
  counts on to -1, so that neither this nor any later call ever destroys the handle.
\<close>

lemma empty_image_no_buffer:
  assumes inv: "image_inv w" and c: "zsa_image_t_create w = (h, w1)" "h \<noteq> 0"
    and a: "allocator_alloc s n w1 = Some (0, w2)"
  shows "\<exists>w'. image_dec_ref h (with_buffer h 0 w2) = Some w' \<and> image_inv w' \<and> kept_images w w' \<and>
    live H_image w' h \<and> img_ref_count (images w' h) = - 1"
proof -
  note b1 = with_buffer_inv [OF inv c a]
  let ?w = "with_buffer h 0 w2" and ?c = "image_zero\<lparr>img_buffer := 0, img_ref_count := - 1\<rparr>"
  have "image_dec_ref h ?w = Some (put_image h ?c ?w)"
    using b1(6) by (subst image_dec_ref_keep [OF b1(4)]) (simp_all add: image_zero_def)
  moreover have "image_inv (put_image h ?c ?w)" "held (put_image h ?c ?w) = held w"
    using image_inv_put_dead [OF b1(1), of h ?c] b1(2,3) by simp_all
  moreover have "kept_images w (put_image h ?c ?w)"
    unfolding kept_images_def using calculation(3) b1(3,7) by auto
  ultimately show ?thesis using b1(4) by simp
qed

lemma image_create_empty_image_inv:
  assumes inv: "image_inv w" and run: "image_create_empty_image s n out w = Some (r, out', w')"
  shows "image_inv w' \<and> (if r = ZSA_RESULT_SUCCEEDED then \<exists>h. out' = Some h \<and> made_image n h w w'
                          else kept_images w w' \<and> (out' = out \<or> out' = Some 0))"
proof (cases "out = None \<or> n = 0 \<or> source_out_of_range s")
  case True
  then have "r = ZSA_RESULT_FAILED \<and> out' = out \<and> w' = w"
    using run by (auto simp: image_create_empty_image_def split: if_splits)
  then show ?thesis using inv by (simp add: kept_images_def)
next
  case False
  then obtain v where v: "out = Some v" "n \<noteq> 0" "\<not> source_out_of_range s" by auto
  obtain h w1 where c: "zsa_image_t_create w = (h, w1)" by fastforce
  show ?thesis
  proof (cases "h = 0")
    case True
    then have "r = ZSA_RESULT_FAILED \<and> out' = Some 0 \<and> w' = w1"
      using run v c by (auto simp: image_create_empty_image_def image_dec_ref_def)
    then show ?thesis using zsa_image_t_create_inv [OF inv c] True by (simp add: kept_images_def)
  next
    case h: False
    obtain b w2 where a: "allocator_alloc s n w1 = Some (b, w2)"
      using run v c h by (auto simp: image_create_empty_image_def bind_Some_iff)
    obtain l w4 where l: "Lock_Init (with_buffer h b w2) = (l, w4)" by fastforce
    note run' = run [unfolded v(1) empty_image_run [OF v(2,3) c h inv a]]
    show ?thesis
      using empty_image_no_buffer [OF inv c h, of s n w2] empty_image_no_lock [OF inv c h a, of w4]
        empty_image_made [OF inv c h a _ l] run' a l
      by (cases "b = 0"; cases "l = 0") auto
  qed
qed

lemma image_create_cases:
  assumes inv: "image_inv w" and run: "image_create fmt wd ht st s out w = Some (r, out', w')"
  obtains (rejected) "r = ZSA_RESULT_FAILED" "w' = w" "out' = out \<or> out' = Some 0"
  | (failed) n where "r = ZSA_RESULT_FAILED" "image_create_empty_image s n (Some 0) w = Some (r, out', w')"
  | (made) n h w1 where "r = ZSA_RESULT_SUCCEEDED" "out' = Some h" "0 < wd" "wd < 20000" "0 < ht" "ht < 20000"
      "image_create_size fmt wd ht st = Some n"
      "image_create_empty_image s n (Some 0) w = Some (ZSA_RESULT_SUCCEEDED, Some h, w1)"
      "w' = put_image h ((images w1 h)\<lparr>img_format := fmt, img_width_pixels := wd,
              img_height_pixels := ht, img_stride_bytes := st\<rparr>) w1"
proof (cases "out = None \<or> \<not> format_in_range fmt \<or> \<not> (0 < wd \<and> wd < 20000) \<or> \<not> (0 < ht \<and> ht < 20000) \<or>
    image_create_size fmt wd ht st = None")
  case True
  then show ?thesis using run by (intro rejected) (auto simp: image_create_def split: if_splits option.splits)
next
  case False
  then obtain v n where v: "out = Some v" "image_create_size fmt wd ht st = Some n" by auto
  obtain r1 out1 w1 where e: "image_create_empty_image s n (Some 0) w = Some (r1, out1, w1)"
    using run False v by (auto simp: image_create_def bind_Some_iff)
  note e1 = image_create_empty_image_inv [OF inv e]
  show ?thesis
  proof (cases r1)
    case ZSA_RESULT_FAILED
    then have "out1 = Some 0" using e1 by auto
    then have "r = ZSA_RESULT_FAILED \<and> out' = out1 \<and> w' = w1"
      using run False v e ZSA_RESULT_FAILED by (simp add: image_create_def)
    then show ?thesis using e ZSA_RESULT_FAILED by (intro failed [of n]) auto
  next
    case ZSA_RESULT_SUCCEEDED
    then obtain h where h: "out1 = Some h" "made_image n h w w1" using e1 by auto
    then have "live H_image w1 h" by (intro held_live) (simp add: made_image_def)
    then show ?thesis using run False v e ZSA_RESULT_SUCCEEDED h(1)
      by (intro made [of h n w1]) (auto simp: image_create_def)
  qed
qed

lemma image_create_inv:
  assumes inv: "image_inv w" and run: "image_create fmt wd ht st s out w = Some (r, out', w')"
  shows "image_inv w' \<and> (if r = ZSA_RESULT_SUCCEEDED then \<exists>h. out' = Some h \<and> h \<notin> held w \<and> held w' = insert h (held w)
                          else kept_images w w')"
  using inv run
proof (cases rule: image_create_cases)
  case rejected
  then show ?thesis using inv by (simp add: kept_images_def)
next
  case (failed n)
  then show ?thesis using image_create_empty_image_inv [OF inv failed(2)] by simp
next
  case (made n h w1)
  have e: "image_inv w1" "made_image n h w w1"
    using image_create_empty_image_inv [OF inv made(8)] by auto
  then have h: "h \<in> held w1" by (simp add: made_image_def)
  have "h \<notin> held w" using e(2) by (auto simp: made_image_def held_def live_def)
  moreover have "image_inv w'" unfolding made(9)
    using h by (intro image_inv_put [OF e(1)]) (auto simp: same_resources_def)
  moreover have "held w' = held w1" unfolding made(9) using h by (auto simp: held_put_image held_def)
  ultimately show ?thesis using made(1,2) e(2) by (simp add: made_image_def)
qed

subsection \<open>How many bytes an image needs\<close>

text \<open>Bytes of a pixel within a row, and rows of data (NV12 has half as many again for the colours).\<close>

fun bytes_per_pixel :: "zsa_image_format_t \<Rightarrow> int" where
  "bytes_per_pixel ZSA_IMAGE_FORMAT_COLOR_NV12 = 1"
| "bytes_per_pixel ZSA_IMAGE_FORMAT_CUSTOM8 = 1"
| "bytes_per_pixel ZSA_IMAGE_FORMAT_DEPTH16 = 2"
| "bytes_per_pixel ZSA_IMAGE_FORMAT_IR16 = 2"
| "bytes_per_pixel ZSA_IMAGE_FORMAT_CUSTOM16 = 2"
| "bytes_per_pixel ZSA_IMAGE_FORMAT_COLOR_YUY2 = 2"
| "bytes_per_pixel ZSA_IMAGE_FORMAT_COLOR_BGRA32 = 4"
| "bytes_per_pixel _ = 0"

definition rows_of_data :: "zsa_image_format_t \<Rightarrow> int \<Rightarrow> int" where
  "rows_of_data fmt ht = (if fmt = ZSA_IMAGE_FORMAT_COLOR_NV12 then ht + ht div 2 else ht)"

definition is_int32 :: "int \<Rightarrow> bool" where
  "is_int32 x \<longleftrightarrow> - 2147483648 \<le> x \<and> x \<le> INT32_MAX"

lemma uint_size_prod: "uint (size_t a * size_t b) = (a * b) mod 2 ^ 64"
proof -
  have eq: "size_t a * size_t b = word_of_int (a * b)" by (simp add: size_t_def)
  show ?thesis unfolding eq uint_word_of_int by simp
qed

lemma uint_size_nv12: "uint (3 * size_t a * size_t b div 2) = (3 * a * b) mod 2 ^ 64 div 2"
proof -
  have eq: "3 * size_t a * size_t b = word_of_int (3 * a * b)" by (simp add: size_t_def)
  show ?thesis unfolding eq uint_div uint_word_of_int by simp
qed

lemma dims_small:
  assumes "0 < ht" "ht < (20000 :: int)" "is_int32 st"
  shows "- (2 ^ 46) < ht * st" "3 * (ht * st) < 2 ^ 48"
proof -
  have "\<bar>ht * st\<bar> \<le> 20000 * 2147483648"
    unfolding abs_mult using assms by (intro mult_mono) (auto simp: is_int32_def)
  then show "- (2 ^ 46) < ht * st" "3 * (ht * st) < 2 ^ 48" by simp_all
qed

lemma image_create_size_exact:
  assumes "image_create_size fmt wd ht st = Some n" "0 < wd" "0 < ht" "ht < 20000" "is_int32 st"
  shows "if 0 \<le> st then int (unat n) = rows_of_data fmt ht * st \<and> bytes_per_pixel fmt * wd \<le> st
         else int (unat n) = 18446744073709551616 + ht * st"
proof (cases "fmt = ZSA_IMAGE_FORMAT_COLOR_NV12")
  case True
  then have n: "n = 3 * size_t ht * size_t st div 2" "even ht" "wd \<le> st"
    using assms(1) by (auto split: if_splits)
  then have "0 \<le> 3 * ht * st" "3 * ht * st < 2 ^ 64" using assms(2-5) dims_small [of ht st] by auto
  then have "int (unat n) = 3 * ht * st div 2"
    unfolding n(1) uint_nat [symmetric] uint_size_nv12 by simp
  moreover have "3 * ht * st div 2 = (ht + ht div 2) * st" using n(2) by (auto elim!: evenE)
  ultimately show ?thesis using True n(3) assms(2) by (simp add: rows_of_data_def)
next
  case False
  then have n: "n = size_t ht * size_t st" "bytes_per_pixel fmt * wd \<le> st \<or> bytes_per_pixel fmt = 0"
    using assms(1) by (cases fmt; auto split: if_splits)+
  have v: "int (unat n) = (ht * st) mod 2 ^ 64" unfolding n(1) uint_nat [symmetric] by (rule uint_size_prod)
  show ?thesis
  proof (cases "0 \<le> st")
    case True
    then have "0 \<le> ht * st" "ht * st < 2 ^ 64" using assms(3-5) dims_small [of ht st] by auto
    then have "(ht * st) mod 2 ^ 64 = ht * st" by simp
    then show ?thesis using True v n(2) False by (auto simp: rows_of_data_def)
  next
    case neg: False
    then have "ht * st < 0" using assms(3) by (simp add: mult_pos_neg)
    moreover have "- (2 ^ 46) < ht * st" using dims_small(1) [of ht st] assms(3-5) by simp
    ultimately have "(ht * st + 2 ^ 64) mod 2 ^ 64 = ht * st + 2 ^ 64" by (intro mod_pos_pos_trivial) simp_all
    then have "(ht * st) mod 2 ^ 64 = 2 ^ 64 + ht * st" by (simp only: mod_add_self2 add.commute)
    then show ?thesis using neg v by simp
  qed
qed

subsection \<open>An image over the caller's buffer\<close>

lemma image_create_from_buffer_inv:
  assumes inv: "image_inv w" and cb: "cb \<noteq> Some CB_image_default_free_function"
    and run: "image_create_from_buffer fmt wd ht st buf n cb ctx out w = Some (r, out', w')"
  shows "image_inv w' \<and> callbacks w' = callbacks w \<and> blocks w' = blocks w \<and>
    (if r = ZSA_RESULT_SUCCEEDED
     then \<exists>h. out' = Some h \<and> h \<notin> held w \<and> held w' = insert h (held w) \<and>
        (\<exists>l. images w' h = image_zero\<lparr>img_ref_count := 1, img_lock := l, img_buffer := buf, img_buffer_size := n,
           img_format := fmt, img_width_pixels := wd, img_height_pixels := ht, img_stride_bytes := st,
           img_memory_free_cb := cb, img_memory_free_cb_context := ctx\<rparr>)
     else kept_images w w' \<and> htype w' = htype w \<and> (out' = out \<or> out' = Some 0))"
proof (cases "out = None \<or> \<not> format_in_range fmt \<or> wd \<le> 0 \<or> wd > 20000 \<or> ht \<le> 0 \<or> ht > 20000 \<or> buf = 0 \<or> n = 0")
  case True
  then have "r = ZSA_RESULT_FAILED \<and> out' = out \<and> w' = w"
    using run by (auto simp: image_create_from_buffer_def split: if_splits)
  then show ?thesis using inv by (simp add: kept_images_def)
next
  case False
  then have ok: "out \<noteq> None" "format_in_range fmt" "0 < wd" "wd \<le> 20000" "0 < ht" "ht \<le> 20000" "buf \<noteq> 0" "n \<noteq> 0"
    by auto
  obtain h w1 where c: "zsa_image_t_create w = (h, w1)" by fastforce
  note c1 = zsa_image_t_create_inv [OF inv c]
  obtain l w2 where l: "Lock_Init w1 = (l, w2)" by fastforce
  note l1 = Lock_Init_inv [OF c1(1) l]
  let ?c = "image_zero\<lparr>img_ref_count := 1, img_lock := l, img_buffer := buf, img_buffer_size := n,
           img_format := fmt, img_width_pixels := wd, img_height_pixels := ht, img_stride_bytes := st,
           img_memory_free_cb := cb, img_memory_free_cb_context := ctx\<rparr>"
  consider "h = 0" | "h \<noteq> 0" "l = 0" | "h \<noteq> 0" "l \<noteq> 0" by blast
  then show ?thesis
  proof cases
    case 1
    then have "r = ZSA_RESULT_FAILED \<and> out' = Some 0 \<and> w' = w1"
      using run ok c by (auto simp: image_create_from_buffer_def)
    then show ?thesis using c1 1 by (simp add: kept_images_def)
  next
    case 2
    let ?d = "?c\<lparr>img_buffer := 0\<rparr>"
    have dead: "h \<notin> held w2" "live H_image w2 h" "htype w h = None" using l1(2,4) c1(2,3,7) 2 by (simp_all add: live_def)
    have img: "images w2 h = image_zero" "(htype w2)(h := None) = htype w"
      using l1(3,4) c1(8,9) 2 dead(3) by auto
    have "handle_destroy h (put_image h ?d w2) = Some ((put_image h ?d w2)\<lparr>htype := htype w\<rparr>)"
      using dead(2) img(2) by (simp add: handle_destroy_def live_def)
    then have "handle_destroy h (put_image h ?d (put_image h ?c w2)) = Some ((put_image h ?d w2)\<lparr>htype := htype w\<rparr>)"
      by (simp only: image_store.put_put)
    then have w': "r = ZSA_RESULT_FAILED \<and> out' = Some 0 \<and> w' = (put_image h ?d w2)\<lparr>htype := htype w\<rparr>"
      using run ok c l 2 img(1) by (simp del: not_None_eq add: image_create_from_buffer_def image_zero_def)
    have fields: "htype w' = htype w" "images w' = (images w)(h := ?d)" "locks w' = locks w" "blocks w' = blocks w"
        "callbacks w' = callbacks w"
      using w' l1(3,5,6,7) c1(4,5,6,9) 2 by simp_all
    have held: "held w' = held w" using dead(3) by (auto simp: held_def live_def fields(1,2))
    have "images_ok w'"
      by (rule images_ok_same [OF image_invD(2) [OF inv] held]) (use fields c1(3) in auto)
    moreover have "alloc_inv w'"
    proof -
      have "mem_ok w2" using image_invD(1) [OF l1(1)] by (rule alloc_invD)
      then have "mem_ok w'" using w' fields(1) l1(4) c1(8) 2 by (auto simp: mem_ok_def)
      then show ?thesis
        using w' by (intro alloc_inv_other [OF image_invD(1) [OF l1(1)]]) (auto simp: put_image_def)
    qed
    ultimately show ?thesis using w' fields held c1(3) by (auto simp: image_inv_def kept_images_def)
  next
    case 3
    have live: "live H_image w2 h" using l1(4) c1(7) 3 by (simp add: live_def)
    have w': "r = ZSA_RESULT_SUCCEEDED \<and> out' = Some h \<and> w' = put_image h ?c w2"
      using run ok c l 3 l1(3) c1(9) by (auto simp: image_create_from_buffer_def Let_def image_zero_def)
    have "image_wf w2 ?c" using 3 l1(7) cb by (simp add: image_wf_def owns_buffer_def)
    moreover have "apart (images w2 k) ?c" if k: "k \<in> held w2" for k
      using held_wf [OF c1(1), of k] k l1(2,3,8) cb by (auto simp: apart_def owns_buffer_def image_wf_def)
    ultimately have "image_inv w'" "held w' = insert h (held w)"
      using w' image_inv_new [OF l1(1) live, of ?c] l1(2) c1(2,3) by simp_all
    then show ?thesis using w' c1(3,4,5) l1(5,6) by auto
  qed
qed

subsection \<open>Images as reference-counted objects\<close>

definition image_refs :: "'a image_world_scheme \<Rightarrow> ptr \<Rightarrow> int" where
  "image_refs w h = (if h \<in> held w then img_ref_count (images w h) else 0)"

text \<open>Steps of other components that touch no image.\<close>

lemma image_inv_frame:
  assumes "image_inv w" and "alloc_inv w'" and "images w' = images w" and "blocks w' = blocks w"
    and "\<And>h. live H_image w' h = live H_image w h"
    and "\<And>h. h \<in> held w \<Longrightarrow> locks w' (img_lock (images w h)) = locks w (img_lock (images w h))"
  shows "image_inv w'" and "held w' = held w" and "image_refs w' = image_refs w"
proof -
  show held: "held w' = held w" using assms(3,5) by (simp add: held_def)
  have "images_ok w'"
    by (rule images_ok_same [OF image_invD(2) [OF assms(1)] held]) (use assms in auto)
  then show "image_inv w'" using assms(2) by (simp add: image_inv_def)
  show "image_refs w' = image_refs w" by (simp add: image_refs_def fun_eq_iff held assms(3))
qed

lemma handle_create_other:
  assumes "image_inv w" and "handle_create T w = (h, w1)" and "T \<noteq> H_image"
  shows "image_inv w1" and "held w1 = held w" and "image_refs w1 = image_refs w" and "images w1 = images w"
    and "locks w1 = locks w" and "conds w1 = conds w"
    and "h \<noteq> 0 \<Longrightarrow> live T w1 h \<and> htype w h = None"
    and "htype w1 = (if h = 0 then htype w else (htype w)(h := Some T))"
    and "image_world.more w1 = image_world.more w" and "callbacks w1 = callbacks w"
    and "g_allocator_sessions w1 = g_allocator_sessions w"
proof -
  note inv = image_invD(1) [OF assms(1)]
  have none: "htype w (next_addr w) = None" using alloc_invD(1) [OF inv] by (auto simp: mem_ok_def)
  show all: "images w1 = images w" "locks w1 = locks w" "conds w1 = conds w"
    "h \<noteq> 0 \<Longrightarrow> live T w1 h \<and> htype w h = None" "htype w1 = (if h = 0 then htype w else (htype w)(h := Some T))"
    "image_world.more w1 = image_world.more w" "callbacks w1 = callbacks w"
    "g_allocator_sessions w1 = g_allocator_sessions w"
    using alloc_invD(5) [OF inv] assms(2) none by (cases rule: handle_create_cases; auto simp: live_def)+
  have "blocks w1 = blocks w" using alloc_invD(5) [OF inv] assms(2) by (cases rule: handle_create_cases) auto
  moreover have "live H_image w1 k = live H_image w k" for k
    using assms(3) all(4,5) by (auto simp: live_def)
  ultimately show "image_inv w1" "held w1 = held w" "image_refs w1 = image_refs w"
    using image_inv_frame [OF assms(1) alloc_inv_handle_create [OF inv assms(2)] all(1)] all(2) by simp_all
qed

text \<open>What the layers above see of the state: everything that is not an image's.\<close>

definition other_handles :: "handle_type set \<Rightarrow> 'a mem_scheme \<Rightarrow> ptr \<Rightarrow> handle_type option" where
  "other_handles S w h = (case htype w h of None \<Rightarrow> None | Some t \<Rightarrow> if t \<in> S then None else Some t)"

definition other_locks :: "'a image_world_scheme \<Rightarrow> ptr \<Rightarrow> bool option" where
  "other_locks w l = (if l \<in> (\<lambda>h. img_lock (images w h)) ` held w then None else locks w l)"

definition image_stamps :: "'a image_world_scheme \<Rightarrow> ptr \<Rightarrow> u64" where
  "image_stamps w i = img_dev_timestamp_usec (images w i)"

definition image_rest where
  "image_rest w = (image_world.more w, other_handles {H_image} w, other_locks w, conds w, next_addr w, os_grants w,
     os_requests w, g_allocator_sessions w, image_stamps w)"

lemma image_refs_pos: "0 < image_refs w h \<longleftrightarrow> h \<in> held w"
  by (auto simp: image_refs_def held_def)

lemma image_put_count:
  assumes "image_inv w" and "h \<in> held w" and "0 < n"
  defines "w' \<equiv> put_image h ((images w h)\<lparr>img_ref_count := n\<rparr>) w"
  shows "image_inv w'" and "image_refs w' = (image_refs w)(h := n)" and "image_rest w' = image_rest w"
proof -
  show "image_inv w'" unfolding w'_def using assms(1,2) by (intro image_inv_put) (auto simp: same_resources_def)
  have held: "held w' = held w" using assms(2,3) by (auto simp: w'_def held_put_image held_def)
  then show "image_refs w' = (image_refs w)(h := n)"
    using assms(2) by (auto simp: image_refs_def fun_eq_iff w'_def)
  have eq: "(\<lambda>k. img_lock (images w' k)) = (\<lambda>k. img_lock (images w k))" "locks w' = locks w"
    by (auto simp: w'_def fun_eq_iff)
  have "other_locks w' = other_locks w" unfolding other_locks_def held eq ..
  then show "image_rest w' = image_rest w"
    by (simp add: image_rest_def image_stamps_def other_handles_def fun_eq_iff w'_def put_image_def)
qed

lemma image_after_last_frame:
  assumes "image_inv w" and "h \<in> held w"
  shows "image_refs (after_last h w) = (image_refs w)(h := 0)" and "image_rest (after_last h w) = image_rest w"
proof -
  show "image_refs (after_last h w) = (image_refs w)(h := 0)"
    by (auto simp: image_refs_def held_after_last fun_eq_iff)
  have "other_locks (after_last h w) l = other_locks w l" for l
  proof (cases "l = img_lock (images w h)")
    case True
    then show ?thesis using assms(2) by (simp add: other_locks_def)
  next
    case False
    then show ?thesis by (auto simp: other_locks_def held_after_last image_iff)
  qed
  moreover have "other_handles {H_image} (after_last h w) = other_handles {H_image} w"
    using held_live [OF assms(2)] by (auto simp: other_handles_def live_def fun_eq_iff)
  moreover have "image_world.more (after_last h w) = image_world.more w"
      "g_allocator_sessions (after_last h w) = g_allocator_sessions w"
    by (simp_all add: after_last_def drop_buffer_def after_free_def counted_def put_image_def
        split: option.splits image_destroy_cb_t.splits)
  moreover have "image_stamps (after_last h w) = image_stamps w" by (simp add: image_stamps_def fun_eq_iff)
  ultimately show "image_rest (after_last h w) = image_rest w" by (simp add: image_rest_def fun_eq_iff)
qed

interpretation image_rc: refcounted image_inv image_refs image_rest image_inc_ref image_dec_ref
proof
  fix w :: "'a image_world_scheme" and h
  show "0 \<le> image_refs w h" by (simp add: image_refs_def held_def)
  assume inv: "image_inv w" and "0 < image_refs w h"
  then have h: "h \<in> held w" by (simp add: image_refs_pos)
  then have n: "image_refs w h = img_ref_count (images w h)" "0 < img_ref_count (images w h)"
    by (simp_all add: image_refs_def held_def)
  show "\<exists>w'. image_inc_ref h w = Some w' \<and> image_inv w' \<and>
      image_refs w' = (image_refs w)(h := image_refs w h + 1) \<and> image_rest w' = image_rest w"
    using image_put_count [OF inv h, of "img_ref_count (images w h) + 1"] n
    by (simp add: image_inc_ref_def image_write_live [OF held_live [OF h]])
  show "\<exists>w'. image_dec_ref h w = Some w' \<and> image_inv w' \<and>
      image_refs w' = (image_refs w)(h := image_refs w h - 1) \<and> image_rest w' = image_rest w"
  proof (cases "img_ref_count (images w h) = 1")
    case True
    then show ?thesis
      using image_dec_ref_last [OF inv held_live [OF h]] image_inv_after_last [OF inv h] image_after_last_frame [OF inv h] n
      by simp
  next
    case False
    then show ?thesis
      using image_dec_ref_keep [OF held_live [OF h]] image_put_count [OF inv h, of "img_ref_count (images w h) - 1"] n
      by simp
  qed
qed

subsection \<open>Runs\<close>

text \<open>
  The states the clients of this component can reach, when each of them releases and uses only
  images it holds a reference to.
\<close>

inductive image_step :: "'a image_world_scheme \<Rightarrow> 'a image_world_scheme \<Rightarrow> bool" where
  istep_create: "image_create fmt wd ht st s out w = Some (r, out', w') \<Longrightarrow> image_step w w'"
| istep_empty: "image_create_empty_internal s n out w = Some (r, out', w') \<Longrightarrow> image_step w w'"
| istep_buffer: "cb \<noteq> Some CB_image_default_free_function \<Longrightarrow>
    image_create_from_buffer fmt wd ht st buf n cb ctx out w = Some (r, out', w') \<Longrightarrow> image_step w w'"
| istep_inc: "h \<in> held w \<Longrightarrow> image_inc_ref h w = Some w' \<Longrightarrow> image_step w w'"
| istep_dec: "h \<in> held w \<Longrightarrow> image_dec_ref h w = Some w' \<Longrightarrow> image_step w w'"
| istep_size: "h \<in> held w \<Longrightarrow> image_set_size h n w = Some w' \<Longrightarrow> image_step w w'"
| istep_dev_ts: "h \<in> held w \<Longrightarrow> image_set_device_timestamp_usec h t w = Some w' \<Longrightarrow> image_step w w'"
| istep_sys_ts: "h \<in> held w \<Longrightarrow> image_set_system_timestamp_nsec h t w = Some w' \<Longrightarrow> image_step w w'"
| istep_clock: "h \<in> held w \<Longrightarrow> image_apply_system_timestamp h w = Some (r, w') \<Longrightarrow> image_step w w'"
| istep_exposure: "h \<in> held w \<Longrightarrow> image_set_exposure_usec h t w = Some w' \<Longrightarrow> image_step w w'"
| istep_balance: "h \<in> held w \<Longrightarrow> image_set_white_balance h v w = Some w' \<Longrightarrow> image_step w w'"
| istep_iso: "h \<in> held w \<Longrightarrow> image_set_iso_speed h v w = Some w' \<Longrightarrow> image_step w w'"

lemma image_write_inv:
  assumes "image_inv w" and "h \<in> held w" and "image_write f h w = Some w'"
    and "same_resources (f (images w h)) (images w h)" and "img_buffer_size (f (images w h)) = img_buffer_size (images w h)"
  shows "image_inv w'"
  using assms by (auto simp: image_write_live [OF held_live] intro!: image_inv_put)

lemma image_inv_clock: "image_inv (w\<lparr>clock_reads := n\<rparr>) = image_inv w"
  by (simp add: image_inv_def alloc_inv_defs mem_ok_def images_ok_def held_def live_def image_wf_def buffer_ok_def)

lemma image_clock_inv:
  assumes "image_inv w" and "h \<in> held w" and "image_apply_system_timestamp h w = Some (r, w')"
  shows "image_inv w'"
proof -
  let ?w = "w\<lparr>clock_reads := Suc (clock_reads w)\<rparr>"
  have inv: "image_inv ?w" and h: "h \<in> held ?w" using assms(1,2) by (simp_all add: image_inv_clock held_def live_def)
  have "w' = ?w \<or> (\<exists>t. w' = put_image h ((images ?w h)\<lparr>img_sys_timestamp_nsec := t\<rparr>) ?w)"
    using assms(3) held_live [OF assms(2)]
    by (auto simp: image_apply_system_timestamp_def Let_def split: option.splits)
  then show ?thesis using inv image_inv_put [OF inv h] by (auto simp: same_resources_def)
qed

lemma image_step_inv: "image_step w w' \<Longrightarrow> image_inv w \<Longrightarrow> image_inv w'"
proof (induction rule: image_step.induct)
  case (istep_create fmt wd ht st s out w r out' w')
  then show ?case using image_create_inv by blast
next
  case (istep_empty s n out w r out' w')
  then have "w' = w \<or> image_create_empty_image s n out w = Some (r, out', w')"
    by (auto simp: image_create_empty_internal_def split: if_splits)
  then show ?case using istep_empty.prems image_create_empty_image_inv by blast
next
  case (istep_buffer cb fmt wd ht st buf n ctx out w r out' w')
  then show ?case using image_create_from_buffer_inv by blast
next
  case (istep_dec h w w')
  then show ?case using image_rc.dec_held [of w h] by (auto simp: image_refs_pos)
next
  case (istep_size h w n w')
  then show ?case using held_live [of h w]
    by (auto simp: image_set_size_def same_resources_def intro!: image_inv_put split: if_splits)
next
  case (istep_clock h w r w')
  then show ?case using image_clock_inv by blast
qed (auto simp: image_setters same_resources_def elim!: image_write_inv [rotated 2])

subsection \<open>Properties\<close>

text \<open>A state with one image over a caller's buffer and one over a buffer of the allocator.\<close>

definition two_images :: image_world where
  "two_images =
     \<lparr>next_addr = 200, os_grants = (\<lambda>_. True), os_requests = 0,
      htype = [1 \<mapsto> H_image, 3 \<mapsto> H_image], locks = [5 \<mapsto> False, 7 \<mapsto> False], conds = (\<lambda>_. False),
      g_init_once = True, g_lock = RW_READERS 0, g_alloc = CB_default_alloc, g_free = CB_default_free,
      image_count = (\<lambda>_. 0)(ALLOCATION_SOURCE_USER := 1), g_allocator_sessions = 0,
      blocks = [100 \<mapsto> \<lparr>blk_size = 40,
                 blk_header = Some \<lparr>ac_source = ALLOCATION_SOURCE_USER, ac_free = CB_default_free, ac_free_context = 0\<rparr>\<rparr>],
      user_contexts = (\<lambda>_. 0), callbacks = [],
      images = (\<lambda>_. image_zero)
        (1 := image_zero\<lparr>img_ref_count := 2, img_lock := 5, img_buffer := 1000, img_buffer_size := 8,
                 img_memory_free_cb := Some (CB_image_user 9), img_memory_free_cb_context := 77\<rparr>,
         3 := fresh_image 8 132 7),
      clock_gettime = (\<lambda>_. Some (5, 6)), clock_reads = 0\<rparr>"

lemma two_images_held: "held two_images = {1, 3}"
  by (auto simp: held_def live_def two_images_def fresh_image_def image_zero_def split: if_splits)

lemma two_images_inv: "image_inv two_images"
proof -
  have "alloc_inv two_images"
    by (auto simp: two_images_def alloc_inv_defs mem_ok_def source_out_of_range_iff sizeof_allocation_context_t_def
        split: if_splits)
  moreover have "images_ok two_images"
    unfolding images_ok_def two_images_held
    by (auto simp: two_images_def image_wf_def buffer_ok_def apart_def fresh_image_def owns_buffer_def image_zero_def)
  ultimately show ?thesis by (simp add: image_inv_def)
qed



text \<open>\<open>n\<close> releases in a row.\<close>

fun image_dec_refs :: "nat \<Rightarrow> ptr \<Rightarrow> 'a image_world_scheme \<Rightarrow> 'a image_world_scheme option" where
  "image_dec_refs 0 h w = Some w"
| "image_dec_refs (Suc n) h w = do { w \<leftarrow> image_dec_ref h w; image_dec_refs n h w }"

lemma image_dec_refs_keep:
  assumes "live H_image w h" and "int n < img_ref_count (images w h)"
  shows "image_dec_refs n h w =
    Some (put_image h ((images w h)\<lparr>img_ref_count := img_ref_count (images w h) - int n\<rparr>) w)"
  using assms
proof (induction n arbitrary: w)
  case 0
  then show ?case by (simp add: put_image_def)
next
  case (Suc n)
  have "img_ref_count (images w h) \<noteq> 1" using Suc.prems(2) by simp
  from image_dec_ref_keep [OF Suc.prems(1) this] show ?case
    using Suc.IH [of "put_image h ((images w h)\<lparr>img_ref_count := img_ref_count (images w h) - 1\<rparr>) w"] Suc.prems
    by (simp add: put_image_def live_def algebra_simps)
qed

lemma image_dec_refs_snoc: "image_dec_refs (Suc n) h w = do { w \<leftarrow> image_dec_refs n h w; image_dec_ref h w }"
proof (induction n arbitrary: w)
  case 0
  show ?case by (cases "image_dec_ref h w") simp_all
next
  case (Suc n)
  show ?case by (cases "image_dec_ref h w") (use Suc.IH in simp_all)
qed

text \<open>
  (C8) An image with \<open>n + 1\<close> references survives \<open>n\<close> releases untouched (no callback runs, no memory
  is released, the handle stays valid), and the next one ends it: its destroy callback runs exactly
  once, with its buffer and context, its lock is destroyed and the handle becomes invalid, while every
  other handle keeps its type.
\<close>

theorem image_released_once_with_last_reference:
  assumes "image_inv w" and "h \<in> held w" and "img_ref_count (images w h) = int (Suc n)"
  shows "(\<exists>w1. image_dec_refs n h w = Some w1 \<and> h \<in> held w1 \<and> callbacks w1 = callbacks w \<and>
             blocks w1 = blocks w \<and> locks w1 = locks w) \<and>
         (\<exists>w2. image_dec_refs (Suc n) h w = Some w2 \<and> image_inv w2 \<and>
             callbacks w2 = callbacks w @ release_calls w (images w h) \<and>
             htype w2 = (htype w)(h := None) \<and> locks w2 (img_lock (images w h)) = None \<and>
             handle_get_context H_image images h w2 = None)"
proof -
  let ?w1 = "put_image h ((images w h)\<lparr>img_ref_count := 1\<rparr>) w"
  have live: "live H_image w h" using assms(2) by (rule held_live)
  have run: "image_dec_refs n h w = Some ?w1" using image_dec_refs_keep [OF live, of n] assms(3) by simp
  have h1: "h \<in> held ?w1" using live by (simp add: held_def)
  have inv1: "image_inv ?w1" using assms(1,2) by (intro image_inv_put) (auto simp: same_resources_def)
  have last: "image_dec_refs (Suc n) h w = Some (after_last h ?w1)"
    unfolding image_dec_refs_snoc run using image_dec_ref_last [OF inv1] h1 live by (simp add: held_def)
  have same: "release_calls w ((images w h)\<lparr>img_ref_count := 1\<rparr>) = release_calls w (images w h)"
    by (simp add: release_calls_def block_header_def split: option.splits image_destroy_cb_t.splits)
  have "h \<noteq> 0" using live by (simp add: live_def)
  show ?thesis using run last h1 same image_inv_after_last [OF inv1 h1] \<open>h \<noteq> 0\<close>
    by (simp add: handle_get_context_def)
qed

theorem image_released_once_with_last_reference_witness:
  "\<exists>w2. image_dec_refs 2 1 two_images = Some w2 \<and> callbacks w2 = [Called_image_destroy 9 1000 77]"
proof -
  have "1 \<in> held two_images" by (simp add: two_images_held)
  moreover have "img_ref_count (images two_images 1) = int (Suc 1)" by (simp add: two_images_def)
  moreover have "callbacks two_images @ release_calls two_images (images two_images 1) = [Called_image_destroy 9 1000 77]"
    by (simp add: two_images_def release_calls_def)
  ultimately show ?thesis
    using image_released_once_with_last_reference [OF two_images_inv, of 1 1] by (metis Suc_1)
qed

text \<open>
  (C21) An image that \<open>image_create\<close> returns reports the requested format, width, height and stride;
  each row of pixels fits in the stride, and the buffer has room for every row of data (half as many
  again for NV12), computed without wrap-around for every stride that a C \<open>int\<close> can hold.
\<close>

theorem image_create_allocates_enough:
  assumes "image_inv w" and "is_int32 st"
    and "image_create fmt wd ht st s out w = Some (ZSA_RESULT_SUCCEEDED, Some h, w')"
  shows "image_get_format h w' = Some fmt \<and> image_get_width_pixels h w' = Some wd \<and>
         image_get_height_pixels h w' = Some ht \<and> image_get_stride_bytes h w' = Some st \<and>
         0 \<le> st \<and> bytes_per_pixel fmt * wd \<le> st \<and>
         (\<exists>n p b. image_get_size h w' = Some n \<and> image_get_buffer h w' = Some (p + 32) \<and>
            int (unat n) = rows_of_data fmt ht * st \<and> blocks w' p = Some b \<and> blk_size b = 32 + unat n)"
  using assms(1,3)
proof (cases rule: image_create_cases)
  case (made n h1 w1)
  then have [simp]: "h1 = h" by simp
  have e: "made_image n h w w1" using image_create_empty_image_inv [OF assms(1) made(8)] by simp
  then obtain p l b where p: "images w1 h = fresh_image n (p + 32) l" "blocks w1 p = Some b"
      "blk_size b = 32 + unat n" "unat n \<le> 2147483615" by (auto simp: made_image_def)
  have live: "live H_image w' h" using e made(9) by (auto simp: made_image_def held_def)
  have exact: "if 0 \<le> st then int (unat n) = rows_of_data fmt ht * st \<and> bytes_per_pixel fmt * wd \<le> st
         else int (unat n) = 18446744073709551616 + ht * st"
    using image_create_size_exact made(3-7) assms(2) by blast
  moreover have "0 \<le> st"
  proof (rule ccontr)
    assume "\<not> 0 \<le> st"
    then have "int (unat n) = 18446744073709551616 + ht * st" using exact by (simp only: if_False)
    moreover have "- 70368744177664 < ht * st" using dims_small(1) [OF made(5,6) assms(2)] by simp
    ultimately show False using p(4) by linarith
  qed
  ultimately show ?thesis using live p made(9)
    by (simp add: image_getters image_read_live fresh_image_def image_zero_def)
qed auto

text \<open>A concrete run, for the witnesses.\<close>

definition boot_image :: "(nat \<Rightarrow> bool) \<Rightarrow> image_world" where
  "boot_image grants =
     \<lparr>next_addr = 1, os_grants = grants, os_requests = 0, htype = (\<lambda>_. None), locks = (\<lambda>_. None),
      conds = (\<lambda>_. False), g_init_once = True, g_lock = RW_READERS 0, g_alloc = CB_default_alloc,
      g_free = CB_default_free, image_count = (\<lambda>_. 0), g_allocator_sessions = 0,
      blocks = (\<lambda>_. None), user_contexts = (\<lambda>_. 0), callbacks = [], images = (\<lambda>_. image_zero),
      clock_gettime = (\<lambda>_. Some (5, 6)), clock_reads = 0\<rparr>"

lemma boot_image_inv: "image_inv (boot_image grants)"
  by (simp add: boot_image_def image_inv_def alloc_inv_defs mem_ok_def images_ok_def held_def live_def)

lemmas run_image = boot_image_def zsa_image_t_create_def handle_create_def
  c_malloc_def os_request_def put_image_def Lock_Init_def allocator_alloc_def allocator_global_t_get_def global_init_once_def
  call_alloc_def default_alloc_def new_block_def rwlock_release_read_def source_out_of_range_def
  sizeof_allocation_context_t_def live_def handle_get_context_def

theorem image_create_allocates_enough_witness:
  "\<exists>w' n. image_create ZSA_IMAGE_FORMAT_DEPTH16 4 2 8 ALLOCATION_SOURCE_USER (Some 0) (boot_image (\<lambda>_. True))
         = Some (ZSA_RESULT_SUCCEEDED, Some 1, w') \<and> image_get_size 1 w' = Some n \<and> int (unat n) = 16"
proof -
  obtain w' where run: "image_create ZSA_IMAGE_FORMAT_DEPTH16 4 2 8 ALLOCATION_SOURCE_USER (Some 0) (boot_image (\<lambda>_. True))
         = Some (ZSA_RESULT_SUCCEEDED, Some 1, w')"
    by (simp add: image_create_def image_create_empty_image_def run_image Let_def size_t_def)
  from image_create_allocates_enough [OF boot_image_inv _ this] show ?thesis
    using run by (auto simp: is_int32_def rows_of_data_def)
qed

text \<open>
  A negative stride passes the checks of \<open>image_create\<close> for a custom format. Converted to
  \<open>size_t\<close>, a product of height and stride between -32 and -1 then slips through the size check of the
  allocator, and the creation overruns the block it allocates instead of failing.
\<close>

lemma image_create_negative_stride_overruns:
  assumes "image_inv w" and "\<forall>n. os_grants w n" and "0 < wd" "wd < 20000" "0 < ht" "ht < 20000"
    and "- 32 \<le> ht * st" and "st < 0" and "is_int32 st"
  shows "image_create ZSA_IMAGE_FORMAT_CUSTOM wd ht st ALLOCATION_SOURCE_USER (Some v) w = None"
proof -
  let ?n = "size_t ht * size_t st"
  have n: "int (unat ?n) = 18446744073709551616 + ht * st"
    using image_create_size_exact [of ZSA_IMAGE_FORMAT_CUSTOM wd ht st ?n] assms(3,5,6,8,9) by simp
  then have "\<not> unat ?n + 32 < 18446744073709551616" using assms(7) by linarith
  then have wrap: "\<not> unat ?n + 32 < 2 ^ 64" by simp
  then have n0: "?n \<noteq> 0" by auto
  obtain h w1 where c: "zsa_image_t_create w = (h, w1)" by fastforce
  have w1: "image_inv w1" "h \<noteq> 0" "os_grants w1 = os_grants w"
    using zsa_image_t_create_inv(1) [OF assms(1) c] c assms(2) alloc_invD(5) [OF image_invD(1) [OF assms(1)]]
    by (auto simp: zsa_image_t_create_def handle_create_def c_malloc_def os_request_def)
  have "allocator_alloc ALLOCATION_SOURCE_USER ?n w1 = None"
    using required_bytes_wrap [OF wrap] n0 w1(3) assms(2)
    by (simp add: allocator_alloc_eq [OF image_invD(1) [OF w1(1)]] alloc_accepts_def source_out_of_range_iff)
  then show ?thesis using assms(3-6) c w1(2) n0
    by (simp add: image_create_def image_create_empty_image_def source_out_of_range_iff)
qed

lemma image_create_negative_stride_overruns_witness:
  "image_create ZSA_IMAGE_FORMAT_CUSTOM 1 1 (- 1) ALLOCATION_SOURCE_USER (Some 0) (boot_image (\<lambda>_. True)) = None"
proof -
  have "\<forall>n. os_grants (boot_image (\<lambda>_. True)) n" by (simp add: boot_image_def)
  from image_create_negative_stride_overruns [OF boot_image_inv this, of 1 1 "- 1"] show ?thesis
    by (simp add: is_int32_def)
qed

text \<open>
  (C24) The contract of \<open>image_create_from_buffer\<close>: when it fails, whatever the reason, it has called no
  callback, released no memory and left no handle behind, so the caller still owns the buffer; when it
  succeeds, the release of the single reference hands that buffer and its context to the caller's
  destroy callback.
\<close>

theorem create_from_buffer_ownership:
  assumes "image_inv w"
    and "image_create_from_buffer fmt wd ht st buf n (Some (CB_image_user cb)) ctx out w = Some (r, out', w')"
  shows "callbacks w' = callbacks w \<and> blocks w' = blocks w \<and>
    (case r of
       ZSA_RESULT_FAILED \<Rightarrow> htype w' = htype w \<and> out' \<in> {out, Some 0}
     | ZSA_RESULT_SUCCEEDED \<Rightarrow> (\<exists>h w2. out' = Some h \<and> h \<in> held w' - held w \<and> image_dec_ref h w' = Some w2 \<and>
         callbacks w2 = callbacks w @ [Called_image_destroy cb buf ctx] \<and> blocks w2 = blocks w \<and> htype w2 h = None))"
proof -
  note made = image_create_from_buffer_inv [OF assms(1) _ assms(2)]
  show ?thesis
  proof (cases r)
    case ZSA_RESULT_FAILED
    then show ?thesis using made by auto
  next
    case ZSA_RESULT_SUCCEEDED
    then obtain h l where h: "out' = Some h" "h \<notin> held w" "held w' = insert h (held w)"
      "images w' h = image_zero\<lparr>img_ref_count := 1, img_lock := l, img_buffer := buf, img_buffer_size := n,
           img_format := fmt, img_width_pixels := wd, img_height_pixels := ht, img_stride_bytes := st,
           img_memory_free_cb := Some (CB_image_user cb), img_memory_free_cb_context := ctx\<rparr>"
      using made by auto
    have inv: "image_inv w'" and kept: "callbacks w' = callbacks w" "blocks w' = blocks w" using made by simp_all
    have "live H_image w' h" using h(3) by (intro held_live) simp
    from image_dec_ref_last [OF inv this] have "image_dec_ref h w' = Some (after_last h w')" using h(4) by simp
    then show ?thesis using ZSA_RESULT_SUCCEEDED h kept by (simp add: release_calls_def owns_buffer_def)
  qed
qed

theorem create_from_buffer_ownership_witness:
  "\<exists>w' w2. image_create_from_buffer ZSA_IMAGE_FORMAT_COLOR_MJPG 20000 1 0 500 64 (Some (CB_image_user 3)) 11 (Some 0)
        (boot_image (\<lambda>_. True)) = Some (ZSA_RESULT_SUCCEEDED, Some 1, w') \<and>
      image_dec_ref 1 w' = Some w2 \<and> callbacks w2 = [Called_image_destroy 3 500 11]"
proof -
  let ?w = "boot_image (\<lambda>_. True)"
  obtain w' where run: "image_create_from_buffer ZSA_IMAGE_FORMAT_COLOR_MJPG 20000 1 0 500 64 (Some (CB_image_user 3)) 11
      (Some 0) ?w = Some (ZSA_RESULT_SUCCEEDED, Some 1, w')"
    by (simp add: image_create_from_buffer_def run_image Let_def)
  moreover have "callbacks ?w = []" by (simp add: boot_image_def)
  ultimately show ?thesis using create_from_buffer_ownership [OF boot_image_inv run] by auto
qed

text \<open>
  When the allocator has no buffer for it, \<open>image_create_empty_image\<close> fails and clears the
  caller's handle, but the wrapper it created stays allocated: its count was still 0, so the release on
  the error path takes it to -1 and destroys nothing.
\<close>

lemma create_empty_leaks_handle_without_buffer:
  assumes "image_inv w" and "n \<noteq> 0" and "\<not> source_out_of_range s" and "os_grants w (os_requests w)"
    and "\<not> alloc_accepts s n \<or> \<not> os_grants w (Suc (os_requests w))"
  shows "\<exists>w' h. image_create_empty_image s n (Some v) w = Some (ZSA_RESULT_FAILED, Some 0, w') \<and>
      htype w h = None \<and> live H_image w' h \<and> img_ref_count (images w' h) = - 1"
proof -
  obtain h w1 where c: "zsa_image_t_create w = (h, w1)" by fastforce
  have pos: "0 < next_addr w" using alloc_invD(5) [OF image_invD(1) [OF assms(1)]] .
  have h: "h \<noteq> 0" "os_grants w1 = os_grants w" "os_requests w1 = Suc (os_requests w)"
    using c assms(4) pos by (auto simp: zsa_image_t_create_def handle_create_def c_malloc_def os_request_def)
  note c1 = zsa_image_t_create_inv [OF assms(1) c]
  have "\<exists>w2. allocator_alloc s n w1 = Some (0, w2)"
    using assms(5) h by (auto simp: allocator_alloc_eq [OF image_invD(1) [OF c1(1)]])
  then obtain w2 where a: "allocator_alloc s n w1 = Some (0, w2)" ..
  from empty_image_no_buffer [OF assms(1) c h(1) a] obtain w' where
    "image_dec_ref h (with_buffer h 0 w2) = Some w'" "live H_image w' h" "img_ref_count (images w' h) = - 1" by blast
  then show ?thesis using empty_image_run [OF assms(2,3) c h(1) assms(1) a] c1(7) h(1) by auto
qed

lemma create_empty_leaks_handle_without_buffer_witness:
  "\<exists>w' h. image_create_empty_image ALLOCATION_SOURCE_COLOR 64 (Some 0) (boot_image (\<lambda>n. n = 0)) =
        Some (ZSA_RESULT_FAILED, Some 0, w') \<and> live H_image w' h \<and> img_ref_count (images w' h) = - 1"
proof -
  have "os_grants (boot_image (\<lambda>n. n = 0)) (os_requests (boot_image (\<lambda>n. n = 0)))"
    "\<not> os_grants (boot_image (\<lambda>n. n = 0)) (Suc (os_requests (boot_image (\<lambda>n. n = 0))))"
    by (simp_all add: boot_image_def)
  then show ?thesis
    using create_empty_leaks_handle_without_buffer [OF boot_image_inv, of 64 ALLOCATION_SOURCE_COLOR "\<lambda>n. n = 0" 0]
    by (auto simp: source_out_of_range_iff)
qed

text \<open>
  \<open>image_apply_system_timestamp\<close> stamps the image with the exact reading of the clock in
  nanoseconds for every uptime below 18446744073 seconds (about 584 years); a failed reading leaves the
  image as it was.
\<close>

lemma system_timestamp_exact:
  assumes "live H_image w h" and "clock_gettime w (clock_reads w) = Some (sec, nsec)"
    and "unat sec < 18446744073" and "unat nsec < 1000000000"
  shows "\<exists>w' t. image_apply_system_timestamp h w = Some (ZSA_RESULT_SUCCEEDED, w') \<and>
      image_get_system_timestamp_nsec h w' = Some t \<and> unat t = unat sec * 1000000000 + unat nsec \<and>
      (\<forall>k. k \<noteq> h \<longrightarrow> images w' k = images w k)"
proof -
  let ?t = "sec * 1000000000 + nsec"
  let ?w = "put_image h ((images w h)\<lparr>img_sys_timestamp_nsec := ?t\<rparr>) (w\<lparr>clock_reads := Suc (clock_reads w)\<rparr>)"
  have small: "unat sec * 1000000000 < 2 ^ 64" "unat sec * 1000000000 + unat nsec < 2 ^ 64" using assms(3,4) by simp_all
  have "unat (sec * 1000000000) = unat sec * 1000000000"
    using small(1) by (simp add: unat_word_ariths)
  then have t: "unat ?t = unat sec * 1000000000 + unat nsec" using small(2) unat_add_wrap [of "sec * 1000000000" nsec] by simp
  have run: "image_apply_system_timestamp h w = Some (ZSA_RESULT_SUCCEEDED, ?w)"
    using assms(1,2) by (simp add: image_apply_system_timestamp_def Let_def)
  moreover have "live H_image ?w h" using assms(1) by (simp add: live_def)
  ultimately show ?thesis using t
    by (intro exI [of _ ?w] exI [of _ ?t]) (simp add: image_getters image_read_live)
qed

lemma system_timestamp_exact_witness:
  "\<exists>w' t. image_apply_system_timestamp 3 two_images = Some (ZSA_RESULT_SUCCEEDED, w') \<and>
      image_get_system_timestamp_nsec 3 w' = Some t \<and> unat t = 5000000006"
  using system_timestamp_exact [of two_images 3 5 6] by (auto simp: two_images_def live_def)

end
