(* ===== verification/Capture.thy ===== *)
theory Capture
  imports Image
begin

section \<open>Captures\<close>

text \<open>
  \<open>src/allocator/allocator.c\<close>, lines 20 to 26, 108 to 118 and 293 to 472: reference-counted captures
  that hold references to up to three images and a temperature. A capture's reader/writer lock lies in
  its context and is taken around every access to the images.
\<close>

subsection \<open>State\<close>

datatype image_type_index_t = IMAGE_TYPE_COLOR | IMAGE_TYPE_DEPTH | IMAGE_TYPE_IR

text \<open>The values of the loop \<open>for (int x = 0; x < IMAGE_TYPE_COUNT; x++)\<close>.\<close>

definition image_types :: "image_type_index_t list" where
  "image_types = [IMAGE_TYPE_COLOR, IMAGE_TYPE_DEPTH, IMAGE_TYPE_IR]"

record capture_context_t =
  cap_ref_count :: int
  cap_lock :: zsa_rwlock_t
  cap_image :: "image_type_index_t \<Rightarrow> ptr"
  cap_temperature_c :: c_float

definition capture_zero :: capture_context_t where
  "capture_zero = \<lparr>cap_ref_count = 0, cap_lock = RW_UNINIT, cap_image = (\<lambda>_. 0), cap_temperature_c = FLOAT 0\<rparr>"

record capture_world = image_world +
  captures :: "ptr \<Rightarrow> capture_context_t"

definition put_capture :: "ptr \<Rightarrow> capture_context_t \<Rightarrow> 'a capture_world_scheme \<Rightarrow> 'a capture_world_scheme" where
  "put_capture h c w = w\<lparr>captures := (captures w)(h := c)\<rparr>"

definition zsa_capture_t_create :: "'a capture_world_scheme \<Rightarrow> ptr \<times> 'a capture_world_scheme" where
  "zsa_capture_t_create w =
     (case handle_create H_capture w of (p, w1) \<Rightarrow> (p, if p = 0 then w1 else put_capture p capture_zero w1))"

abbreviation zsa_capture_t_get_context :: "ptr \<Rightarrow> 'a capture_world_scheme \<Rightarrow> capture_context_t option option" where
  "zsa_capture_t_get_context \<equiv> handle_get_context H_capture captures"

text \<open>An operation on \<open>&capture->lock\<close>.\<close>

definition on_capture_lock ::
  "(zsa_rwlock_t \<Rightarrow> zsa_rwlock_t option) \<Rightarrow> ptr \<Rightarrow> 'a capture_world_scheme \<Rightarrow> 'a capture_world_scheme option" where
  "on_capture_lock f h w = do {
     l \<leftarrow> f (cap_lock (captures w h));
     Some (put_capture h ((captures w h)\<lparr>cap_lock := l\<rparr>) w)
   }"

subsection \<open>Operations\<close>

fun capture_release_images :: "image_type_index_t list \<Rightarrow> ptr \<Rightarrow> 'a capture_world_scheme \<Rightarrow> 'a capture_world_scheme option" where
  "capture_release_images [] h w = Some w"
| "capture_release_images (x # xs) h w = do {
     w \<leftarrow> (if cap_image (captures w h) x \<noteq> 0 then image_dec_ref (cap_image (captures w h) x) w else Some w);
     capture_release_images xs h w
   }"

definition capture_dec_ref :: "ptr \<Rightarrow> 'a capture_world_scheme \<Rightarrow> 'a capture_world_scheme option" where
  "capture_dec_ref capture_handle w = do {
     ctx \<leftarrow> zsa_capture_t_get_context capture_handle w;
     case ctx of
       None \<Rightarrow> Some w
     | Some capture \<Rightarrow>
         (let new_count = cap_ref_count capture - 1;
              w = put_capture capture_handle (capture\<lparr>cap_ref_count := new_count\<rparr>) w
          in if new_count = 0 then do {
               w \<leftarrow> on_capture_lock rwlock_acquire_write capture_handle w;
               w \<leftarrow> capture_release_images image_types capture_handle w;
               w \<leftarrow> on_capture_lock rwlock_release_write capture_handle w;
               w \<leftarrow> on_capture_lock rwlock_deinit capture_handle w;
               handle_destroy capture_handle w
             } else Some w)
   }"

definition capture_inc_ref :: "ptr \<Rightarrow> 'a capture_world_scheme \<Rightarrow> 'a capture_world_scheme option" where
  "capture_inc_ref capture_handle w = do {
     ctx \<leftarrow> zsa_capture_t_get_context capture_handle w;
     case ctx of
       None \<Rightarrow> Some w
     | Some capture \<Rightarrow> Some (put_capture capture_handle (capture\<lparr>cap_ref_count := cap_ref_count capture + 1\<rparr>) w)
   }"

definition capture_create :: "ptr option \<Rightarrow> 'a capture_world_scheme \<Rightarrow> (zsa_result_t \<times> ptr option \<times> 'a capture_world_scheme) option" where
  "capture_create capture_handle w =
     (if capture_handle = None then Some (ZSA_RESULT_FAILED, capture_handle, w)
      else case zsa_capture_t_create w of (h, w) \<Rightarrow>
        if h = 0 then Some (ZSA_RESULT_FAILED, Some 0, w)
        else do {
          let w = put_capture h ((captures w h)\<lparr>cap_ref_count := 1, cap_temperature_c := NAN\<rparr>) w;
          (lock, w) \<leftarrow> rwlock_init w;
          Some (ZSA_RESULT_SUCCEEDED, Some h, put_capture h ((captures w h)\<lparr>cap_lock := lock\<rparr>) w)
        })"

text \<open>
  The three getters and the three setters differ in the slot they work on. The value returned is read
  again after the lock is released.
\<close>

definition capture_get_image :: "image_type_index_t \<Rightarrow> ptr \<Rightarrow> 'a capture_world_scheme \<Rightarrow> (ptr \<times> 'a capture_world_scheme) option" where
  "capture_get_image x capture_handle w = do {
     ctx \<leftarrow> zsa_capture_t_get_context capture_handle w;
     case ctx of
       None \<Rightarrow> Some (0, w)
     | Some _ \<Rightarrow> do {
         w \<leftarrow> on_capture_lock rwlock_acquire_read capture_handle w;
         w \<leftarrow> (if cap_image (captures w capture_handle) x \<noteq> 0
               then image_inc_ref (cap_image (captures w capture_handle) x) w else Some w);
         w \<leftarrow> on_capture_lock rwlock_release_read capture_handle w;
         Some (cap_image (captures w capture_handle) x, w)
       }
   }"

definition capture_get_color_image :: "ptr \<Rightarrow> 'a capture_world_scheme \<Rightarrow> (ptr \<times> 'a capture_world_scheme) option" where
  "capture_get_color_image = capture_get_image IMAGE_TYPE_COLOR"

definition capture_get_depth_image :: "ptr \<Rightarrow> 'a capture_world_scheme \<Rightarrow> (ptr \<times> 'a capture_world_scheme) option" where
  "capture_get_depth_image = capture_get_image IMAGE_TYPE_DEPTH"

definition capture_get_ir_image :: "ptr \<Rightarrow> 'a capture_world_scheme \<Rightarrow> (ptr \<times> 'a capture_world_scheme) option" where
  "capture_get_ir_image = capture_get_image IMAGE_TYPE_IR"

definition capture_get_imu_image :: "ptr \<Rightarrow> 'a capture_world_scheme \<Rightarrow> (ptr \<times> 'a capture_world_scheme) option" where
  "capture_get_imu_image = capture_get_ir_image"

definition capture_set_image :: "image_type_index_t \<Rightarrow> ptr \<Rightarrow> ptr \<Rightarrow> 'a capture_world_scheme \<Rightarrow> 'a capture_world_scheme option" where
  "capture_set_image x capture_handle image_handle w = do {
     ctx \<leftarrow> zsa_capture_t_get_context capture_handle w;
     case ctx of
       None \<Rightarrow> Some w
     | Some _ \<Rightarrow> do {
         w \<leftarrow> on_capture_lock rwlock_acquire_write capture_handle w;
         w \<leftarrow> (if cap_image (captures w capture_handle) x \<noteq> 0
               then image_dec_ref (cap_image (captures w capture_handle) x) w else Some w);
         let w = put_capture capture_handle
               ((captures w capture_handle)\<lparr>cap_image := (cap_image (captures w capture_handle))(x := image_handle)\<rparr>) w;
         w \<leftarrow> (if image_handle \<noteq> 0 then image_inc_ref (cap_image (captures w capture_handle) x) w else Some w);
         on_capture_lock rwlock_release_write capture_handle w
       }
   }"

definition capture_set_color_image :: "ptr \<Rightarrow> ptr \<Rightarrow> 'a capture_world_scheme \<Rightarrow> 'a capture_world_scheme option" where
  "capture_set_color_image = capture_set_image IMAGE_TYPE_COLOR"

definition capture_set_depth_image :: "ptr \<Rightarrow> ptr \<Rightarrow> 'a capture_world_scheme \<Rightarrow> 'a capture_world_scheme option" where
  "capture_set_depth_image = capture_set_image IMAGE_TYPE_DEPTH"

definition capture_set_ir_image :: "ptr \<Rightarrow> ptr \<Rightarrow> 'a capture_world_scheme \<Rightarrow> 'a capture_world_scheme option" where
  "capture_set_ir_image = capture_set_image IMAGE_TYPE_IR"

definition capture_set_imu_image :: "ptr \<Rightarrow> ptr \<Rightarrow> 'a capture_world_scheme \<Rightarrow> 'a capture_world_scheme option" where
  "capture_set_imu_image = capture_set_ir_image"

definition capture_set_temperature_c :: "ptr \<Rightarrow> c_float \<Rightarrow> 'a capture_world_scheme \<Rightarrow> 'a capture_world_scheme option" where
  "capture_set_temperature_c capture_handle temperature_c w = do {
     ctx \<leftarrow> zsa_capture_t_get_context capture_handle w;
     case ctx of
       None \<Rightarrow> Some w
     | Some capture \<Rightarrow>
         if isnan temperature_c then Some w
         else Some (put_capture capture_handle (capture\<lparr>cap_temperature_c := temperature_c\<rparr>) w)
   }"

definition capture_get_temperature_c :: "ptr \<Rightarrow> 'a capture_world_scheme \<Rightarrow> c_float option" where
  "capture_get_temperature_c capture_handle w = do {
     ctx \<leftarrow> zsa_capture_t_get_context capture_handle w;
     Some (case ctx of None \<Rightarrow> NAN | Some capture \<Rightarrow> cap_temperature_c capture)
   }"

subsection \<open>The store of captures\<close>

interpretation capture_store: context_store H_capture captures put_capture
  by unfold_locales (simp_all add: put_capture_def)

lemma put_capture_simps [simp]:
  "captures (put_capture h c w) = (captures w)(h := c)" "htype (put_capture h c w) = htype w"
  "images (put_capture h c w) = images w" "locks (put_capture h c w) = locks w"
  "live T (put_capture h c w) x = live T w x" "held (put_capture h c w) = held w"
  "image_inv (put_capture h c w) = image_inv w" "image_refs (put_capture h c w) = image_refs w"
  "other_locks (put_capture h c w) = other_locks w" "other_handles S (put_capture h c w) = other_handles S w"
  "conds (put_capture h c w) = conds w" "next_addr (put_capture h c w) = next_addr w"
  "os_grants (put_capture h c w) = os_grants w" "os_requests (put_capture h c w) = os_requests w"
  "g_allocator_sessions (put_capture h c w) = g_allocator_sessions w"
  "capture_world.more (put_capture h c w) = capture_world.more w" "image_stamps (put_capture h c w) = image_stamps w"
  by (simp_all add: image_stamps_def put_capture_def live_def held_def image_inv_def alloc_inv_defs mem_ok_def images_ok_def
      image_wf_def buffer_ok_def image_refs_def other_locks_def other_handles_def fun_eq_iff)

lemma more_captures:
  "image_world.more w = image_world.more w' \<Longrightarrow> captures w = captures w' \<and> capture_world.more w = capture_world.more w'"
  by (cases w; cases w') simp

lemma live_other: "other_handles S w = other_handles S w' \<Longrightarrow> T \<notin> S \<Longrightarrow> live T w h = live T w' h"
  by (drule fun_cong [of _ _ h]) (auto simp: other_handles_def live_def split: option.splits if_splits)

lemma image_rest_captures:
  assumes "image_rest w' = image_rest w"
  shows "captures w' = captures w" and "live H_capture w' h = live H_capture w h"
    and "capture_world.more w' = capture_world.more w"
proof -
  have "image_world.more w' = image_world.more w" and o: "other_handles {H_image} w' = other_handles {H_image} w"
    using assms by (simp_all add: image_rest_def)
  then show "captures w' = captures w" "capture_world.more w' = capture_world.more w" using more_captures by blast+
  show "live H_capture w' h = live H_capture w h" by (rule live_other [OF o]) simp
qed

subsection \<open>Invariant: whose references the counts are\<close>

text \<open>
  \<open>slot_count w i\<close> is how many slots of held captures refer to image \<open>i\<close>. The invariant says that each
  of these is covered by a reference of the image; \<open>outside w i\<close> are the references beyond them, which
  the clients hold.
\<close>

definition cheld :: "'a capture_world_scheme \<Rightarrow> ptr set" where
  "cheld w = {c. live H_capture w c \<and> 0 < cap_ref_count (captures w c)}"

definition uses :: "capture_context_t \<Rightarrow> ptr \<Rightarrow> int" where
  "uses c i = int (count_list (map (cap_image c) image_types) i)"

definition slot_count :: "'a capture_world_scheme \<Rightarrow> ptr \<Rightarrow> int" where
  "slot_count w i = (\<Sum>c \<in> cheld w. uses (captures w c) i)"

definition outside :: "'a capture_world_scheme \<Rightarrow> ptr \<Rightarrow> int" where
  "outside w i = (if i = 0 then 0 else image_refs w i - slot_count w i)"

definition capture_inv :: "'a capture_world_scheme \<Rightarrow> bool" where
  "capture_inv w \<longleftrightarrow> image_inv w \<and> finite (cheld w) \<and>
     (\<forall>c \<in> cheld w. cap_lock (captures w c) = RW_READERS 0) \<and> (\<forall>i. 0 \<le> outside w i)"

definition capture_refs :: "'a capture_world_scheme \<Rightarrow> ptr \<Rightarrow> int" where
  "capture_refs w c = (if c \<in> cheld w then cap_ref_count (captures w c) else 0)"

definition capture_env where
  "capture_env w = (capture_world.more w, other_handles {H_image, H_capture} w, other_locks w, conds w, next_addr w,
     os_grants w, os_requests w, g_allocator_sessions w, image_stamps w)"

definition capture_slots :: "'a capture_world_scheme \<Rightarrow> ptr \<Rightarrow> image_type_index_t \<Rightarrow> ptr" where
  "capture_slots w c = cap_image (captures w c)"

definition capture_rest where
  "capture_rest w = (capture_env w, capture_slots w, outside w)"

lemma capture_invD:
  "capture_inv w \<Longrightarrow> image_inv w" "capture_inv w \<Longrightarrow> finite (cheld w)" "capture_inv w \<Longrightarrow> 0 \<le> outside w i"
  "capture_inv w \<Longrightarrow> c \<in> cheld w \<Longrightarrow> cap_lock (captures w c) = RW_READERS 0"
  by (auto simp: capture_inv_def)

lemma cheld_live: "c \<in> cheld w \<Longrightarrow> live H_capture w c"
  by (simp add: cheld_def)

lemma capture_refs_pos: "0 < capture_refs w c \<longleftrightarrow> c \<in> cheld w"
  by (auto simp: capture_refs_def cheld_def)

lemma uses_nonneg [simp]: "0 \<le> uses c i"
  by (simp add: uses_def)

lemma uses_set [simp]:
  "uses (c\<lparr>cap_image := (cap_image c)(x := j)\<rparr>) i =
     uses c i - (if cap_image c x = i then 1 else 0) + (if j = i then 1 else 0)"
  by (cases x) (simp_all add: uses_def image_types_def)

lemma uses_update [simp]:
  "uses (c\<lparr>cap_ref_count := n\<rparr>) i = uses c i" "uses (c\<lparr>cap_lock := l\<rparr>) i = uses c i"
  "uses (c\<lparr>cap_temperature_c := t\<rparr>) i = uses c i"
  by (simp_all add: uses_def)

lemma uses_le_slot_count:
  "capture_inv w \<Longrightarrow> c \<in> cheld w \<Longrightarrow> uses (captures w c) i \<le> slot_count w i"
  unfolding slot_count_def by (rule member_le_sum) (simp_all add: capture_inv_def)

lemma slot_held:
  assumes "capture_inv w" and "c \<in> cheld w" and "cap_image (captures w c) x \<noteq> 0"
  shows "0 < image_refs w (cap_image (captures w c) x)"
proof -
  let ?i = "cap_image (captures w c) x"
  have "0 < uses (captures w c) ?i" by (cases x) (simp_all add: uses_def image_types_def)
  also have "\<dots> \<le> slot_count w ?i" using assms(1,2) by (rule uses_le_slot_count)
  also have "\<dots> \<le> image_refs w ?i" using capture_invD(3) [OF assms(1), of ?i] assms(3) by (simp add: outside_def)
  finally show ?thesis .
qed

lemma cheld_put: "cheld (put_capture c d w) =
    (if live H_capture w c \<and> 0 < cap_ref_count d then insert c (cheld w) else cheld w - {c})"
  by (auto simp: cheld_def)

lemma slot_count_put:
  assumes "finite (cheld w)" and "live H_capture w c"
  shows "slot_count (put_capture c d w) i = slot_count w i
     - (if c \<in> cheld w then uses (captures w c) i else 0) + (if 0 < cap_ref_count d then uses d i else 0)"
proof -
  let ?f = "\<lambda>k. uses (captures w k) i" and ?g = "\<lambda>k. uses (captures (put_capture c d w) k) i"
  have same: "sum ?g (cheld w - {c}) = sum ?f (cheld w - {c})" by (rule sum.cong) auto
  have old: "sum ?f (cheld w) = (if c \<in> cheld w then ?f c else 0) + sum ?f (cheld w - {c})"
    using assms(1) by (simp add: sum.remove)
  have "sum ?g (insert c (cheld w)) = ?g c + sum ?g (cheld w - {c})" using assms(1) by (rule sum.insert_remove)
  then have new: "slot_count (put_capture c d w) i = (if 0 < cap_ref_count d then uses d i else 0) + sum ?f (cheld w - {c})"
    unfolding slot_count_def cheld_put using assms(2) same by simp
  show ?thesis using new old by (simp add: slot_count_def)
qed

lemma capture_frame:
  assumes "captures w' = captures w" and "\<And>h. live H_capture w' h = live H_capture w h"
  shows "cheld w' = cheld w" and "slot_count w' = slot_count w" and "capture_refs w' = capture_refs w"
proof -
  show "cheld w' = cheld w" using assms by (simp add: cheld_def)
  then show "slot_count w' = slot_count w" "capture_refs w' = capture_refs w"
    by (simp_all add: slot_count_def capture_refs_def fun_eq_iff assms(1))
qed

lemma image_rest_frame:
  assumes "image_rest w' = image_rest w"
  shows "cheld w' = cheld w" and "slot_count w' = slot_count w" and "capture_refs w' = capture_refs w"
  using capture_frame [OF image_rest_captures(1,2) [OF assms]] by auto

lemma capture_inv_frame:
  assumes "capture_inv w" and "image_inv w'" and "image_refs w' = image_refs w" and "captures w' = captures w"
    and "\<And>h. live H_capture w' h = live H_capture w h"
  shows "capture_inv w'" and "outside w' = outside w" and "capture_refs w' = capture_refs w" and "cheld w' = cheld w"
proof -
  note frame = capture_frame [OF assms(4,5)]
  show out: "outside w' = outside w" by (simp add: outside_def fun_eq_iff assms(3) frame(2))
  show "capture_inv w'" using assms(1,2) by (simp add: capture_inv_def out frame(1) assms(4))
qed (use capture_frame [OF assms(4,5)] in simp_all)

lemma other_handles_mono:
  assumes "other_handles S w' = other_handles S w" and "S \<subseteq> S'"
  shows "other_handles S' w' = other_handles S' w"
proof
  fix h
  show "other_handles S' w' h = other_handles S' w h"
    using fun_cong [OF assms(1), of h] assms(2) by (auto simp: other_handles_def split: option.splits if_splits)
qed

lemma image_rest_env:
  assumes "image_rest w' = image_rest w"
  shows "capture_env w' = capture_env w"
proof -
  have "other_handles {H_image} w' = other_handles {H_image} w" using assms by (simp add: image_rest_def)
  then have "other_handles {H_image, H_capture} w' = other_handles {H_image, H_capture} w"
    by (rule other_handles_mono) simp
  then show ?thesis using assms image_rest_captures(3) [OF assms] by (simp add: capture_env_def image_rest_def)
qed

lemma put_capture_env [simp]: "capture_env (put_capture c d w) = capture_env w"
  by (simp add: capture_env_def)

subsection \<open>Captures as reference-counted objects\<close>

lemma capture_put_count:
  assumes "capture_inv w" and "c \<in> cheld w" and "0 < n"
  defines "w' \<equiv> put_capture c ((captures w c)\<lparr>cap_ref_count := n\<rparr>) w"
  shows "capture_inv w'" and "capture_refs w' = (capture_refs w)(c := n)" and "capture_rest w' = capture_rest w"
proof -
  have held: "cheld w' = cheld w" using assms(2,3) by (auto simp: w'_def cheld_put cheld_def)
  have "slot_count w' = slot_count w"
    using slot_count_put [OF capture_invD(2) [OF assms(1)] cheld_live [OF assms(2)]] assms(2,3)
    by (simp add: fun_eq_iff w'_def)
  then have out: "outside w' = outside w" by (simp add: outside_def fun_eq_iff w'_def)
  show "capture_inv w'"
    using assms(1,2) held out unfolding capture_inv_def by (auto simp: w'_def)
  show "capture_refs w' = (capture_refs w)(c := n)" using assms(2) held by (auto simp: capture_refs_def fun_eq_iff w'_def)
  show "capture_rest w' = capture_rest w" unfolding capture_rest_def out
    by (simp add: w'_def capture_env_def capture_slots_def fun_eq_iff)
qed

text \<open>The images a capture holds, without the empty slots.\<close>

definition held_images :: "capture_context_t \<Rightarrow> image_type_index_t list \<Rightarrow> ptr list" where
  "held_images c xs = filter (\<lambda>i. i \<noteq> 0) (map (cap_image c) xs)"

lemma count_held_images: "i \<noteq> 0 \<Longrightarrow> int (count_list (held_images c image_types) i) = uses c i"
  by (simp add: held_images_def uses_def image_types_def)

lemma count_held_images_0 [simp]: "count_list (held_images c xs) 0 = 0"
  by (simp add: held_images_def count_list_0_iff)

lemma release_images_decs:
  assumes "image_inv w" and "\<And>i. int (count_list (held_images (captures w h) xs) i) \<le> image_refs w i"
  shows "capture_release_images xs h w = image_rc.decs (held_images (captures w h) xs) w"
  using assms
proof (induction xs arbitrary: w)
  case (Cons x xs)
  let ?i = "cap_image (captures w h) x"
  show ?case
  proof (cases "?i = 0")
    case False
    then have pos: "0 < image_refs w ?i" using Cons.prems(2) [of ?i] by (simp add: held_images_def)
    from image_rc.dec_held [OF Cons.prems(1) pos] obtain w1 where w1: "image_dec_ref ?i w = Some w1" "image_inv w1"
        "image_refs w1 = (image_refs w)(?i := image_refs w ?i - 1)" "image_rest w1 = image_rest w" by blast
    have c: "captures w1 = captures w" using w1(4) by (rule image_rest_captures)
    have "int (count_list (held_images (captures w1 h) xs) i) \<le> image_refs w1 i" for i
      using Cons.prems(2) [of i] False by (simp add: w1(3) c held_images_def split: if_splits)
    from Cons.IH [OF w1(2) this] show ?thesis using w1(1) False c by (simp add: held_images_def)
  next
    case True
    then show ?thesis using Cons.IH [OF Cons.prems(1)] Cons.prems(2) by (simp add: held_images_def)
  qed
qed (simp add: held_images_def)

lemma alloc_inv_destroy: "alloc_inv w \<Longrightarrow> alloc_inv (w\<lparr>htype := (htype w)(h := None)\<rparr>)"
  by (rule alloc_inv_other) (auto simp: alloc_inv_def mem_ok_def)

lemma image_inv_destroy_other:
  assumes "image_inv w" and "live T w h" and "T \<noteq> H_image"
  shows "image_inv (w\<lparr>htype := (htype w)(h := None)\<rparr>)" (is "image_inv ?w")
    and "image_refs (w\<lparr>htype := (htype w)(h := None)\<rparr>) = image_refs w"
    and "held (w\<lparr>htype := (htype w)(h := None)\<rparr>) = held w"
proof -
  have "live H_image ?w k = live H_image w k" for k using assms(2,3) by (auto simp: live_def)
  note frame = image_inv_frame [OF assms(1) alloc_inv_destroy [OF image_invD(1) [OF assms(1)]] _ _ this]
  show "image_inv ?w" "image_refs ?w = image_refs w" "held ?w = held w" using frame by simp_all
qed

text \<open>The last release: the images are let go of, then the capture disappears.\<close>

definition capture_gone :: "ptr \<Rightarrow> capture_context_t \<Rightarrow> 'a capture_world_scheme \<Rightarrow> 'a capture_world_scheme" where
  "capture_gone c d w = (put_capture c d w)\<lparr>htype := (htype w)(c := None)\<rparr>"

lemma capture_gone_inv:
  assumes inv: "capture_inv w" and c: "c \<in> cheld w" and d: "cap_image d = cap_image (captures w c)" and w2: "image_inv w2"
      "image_refs w2 = (\<lambda>i. image_refs w i - int (count_list (held_images (captures w c) image_types) i))"
      "image_rest w2 = image_rest (put_capture c e w)"
  shows "capture_inv (capture_gone c d w2)" and "capture_refs (capture_gone c d w2) = (capture_refs w)(c := 0)"
    and "capture_rest (capture_gone c d w2) = capture_rest w" and "image_refs (capture_gone c d w2) = image_refs w2"
proof -
  let ?g = "capture_gone c d w2"
  have c2: "captures w2 = (captures w)(c := e)" using image_rest_captures(1) [OF w2(3)] by simp
  have live2: "live H_capture w2 h = live H_capture w h" for h using image_rest_captures(2) [OF w2(3), of h] by simp
  have img: "image_inv ?g" "image_refs ?g = image_refs w2" "held ?g = held w2"
    using image_inv_destroy_other [of "put_capture c d w2" H_capture c] w2(1) live2 [of c] cheld_live [OF c]
    by (simp_all add: capture_gone_def)
  show "image_refs ?g = image_refs w2" by (rule img(2))
  have held: "cheld ?g = cheld w - {c}"
    using c2 live2 by (auto simp: cheld_def capture_gone_def live_def)
  have cap: "captures ?g k = captures w k" if "k \<noteq> c" for k using that c2 by (simp add: capture_gone_def)
  have cnt: "slot_count w i = uses (captures w c) i + slot_count ?g i" for i
    unfolding slot_count_def held using sum.remove [OF capture_invD(2) [OF inv] c, of "\<lambda>k. uses (captures w k) i"] cap
    by (simp cong: sum.cong_simp)
  have out: "outside ?g = outside w"
    using cnt by (auto simp: outside_def fun_eq_iff img(2) w2(2) count_held_images)
  then show "capture_inv ?g" using inv img(1) cap held by (auto simp: capture_inv_def)
  show "capture_refs ?g = (capture_refs w)(c := 0)" using cap by (auto simp: capture_refs_def held fun_eq_iff)
  have rest: "capture_world.more w2 = capture_world.more w" "other_handles {H_image} w2 = other_handles {H_image} w"
      "other_locks w2 = other_locks w" "conds w2 = conds w" "next_addr w2 = next_addr w" "os_grants w2 = os_grants w"
      "os_requests w2 = os_requests w" "g_allocator_sessions w2 = g_allocator_sessions w" "image_stamps w2 = image_stamps w"
    using w2(3) image_rest_captures(3) [OF w2(3)] by (simp_all add: image_rest_def)
  have "other_handles {H_image, H_capture} ?g = other_handles {H_image, H_capture} w2"
    using live2 [of c] cheld_live [OF c] by (auto simp: other_handles_def capture_gone_def live_def fun_eq_iff)
  also have "\<dots> = other_handles {H_image, H_capture} w" by (rule other_handles_mono [OF rest(2)]) simp
  finally have oh: "other_handles {H_image, H_capture} ?g = other_handles {H_image, H_capture} w" .
  have "other_locks ?g = other_locks w2" unfolding other_locks_def img(3) by (simp add: capture_gone_def fun_eq_iff)
  then show "capture_rest ?g = capture_rest w"
    unfolding capture_rest_def capture_env_def out oh using rest
    by (simp add: capture_gone_def put_capture_def image_stamps_def capture_slots_def c2 d fun_eq_iff)
qed

lemma capture_dec_ref_last:
  assumes inv: "capture_inv w" and c: "c \<in> cheld w" and one: "cap_ref_count (captures w c) = 1"
  shows "\<exists>w'. capture_dec_ref c w = Some w' \<and> capture_inv w' \<and> capture_refs w' = (capture_refs w)(c := 0) \<and>
     capture_rest w' = capture_rest w \<and> htype w' c = None \<and>
     image_refs w' = (\<lambda>i. image_refs w i - int (count_list (held_images (captures w c) image_types) i))"
proof -
  let ?d = "(captures w c)\<lparr>cap_ref_count := 0, cap_lock := RW_WRITER\<rparr>" and ?hs = "held_images (captures w c) image_types"
  define w1 where "w1 = put_capture c ?d w"
  have live: "live H_capture w c" using c by (rule cheld_live)
  have acq: "on_capture_lock rwlock_acquire_write c (put_capture c ((captures w c)\<lparr>cap_ref_count := 0\<rparr>) w) = Some w1"
    using capture_invD(4) [OF inv c] by (simp add: on_capture_lock_def w1_def put_capture_def)
  have refs1: "image_refs w1 = image_refs w" and inv1: "image_inv w1"
    using capture_invD(1) [OF inv] by (simp_all add: w1_def)
  have same: "held_images (captures w1 c) image_types = ?hs" by (simp add: w1_def held_images_def)
  have cnt: "int (count_list (held_images (captures w1 c) image_types) i) \<le> image_refs w1 i" for i
  proof (cases "i = 0")
    case False
    have "uses (captures w c) i \<le> slot_count w i" using inv c by (rule uses_le_slot_count)
    then show ?thesis using capture_invD(3) [OF inv, of i] False unfolding refs1 same
      by (simp add: count_held_images outside_def)
  qed (simp add: image_rc.refs_nonneg [OF inv1])
  from image_rc.decs_held [OF inv1 cnt] obtain w2 where
    w2: "image_rc.decs ?hs w1 = Some w2" "image_inv w2"
      "image_refs w2 = (\<lambda>i. image_refs w i - int (count_list ?hs i))" "image_rest w2 = image_rest w1"
    unfolding refs1 same by blast
  have rel: "capture_release_images image_types c w1 = Some w2"
    using release_images_decs [OF inv1 cnt] w2(1) same by simp
  have c2: "captures w2 = (captures w)(c := ?d)" "live H_capture w2 c"
    using image_rest_captures(1,2) [OF w2(4)] live by (simp_all add: w1_def)
  have "capture_dec_ref c w = Some (capture_gone c (?d\<lparr>cap_lock := RW_UNINIT\<rparr>) w2)"
    using live acq rel one c2
    by (simp add: capture_dec_ref_def Let_def on_capture_lock_def rwlock_release_write_def handle_destroy_live)
      (simp add: put_capture_def capture_gone_def)
  then show ?thesis using capture_gone_inv [OF inv c _ w2(2,3) w2(4) [unfolded w1_def], where d = "?d\<lparr>cap_lock := RW_UNINIT\<rparr>"] w2(3)
    by (auto simp: capture_gone_def)
qed

interpretation capture_rc: refcounted capture_inv capture_refs capture_rest capture_inc_ref capture_dec_ref
proof
  fix w :: "'a capture_world_scheme" and h
  show "0 \<le> capture_refs w h" by (simp add: capture_refs_def cheld_def)
  assume inv: "capture_inv w" and "0 < capture_refs w h"
  then have h: "h \<in> cheld w" by (simp add: capture_refs_pos)
  note live = cheld_live [OF h]
  have n: "capture_refs w h = cap_ref_count (captures w h)" "0 < cap_ref_count (captures w h)"
    using h by (simp_all add: capture_refs_def cheld_def)
  show "\<exists>w'. capture_inc_ref h w = Some w' \<and> capture_inv w' \<and>
      capture_refs w' = (capture_refs w)(h := capture_refs w h + 1) \<and> capture_rest w' = capture_rest w"
    using capture_put_count [OF inv h, of "cap_ref_count (captures w h) + 1"] n live by (simp add: capture_inc_ref_def)
  show "\<exists>w'. capture_dec_ref h w = Some w' \<and> capture_inv w' \<and>
      capture_refs w' = (capture_refs w)(h := capture_refs w h - 1) \<and> capture_rest w' = capture_rest w"
  proof (cases "cap_ref_count (captures w h) = 1")
    case True
    then show ?thesis using capture_dec_ref_last [OF inv h True] n by auto
  next
    case False
    then show ?thesis using capture_put_count [OF inv h, of "cap_ref_count (captures w h) - 1"] n live
      by (simp add: capture_dec_ref_def Let_def)
  qed
qed

subsection \<open>Reading and replacing an image\<close>

lemma capture_update:
  assumes inv: "capture_inv w" and c: "c \<in> cheld w" and img: "image_inv w'"
    and cap: "captures w' = (captures w)(c := d)" and live: "\<And>h. live H_capture w' h = live H_capture w h"
    and d: "cap_ref_count d = cap_ref_count (captures w c)" "cap_lock d = RW_READERS 0"
    and refs: "\<And>i. i \<noteq> 0 \<Longrightarrow> image_refs w' i = image_refs w i + uses d i - uses (captures w c) i + \<delta> i"
    and \<delta>: "\<delta> 0 = 0" "\<And>i. 0 \<le> outside w i + \<delta> i"
  shows "capture_inv w'" and "outside w' = (\<lambda>i. outside w i + \<delta> i)" and "capture_refs w' = capture_refs w"
    and "cheld w' = cheld w"
proof -
  let ?p = "put_capture c d w"
  have pos: "0 < cap_ref_count d" using c d(1) by (simp add: cheld_def)
  have "captures w' = captures ?p" "\<And>h. live H_capture w' h = live H_capture ?p h" using cap live by simp_all
  note frame = capture_frame [OF this]
  have held: "cheld ?p = cheld w" using c pos by (auto simp: cheld_put cheld_def)
  then show ch: "cheld w' = cheld w" using frame(1) by simp
  have "slot_count w' i = slot_count w i - uses (captures w c) i + uses d i" for i
    using frame(2) slot_count_put [OF capture_invD(2) [OF inv] cheld_live [OF c], of d i] c pos by simp
  then show out: "outside w' = (\<lambda>i. outside w i + \<delta> i)" using refs \<delta>(1) by (auto simp: outside_def fun_eq_iff)
  then show "capture_inv w'" using inv img ch cap d(2) \<delta>(2) by (auto simp: capture_inv_def)
  show "capture_refs w' = capture_refs w" using ch cap d(1) by (auto simp: capture_refs_def fun_eq_iff)
qed

text \<open>A getter hands out one more reference to the image it returns and changes nothing else.\<close>

lemma capture_get_image_run:
  fixes w :: "'a capture_world_scheme" and x :: image_type_index_t
  assumes inv: "capture_inv w" and c: "c \<in> cheld w"
  defines "i \<equiv> cap_image (captures w c) x"
  shows "\<exists>w'. capture_get_image x c w = Some (i, w') \<and> capture_inv w' \<and> captures w' = captures w \<and>
     capture_refs w' = capture_refs w \<and>
     image_refs w' = (if i = 0 then image_refs w else (image_refs w)(i := image_refs w i + 1)) \<and>
     outside w' = (\<lambda>k. outside w k + (if k = i \<and> i \<noteq> 0 then 1 else 0)) \<and> capture_env w' = capture_env w"
proof -
  let ?c = "captures w c"
  let ?w1 = "put_capture c (?c\<lparr>cap_lock := RW_READERS 1\<rparr>) w"
  have lock: "cap_lock ?c = RW_READERS 0" using inv c by (rule capture_invD)
  have live: "live H_capture w c" using c by (rule cheld_live)
  have acq: "on_capture_lock rwlock_acquire_read c w = Some ?w1" using lock by (simp add: on_capture_lock_def)
  have "\<exists>w2. (if i \<noteq> 0 then image_inc_ref i ?w1 else Some ?w1) = Some w2 \<and> image_inv w2 \<and> image_rest w2 = image_rest ?w1 \<and>
      image_refs w2 = (if i = 0 then image_refs w else (image_refs w)(i := image_refs w i + 1))"
    using image_rc.inc_held [of ?w1 i] slot_held [OF inv c, of x] capture_invD(1) [OF inv] by (auto simp: i_def)
  then obtain w2 where w2: "(if i \<noteq> 0 then image_inc_ref i ?w1 else Some ?w1) = Some w2" "image_inv w2"
      "image_rest w2 = image_rest ?w1"
      "image_refs w2 = (if i = 0 then image_refs w else (image_refs w)(i := image_refs w i + 1))" by blast
  have c2: "captures w2 = (captures w)(c := ?c\<lparr>cap_lock := RW_READERS 1\<rparr>)"
    using image_rest_captures(1) [OF w2(3)] by simp
  let ?w3 = "put_capture c ?c w2"
  have c3: "captures ?w3 = (captures w)(c := ?c)" using c2 by simp
  have unl: "?c\<lparr>cap_lock := RW_READERS 0\<rparr> = ?c" using lock by (cases ?c) simp
  have rel: "on_capture_lock rwlock_release_read c w2 = Some ?w3"
    using c2 unl by (simp add: on_capture_lock_def rwlock_release_read_def)
  have live3: "live H_capture ?w3 h = live H_capture w h" for h using image_rest_captures(2) [OF w2(3), of h] by simp
  have run: "capture_get_image x c w = Some (i, ?w3)"
    unfolding capture_get_image_def using live acq rel w2(1) c2
    by (cases "cap_image (captures w c) x = 0") (simp_all add: i_def)
  let ?\<delta> = "\<lambda>k. if k = i \<and> i \<noteq> 0 then 1 else 0 :: int"
  have pos: "0 \<le> outside w k + ?\<delta> k" for k using capture_invD(3) [OF inv, of k] by simp
  have zero: "?\<delta> 0 = 0" by (cases "i = 0") simp_all
  have refs: "image_refs ?w3 k = image_refs w k + uses ?c k - uses ?c k + ?\<delta> k" for k using w2(4) by auto
  have "capture_inv ?w3 \<and> outside ?w3 = (\<lambda>k. outside w k + ?\<delta> k) \<and> capture_refs ?w3 = capture_refs w"
    using capture_update [where \<delta> = ?\<delta>, OF inv c _ c3 live3 _ lock refs zero pos] w2(2) by simp
  then show ?thesis using run w2(4) c3 image_rest_env [OF w2(3)] by simp
qed

text \<open>
  A setter moves a reference from the old image to the new one. The caller must hold a reference to the
  new image; the references of all clients are afterwards what they were.
\<close>

lemma capture_set_image_run:
  assumes inv: "capture_inv w" and c: "c \<in> cheld w" and j: "j = 0 \<or> 0 < outside w j"
  shows "\<exists>w'. capture_set_image x c j w = Some w' \<and> capture_inv w' \<and> outside w' = outside w \<and>
     captures w' = (captures w)(c := (captures w c)\<lparr>cap_image := (cap_image (captures w c))(x := j)\<rparr>) \<and>
     capture_refs w' = capture_refs w \<and> capture_env w' = capture_env w"
proof -
  let ?c = "captures w c" and ?i = "cap_image (captures w c) x"
  let ?w1 = "put_capture c (?c\<lparr>cap_lock := RW_WRITER\<rparr>) w"
  have lock: "cap_lock ?c = RW_READERS 0" using inv c by (rule capture_invD)
  have live: "live H_capture w c" using c by (rule cheld_live)
  have acq: "on_capture_lock rwlock_acquire_write c w = Some ?w1" using lock by (simp add: on_capture_lock_def)
  have "\<exists>w2. (if ?i \<noteq> 0 then image_dec_ref ?i ?w1 else Some ?w1) = Some w2 \<and> image_inv w2 \<and> image_rest w2 = image_rest ?w1 \<and>
      image_refs w2 = (if ?i = 0 then image_refs w else (image_refs w)(?i := image_refs w ?i - 1))"
    using image_rc.dec_held [of ?w1 ?i] slot_held [OF inv c, of x] capture_invD(1) [OF inv] by auto
  then obtain w2 where w2: "(if ?i \<noteq> 0 then image_dec_ref ?i ?w1 else Some ?w1) = Some w2" "image_inv w2"
      "image_rest w2 = image_rest ?w1"
      "image_refs w2 = (if ?i = 0 then image_refs w else (image_refs w)(?i := image_refs w ?i - 1))" by blast
  have c2: "captures w2 = (captures w)(c := ?c\<lparr>cap_lock := RW_WRITER\<rparr>)"
    using image_rest_captures(1) [OF w2(3)] by simp
  let ?d = "?c\<lparr>cap_image := (cap_image ?c)(x := j)\<rparr>"
  let ?w3 = "put_capture c (?d\<lparr>cap_lock := RW_WRITER\<rparr>) w2"
  have comm: "?c\<lparr>cap_lock := RW_WRITER, cap_image := f\<rparr> = ?c\<lparr>cap_image := f, cap_lock := RW_WRITER\<rparr>" for f
    by (cases ?c) simp
  have "0 < image_refs w2 j" if "j \<noteq> 0"
  proof -
    have "uses ?c j \<le> slot_count w j" using inv c by (rule uses_le_slot_count)
    moreover have "0 < outside w j" using j that by simp
    moreover have "?i = j \<Longrightarrow> 0 < uses ?c j" by (cases x) (auto simp: uses_def image_types_def)
    moreover have "0 \<le> slot_count w j" using calculation(1) uses_nonneg [of ?c j] by linarith
    ultimately show ?thesis using that by (auto simp: w2(4) outside_def)
  qed
  then have "\<exists>w4. (if j \<noteq> 0 then image_inc_ref j ?w3 else Some ?w3) = Some w4 \<and> image_inv w4 \<and> image_rest w4 = image_rest ?w3 \<and>
      image_refs w4 = (if j = 0 then image_refs w2 else (image_refs w2)(j := image_refs w2 j + 1))"
    using image_rc.inc_held [of ?w3 j] w2(2) by auto
  then obtain w4 where w4: "(if j \<noteq> 0 then image_inc_ref j ?w3 else Some ?w3) = Some w4" "image_inv w4"
      "image_rest w4 = image_rest ?w3"
      "image_refs w4 = (if j = 0 then image_refs w2 else (image_refs w2)(j := image_refs w2 j + 1))" by blast
  have c4: "captures w4 = (captures w)(c := ?d\<lparr>cap_lock := RW_WRITER\<rparr>)"
    using image_rest_captures(1) [OF w4(3)] c2 by simp
  let ?w5 = "put_capture c ?d w4"
  have c5: "captures ?w5 = (captures w)(c := ?d)" using c4 by simp
  have unl: "?d\<lparr>cap_lock := RW_READERS 0\<rparr> = ?d" using lock by (cases ?c) simp
  have rel: "on_capture_lock rwlock_release_write c w4 = Some ?w5"
    using c4 unl by (simp add: on_capture_lock_def rwlock_release_write_def)
  have live5: "live H_capture ?w5 h = live H_capture w h" for h
    using image_rest_captures(2) [OF w4(3), of h] image_rest_captures(2) [OF w2(3), of h] by simp
  have run: "capture_set_image x c j w = Some ?w5"
    unfolding capture_set_image_def using live acq rel w2(1) w4(1) c2
    by (cases "?i = 0"; cases "j = 0") (simp_all add: comm)
  have refs: "image_refs ?w5 k = image_refs w k + uses ?d k - uses ?c k + 0" if "k \<noteq> 0" for k
    using that w2(4) w4(4) by auto
  have "capture_inv ?w5 \<and> outside ?w5 = (\<lambda>k. outside w k + 0) \<and> capture_refs ?w5 = capture_refs w"
    using capture_update [OF inv c _ c5 live5 _ _ refs] w4(2) lock capture_invD(3) [OF inv] by simp
  then show ?thesis using run c5 image_rest_env [OF w2(3)] image_rest_env [OF w4(3)] by simp
qed

lemma capture_create_inv:
  assumes inv: "capture_inv w" and run: "capture_create (Some v) w = Some (r, out, w')"
  shows "capture_inv w' \<and> outside w' = outside w \<and> image_refs w' = image_refs w \<and>
    (if r = ZSA_RESULT_SUCCEEDED
     then \<exists>h. out = Some h \<and> h \<noteq> 0 \<and> htype w h = None \<and> capture_refs w' = (capture_refs w)(h := 1) \<and>
        captures w' h = \<lparr>cap_ref_count = 1, cap_lock = RW_READERS 0, cap_image = (\<lambda>_. 0), cap_temperature_c = NAN\<rparr>
     else out = Some 0 \<and> capture_refs w' = capture_refs w)"
proof -
  obtain h w1 where m: "handle_create H_capture w = (h, w1)" by fastforce
  note h1 = handle_create_other [OF capture_invD(1) [OF inv] m]
  have cap1: "captures w1 = captures w" using more_captures [OF h1(9)] by simp
  show ?thesis
  proof (cases "h = 0")
    case True
    then have "r = ZSA_RESULT_FAILED \<and> out = Some 0 \<and> w' = w1"
      using run m by (simp add: capture_create_def zsa_capture_t_create_def)
    moreover have "live H_capture w1 k = live H_capture w k" for k using h1(8) True by (simp add: live_def)
    note capture_inv_frame [OF inv h1(1,3) cap1 this]
    ultimately show ?thesis using h1(3) by simp
  next
    case False
    let ?d = "\<lparr>cap_ref_count = 1, cap_lock = RW_READERS 0, cap_image = (\<lambda>_. 0), cap_temperature_c = NAN\<rparr>"
    let ?w2 = "w1\<lparr>os_requests := Suc (os_requests w1)\<rparr>"
    have w': "r = ZSA_RESULT_SUCCEEDED \<and> out = Some h \<and> w' = put_capture h ?d ?w2"
      using run m False
      by (auto simp: capture_create_def zsa_capture_t_create_def rwlock_init_def os_request_def capture_zero_def
          put_capture_def Let_def split: if_splits)
    have fresh: "htype w h = None" "live H_capture w1 h" using h1(7) False by auto
    have dead: "h \<notin> cheld w" using fresh(1) by (simp add: cheld_def live_def)
    have liv: "live H_capture w1 k = (k = h \<or> live H_capture w k)" for k using h1(8) False by (simp add: live_def)
    have ch1: "cheld w1 - {h} = cheld w" "cheld w' = insert h (cheld w)"
      using w' liv cap1 dead by (auto simp: cheld_def put_capture_def live_def)
    have "slot_count w' i = uses ?d i + slot_count w i" for i
      unfolding slot_count_def ch1(2) using capture_invD(2) [OF inv] dead w' cap1
      by (auto simp: sum.insert_remove put_capture_def intro!: sum.cong)
    moreover have "uses ?d i = 0" if "i \<noteq> 0" for i using that by (simp add: uses_def image_types_def)
    moreover have img: "image_inv w' \<and> image_refs w' = image_refs w"
    proof -
      have "alloc_inv ?w2" using image_invD(1) [OF h1(1)] by (simp add: alloc_inv_defs mem_ok_def)
      from image_inv_frame [OF h1(1) this] show ?thesis using w' h1(3) by (simp add: live_def)
    qed
    ultimately have "outside w' = outside w" by (auto simp: outside_def fun_eq_iff)
    moreover have "capture_inv w'"
      using calculation inv img ch1 w' cap1 by (auto simp: capture_inv_def put_capture_def)
    moreover have "capture_refs w' = (capture_refs w)(h := 1)"
      using w' cap1 ch1(2) dead by (auto simp: capture_refs_def fun_eq_iff put_capture_def)
    ultimately show ?thesis using w' False fresh img by simp
  qed
qed

subsection \<open>Properties\<close>

text \<open>A capture (handle 9) that holds the only reference to image 3; a client holds two to image 1.\<close>

definition one_capture :: capture_world where
  "one_capture =
     \<lparr>next_addr = 200, os_grants = (\<lambda>_. True), os_requests = 0,
      htype = [1 \<mapsto> H_image, 3 \<mapsto> H_image, 9 \<mapsto> H_capture], locks = [5 \<mapsto> False, 7 \<mapsto> False], conds = (\<lambda>_. False),
      g_init_once = True, g_lock = RW_READERS 0, g_alloc = CB_default_alloc, g_free = CB_default_free,
      image_count = (\<lambda>_. 0)(ALLOCATION_SOURCE_USER := 1), g_allocator_sessions = 0,
      blocks = [100 \<mapsto> \<lparr>blk_size = 40,
                 blk_header = Some \<lparr>ac_source = ALLOCATION_SOURCE_USER, ac_free = CB_default_free, ac_free_context = 0\<rparr>\<rparr>],
      user_contexts = (\<lambda>_. 0), callbacks = [],
      images = (\<lambda>_. image_zero)
        (1 := image_zero\<lparr>img_ref_count := 2, img_lock := 5, img_buffer := 1000, img_buffer_size := 8,
                 img_memory_free_cb := Some (CB_image_user 9), img_memory_free_cb_context := 77\<rparr>,
         3 := fresh_image 8 132 7),
      clock_gettime = (\<lambda>_. Some (5, 6)), clock_reads = 0,
      captures = (\<lambda>_. capture_zero)
        (9 := \<lparr>cap_ref_count = 1, cap_lock = RW_READERS 0, cap_image = (\<lambda>_. 0)(IMAGE_TYPE_COLOR := 3),
               cap_temperature_c = NAN\<rparr>)\<rparr>"

lemma one_capture_held: "held one_capture = {1, 3}" "cheld one_capture = {9}"
  by (auto simp: held_def cheld_def live_def one_capture_def fresh_image_def image_zero_def capture_zero_def split: if_splits)

lemma one_capture_refs:
  "image_refs one_capture 1 = 2" "image_refs one_capture 3 = 1" "outside one_capture 1 = 2" "outside one_capture 3 = 0"
  "captures one_capture 9 = \<lparr>cap_ref_count = 1, cap_lock = RW_READERS 0, cap_image = (\<lambda>_. 0)(IMAGE_TYPE_COLOR := 3),
     cap_temperature_c = NAN\<rparr>"
  by (simp_all add: image_refs_def outside_def slot_count_def one_capture_held)
    (simp_all add: one_capture_def fresh_image_def image_zero_def uses_def image_types_def)

lemma one_capture_inv: "capture_inv one_capture"
proof -
  have "alloc_inv one_capture"
    by (auto simp: one_capture_def alloc_inv_defs mem_ok_def source_out_of_range_iff sizeof_allocation_context_t_def
        split: if_splits)
  moreover have "images_ok one_capture"
    unfolding images_ok_def one_capture_held
    by (auto simp: one_capture_def image_wf_def buffer_ok_def apart_def fresh_image_def owns_buffer_def image_zero_def)
  moreover have "0 \<le> outside one_capture i" for i
  proof (cases "i \<in> {1, 3}")
    case False
    then have "image_refs one_capture i = 0" "i \<noteq> 0 \<Longrightarrow> slot_count one_capture i = 0"
      by (auto simp: image_refs_def slot_count_def one_capture_held one_capture_refs(5) uses_def image_types_def)
    then show ?thesis by (simp add: outside_def)
  qed (auto simp: one_capture_refs simp del: One_nat_def)
  ultimately show ?thesis by (simp add: capture_inv_def image_inv_def one_capture_held one_capture_refs)
qed

text \<open>
  (C9) Putting an image into a capture: for a held capture and an image to which the caller holds a
  reference, the call returns, the slot then holds the image and the other slots what they held, and no
  client's reference to any image is gained or lost; reading the slot back yields that image together
  with exactly one new reference.
\<close>

theorem capture_set_then_get:
  assumes "capture_inv w" and "c \<in> cheld w" and "j = 0 \<or> 0 < outside w j"
  shows "\<exists>w1 w2. capture_set_image x c j w = Some w1 \<and> capture_inv w1 \<and> outside w1 = outside w \<and>
      cap_image (captures w1 c) = (cap_image (captures w c))(x := j) \<and>
      capture_get_image x c w1 = Some (j, w2) \<and> capture_inv w2 \<and>
      outside w2 = (\<lambda>i. outside w i + (if i = j \<and> j \<noteq> 0 then 1 else 0)) \<and> capture_refs w2 = capture_refs w"
proof -
  from capture_set_image_run [OF assms, of x] obtain w1 where w1: "capture_set_image x c j w = Some w1" "capture_inv w1"
    "outside w1 = outside w" "capture_refs w1 = capture_refs w"
    "captures w1 = (captures w)(c := (captures w c)\<lparr>cap_image := (cap_image (captures w c))(x := j)\<rparr>)" by blast
  have "c \<in> cheld w1" using assms(2) w1(4) capture_refs_pos by metis
  from capture_get_image_run [OF w1(2) this, of x] show ?thesis using w1 by auto
qed

theorem capture_set_then_get_witness:
  "\<exists>w1 w2. capture_set_image IMAGE_TYPE_IR 9 1 one_capture = Some w1 \<and> capture_get_image IMAGE_TYPE_IR 9 w1 = Some (1, w2) \<and>
      outside w2 1 = 3"
  using capture_set_then_get [OF one_capture_inv, of 9 1 IMAGE_TYPE_IR] one_capture_held one_capture_refs by fastforce

text \<open>
  (C15) Releasing the last reference to a capture releases exactly the references its slots hold: every
  image loses as many references as it had slots in the capture, the references of the clients stay
  what they were, an image that nobody else refers to is gone with it, and the handle becomes invalid.
\<close>

theorem capture_last_release_frees_its_images:
  assumes "capture_inv w" and "c \<in> cheld w" and "cap_ref_count (captures w c) = 1"
  shows "\<exists>w'. capture_dec_ref c w = Some w' \<and> capture_inv w' \<and> handle_get_context H_capture captures c w' = None \<and>
      outside w' = outside w \<and> (\<forall>i. i \<noteq> 0 \<longrightarrow> image_refs w' i = image_refs w i - uses (captures w c) i) \<and>
      (\<forall>d. d \<noteq> c \<longrightarrow> capture_refs w' d = capture_refs w d)"
proof -
  from capture_dec_ref_last [OF assms] obtain w' where w': "capture_dec_ref c w = Some w'" "capture_inv w'"
    "capture_refs w' = (capture_refs w)(c := 0)" "capture_rest w' = capture_rest w" "htype w' c = None"
    "image_refs w' = (\<lambda>i. image_refs w i - int (count_list (held_images (captures w c) image_types) i))" by blast
  have "c \<noteq> 0" using cheld_live [OF assms(2)] by (simp add: live_def)
  then show ?thesis using w' by (auto simp: handle_get_context_def capture_rest_def count_held_images)
qed

theorem capture_last_release_frees_its_images_witness:
  "\<exists>w'. capture_dec_ref 9 one_capture = Some w' \<and> image_refs w' 3 = 0 \<and> outside w' 1 = 2"
proof -
  have "9 \<in> cheld one_capture" "cap_ref_count (captures one_capture 9) = 1"
    by (simp_all add: one_capture_held one_capture_refs)
  from capture_last_release_frees_its_images [OF one_capture_inv this] show ?thesis
    using one_capture_refs by (auto simp: uses_def image_types_def)
qed

text \<open>
  (C28) A setter releases the image in the slot before it takes its reference to the new one. Setting a
  slot to the image it already holds, when the capture holds the only reference, therefore destroys the
  image and goes on to use the dangling handle: the call does not return normally.
\<close>

theorem capture_set_same_image_uses_freed_handle:
  assumes "capture_inv w" and "c \<in> cheld w" and "cap_image (captures w c) x = i" and "i \<noteq> 0" and "image_refs w i = 1"
  shows "capture_set_image x c i w = None"
proof -
  let ?w1 = "put_capture c ((captures w c)\<lparr>cap_lock := RW_WRITER\<rparr>) w"
  have lock: "cap_lock (captures w c) = RW_READERS 0" using assms(1,2) by (rule capture_invD)
  have h: "i \<in> held ?w1" "img_ref_count (images ?w1 i) = 1"
    using assms(5) image_refs_pos [of w i] by (auto simp: image_refs_def split: if_splits)
  have inv1: "image_inv ?w1" using capture_invD(1) [OF assms(1)] by simp
  have "image_dec_ref i ?w1 = Some (after_last i ?w1)"
    using image_dec_ref_last [OF inv1 held_live [OF h(1)] h(2)] .
  moreover have "captures (after_last i ?w1) = captures ?w1"
    using image_after_last_frame(2) [OF inv1 h(1)] by (rule image_rest_captures)
  moreover have "image_inc_ref i (put_capture c d (after_last i ?w1)) = None" for d
    using assms(4) by (simp add: image_inc_ref_def image_write_def handle_get_context_def)
  ultimately show ?thesis using cheld_live [OF assms(2)] lock assms(3,4)
    by (simp add: capture_set_image_def on_capture_lock_def)
qed

theorem capture_set_same_image_uses_freed_handle_witness:
  "capture_set_image IMAGE_TYPE_COLOR 9 3 one_capture = None"
  using capture_set_same_image_uses_freed_handle [OF one_capture_inv, of 9 IMAGE_TYPE_COLOR 3]
  by (simp add: one_capture_held one_capture_refs)

end
