(* ===== verification/Queue.thy ===== *)
theory Queue
  imports Capture
begin

section \<open>The capture queue\<close>

text \<open>
  \<open>src/queue/queue.c\<close>: a bounded queue of captures over a ring of \<open>depth\<close> slots, of which one stays
  free, with a lock, a condition variable for blocked consumers and an enabled flag. A full queue drops
  its oldest capture for a new one. The queue owns one reference to each capture in it.
\<close>

subsection \<open>State\<close>

text \<open>
  The array comes from \<open>malloc\<close>: it may be missing (\<open>None\<close>), and its entries are undefined until they
  are written (\<open>None\<close> in the list).
\<close>

record queue_context_t =
  q_enabled :: bool
  q_stopped :: bool
  queue_pop_blocked :: u32
  q_read_location :: u32
  q_write_location :: u32
  q_queue :: "ptr option list option"
  q_depth :: u32
  q_name :: "string option"
  q_dropped_count :: u32
  q_lock :: ptr
  q_condition :: ptr

definition queue_zero :: queue_context_t where
  "queue_zero =
     \<lparr>q_enabled = False, q_stopped = False, queue_pop_blocked = 0, q_read_location = 0, q_write_location = 0,
      q_queue = None, q_depth = 0, q_name = None, q_dropped_count = 0, q_lock = 0, q_condition = 0\<rparr>"

definition sizeof_queue_entry_t :: nat where
  "sizeof_queue_entry_t = 8"

record queue_world = capture_world +
  queues :: "ptr \<Rightarrow> queue_context_t"

definition put_queue :: "ptr \<Rightarrow> queue_context_t \<Rightarrow> 'a queue_world_scheme \<Rightarrow> 'a queue_world_scheme" where
  "put_queue h q w = w\<lparr>queues := (queues w)(h := q)\<rparr>"

definition queue_t_create :: "'a queue_world_scheme \<Rightarrow> ptr \<times> 'a queue_world_scheme" where
  "queue_t_create w =
     (case handle_create H_queue w of (p, w1) \<Rightarrow> (p, if p = 0 then w1 else put_queue p queue_zero w1))"

abbreviation queue_t_get_context :: "ptr \<Rightarrow> 'a queue_world_scheme \<Rightarrow> queue_context_t option option" where
  "queue_t_get_context \<equiv> handle_get_context H_queue queues"

subsection \<open>The ring\<close>

definition inc_read_write_location :: "queue_context_t \<Rightarrow> u32 \<Rightarrow> u32" where
  "inc_read_write_location queue location = (location + 1) mod q_depth queue"

definition is_queue_empty :: "queue_context_t \<Rightarrow> bool" where
  "is_queue_empty queue = (q_write_location queue = q_read_location queue)"

definition is_queue_full :: "queue_context_t \<Rightarrow> bool" where
  "is_queue_full queue = (inc_read_write_location queue (q_write_location queue) = q_read_location queue)"

text \<open>Reading a slot outside the array, or one never written, has no result.\<close>

definition queue_pop_internal_locked :: "queue_context_t \<Rightarrow> (ptr \<times> queue_context_t) option" where
  "queue_pop_internal_locked queue =
     (if \<not> is_queue_empty queue then do {
        arr \<leftarrow> q_queue queue;
        entry \<leftarrow> (if unat (q_read_location queue) < length arr then arr ! unat (q_read_location queue) else None);
        Some (entry, queue\<lparr>q_read_location := inc_read_write_location queue (q_read_location queue)\<rparr>)
      } else Some (0, queue))"

definition queue_push_internal_locked :: "queue_context_t \<Rightarrow> ptr \<Rightarrow> queue_context_t option" where
  "queue_push_internal_locked queue capture = do {
     arr \<leftarrow> q_queue queue;
     if unat (q_write_location queue) < length arr
     then Some (queue\<lparr>q_queue := Some (arr[unat (q_write_location queue) := Some capture]),
                      q_write_location := inc_read_write_location queue (q_write_location queue)\<rparr>)
     else None
   }"

subsection \<open>Disabling and destroying\<close>

text \<open>
  The two loops of \<open>queue_disable\<close>. The first one waits for the blocked consumers: in each round it
  wakes one up and lets the other threads run (\<open>others n\<close> is what they do in round \<open>n\<close>); it may never
  end. The second one releases what is left in the queue.
\<close>

partial_function (option) queue_wait_for_consumers ::
  "(nat \<Rightarrow> 'a queue_world_scheme \<Rightarrow> 'a queue_world_scheme) \<Rightarrow> nat \<Rightarrow> ptr \<Rightarrow> 'a queue_world_scheme \<Rightarrow>
     'a queue_world_scheme option" where
  "queue_wait_for_consumers others n h w =
     (if queue_pop_blocked (queues w h) \<noteq> 0 then
        Option.bind (Condition_Post (q_condition (queues w h)) w) (\<lambda>_.
        Option.bind (Unlock (q_lock (queues w h)) w) (\<lambda>r1.
        Option.bind (Lock (q_lock (queues (others n (snd r1)) h)) (others n (snd r1))) (\<lambda>r2.
        queue_wait_for_consumers others (Suc n) h (snd r2))))
      else Some w)"

partial_function (option) queue_release_all :: "ptr \<Rightarrow> 'a queue_world_scheme \<Rightarrow> 'a queue_world_scheme option" where
  "queue_release_all h w =
     (if \<not> is_queue_empty (queues w h) then
        Option.bind (queue_pop_internal_locked (queues w h)) (\<lambda>r.
        Option.bind (capture_dec_ref (fst r) (put_queue h (snd r) w)) (\<lambda>w.
        queue_release_all h w))
      else Some w)"

definition queue_disable ::
  "(nat \<Rightarrow> 'a queue_world_scheme \<Rightarrow> 'a queue_world_scheme) \<Rightarrow> ptr \<Rightarrow> 'a queue_world_scheme \<Rightarrow> 'a queue_world_scheme option" where
  "queue_disable others queue_handle w = do {
     ctx \<leftarrow> queue_t_get_context queue_handle w;
     case ctx of
       None \<Rightarrow> Some w
     | Some _ \<Rightarrow> do {
         (_, w) \<leftarrow> Lock (q_lock (queues w queue_handle)) w;
         let w = put_queue queue_handle ((queues w queue_handle)\<lparr>q_enabled := False\<rparr>) w;
         w \<leftarrow> queue_wait_for_consumers others 0 queue_handle w;
         w \<leftarrow> queue_release_all queue_handle w;
         (_, w) \<leftarrow> Unlock (q_lock (queues w queue_handle)) w;
         Some w
       }
   }"

definition queue_destroy ::
  "(nat \<Rightarrow> 'a queue_world_scheme \<Rightarrow> 'a queue_world_scheme) \<Rightarrow> ptr \<Rightarrow> 'a queue_world_scheme \<Rightarrow> 'a queue_world_scheme option" where
  "queue_destroy others queue_handle w = do {
     ctx \<leftarrow> queue_t_get_context queue_handle w;
     case ctx of
       None \<Rightarrow> Some w
     | Some _ \<Rightarrow> do {
         w \<leftarrow> queue_disable others queue_handle w;
         let queue = queues w queue_handle;
         w \<leftarrow> (if q_condition queue \<noteq> 0 then Condition_Deinit (q_condition queue) w else Some w);
         let w = (if q_queue queue \<noteq> None then put_queue queue_handle (queue\<lparr>q_queue := None\<rparr>) w else w);
         (_, w) \<leftarrow> Lock_Deinit (q_lock queue) w;
         handle_destroy queue_handle w
       }
   }"

subsection \<open>Creation\<close>

text \<open>
  The handle is created before the depth is checked, and the context is used without a check for
  \<open>NULL\<close>: a failed handle creation with a valid depth is a fault. During the destruction on the error
  path nobody else knows the queue.
\<close>

definition queue_create ::
  "u32 \<Rightarrow> string option \<Rightarrow> 'a queue_world_scheme \<Rightarrow> (zsa_result_t \<times> ptr \<times> 'a queue_world_scheme) option" where
  "queue_create depth queue_name w =
     (case queue_t_create w of (h, w) \<Rightarrow>
        if depth = 0 then Some (ZSA_RESULT_FAILED, h, w)
        else if depth > 10000 then Some (ZSA_RESULT_FAILED, h, w)
        else if h = 0 then None
        else do {
          let w = put_queue h ((queues w h)\<lparr>q_depth := depth + 1,
                    q_name := Some (case_option ''Unknown queue'' id queue_name)\<rparr>) w;
          let (p, w) = c_malloc (sizeof_queue_entry_t * unat (q_depth (queues w h))) w;
          let w = put_queue h ((queues w h)\<lparr>q_queue :=
                    if p = 0 then None else Some (replicate (unat (q_depth (queues w h))) None)\<rparr>) w;
          let (result, w) =
            (if p = 0 then (ZSA_RESULT_FAILED, w)
             else case Lock_Init w of (lock, w) \<Rightarrow>
               (ZSA_RESULT_FROM_BOOL (lock \<noteq> 0), put_queue h ((queues w h)\<lparr>q_lock := lock\<rparr>) w));
          if ZSA_SUCCEEDED result then
            (case Condition_Init w of (cond, w) \<Rightarrow>
               Some (result, h, put_queue h ((queues w h)\<lparr>q_condition := cond\<rparr>) w))
          else do {
            w \<leftarrow> queue_destroy (\<lambda>_ w. w) h w;
            Some (result, 0, w)
          }
        })"

subsection \<open>Pop and push\<close>

text \<open>
  \<open>queue_pop\<close>: \<open>others\<close> is what the other threads do while the call waits, \<open>outcome\<close> how the wait ends.
  The out parameter is an option as in \<open>image_create\<close>.
\<close>

definition queue_pop_attempt ::
  "('a queue_world_scheme \<Rightarrow> 'a queue_world_scheme) \<Rightarrow> COND_RESULT \<Rightarrow> ptr \<Rightarrow> int \<Rightarrow>
     'a queue_world_scheme \<Rightarrow> (zsa_wait_result_t \<times> ptr \<times> 'a queue_world_scheme) option" where
  "queue_pop_attempt others outcome queue_handle wait_in_ms w =
     (if \<not> q_enabled (queues w queue_handle) then Some (ZSA_WAIT_RESULT_FAILED, 0, w)
      else do {
        let queue = queues w queue_handle;
        let queue = queue\<lparr>queue_pop_blocked := queue_pop_blocked queue + 1\<rparr>;
        (capture, queue) \<leftarrow> queue_pop_internal_locked queue;
        let w = put_queue queue_handle queue w;
        (wresult, capture, w) \<leftarrow>
          (if capture \<noteq> 0 then Some (ZSA_WAIT_RESULT_SUCCEEDED, capture, w)
           else if wait_in_ms \<noteq> 0 then do {
             (cond_result, w) \<leftarrow>
               Condition_Wait others outcome (q_condition queue) (q_lock queue)
                 (if wait_in_ms < 0 then 0 else wait_in_ms) w;
             if cond_result = COND_OK then do {
               (capture, queue) \<leftarrow> queue_pop_internal_locked (queues w queue_handle);
               let w = put_queue queue_handle queue w;
               if capture \<noteq> 0 \<or> \<not> q_enabled queue
               then Some (ZSA_WAIT_RESULT_SUCCEEDED, capture, w)
               else None
             }
             else if cond_result \<noteq> COND_TIMEOUT then None
             else Some (ZSA_WAIT_RESULT_TIMEOUT, capture, w)
           }
           else Some (ZSA_WAIT_RESULT_TIMEOUT, capture, w));
        let queue = queues w queue_handle;
        Some (wresult, capture,
          put_queue queue_handle (queue\<lparr>queue_pop_blocked := queue_pop_blocked queue - 1\<rparr>) w)
      })"

text \<open>The end of \<open>queue_pop\<close>, from the check whether the queue was disabled meanwhile.\<close>

definition queue_pop_finish ::
  "ptr \<Rightarrow> zsa_wait_result_t \<Rightarrow> ptr \<Rightarrow> 'a queue_world_scheme \<Rightarrow> (zsa_wait_result_t \<times> ptr option \<times> 'a queue_world_scheme) option" where
  "queue_pop_finish queue_handle wresult capture w = do {
     (wresult, capture, w) \<leftarrow>
       (if \<not> q_enabled (queues w queue_handle) then do {
          w \<leftarrow> (if capture \<noteq> 0 then capture_dec_ref capture w else Some w);
          Some (ZSA_WAIT_RESULT_FAILED, 0, w)
        } else Some (wresult, capture, w));
     let w = (if q_dropped_count (queues w queue_handle) \<noteq> 0
              then put_queue queue_handle ((queues w queue_handle)\<lparr>q_dropped_count := 0\<rparr>) w else w);
     (_, w) \<leftarrow> Unlock (q_lock (queues w queue_handle)) w;
     Some (wresult, Some capture, w)
   }"

definition queue_pop ::
  "('a queue_world_scheme \<Rightarrow> 'a queue_world_scheme) \<Rightarrow> COND_RESULT \<Rightarrow> ptr \<Rightarrow> int \<Rightarrow> ptr option \<Rightarrow>
     'a queue_world_scheme \<Rightarrow> (zsa_wait_result_t \<times> ptr option \<times> 'a queue_world_scheme) option" where
  "queue_pop others outcome queue_handle wait_in_ms out_capture w = do {
     ctx \<leftarrow> queue_t_get_context queue_handle w;
     case ctx of
       None \<Rightarrow> Some (ZSA_WAIT_RESULT_FAILED, out_capture, w)
     | Some _ \<Rightarrow>
         if out_capture = None then Some (ZSA_WAIT_RESULT_FAILED, out_capture, w)
         else do {
           (_, w) \<leftarrow> Lock (q_lock (queues w queue_handle)) w;
           (wresult, capture, w) \<leftarrow> queue_pop_attempt others outcome queue_handle wait_in_ms w;
           queue_pop_finish queue_handle wresult capture w
         }
   }"

text \<open>The first half of a push into an enabled queue: making room when the queue is full.\<close>

definition push_room :: "ptr \<Rightarrow> ptr option \<Rightarrow> 'a queue_world_scheme \<Rightarrow> (ptr option \<times> 'a queue_world_scheme) option" where
  "push_room h dropped w =
     (if is_queue_full (queues w h) then
        (if dropped = None then do {
           let queue = queues w h;
           (oldest, queue) \<leftarrow> queue_pop_internal_locked (queue\<lparr>q_dropped_count := q_dropped_count queue + 1\<rparr>);
           w \<leftarrow> capture_dec_ref oldest (put_queue h queue w);
           Some (None, w)
         } else do {
           (oldest, queue) \<leftarrow> queue_pop_internal_locked (queues w h);
           Some (Some oldest, put_queue h queue w)
         })
      else Some (dropped, w))"

definition queue_push_w_dropped ::
  "ptr \<Rightarrow> ptr \<Rightarrow> ptr option \<Rightarrow> 'a queue_world_scheme \<Rightarrow> (ptr option \<times> 'a queue_world_scheme) option" where
  "queue_push_w_dropped queue_handle capture dropped w = do {
     ctx \<leftarrow> queue_t_get_context queue_handle w;
     case ctx of
       None \<Rightarrow> Some (dropped, w)
     | Some _ \<Rightarrow>
         if capture = 0 then Some (dropped, w)
         else do {
           (_, w) \<leftarrow> Lock (q_lock (queues w queue_handle)) w;
           (dropped, w) \<leftarrow>
             (if \<not> q_enabled (queues w queue_handle) then Some (dropped, w)
              else do {
                (dropped, w) \<leftarrow> push_room queue_handle dropped w;
                w \<leftarrow> capture_inc_ref capture w;
                queue \<leftarrow> queue_push_internal_locked (queues w queue_handle) capture;
                let w = put_queue queue_handle queue w;
                _ \<leftarrow> Condition_Post (q_condition queue) w;
                Some (dropped, w)
              });
           (_, w) \<leftarrow> Unlock (q_lock (queues w queue_handle)) w;
           Some (dropped, w)
         }
   }"

definition queue_push :: "ptr \<Rightarrow> ptr \<Rightarrow> 'a queue_world_scheme \<Rightarrow> 'a queue_world_scheme option" where
  "queue_push queue_handle capture w = map_option snd (queue_push_w_dropped queue_handle capture None w)"

subsection \<open>Enabling and stopping\<close>

definition queue_enable :: "ptr \<Rightarrow> 'a queue_world_scheme \<Rightarrow> 'a queue_world_scheme option" where
  "queue_enable queue_handle w = do {
     ctx \<leftarrow> queue_t_get_context queue_handle w;
     case ctx of
       None \<Rightarrow> Some w
     | Some _ \<Rightarrow> do {
         (_, w) \<leftarrow> Lock (q_lock (queues w queue_handle)) w;
         let w = put_queue queue_handle ((queues w queue_handle)\<lparr>q_enabled := True, q_stopped := False\<rparr>) w;
         (_, w) \<leftarrow> Unlock (q_lock (queues w queue_handle)) w;
         Some w
       }
   }"

text \<open>\<open>queue_stop\<close> does not check its handle.\<close>

definition queue_stop ::
  "(nat \<Rightarrow> 'a queue_world_scheme \<Rightarrow> 'a queue_world_scheme) \<Rightarrow> ptr \<Rightarrow> 'a queue_world_scheme \<Rightarrow> 'a queue_world_scheme option" where
  "queue_stop others queue_handle w = do {
     ctx \<leftarrow> queue_t_get_context queue_handle w;
     case ctx of
       None \<Rightarrow> None
     | Some _ \<Rightarrow> do {
         (_, w) \<leftarrow> Lock (q_lock (queues w queue_handle)) w;
         let w = put_queue queue_handle ((queues w queue_handle)\<lparr>q_stopped := True\<rparr>) w;
         (_, w) \<leftarrow> Unlock (q_lock (queues w queue_handle)) w;
         queue_disable others queue_handle w
       }
   }"

subsection \<open>The ring implements a bounded queue\<close>

definition qlen :: "queue_context_t \<Rightarrow> nat" where
  "qlen q = (if unat (q_read_location q) \<le> unat (q_write_location q)
     then unat (q_write_location q) - unat (q_read_location q)
     else unat (q_write_location q) + unat (q_depth q) - unat (q_read_location q))"

definition qslot :: "queue_context_t \<Rightarrow> nat \<Rightarrow> ptr option" where
  "qslot q i = the (q_queue q) ! ((unat (q_read_location q) + i) mod unat (q_depth q))"

text \<open>The captures in the queue, oldest first.\<close>

definition contents :: "queue_context_t \<Rightarrow> ptr list" where
  "contents q = map (\<lambda>i. the (qslot q i)) [0..<qlen q]"

definition capacity :: "queue_context_t \<Rightarrow> nat" where
  "capacity q = unat (q_depth q) - 1"

definition ring_ok :: "queue_context_t \<Rightarrow> bool" where
  "ring_ok q \<longleftrightarrow> 2 \<le> unat (q_depth q) \<and> unat (q_depth q) \<le> 10001 \<and>
     unat (q_read_location q) < unat (q_depth q) \<and> unat (q_write_location q) < unat (q_depth q) \<and>
     map_option length (q_queue q) = Some (unat (q_depth q)) \<and>
     (\<forall>i < qlen q. qslot q i \<noteq> None \<and> qslot q i \<noteq> Some 0)"

lemma ring_okD:
  assumes "ring_ok q"
  shows "2 \<le> unat (q_depth q)" "unat (q_depth q) \<le> 10001" "unat (q_read_location q) < unat (q_depth q)"
    "unat (q_write_location q) < unat (q_depth q)" "\<exists>arr. q_queue q = Some arr \<and> length arr = unat (q_depth q)"
    "i < qlen q \<Longrightarrow> \<exists>c. qslot q i = Some c \<and> c \<noteq> 0" "qlen q < unat (q_depth q)"
  using assms by (auto simp: ring_ok_def qlen_def split: option.splits)

lemma inc_location_nat:
  assumes "ring_ok q" and "unat x < unat (q_depth q)"
  shows "unat (inc_read_write_location q x) = (if Suc (unat x) = unat (q_depth q) then 0 else Suc (unat x))"
proof -
  have "unat x < 10001" using assms(2) ring_okD(2) [OF assms(1)] by linarith
  then have "unat (x + 1) = Suc (unat x)" by (simp add: unat_word_ariths)
  then show ?thesis using assms(2) by (auto simp: inc_read_write_location_def unat_mod)
qed

lemma ring_empty: "ring_ok q \<Longrightarrow> is_queue_empty q \<longleftrightarrow> contents q = []"
  by (auto simp: is_queue_empty_def contents_def qlen_def ring_ok_def word_unat_eq_iff split: option.splits)

lemma length_contents [simp]: "length (contents q) = qlen q"
  by (simp add: contents_def)

lemma ring_full:
  assumes "ring_ok q"
  shows "is_queue_full q \<longleftrightarrow> length (contents q) = capacity q"
  using ring_okD(1,3,4) [OF assms] inc_location_nat [OF assms ring_okD(4) [OF assms]]
  by (auto simp: is_queue_full_def word_unat_eq_iff qlen_def capacity_def split: if_splits)

lemma ring_pop_empty: "ring_ok q \<Longrightarrow> contents q = [] \<Longrightarrow> queue_pop_internal_locked q = Some (0, q)"
  by (simp add: queue_pop_internal_locked_def ring_empty)

lemma ring_pop:
  assumes "ring_ok q" and "contents q \<noteq> []"
  defines "q' \<equiv> q\<lparr>q_read_location := inc_read_write_location q (q_read_location q)\<rparr>"
  shows "queue_pop_internal_locked q = Some (hd (contents q), q')" and "ring_ok q'"
    and "contents q' = tl (contents q)" and "hd (contents q) \<noteq> 0"
proof -
  let ?r = "unat (q_read_location q)" and ?d = "unat (q_depth q)"
  note ok = ring_okD [OF assms(1)]
  have pos: "0 < qlen q" using assms(2) by (simp flip: length_contents)
  have r': "unat (q_read_location q') = (if Suc ?r = ?d then 0 else Suc ?r)" using inc_location_nat [OF assms(1) ok(3)] by (simp add: q'_def)
  have len: "qlen q' = qlen q - 1"
    using pos ok(3,4) r' unfolding qlen_def by (auto simp: q'_def split: if_splits)
  have slot: "qslot q' i = qslot q (Suc i)" for i
  proof -
    have "((if Suc ?r = ?d then 0 else Suc ?r) + i) mod ?d = (?r + Suc i) mod ?d"
    proof (cases "Suc ?r = ?d")
      case True
      then have "?r + Suc i = ?d + i" by simp
      then have "(?r + Suc i) mod ?d = i mod ?d" by (simp only: mod_add_self1)
      then show ?thesis using True by simp
    qed simp
    then show ?thesis unfolding qslot_def r' by (simp add: q'_def)
  qed
  obtain c where c: "qslot q 0 = Some c" "c \<noteq> 0" using ok(6) [OF pos] by blast
  have split: "contents q = the (qslot q 0) # map (\<lambda>i. the (qslot q (Suc i))) [0..<qlen q - 1]"
    using pos by (cases "qlen q") (simp_all add: contents_def map_upt_Suc del: upt_Suc)
  show "contents q' = tl (contents q)" unfolding split by (simp add: contents_def len slot)
  show "hd (contents q) \<noteq> 0" unfolding split using c by simp
  show "queue_pop_internal_locked q = Some (hd (contents q), q')"
    using ring_empty [OF assms(1)] assms(2) ok(3,5) c split
    by (auto simp: queue_pop_internal_locked_def qslot_def q'_def)
  have "qslot q' i \<noteq> None \<and> qslot q' i \<noteq> Some 0" if "i < qlen q'" for i
  proof -
    have "Suc i < qlen q" using that len by linarith
    from ok(6) [OF this] show ?thesis by (auto simp: slot)
  qed
  then show "ring_ok q'" unfolding ring_ok_def using ok(1-5) r' by (auto simp: q'_def)
qed

lemma ring_push:
  assumes "ring_ok q" and "length (contents q) < capacity q" and "c \<noteq> 0"
  shows "\<exists>q'. queue_push_internal_locked q c = Some q' \<and> ring_ok q' \<and> contents q' = contents q @ [c] \<and>
     q_depth q' = q_depth q \<and> q' = q\<lparr>q_queue := q_queue q', q_write_location := q_write_location q'\<rparr>"
proof -
  let ?r = "unat (q_read_location q)" and ?w = "unat (q_write_location q)" and ?d = "unat (q_depth q)"
  note ok = ring_okD [OF assms(1)]
  obtain arr where arr: "q_queue q = Some arr" "length arr = ?d" using ok(5) by blast
  define q' where "q' = q\<lparr>q_queue := Some (arr[?w := Some c]),
    q_write_location := inc_read_write_location q (q_write_location q)\<rparr>"
  have w': "unat (q_write_location q') = (if Suc ?w = ?d then 0 else Suc ?w)" using inc_location_nat [OF assms(1) ok(4)] by (simp add: q'_def)
  have free: "Suc (qlen q) < ?d" using assms(2) by (simp add: capacity_def)
  have len: "qlen q' = Suc (qlen q)"
    using free ok(3,4) w' unfolding qlen_def by (auto simp: q'_def split: if_splits)
  have at: "(?r + qlen q) mod ?d = ?w" using ok(3,4) by (auto simp: qlen_def)
  have slot: "qslot q' i = (if i = qlen q then Some c else qslot q i)" if "i \<le> qlen q" for i
  proof (cases "i = qlen q")
    case True
    then show ?thesis using at ok(4) arr by (simp add: qslot_def q'_def)
  next
    case False
    then have "i < ?d" "qlen q < ?d" using that free by simp_all
    then have "(?r + i) mod ?d \<noteq> ?w" using ring_index_inj [of i ?d "qlen q" ?r] at False by auto
    then show ?thesis using False arr by (simp add: qslot_def q'_def)
  qed
  have "contents q' = contents q @ [c]" unfolding contents_def len using slot by (auto intro!: map_cong)
  moreover have "ring_ok q'"
  proof -
    have "qslot q' i \<noteq> None \<and> qslot q' i \<noteq> Some 0" if "i < qlen q'" for i
      using that slot [of i] ok(6) [of i] assms(3) unfolding len by (cases "i = qlen q") auto
    then show ?thesis unfolding ring_ok_def using ok(1-4) w' arr by (simp add: q'_def)
  qed
  moreover have "queue_push_internal_locked q c = Some q'"
    using arr ok(4) by (simp add: queue_push_internal_locked_def q'_def)
  ultimately show ?thesis by (auto simp: q'_def)
qed

text \<open>
  The interface the rest of the queue is written against: a list of at most \<open>capacity\<close> elements, taken
  from the front and extended at the back.
\<close>

locale bounded_queue =
  fixes wf :: "'q \<Rightarrow> bool" and elems :: "'q \<Rightarrow> ptr list" and cap :: "'q \<Rightarrow> nat" and full :: "'q \<Rightarrow> bool"
    and pop :: "'q \<Rightarrow> (ptr \<times> 'q) option" and push :: "'q \<Rightarrow> ptr \<Rightarrow> 'q option"
  assumes cap_pos: "wf q \<Longrightarrow> 0 < cap q"
    and bounded: "wf q \<Longrightarrow> length (elems q) \<le> cap q"
    and full_iff: "wf q \<Longrightarrow> full q \<longleftrightarrow> length (elems q) = cap q"
    and pop_elems: "wf q \<Longrightarrow> elems q \<noteq> [] \<Longrightarrow>
          \<exists>q'. pop q = Some (hd (elems q), q') \<and> wf q' \<and> elems q' = tl (elems q) \<and> cap q' = cap q"
    and push_elems: "wf q \<Longrightarrow> length (elems q) < cap q \<Longrightarrow> c \<noteq> 0 \<Longrightarrow>
          \<exists>q'. push q c = Some q' \<and> wf q' \<and> elems q' = elems q @ [c] \<and> cap q' = cap q"
begin

text \<open>Adding an element to a queue that drops its oldest one when it is full.\<close>

definition add :: "'q \<Rightarrow> ptr \<Rightarrow> 'q option" where
  "add q c = do { q \<leftarrow> (if full q then map_option snd (pop q) else Some q); push q c }"

primrec adds :: "'q \<Rightarrow> ptr list \<Rightarrow> 'q option" where
  "adds q [] = Some q"
| "adds q (c # cs) = do { q \<leftarrow> add q c; adds q cs }"

lemma add_elems:
  assumes "wf q" and "c \<noteq> 0"
  shows "\<exists>q'. add q c = Some q' \<and> wf q' \<and> cap q' = cap q \<and> elems q' = push_newest (cap q) (elems q) c"
proof (cases "full q")
  case True
  then have len: "length (elems q) = cap q" and "elems q \<noteq> []"
    using full_iff [OF assms(1)] cap_pos [OF assms(1)] by auto
  from pop_elems [OF assms(1) this(2)] obtain q1 where q1: "pop q = Some (hd (elems q), q1)" "wf q1"
    "elems q1 = tl (elems q)" "cap q1 = cap q" by blast
  have "length (elems q1) < cap q1" using q1(3,4) len cap_pos [OF assms(1)] by simp
  from push_elems [OF q1(2) this assms(2)] show ?thesis using q1 True len by (auto simp: add_def push_newest_def)
next
  case False
  then have "length (elems q) < cap q" using full_iff [OF assms(1)] bounded [OF assms(1)] by simp
  from push_elems [OF assms(1) this assms(2)] show ?thesis
    using False full_iff [OF assms(1)] by (auto simp: add_def push_newest_def)
qed

text \<open>After any sequence of additions the queue holds the newest elements, in order.\<close>

lemma adds_keep_newest:
  assumes "wf q" and "0 \<notin> set cs"
  shows "\<exists>q'. adds q cs = Some q' \<and> wf q' \<and> cap q' = cap q \<and>
     elems q' = drop (length (elems q @ cs) - cap q) (elems q @ cs)"
proof -
  have "\<exists>q'. adds q cs = Some q' \<and> wf q' \<and> cap q' = cap q \<and> elems q' = foldl (push_newest (cap q)) (elems q) cs"
    using assms
  proof (induction cs arbitrary: q)
    case (Cons c cs)
    have "c \<noteq> 0" using Cons.prems(2) by auto
    from add_elems [OF Cons.prems(1) this] obtain q1 where q1: "add q c = Some q1" "wf q1" "cap q1 = cap q"
      "elems q1 = push_newest (cap q) (elems q) c" by blast
    from Cons.IH [OF q1(2)] Cons.prems(2) show ?case using q1 by auto
  qed simp
  then show ?thesis using foldl_push_newest [OF bounded cap_pos] assms(1) by metis
qed

end

interpretation ring: bounded_queue ring_ok contents capacity is_queue_full queue_pop_internal_locked queue_push_internal_locked
proof
  fix q c assume ok: "ring_ok q"
  show "0 < capacity q" using ring_okD(1) [OF ok] by (simp add: capacity_def)
  show "length (contents q) \<le> capacity q" using ring_okD(7) [OF ok] by (simp add: capacity_def)
  show "is_queue_full q \<longleftrightarrow> length (contents q) = capacity q" using ok by (rule ring_full)
  show "\<exists>q'. queue_pop_internal_locked q = Some (hd (contents q), q') \<and> ring_ok q' \<and> contents q' = tl (contents q) \<and>
      capacity q' = capacity q" if "contents q \<noteq> []"
    using ring_pop [OF ok that] by (auto simp: capacity_def)
  show "\<exists>q'. queue_push_internal_locked q c = Some q' \<and> ring_ok q' \<and> contents q' = contents q @ [c] \<and>
      capacity q' = capacity q" if "length (contents q) < capacity q" "c \<noteq> 0"
    using ring_push [OF ok that] by (auto simp: capacity_def)
qed

subsection \<open>Invariant: the references of the queues\<close>

interpretation queue_store: context_store H_queue queues put_queue
  by unfold_locales (simp_all add: put_queue_def)

text \<open>
  Each live queue has a well-formed ring, a lock of its own that is free between calls, and a condition
  variable of its own unless none could be created. Each entry of a queue is covered by a reference of
  its capture; \<open>client_refs w c\<close> are the references to \<open>c\<close> beyond those.
\<close>

definition qheld :: "'a queue_world_scheme \<Rightarrow> ptr set" where
  "qheld w = {h. live H_queue w h}"

definition queue_ok :: "'a queue_world_scheme \<Rightarrow> queue_context_t \<Rightarrow> bool" where
  "queue_ok w q \<longleftrightarrow> ring_ok q \<and> q_lock q \<noteq> 0 \<and> other_locks w (q_lock q) = Some False \<and>
     (q_condition q \<noteq> 0 \<longrightarrow> conds w (q_condition q))"

definition queues_apart :: "queue_context_t \<Rightarrow> queue_context_t \<Rightarrow> bool" where
  "queues_apart q r \<longleftrightarrow> q_lock q \<noteq> q_lock r \<and> (q_condition q \<noteq> 0 \<longrightarrow> q_condition q \<noteq> q_condition r)"

definition queued :: "queue_context_t \<Rightarrow> ptr \<Rightarrow> int" where
  "queued q c = int (count_list (contents q) c)"

definition client_refs :: "'a queue_world_scheme \<Rightarrow> ptr \<Rightarrow> int" where
  "client_refs w c = capture_refs w c - (\<Sum>h \<in> qheld w. queued (queues w h) c)"

definition queue_inv :: "'a queue_world_scheme \<Rightarrow> bool" where
  "queue_inv w \<longleftrightarrow> capture_inv w \<and> finite (qheld w) \<and> (\<forall>h \<in> qheld w. queue_ok w (queues w h)) \<and>
     (\<forall>h \<in> qheld w. \<forall>k \<in> qheld w. h \<noteq> k \<longrightarrow> queues_apart (queues w h) (queues w k)) \<and> (\<forall>c. 0 \<le> client_refs w c)"

text \<open>What the operations of one queue leave alone.\<close>

definition queue_rest where
  "queue_rest w = (queue_world.more w, other_handles {H_image, H_capture} w, conds w, next_addr w,
     os_grants w, os_requests w, g_allocator_sessions w, image_stamps w, capture_slots w, outside w)"

lemma queue_invD:
  "queue_inv w \<Longrightarrow> capture_inv w" "queue_inv w \<Longrightarrow> finite (qheld w)" "queue_inv w \<Longrightarrow> 0 \<le> client_refs w c"
  "queue_inv w \<Longrightarrow> h \<in> qheld w \<Longrightarrow> queue_ok w (queues w h)"
  by (auto simp: queue_inv_def)

lemma more_queues:
  "capture_world.more w = capture_world.more w' \<Longrightarrow> queues w = queues w' \<and> queue_world.more w = queue_world.more w'"
  by (cases w; cases w') simp

lemma capture_rest_queues:
  assumes "capture_rest w' = capture_rest w"
  shows "queues w' = queues w" and "queue_rest w' = queue_rest w" and "other_locks w' = other_locks w"
  using assms more_queues [of w' w] by (auto simp: capture_rest_def capture_env_def queue_rest_def)

lemma queue_rest_qheld: "queue_rest w' = queue_rest w \<Longrightarrow> qheld w' = qheld w"
  using live_other [of "{H_image, H_capture}" w' w H_queue] by (auto simp: queue_rest_def qheld_def)

lemma queue_rest_conds: "queue_rest w' = queue_rest w \<Longrightarrow> conds w' = conds w"
  by (simp add: queue_rest_def)

lemma put_queue_simps [simp]:
  "queues (put_queue h q w) = (queues w)(h := q)" "locks (put_queue h q w) = locks w"
  "live T (put_queue h q w) x = live T w x" "image_inv (put_queue h q w) = image_inv w"
  "image_refs (put_queue h q w) = image_refs w" "captures (put_queue h q w) = captures w"
  "other_locks (put_queue h q w) = other_locks w" "conds (put_queue h q w) = conds w"
  "htype (put_queue h q w) = htype w"
  by (simp_all add: put_queue_def live_def image_inv_def alloc_inv_defs mem_ok_def images_ok_def held_def
      image_wf_def buffer_ok_def image_refs_def other_locks_def fun_eq_iff)

lemma put_queue_frame [simp]:
  "capture_refs (put_queue h q w) = capture_refs w" "outside (put_queue h q w) = outside w"
  "capture_inv (put_queue h q w) = capture_inv w" "queue_rest (put_queue h q w) = queue_rest w"
proof -
  have c: "captures (put_queue h q w) = captures w" "\<And>x. live H_capture (put_queue h q w) x = live H_capture w x" by simp_all
  note f = capture_frame [OF c]
  show r: "capture_refs (put_queue h q w) = capture_refs w" by (rule f)
  show out: "outside (put_queue h q w) = outside w" by (simp add: outside_def fun_eq_iff f(2))
  show "capture_inv (put_queue h q w) = capture_inv w" by (simp add: capture_inv_def f(1) out)
  show "queue_rest (put_queue h q w) = queue_rest w" unfolding queue_rest_def out
    by (simp add: put_queue_def image_stamps_def capture_slots_def other_handles_def fun_eq_iff)
qed

subsection \<open>Critical sections\<close>

lemma set_lock:
  fixes w :: "'a queue_world_scheme" and b' :: bool
  assumes "capture_inv w" and "other_locks w l = Some b"
  defines "w1 \<equiv> w\<lparr>locks := (locks w)(l := Some b')\<rparr>"
  shows "capture_inv w1" and "capture_refs w1 = capture_refs w" and "queues w1 = queues w"
    and "queue_rest w1 = queue_rest w" and "other_locks w1 = (other_locks w)(l := Some b')" and "locks w l = Some b"
proof -
  have l: "l \<notin> (\<lambda>h. img_lock (images w h)) ` held w" and "locks w l = Some b"
    using assms(2) by (auto simp: other_locks_def split: if_splits)
  then show "locks w l = Some b" by simp
  note inv = capture_invD(1) [OF assms(1)]
  have "mem_ok w1" using alloc_invD(1) [OF image_invD(1) [OF inv]] \<open>locks w l = Some b\<close>
    by (auto simp: w1_def mem_ok_def)
  then have a: "alloc_inv w1" by (intro alloc_inv_other [OF image_invD(1) [OF inv]]) (auto simp: w1_def)
  have i: "images w1 = images w" "blocks w1 = blocks w" "\<And>h. live H_image w1 h = live H_image w h"
    "\<And>h. h \<in> held w \<Longrightarrow> locks w1 (img_lock (images w h)) = locks w (img_lock (images w h))"
    using l by (auto simp: w1_def live_def)
  have img: "image_inv w1" "held w1 = held w" "image_refs w1 = image_refs w"
    using image_inv_frame [OF inv a i(1,2,3)] i(4) by blast+
  have c: "captures w1 = captures w" "\<And>h. live H_capture w1 h = live H_capture w h" by (simp_all add: w1_def live_def)
  note cap = capture_inv_frame [OF assms(1) img(1,3) c]
  show "capture_inv w1" by (rule cap(1))
  show "capture_refs w1 = capture_refs w" by (rule cap(3))
  show "queues w1 = queues w" by (simp add: w1_def)
  show "queue_rest w1 = queue_rest w" unfolding queue_rest_def cap(2)
    by (simp add: w1_def image_stamps_def capture_slots_def other_handles_def fun_eq_iff)
  show "other_locks w1 = (other_locks w)(l := Some b')"
    unfolding other_locks_def img(2) i(1) using l by (auto simp: w1_def fun_eq_iff)
qed

lemma queue_lock:
  assumes "queue_inv w" and "h \<in> qheld w"
  defines "l \<equiv> q_lock (queues w h)"
  shows "\<exists>w1. Lock l w = Some (LOCK_OK, w1) \<and> capture_inv w1 \<and> capture_refs w1 = capture_refs w \<and> queues w1 = queues w \<and>
     queue_rest w1 = queue_rest w \<and> other_locks w1 = (other_locks w)(l := Some True)"
proof -
  have ok: "l \<noteq> 0" "other_locks w l = Some False" using queue_invD(4) [OF assms(1,2)] by (simp_all add: queue_ok_def l_def)
  from set_lock(1-5) [where b' = True, OF queue_invD(1) [OF assms(1)] ok(2)] show ?thesis
    using ok(1) set_lock(6) [OF queue_invD(1) [OF assms(1)] ok(2)] by (simp add: Lock_free)
qed

lemma queue_unlock:
  assumes "capture_inv w" and "other_locks w l = Some True" and "l \<noteq> 0"
  shows "\<exists>w1. Unlock l w = Some (LOCK_OK, w1) \<and> capture_inv w1 \<and> capture_refs w1 = capture_refs w \<and> queues w1 = queues w \<and>
     queue_rest w1 = queue_rest w \<and> other_locks w1 = (other_locks w)(l := Some False)"
  using set_lock(1-5) [where b' = False, OF assms(1,2)] set_lock(6) [OF assms(1,2)] assms(3) by (simp add: Unlock_held)

text \<open>The end of a critical section of queue \<open>h\<close>.\<close>

lemma queue_update:
  assumes inv: "queue_inv w" and h: "h \<in> qheld w" and w': "capture_inv w'" "queue_rest w' = queue_rest w"
      "other_locks w' = other_locks w" "queues w' = (queues w)(h := q)"
    and q: "ring_ok q" "q_lock q = q_lock (queues w h)" "q_condition q = q_condition (queues w h)"
    and refs: "\<And>c. capture_refs w' c = capture_refs w c + queued q c - queued (queues w h) c + \<delta> c"
    and \<delta>: "\<And>c. 0 \<le> client_refs w c + \<delta> c"
  shows "queue_inv w'" and "client_refs w' = (\<lambda>c. client_refs w c + \<delta> c)" and "qheld w' = qheld w"
proof -
  show held: "qheld w' = qheld w" using w'(2) by (rule queue_rest_qheld)
  have fin: "finite (qheld w)" using inv by (rule queue_invD)
  have "(\<Sum>k \<in> qheld w. queued (queues w' k) c) = queued q c + (\<Sum>k \<in> qheld w - {h}. queued (queues w k) c)" for c
    by (subst sum.remove [OF fin h]) (simp add: w'(4))
  moreover have "(\<Sum>k \<in> qheld w. queued (queues w k) c) = queued (queues w h) c + (\<Sum>k \<in> qheld w - {h}. queued (queues w k) c)" for c
    by (rule sum.remove [OF fin h])
  ultimately show cl: "client_refs w' = (\<lambda>c. client_refs w c + \<delta> c)"
    by (simp add: client_refs_def held refs fun_eq_iff)
  have ok: "queue_ok w' (queues w' k)" if "k \<in> qheld w" for k
    using queue_invD(4) [OF inv that] queue_invD(4) [OF inv h] q queue_rest_conds [OF w'(2)]
    by (auto simp: queue_ok_def w'(3,4))
  have "queues_apart (queues w' j) (queues w' k) = queues_apart (queues w j) (queues w k)" for j k
    using q(2,3) by (simp add: queues_apart_def w'(4))
  then show "queue_inv w'" using inv w'(1) \<delta> ok by (auto simp: queue_inv_def held cl)
qed

subsection \<open>Push\<close>

lemma ring_flags [simp]:
  "ring_ok (q\<lparr>q_dropped_count := n\<rparr>) = ring_ok q" "contents (q\<lparr>q_dropped_count := n\<rparr>) = contents q"
  "ring_ok (q\<lparr>queue_pop_blocked := m\<rparr>) = ring_ok q" "contents (q\<lparr>queue_pop_blocked := m\<rparr>) = contents q"
  "ring_ok (q\<lparr>q_enabled := b\<rparr>) = ring_ok q" "contents (q\<lparr>q_enabled := b\<rparr>) = contents q"
  "ring_ok (q\<lparr>q_stopped := b\<rparr>) = ring_ok q" "contents (q\<lparr>q_stopped := b\<rparr>) = contents q"
  "capacity (q\<lparr>q_dropped_count := n\<rparr>) = capacity q" "capacity (q\<lparr>queue_pop_blocked := m\<rparr>) = capacity q"
  by (simp_all add: ring_ok_def contents_def qlen_def qslot_def capacity_def cong: map_cong)

text \<open>What does not change in a context when only its ring moves.\<close>

definition same_setup :: "queue_context_t \<Rightarrow> queue_context_t \<Rightarrow> bool" where
  "same_setup q r \<longleftrightarrow> q_enabled q = q_enabled r \<and> q_stopped q = q_stopped r \<and> queue_pop_blocked q = queue_pop_blocked r \<and>
     q_depth q = q_depth r \<and> q_name q = q_name r \<and> q_lock q = q_lock r \<and> q_condition q = q_condition r"

lemma same_setup_capacity: "same_setup q r \<Longrightarrow> capacity q = capacity r"
  by (simp add: same_setup_def capacity_def)

lemma queued_in_queue:
  assumes "queue_inv w" and "h \<in> qheld w" and "c \<in> set (contents (queues w h))"
  shows "1 \<le> queued (queues w h) c" and "client_refs w c + queued (queues w h) c \<le> capture_refs w c"
proof -
  have "count_list (contents (queues w h)) c \<noteq> 0" using assms(3) by (simp add: count_list_0_iff)
  then show "1 \<le> queued (queues w h) c" by (simp add: queued_def Suc_le_eq)
  have "queued (queues w h) c \<le> (\<Sum>k \<in> qheld w. queued (queues w k) c)"
    by (rule member_le_sum [OF assms(2)]) (auto simp: queued_def queue_invD(2) [OF assms(1)])
  then show "client_refs w c + queued (queues w h) c \<le> capture_refs w c" by (simp add: client_refs_def)
qed

text \<open>Dropping the oldest capture of a full queue.\<close>

lemma drop_oldest:
  assumes "capture_inv w" and q: "queues w h = q" "ring_ok q" "contents q \<noteq> []" and "0 < capture_refs w (hd (contents q))"
  shows "\<exists>q2 w2. queue_pop_internal_locked (q\<lparr>q_dropped_count := n\<rparr>) = Some (hd (contents q), q2) \<and>
     capture_dec_ref (hd (contents q)) (put_queue h q2 w) = Some w2 \<and> capture_inv w2 \<and>
     capture_refs w2 = (capture_refs w)(hd (contents q) := capture_refs w (hd (contents q)) - 1) \<and>
     queues w2 = (queues w)(h := q2) \<and> queue_rest w2 = queue_rest w \<and> other_locks w2 = other_locks w \<and>
     ring_ok q2 \<and> contents q2 = tl (contents q) \<and> same_setup q2 q \<and> q_dropped_count q2 = n"
proof -
  have ok: "ring_ok (q\<lparr>q_dropped_count := n\<rparr>)" "contents (q\<lparr>q_dropped_count := n\<rparr>) \<noteq> []" using q by simp_all
  define q2 where "q2 = q\<lparr>q_dropped_count := n, q_read_location := inc_read_write_location (q\<lparr>q_dropped_count := n\<rparr>) (q_read_location q)\<rparr>"
  have pop: "queue_pop_internal_locked (q\<lparr>q_dropped_count := n\<rparr>) = Some (hd (contents q), q2)" "ring_ok q2"
      "contents q2 = tl (contents q)"
    using ring_pop [OF ok] by (simp_all add: q2_def)
  have "capture_inv (put_queue h q2 w)" "0 < capture_refs (put_queue h q2 w) (hd (contents q))" using assms(1,5) by simp_all
  from capture_rc.dec_held [OF this] obtain w2 where w2: "capture_dec_ref (hd (contents q)) (put_queue h q2 w) = Some w2"
    "capture_inv w2" "capture_refs w2 = (capture_refs w)(hd (contents q) := capture_refs w (hd (contents q)) - 1)"
    "capture_rest w2 = capture_rest (put_queue h q2 w)" by auto
  show ?thesis using pop w2 capture_rest_queues [OF w2(4)] by (auto simp: q2_def same_setup_def)
qed

text \<open>Accepting a new capture.\<close>

lemma accept_capture:
  assumes "capture_inv w" and q: "queues w h = q" "ring_ok q" "length (contents q) < capacity q" and "c \<noteq> 0" "0 < capture_refs w c"
  shows "\<exists>w1 q2. capture_inc_ref c w = Some w1 \<and> queue_push_internal_locked (queues w1 h) c = Some q2 \<and>
     capture_inv (put_queue h q2 w1) \<and> capture_refs (put_queue h q2 w1) = (capture_refs w)(c := capture_refs w c + 1) \<and>
     queues (put_queue h q2 w1) = (queues w)(h := q2) \<and> queue_rest (put_queue h q2 w1) = queue_rest w \<and>
     other_locks (put_queue h q2 w1) = other_locks w \<and>
     ring_ok q2 \<and> contents q2 = contents q @ [c] \<and> same_setup q2 q"
proof -
  from capture_rc.inc_held [OF assms(1,6)] obtain w1 where w1: "capture_inc_ref c w = Some w1" "capture_inv w1"
    "capture_refs w1 = (capture_refs w)(c := capture_refs w c + 1)" "capture_rest w1 = capture_rest w" by blast
  note same = capture_rest_queues [OF w1(4)]
  from ring_push [OF q(2,3) assms(5)] obtain q2 where q2: "queue_push_internal_locked q c = Some q2" "ring_ok q2"
    "contents q2 = contents q @ [c]" "q2 = q\<lparr>q_queue := q_queue q2, q_write_location := q_write_location q2\<rparr>" by blast
  have "same_setup q2 q" by (subst q2(4)) (simp add: same_setup_def)
  moreover have "queue_push_internal_locked (queues w1 h) c = Some q2" using q2(1) q(1) same(1) by simp
  moreover have "queues (put_queue h q2 w1) = (queues w)(h := q2)" using same(1) by simp
  moreover have "queue_rest (put_queue h q2 w1) = queue_rest w" using same(2) by simp
  moreover have "other_locks (put_queue h q2 w1) = other_locks w" using same(3) by simp
  moreover have "capture_inv (put_queue h q2 w1)" using w1(2) by simp
  moreover have "capture_refs (put_queue h q2 w1) = (capture_refs w)(c := capture_refs w c + 1)" using w1(3) by simp
  ultimately show ?thesis using w1(1) q2(2,3) by blast
qed

lemma count_tl: "xs \<noteq> [] \<Longrightarrow> int (count_list (tl xs) k) = int (count_list xs k) - (if k = hd xs then 1 else 0)"
  by (cases xs) auto

lemma push_room_run:
  fixes w :: "'a queue_world_scheme" and h :: ptr and d :: "ptr option"
  assumes inv: "capture_inv w" and q: "queues w h = q" "ring_ok q"
    and refs: "length (contents q) = capacity q \<Longrightarrow> 0 < capture_refs w (hd (contents q))"
  defines "full \<equiv> length (contents q) = capacity q" and "old \<equiv> hd (contents q)"
  shows "\<exists>w2 q2. push_room h d w = Some (if full \<and> d \<noteq> None then Some old else d, w2) \<and> capture_inv w2 \<and>
     capture_refs w2 = (\<lambda>k. capture_refs w k - (if full \<and> d = None \<and> k = old then 1 else 0)) \<and>
     queues w2 = (queues w)(h := q2) \<and> queue_rest w2 = queue_rest w \<and> other_locks w2 = other_locks w \<and>
     ring_ok q2 \<and> contents q2 = (if full then tl (contents q) else contents q) \<and> same_setup q2 q"
proof (cases full)
  case False
  then have "\<not> is_queue_full q" using ring_full [OF q(2)] by (simp add: full_def)
  then show ?thesis using False inv q by (intro exI [of _ w] exI [of _ q]) (auto simp: push_room_def same_setup_def)
next
  case True
  then have full: "is_queue_full q" using ring_full [OF q(2)] by (simp add: full_def)
  have ne: "contents q \<noteq> []" using True ring.cap_pos [OF q(2)] by (auto simp: full_def simp del: length_contents)
  show ?thesis
  proof (cases d)
    case None
    from drop_oldest [OF inv q ne refs [folded full_def, OF True], of "q_dropped_count q + 1"]
    obtain q2 w2 where r: "queue_pop_internal_locked (q\<lparr>q_dropped_count := q_dropped_count q + 1\<rparr>) = Some (old, q2)"
      "capture_dec_ref old (put_queue h q2 w) = Some w2" "capture_inv w2"
      "capture_refs w2 = (capture_refs w)(old := capture_refs w old - 1)" "queues w2 = (queues w)(h := q2)"
      "queue_rest w2 = queue_rest w" "other_locks w2 = other_locks w" "ring_ok q2" "contents q2 = tl (contents q)"
      "same_setup q2 q" unfolding old_def by blast
    then show ?thesis using True full None q(1)
      by (intro exI [of _ w2] exI [of _ q2]) (auto simp: push_room_def fun_eq_iff)
  next
    case (Some v)
    let ?q2 = "q\<lparr>q_read_location := inc_read_write_location q (q_read_location q)\<rparr>"
    have "push_room h d w = Some (Some old, put_queue h ?q2 w)"
      using ring_pop(1) [OF q(2) ne] full q(1) Some by (simp add: push_room_def old_def)
    then show ?thesis using True Some inv ring_pop(2,3) [OF q(2) ne]
      by (intro exI [of _ "put_queue h ?q2 w"] exI [of _ ?q2]) (auto simp: same_setup_def)
  qed
qed

lemma queue_push_run:
  fixes w :: "'a queue_world_scheme" and h c :: ptr and d :: "ptr option"
  assumes inv: "queue_inv w" and h: "h \<in> qheld w" and en: "q_enabled (queues w h)" and c: "c \<noteq> 0" "0 < client_refs w c"
  defines "q \<equiv> queues w h" and "full \<equiv> length (contents (queues w h)) = capacity (queues w h)"
    and "old \<equiv> hd (contents (queues w h))"
  shows "\<exists>w' q'. queue_push_w_dropped h c d w = Some (if full \<and> d \<noteq> None then Some old else d, w') \<and> queue_inv w' \<and>
     queues w' = (queues w)(h := q') \<and> contents q' = (if full then tl (contents q) else contents q) @ [c] \<and>
     same_setup q' q \<and> qheld w' = qheld w \<and> queue_rest w' = queue_rest w \<and> other_locks w' = other_locks w \<and>
     client_refs w' = (\<lambda>k. client_refs w k + (if full \<and> d \<noteq> None \<and> k = old then 1 else 0))"
proof -
  have ok: "ring_ok q" "q_lock q \<noteq> 0" "other_locks w (q_lock q) = Some False" "q_condition q \<noteq> 0 \<longrightarrow> conds w (q_condition q)"
    using queue_invD(4) [OF inv h] by (simp_all add: queue_ok_def q_def)
  obtain w1 where w1: "Lock (q_lock q) w = Some (LOCK_OK, w1)" "capture_inv w1" "capture_refs w1 = capture_refs w"
    "queues w1 = queues w" "queue_rest w1 = queue_rest w" "other_locks w1 = (other_locks w)(q_lock q := Some True)"
    using queue_lock [OF inv h] unfolding q_def by blast
  have ne: "full \<Longrightarrow> contents q \<noteq> []" using ring.cap_pos [OF ok(1)] by (auto simp: full_def q_def simp del: length_contents)
  have old: "client_refs w old + queued q old \<le> capture_refs w old" "1 \<le> queued q old" if full
    using queued_in_queue [OF inv h, of old] ne [OF that] by (simp_all add: old_def q_def)
  have "0 < capture_refs w1 (hd (contents q))" if full
    using old [OF that] queue_invD(3) [OF inv, of old] w1(3) by (simp add: old_def q_def)
  from push_room_run [of w1 h q d, OF w1(2) _ ok(1)] this obtain w2 q2 where
    w2: "push_room h d w1 = Some (if full \<and> d \<noteq> None then Some old else d, w2)" "capture_inv w2"
     "capture_refs w2 = (\<lambda>k. capture_refs w k - (if full \<and> d = None \<and> k = old then 1 else 0))"
     "queues w2 = (queues w)(h := q2)" "queue_rest w2 = queue_rest w" "other_locks w2 = other_locks w1"
     "ring_ok q2" "contents q2 = (if full then tl (contents q) else contents q)" "same_setup q2 q"
    using w1(3,4,5) by (auto simp: full_def q_def old_def)
  have room: "length (contents q2) < capacity q2"
    using ring.bounded [OF ok(1)] ring.cap_pos [OF ok(1)]
    unfolding w2(8) same_setup_capacity [OF w2(9)] by (auto simp: full_def q_def)
  have "0 < capture_refs w2 c"
  proof -
    have "0 \<le> (\<Sum>k \<in> qheld w. queued (queues w k) c)" by (rule sum_nonneg) (simp add: queued_def)
    then have "0 < capture_refs w c" using c(2) by (simp add: client_refs_def)
    then show ?thesis using old c(2) by (auto simp: w2(3))
  qed
  from accept_capture [where h = h, OF w2(2) _ w2(7) room c(1) this] w2(4) obtain w3 q3 where
    w3: "capture_inc_ref c w2 = Some w3" "queue_push_internal_locked (queues w3 h) c = Some q3"
     "capture_inv (put_queue h q3 w3)" "capture_refs (put_queue h q3 w3) = (capture_refs w2)(c := capture_refs w2 c + 1)"
     "queues (put_queue h q3 w3) = (queues w)(h := q3)" "queue_rest (put_queue h q3 w3) = queue_rest w"
     "other_locks (put_queue h q3 w3) = other_locks w1" "ring_ok q3" "contents q3 = contents q2 @ [c]" "same_setup q3 q2"
    using w2(5,6) by auto
  have su: "same_setup q3 q" using w3(10) w2(9) by (auto simp: same_setup_def)
  have post: "\<exists>r. Condition_Post (q_condition q3) (put_queue h q3 w3) = Some r"
    using ok(4) su queue_rest_conds [OF w3(6)] by (auto simp: Condition_Post_def same_setup_def)
  have "other_locks (put_queue h q3 w3) (q_lock q) = Some True" using w3(7) w1(6) by simp
  from queue_unlock [OF w3(3) this ok(2)] obtain w4 where
    w4: "Unlock (q_lock q) (put_queue h q3 w3) = Some (LOCK_OK, w4)" "capture_inv w4"
      "capture_refs w4 = capture_refs (put_queue h q3 w3)" "queues w4 = queues (put_queue h q3 w3)"
      "queue_rest w4 = queue_rest (put_queue h q3 w3)"
      "other_locks w4 = (other_locks (put_queue h q3 w3))(q_lock q := Some False)" by blast
  have run: "queue_push_w_dropped h c d w = Some (if full \<and> d \<noteq> None then Some old else d, w4)"
    using h c(1) en w1(1,4) w2(1) w3(1,2) w4(1) post su
    unfolding queue_push_w_dropped_def q_def qheld_def
    by (auto simp: same_setup_def)
  let ?\<delta> = "\<lambda>k. if full \<and> d \<noteq> None \<and> k = old then 1 else 0 :: int"
  have refs: "capture_refs w4 k = capture_refs w k + queued q3 k - queued (queues w h) k + ?\<delta> k" for k
    using ne count_tl [of "contents q" k] unfolding w4(3) w3(4) w2(3) queued_def w3(9) w2(8)
    by (auto simp: old_def q_def [symmetric])
  have locks: "other_locks w4 = other_locks w"
    using w4(6) w3(7) w1(6) ok(3) by (simp add: fun_upd_idem)
  have pos: "0 \<le> client_refs w k + ?\<delta> k" for k using queue_invD(3) [OF inv, of k] by simp
  have lc: "q_lock q3 = q_lock (queues w h)" "q_condition q3 = q_condition (queues w h)"
    using su by (simp_all add: same_setup_def q_def)
  note upd = queue_update [where \<delta> = ?\<delta>, OF inv h w4(2) _ locks _ w3(8) lc refs pos]
  have "queue_inv w4" "client_refs w4 = (\<lambda>k. client_refs w k + ?\<delta> k)" "qheld w4 = qheld w"
    using upd w4(4,5) w3(5,6) by auto
  then show ?thesis using run w4(4,5) w3(5,6,9) w2(8) su locks by (intro exI [of _ w4] exI [of _ q3]) auto
qed

subsection \<open>Pop\<close>

text \<open>A state inside a critical section that began in \<open>w\<close>.\<close>

definition in_section :: "ptr \<Rightarrow> 'a queue_world_scheme \<Rightarrow> 'a queue_world_scheme \<Rightarrow> bool" where
  "in_section l w w1 \<longleftrightarrow> capture_inv w1 \<and> queue_rest w1 = queue_rest w \<and> other_locks w1 = (other_locks w)(l := Some True)"

lemma in_section_put [simp]: "in_section l w (put_queue h q w1) = in_section l w w1"
  by (simp add: in_section_def)

lemma queue_lock_section:
  assumes "queue_inv w" and "h \<in> qheld w"
  obtains w1 where "Lock (q_lock (queues w h)) w = Some (LOCK_OK, w1)" "in_section (q_lock (queues w h)) w w1"
    "capture_refs w1 = capture_refs w" "queues w1 = queues w"
  using queue_lock [OF assms] by (auto simp: in_section_def)

lemma queue_leave_section:
  assumes inv: "queue_inv w" and h: "h \<in> qheld w" and sec: "in_section (q_lock (queues w h)) w w1"
    and q: "queues w1 = (queues w)(h := q)" "ring_ok q" "q_lock q = q_lock (queues w h)" "q_condition q = q_condition (queues w h)"
    and refs: "\<And>c. capture_refs w1 c = capture_refs w c + queued q c - queued (queues w h) c + \<delta> c"
    and \<delta>: "\<And>c. 0 \<le> client_refs w c + \<delta> c"
  obtains w' where "Unlock (q_lock q) w1 = Some (LOCK_OK, w')" "queue_inv w'" "queues w' = (queues w)(h := q)"
    "client_refs w' = (\<lambda>c. client_refs w c + \<delta> c)" "qheld w' = qheld w" "queue_rest w' = queue_rest w"
    "other_locks w' = other_locks w"
proof -
  let ?l = "q_lock (queues w h)"
  have ok: "?l \<noteq> 0" "other_locks w ?l = Some False" using queue_invD(4) [OF inv h] by (simp_all add: queue_ok_def)
  have s: "capture_inv w1" "queue_rest w1 = queue_rest w" "other_locks w1 = (other_locks w)(?l := Some True)"
    using sec by (simp_all add: in_section_def)
  from queue_unlock [OF s(1) _ ok(1)] s(3) obtain w' where w': "Unlock ?l w1 = Some (LOCK_OK, w')" "capture_inv w'"
    "capture_refs w' = capture_refs w1" "queues w' = queues w1" "queue_rest w' = queue_rest w1"
    "other_locks w' = (other_locks w1)(?l := Some False)" by auto
  have rest: "queue_rest w' = queue_rest w" using w'(5) s(2) by simp
  have lk: "other_locks w' = other_locks w" using w'(6) s(3) ok(2) by (simp add: fun_upd_idem)
  have qs: "queues w' = (queues w)(h := q)" using w'(4) q(1) by simp
  note upd = queue_update [where \<delta> = \<delta>, OF inv h w'(2) rest lk qs q(2-4) _ \<delta>]
  show thesis using that [of w'] upd w'(1,3) refs q(3) rest qs lk by simp
qed

definition popped :: "ptr \<Rightarrow> ptr \<Rightarrow> int" where
  "popped c k = (if k = c \<and> c \<noteq> 0 then 1 else 0)"

text \<open>
  The end of a pop, when \<open>c\<close> has been taken out of the ring (or is \<open>NULL\<close>): from an enabled queue the
  reference goes to the caller, from a disabled one it is released.
\<close>

lemma queue_pop_finish_run:
  assumes inv: "queue_inv w" and h: "h \<in> qheld w" and sec: "in_section (q_lock (queues w h)) w w1"
    and q: "queues w1 = (queues w)(h := q)" "ring_ok q" "q_lock q = q_lock (queues w h)" "q_condition q = q_condition (queues w h)"
    and refs: "capture_refs w1 = capture_refs w" and c: "\<And>k. queued q k = queued (queues w h) k - popped c k"
  shows "\<exists>w' q'. queue_pop_finish h r c w1 =
      Some (if q_enabled q then r else ZSA_WAIT_RESULT_FAILED, Some (if q_enabled q then c else 0), w') \<and>
     queue_inv w' \<and> queues w' = (queues w)(h := q') \<and> contents q' = contents q \<and> same_setup q' q \<and> qheld w' = qheld w \<and>
     queue_rest w' = queue_rest w \<and> other_locks w' = other_locks w \<and>
     client_refs w' = (\<lambda>k. client_refs w k + (if q_enabled q then popped c k else 0))"
proof -
  let ?q = "q\<lparr>q_dropped_count := 0\<rparr>"
  have "\<exists>w2. (if \<not> q_enabled q \<and> c \<noteq> 0 then capture_dec_ref c w1 else Some w1) = Some w2 \<and>
      in_section (q_lock (queues w h)) w w2 \<and> queues w2 = (queues w)(h := q) \<and>
      capture_refs w2 = (\<lambda>k. capture_refs w k - (if q_enabled q then 0 else popped c k))"
  proof (cases "\<not> q_enabled q \<and> c \<noteq> 0")
    case True
    have "0 \<le> queued q c" by (simp add: queued_def)
    then have cnt: "1 \<le> queued (queues w h) c" using c [of c] True by (simp add: popped_def)
    then have "c \<in> set (contents (queues w h))" by (auto simp: queued_def intro: ccontr)
    then have "0 < capture_refs w1 c"
      using queued_in_queue(2) [OF inv h, of c] queue_invD(3) [OF inv, of c] cnt refs by simp
    moreover have "capture_inv w1" using sec by (simp add: in_section_def)
    ultimately obtain w2 where w2: "capture_dec_ref c w1 = Some w2" "capture_inv w2"
      "capture_refs w2 = (capture_refs w1)(c := capture_refs w1 c - 1)" "capture_rest w2 = capture_rest w1"
      using capture_rc.dec_held by blast
    show ?thesis using True w2 capture_rest_queues [OF w2(4)] sec q(1) refs
      by (auto simp: in_section_def popped_def fun_eq_iff)
  qed (use sec q(1) refs in \<open>auto simp: popped_def\<close>)
  then obtain w2 where w2: "(if \<not> q_enabled q \<and> c \<noteq> 0 then capture_dec_ref c w1 else Some w1) = Some w2"
      "in_section (q_lock (queues w h)) w w2" "queues w2 = (queues w)(h := q)"
      "capture_refs w2 = (\<lambda>k. capture_refs w k - (if q_enabled q then 0 else popped c k))" by blast
  define w3 where "w3 = (if q_dropped_count q \<noteq> 0 then put_queue h ?q w2 else w2)"
  have zero: "q_dropped_count q = 0 \<Longrightarrow> ?q = q" by (cases q) simp
  have w3: "in_section (q_lock (queues w h)) w w3" "queues w3 = (queues w)(h := ?q)" "capture_refs w3 = capture_refs w2"
    using w2(2,3) zero by (auto simp: w3_def)
  have cnt: "capture_refs w3 k = capture_refs w k + queued ?q k - queued (queues w h) k + (if q_enabled q then popped c k else 0)" for k
    using c [of k] by (simp add: w3(3) w2(4) queued_def)
  have pos: "0 \<le> client_refs w k + (if q_enabled q then popped c k else 0)" for k
    using queue_invD(3) [OF inv, of k] by (simp add: popped_def)
  have q3: "ring_ok ?q" "q_lock ?q = q_lock (queues w h)" "q_condition ?q = q_condition (queues w h)" using q by simp_all
  from queue_leave_section [OF inv h w3(1,2) q3 cnt pos] obtain w' where
    w': "Unlock (q_lock ?q) w3 = Some (LOCK_OK, w')" "queue_inv w'" "queues w' = (queues w)(h := ?q)"
    "client_refs w' = (\<lambda>k. client_refs w k + (if q_enabled q then popped c k else 0))" "qheld w' = qheld w"
    "queue_rest w' = queue_rest w" "other_locks w' = other_locks w" by blast
  have "queue_pop_finish h r c w1 =
      Some (if q_enabled q then r else ZSA_WAIT_RESULT_FAILED, Some (if q_enabled q then c else 0), w')"
    using w2(1,3) w'(1) q(1) unfolding queue_pop_finish_def w3_def
    by (cases "q_enabled q"; cases "c = 0") (auto simp: Let_def split: if_splits)
  then show ?thesis using w' by (intro exI [of _ w'] exI [of _ ?q]) (auto simp: same_setup_def)
qed

text \<open>One try at the ring, with the count of blocked consumers raised and lowered around it.\<close>

lemma ring_try:
  assumes "ring_ok q"
  defines "c \<equiv> (if contents q = [] then 0 else hd (contents q))"
  shows "\<exists>q1. queue_pop_internal_locked (q\<lparr>queue_pop_blocked := n\<rparr>) = Some (c, q1) \<and> ring_ok q1 \<and>
    contents q1 = tl (contents q) \<and> same_setup q1 (q\<lparr>queue_pop_blocked := n\<rparr>) \<and> (contents q = [] \<longrightarrow> q1 = q\<lparr>queue_pop_blocked := n\<rparr>) \<and>
    (\<forall>k. queued q1 k = queued q k - popped c k) \<and> (c = 0 \<longleftrightarrow> contents q = [])"
proof (cases "contents q = []")
  case True
  then show ?thesis using ring_pop_empty [of "q\<lparr>queue_pop_blocked := n\<rparr>"] assms(1)
    by (simp add: c_def same_setup_def queued_def popped_def)
next
  case False
  have ok: "ring_ok (q\<lparr>queue_pop_blocked := n\<rparr>)" "contents (q\<lparr>queue_pop_blocked := n\<rparr>) \<noteq> []" using assms(1) False by simp_all
  show ?thesis using ring_pop [OF ok] False
    by (auto simp: c_def same_setup_def queued_def popped_def count_tl)
qed

lemma same_setup_blocked:
  "same_setup q1 (q\<lparr>queue_pop_blocked := queue_pop_blocked q + 1\<rparr>) \<Longrightarrow>
     same_setup (q1\<lparr>queue_pop_blocked := queue_pop_blocked q1 - 1\<rparr>) q"
  by (simp add: same_setup_def)

text \<open>A pop that need not wait.\<close>

lemma queue_pop_now:
  assumes inv: "queue_inv w" and h: "h \<in> qheld w" and en: "q_enabled (queues w h)"
    and now: "contents (queues w h) \<noteq> [] \<or> ms = 0"
  defines "c \<equiv> (if contents (queues w h) = [] then 0 else hd (contents (queues w h)))"
  shows "\<exists>w' q'. queue_pop others outcome h ms (Some v) w =
      Some (if c = 0 then ZSA_WAIT_RESULT_TIMEOUT else ZSA_WAIT_RESULT_SUCCEEDED, Some c, w') \<and>
     queue_inv w' \<and> queues w' = (queues w)(h := q') \<and> contents q' = tl (contents (queues w h)) \<and>
     same_setup q' (queues w h) \<and> qheld w' = qheld w \<and> queue_rest w' = queue_rest w \<and> other_locks w' = other_locks w \<and>
     client_refs w' = (\<lambda>k. client_refs w k + popped c k)"
proof -
  let ?q = "queues w h" and ?r = "if c = 0 then ZSA_WAIT_RESULT_TIMEOUT else ZSA_WAIT_RESULT_SUCCEEDED"
  from queue_lock_section [OF inv h] obtain w1 where w1: "Lock (q_lock ?q) w = Some (LOCK_OK, w1)"
    "in_section (q_lock ?q) w w1" "capture_refs w1 = capture_refs w" "queues w1 = queues w" .
  have ok: "ring_ok ?q" using queue_invD(4) [OF inv h] by (simp add: queue_ok_def)
  from ring_try [OF ok, of "queue_pop_blocked ?q + 1", folded c_def] obtain q1 where
    q1: "queue_pop_internal_locked (?q\<lparr>queue_pop_blocked := queue_pop_blocked ?q + 1\<rparr>) = Some (c, q1)" "ring_ok q1"
      "contents q1 = tl (contents ?q)" "same_setup q1 (?q\<lparr>queue_pop_blocked := queue_pop_blocked ?q + 1\<rparr>)"
      "\<forall>k. queued q1 k = queued ?q k - popped c k" "c = 0 \<longleftrightarrow> contents ?q = []" by blast
  let ?q2 = "q1\<lparr>queue_pop_blocked := queue_pop_blocked q1 - 1\<rparr>"
  let ?w2 = "put_queue h ?q2 (put_queue h q1 w1)"
  have att: "queue_pop_attempt others outcome h ms w1 = Some (?r, c, ?w2)"
    using q1(1,6) now en w1(4) by (auto simp: queue_pop_attempt_def Let_def)
  have su: "same_setup ?q2 ?q" using q1(4) by (rule same_setup_blocked)
  then have q2: "queues ?w2 = (queues w)(h := ?q2)" "ring_ok ?q2" "q_lock ?q2 = q_lock ?q" "q_condition ?q2 = q_condition ?q"
      "q_enabled ?q2"
    using q1(2) w1(4) en by (simp_all add: same_setup_def)
  have "in_section (q_lock ?q) w ?w2" "capture_refs ?w2 = capture_refs w" "\<And>k. queued ?q2 k = queued ?q k - popped c k"
    using w1(2,3) q1(5) by (simp_all add: queued_def)
  from queue_pop_finish_run [OF inv h this(1) q2(1-4) this(2,3), of ?r] obtain w' q' where
    w': "queue_pop_finish h ?r c ?w2 = Some (?r, Some c, w')" "queue_inv w'" "queues w' = (queues w)(h := q')"
      "contents q' = contents ?q2" "same_setup q' ?q2" "qheld w' = qheld w" "queue_rest w' = queue_rest w"
      "other_locks w' = other_locks w"
      "client_refs w' = (\<lambda>k. client_refs w k + popped c k)" using q2(5) by auto
  have "queue_pop others outcome h ms (Some v) w = Some (?r, Some c, w')"
    using h w1(1) att w'(1) by (simp add: queue_pop_def qheld_def)
  then show ?thesis using w' q1(3) su by (intro exI [of _ w'] exI [of _ q']) (auto simp: same_setup_def)
qed

text \<open>
  A pop that waits. \<open>wr\<close> is the state in which it lets go of the lock; \<open>others wr\<close> is the state the
  other threads leave. They keep the invariant and this queue.
\<close>

lemma queue_pop_wait:
  assumes inv: "queue_inv w" and h: "h \<in> qheld w" and en: "q_enabled (queues w h)"
    and e: "contents (queues w h) = []" "ms \<noteq> 0" "q_condition (queues w h) \<noteq> 0"
  obtains wr where "queue_inv wr" "qheld wr = qheld w" "client_refs wr = client_refs w" "queue_rest wr = queue_rest w"
    "queues wr = (queues w)(h := (queues w h)\<lparr>queue_pop_blocked := queue_pop_blocked (queues w h) + 1\<rparr>)"
    "\<And>others wo. others wr = wo \<Longrightarrow> queue_inv wo \<Longrightarrow> h \<in> qheld wo \<Longrightarrow> q_lock (queues wo h) = q_lock (queues w h) \<Longrightarrow>
      contents (queues wo h) \<noteq> [] \<or> \<not> q_enabled (queues wo h) \<Longrightarrow>
      \<exists>w' q'. queue_pop others COND_OK h ms (Some v) w =
         Some (if q_enabled (queues wo h) then ZSA_WAIT_RESULT_SUCCEEDED else ZSA_WAIT_RESULT_FAILED,
               Some (if q_enabled (queues wo h) then hd (contents (queues wo h)) else 0), w') \<and>
        queue_inv w' \<and> queues w' = (queues wo)(h := q') \<and> contents q' = tl (contents (queues wo h)) \<and>
        queue_pop_blocked q' = queue_pop_blocked (queues wo h) - 1 \<and>
        client_refs w' = (\<lambda>k. client_refs wo k + (if q_enabled (queues wo h) then popped (hd (contents (queues wo h))) k else 0))"
    "\<And>others wo. others wr = wo \<Longrightarrow> queue_inv wo \<Longrightarrow> h \<in> qheld wo \<Longrightarrow> q_lock (queues wo h) = q_lock (queues w h) \<Longrightarrow>
      contents (queues wo h) = [] \<Longrightarrow> q_enabled (queues wo h) \<Longrightarrow> queue_pop others COND_OK h ms (Some v) w = None"
proof -
  let ?q = "queues w h" and ?l = "q_lock (queues w h)"
  let ?q1 = "?q\<lparr>queue_pop_blocked := queue_pop_blocked ?q + 1\<rparr>"
  from queue_lock_section [OF inv h] obtain w1 where w1: "Lock ?l w = Some (LOCK_OK, w1)"
    "in_section ?l w w1" "capture_refs w1 = capture_refs w" "queues w1 = queues w" .
  have ok: "ring_ok ?q" "?l \<noteq> 0" "conds w (q_condition ?q)"
    using queue_invD(4) [OF inv h] e(3) by (simp_all add: queue_ok_def)
  let ?w2 = "put_queue h ?q1 w1"
  have pop: "queue_pop_internal_locked ?q1 = Some (0, ?q1)" using ok(1) e(1) by (intro ring_pop_empty) simp_all
  have sec: "in_section ?l w ?w2" "queues ?w2 = (queues w)(h := ?q1)" "ring_ok ?q1" "q_lock ?q1 = ?l"
      "q_condition ?q1 = q_condition ?q"
      "\<And>k. capture_refs ?w2 k = capture_refs w k + queued ?q1 k - queued ?q k + 0"
    using w1 ok(1) by (simp_all add: queued_def)
  have pos: "\<And>c. 0 \<le> client_refs w c + 0" using queue_invD(3) [OF inv] by simp
  from queue_leave_section [where \<delta> = "\<lambda>_. 0", OF inv h sec pos] obtain wr where
    wr: "Unlock ?l ?w2 = Some (LOCK_OK, wr)" "queue_inv wr" "queues wr = (queues w)(h := ?q1)" "client_refs wr = client_refs w"
      "qheld wr = qheld w" "queue_rest wr = queue_rest w" by auto
  have lk: "locks ?w2 ?l = Some True" "conds ?w2 (q_condition ?q)"
    using sec(1) ok(3) queue_rest_conds [of ?w2 w] by (auto simp: in_section_def other_locks_def fun_eq_iff split: if_splits dest: spec [of _ ?l])
  have wait: "Condition_Wait others COND_OK (q_condition ?q1) ?l (if ms < 0 then 0 else ms) ?w2 = Some (COND_OK, wo1)"
    if "Lock ?l (others wr) = Some (LOCK_OK, wo1)" for others wo1
    using wr(1) lk e(3) ok(2) that by (simp add: Condition_Wait_def)
  show thesis
  proof (rule that [OF wr(2,5,4,6,3)])
    fix others :: "'a queue_world_scheme \<Rightarrow> 'a queue_world_scheme" and wo
    assume o: "others wr = wo" "queue_inv wo" "h \<in> qheld wo" "q_lock (queues wo h) = ?l"
    let ?qo = "queues wo h"
    define c where "c = (if contents ?qo = [] then 0 else hd (contents ?qo))"
    from queue_lock_section [OF o(2,3)] obtain w3 where w3: "Lock ?l wo = Some (LOCK_OK, w3)"
      "in_section (q_lock ?qo) wo w3" "capture_refs w3 = capture_refs wo" "queues w3 = queues wo" unfolding o(4) .
    have oko: "ring_ok ?qo" using queue_invD(4) [OF o(2,3)] by (simp add: queue_ok_def)
    from ring_try [OF oko, of "queue_pop_blocked ?qo", folded c_def] obtain q4 where
      q4: "queue_pop_internal_locked ?qo = Some (c, q4)" "ring_ok q4" "contents q4 = tl (contents ?qo)" "same_setup q4 ?qo"
        "\<forall>k. queued q4 k = queued ?qo k - popped c k" "c = 0 \<longleftrightarrow> contents ?qo = []" by auto
    let ?q5 = "q4\<lparr>queue_pop_blocked := queue_pop_blocked q4 - 1\<rparr>" and ?r = ZSA_WAIT_RESULT_SUCCEEDED
    let ?w5 = "put_queue h ?q5 (put_queue h q4 w3)"
    have en4: "q_enabled q4 = q_enabled ?qo" using q4(4) by (simp add: same_setup_def)
    have att: "queue_pop_attempt others COND_OK h ms w1 =
        (if c \<noteq> 0 \<or> \<not> q_enabled q4 then Some (?r, c, ?w5) else None)"
      using pop e(2) en w1(4) wait [of others w3] w3(1,4) o(1) q4(1) by (simp add: queue_pop_attempt_def Let_def)
    show "queue_pop others COND_OK h ms (Some v) w = None" if "contents ?qo = []" "q_enabled ?qo"
      using that h w1(1) att q4(6) en4 by (simp add: queue_pop_def qheld_def)
    assume some: "contents ?qo \<noteq> [] \<or> \<not> q_enabled ?qo"
    have q5: "queues ?w5 = (queues wo)(h := ?q5)" "ring_ok ?q5" "q_lock ?q5 = q_lock ?qo" "q_condition ?q5 = q_condition ?qo"
        "q_enabled ?q5 = q_enabled ?qo"
      using q4(2,4) w3(4) by (simp_all add: same_setup_def)
    have "in_section (q_lock ?qo) wo ?w5" "capture_refs ?w5 = capture_refs wo" "\<And>k. queued ?q5 k = queued ?qo k - popped c k"
      using w3(2,3) q4(5) by (simp_all add: queued_def)
    from queue_pop_finish_run [OF o(2,3) this(1) q5(1-4) this(2,3), of ?r] obtain w' q' where
      w': "queue_pop_finish h ?r c ?w5 = Some (if q_enabled ?qo then ?r else ZSA_WAIT_RESULT_FAILED, Some (if q_enabled ?qo then c else 0), w')"
        "queue_inv w'" "queues w' = (queues wo)(h := q')" "contents q' = contents ?q5" "same_setup q' ?q5"
        "client_refs w' = (\<lambda>k. client_refs wo k + (if q_enabled ?qo then popped c k else 0))" unfolding q5(5) by blast
    have "c \<noteq> 0 \<or> \<not> q_enabled q4" using some q4(6) en4 by simp
    then have run: "queue_pop others COND_OK h ms (Some v) w = Some (if q_enabled ?qo then ?r else ZSA_WAIT_RESULT_FAILED,
        Some (if q_enabled ?qo then c else 0), w')"
      using h w1(1) att w'(1) by (simp add: queue_pop_def qheld_def)
    have "q_enabled ?qo \<Longrightarrow> c = hd (contents ?qo)" using some by (simp add: c_def)
    then show "\<exists>w' q'. queue_pop others COND_OK h ms (Some v) w =
         Some (if q_enabled (queues wo h) then ZSA_WAIT_RESULT_SUCCEEDED else ZSA_WAIT_RESULT_FAILED,
               Some (if q_enabled (queues wo h) then hd (contents (queues wo h)) else 0), w') \<and>
        queue_inv w' \<and> queues w' = (queues wo)(h := q') \<and> contents q' = tl (contents (queues wo h)) \<and>
        queue_pop_blocked q' = queue_pop_blocked (queues wo h) - 1 \<and>
        client_refs w' = (\<lambda>k. client_refs wo k + (if q_enabled (queues wo h) then popped (hd (contents (queues wo h))) k else 0))"
      using run w' q4(3,4) by (intro exI [of _ w'] exI [of _ q']) (auto simp: same_setup_def)
  qed
qed

subsection \<open>References of the clients\<close>

text \<open>
  The clients of the queues hold references to captures (beyond those of the queues) and to images
  (beyond those of the captures). Taking and releasing them leaves all queues alone.
\<close>

lemma capture_env_queues:
  assumes "capture_env w' = capture_env w"
  shows "queues w' = queues w" and "qheld w' = qheld w" and "other_locks w' = other_locks w" and "conds w' = conds w"
    and "queue_world.more w' = queue_world.more w" and "image_stamps w' = image_stamps w"
    and "other_handles {H_image, H_capture} w' = other_handles {H_image, H_capture} w"
  using assms more_queues [of w' w] live_other [of "{H_image, H_capture}" w' w H_queue]
  by (auto simp: capture_env_def qheld_def)

lemma queue_inv_clients:
  assumes inv: "queue_inv w" and w': "capture_inv w'" "capture_env w' = capture_env w"
    and refs: "\<And>c. capture_refs w' c = capture_refs w c + \<delta> c" and pos: "\<And>c. 0 \<le> client_refs w c + \<delta> c"
  shows "queue_inv w'" and "client_refs w' = (\<lambda>c. client_refs w c + \<delta> c)"
proof -
  note same = capture_env_queues [OF w'(2)]
  show cl: "client_refs w' = (\<lambda>c. client_refs w c + \<delta> c)" by (simp add: client_refs_def same(1,2) refs fun_eq_iff)
  show "queue_inv w'" using inv w'(1) pos by (auto simp: queue_inv_def queue_ok_def cl same(1-4))
qed

lemma client_refs_pos:
  assumes "queue_inv w" and "0 < client_refs w c"
  shows "0 < capture_refs w c" and "c \<in> cheld w"
proof -
  have "0 \<le> (\<Sum>k \<in> qheld w. queued (queues w k) c)" by (rule sum_nonneg) (simp add: queued_def)
  then show "0 < capture_refs w c" using assms(2) by (simp add: client_refs_def)
  then show "c \<in> cheld w" by (simp add: capture_refs_pos)
qed

interpretation client_rc: refcounted queue_inv client_refs capture_rest capture_inc_ref capture_dec_ref
proof
  fix w :: "'a queue_world_scheme" and h
  assume inv: "queue_inv w"
  then show "0 \<le> client_refs w h" by (rule queue_invD)
  assume pos: "0 < client_refs w h"
  note c = queue_invD(1) [OF inv] client_refs_pos(1) [OF inv pos]
  from capture_rc.inc_held [OF c] obtain v where v: "capture_inc_ref h w = Some v" "capture_inv v"
    "capture_refs v = (capture_refs w)(h := capture_refs w h + 1)" "capture_rest v = capture_rest w" by blast
  have "capture_env v = capture_env w" using v(4) by (simp add: capture_rest_def)
  note upd = queue_inv_clients [OF inv v(2) this, where \<delta> = "\<lambda>k. if k = h then 1 else 0"]
  have "queue_inv v" "client_refs v = (\<lambda>k. client_refs w k + (if k = h then 1 else 0))"
    using upd queue_invD(3) [OF inv] by (simp_all add: v(3))
  then show "\<exists>w'. capture_inc_ref h w = Some w' \<and> queue_inv w' \<and> client_refs w' = (client_refs w)(h := client_refs w h + 1) \<and>
      capture_rest w' = capture_rest w" using v by (auto simp: fun_eq_iff)
  from capture_rc.dec_held [OF c] obtain v where v: "capture_dec_ref h w = Some v" "capture_inv v"
    "capture_refs v = (capture_refs w)(h := capture_refs w h - 1)" "capture_rest v = capture_rest w" by blast
  have "capture_env v = capture_env w" using v(4) by (simp add: capture_rest_def)
  note upd = queue_inv_clients [OF inv v(2) this, where \<delta> = "\<lambda>k. if k = h then - 1 else 0"]
  have "queue_inv v" "client_refs v = (\<lambda>k. client_refs w k + (if k = h then - 1 else 0))"
    using upd queue_invD(3) [OF inv] pos by (simp_all add: v(3))
  then show "\<exists>w'. capture_dec_ref h w = Some w' \<and> queue_inv w' \<and> client_refs w' = (client_refs w)(h := client_refs w h - 1) \<and>
      capture_rest w' = capture_rest w" using v by (auto simp: fun_eq_iff)
qed

text \<open>What the release of a client's reference to an image leaves alone.\<close>

definition image_client_rest where
  "image_client_rest w = (capture_env w, client_refs w, captures w)"

lemma outside_update:
  assumes inv: "queue_inv w" and w': "image_inv w'" "image_rest w' = image_rest w"
    and refs: "image_refs w' = (image_refs w)(i := image_refs w i + d)" and i: "i \<noteq> 0" and pos: "0 \<le> outside w i + d"
  shows "queue_inv w'" and "outside w' = (outside w)(i := outside w i + d)" and "image_client_rest w' = image_client_rest w"
proof -
  note frame = image_rest_frame [OF w'(2)]
  show out: "outside w' = (outside w)(i := outside w i + d)"
    using i by (auto simp: outside_def fun_eq_iff refs frame(2))
  have cinv: "capture_inv w'" using queue_invD(1) [OF inv] w'(1) pos image_rest_captures(1) [OF w'(2)]
    by (auto simp: capture_inv_def out frame(1))
  note upd = queue_inv_clients [OF inv cinv image_rest_env [OF w'(2)], where \<delta> = "\<lambda>_. 0"]
  show "queue_inv w'" "image_client_rest w' = image_client_rest w"
    using upd frame(3) queue_invD(3) [OF inv] image_rest_env [OF w'(2)] image_rest_captures(1) [OF w'(2)]
    by (simp_all add: image_client_rest_def)
qed

lemma outside_pos:
  assumes "queue_inv w" and "0 < outside w i"
  shows "i \<noteq> 0" and "0 < image_refs w i" and "image_inv w"
proof -
  show i: "i \<noteq> 0" using assms(2) by (cases "i = 0") (simp_all add: outside_def)
  have "0 \<le> slot_count w i" unfolding slot_count_def by (rule sum_nonneg) simp
  then show "0 < image_refs w i" using assms(2) i by (simp add: outside_def)
  show "image_inv w" by (rule capture_invD(1) [OF queue_invD(1) [OF assms(1)]])
qed

interpretation outside_rc: refcounted queue_inv outside image_client_rest image_inc_ref image_dec_ref
proof
  fix w :: "'a queue_world_scheme" and h
  assume inv: "queue_inv w"
  show "0 \<le> outside w h" by (rule capture_invD(3) [OF queue_invD(1) [OF inv]])
  assume pos: "0 < outside w h"
  note o = outside_pos [OF inv pos]
  from image_rc.inc_held [OF o(3,2)] obtain v where v: "image_inc_ref h w = Some v" "image_inv v"
    "image_refs v = (image_refs w)(h := image_refs w h + 1)" "image_rest v = image_rest w" by blast
  show "\<exists>w'. image_inc_ref h w = Some w' \<and> queue_inv w' \<and> outside w' = (outside w)(h := outside w h + 1) \<and>
      image_client_rest w' = image_client_rest w" using outside_update [OF inv v(2,4,3) o(1)] pos v(1) by simp
  from image_rc.dec_held [OF o(3,2)] obtain v where v: "image_dec_ref h w = Some v" "image_inv v"
    "image_refs v = (image_refs w)(h := image_refs w h + - 1)" "image_rest v = image_rest w" by auto
  show "\<exists>w'. image_dec_ref h w = Some w' \<and> queue_inv w' \<and> outside w' = (outside w)(h := outside w h - 1) \<and>
      image_client_rest w' = image_client_rest w" using outside_update [OF inv v(2,4,3) o(1)] pos v(1) by simp
qed

lemma client_get_image:
  fixes w :: "'a queue_world_scheme" and x :: image_type_index_t
  assumes inv: "queue_inv w" and c: "c \<in> cheld w"
  defines "i \<equiv> cap_image (captures w c) x"
  shows "\<exists>w'. capture_get_image x c w = Some (i, w') \<and> queue_inv w' \<and> image_client_rest w' = image_client_rest w \<and>
     outside w' = (\<lambda>k. outside w k + popped i k)"
proof -
  from capture_get_image_run [OF queue_invD(1) [OF inv] c, of x] obtain w' where w': "capture_get_image x c w = Some (i, w')"
    "capture_inv w'" "captures w' = captures w" "capture_refs w' = capture_refs w" "capture_env w' = capture_env w"
    "outside w' = (\<lambda>k. outside w k + (if k = i \<and> i \<noteq> 0 then 1 else 0))" unfolding i_def by blast
  note upd = queue_inv_clients [OF inv w'(2,5), where \<delta> = "\<lambda>_. 0"]
  then show ?thesis using w' queue_invD(3) [OF inv] by (simp add: image_client_rest_def popped_def)
qed

lemma client_set_image:
  assumes inv: "queue_inv w" and c: "c \<in> cheld w" and j: "j = 0 \<or> 0 < outside w j"
  shows "\<exists>w'. capture_set_image x c j w = Some w' \<and> queue_inv w' \<and> capture_env w' = capture_env w \<and>
     client_refs w' = client_refs w \<and> outside w' = outside w \<and>
     captures w' = (captures w)(c := (captures w c)\<lparr>cap_image := (cap_image (captures w c))(x := j)\<rparr>)"
proof -
  from capture_set_image_run [OF queue_invD(1) [OF inv] c j, of x] obtain w' where w': "capture_set_image x c j w = Some w'"
    "capture_inv w'" "outside w' = outside w" "capture_refs w' = capture_refs w" "capture_env w' = capture_env w"
    "captures w' = (captures w)(c := (captures w c)\<lparr>cap_image := (cap_image (captures w c))(x := j)\<rparr>)" by blast
  note upd = queue_inv_clients [OF inv w'(2,5), where \<delta> = "\<lambda>_. 0"]
  then show ?thesis using w' queue_invD(3) [OF inv] by (simp add: image_client_rest_def)
qed

subsection \<open>Pushes and pops of a disabled queue\<close>

lemma queue_push_disabled:
  assumes inv: "queue_inv w" and h: "h \<in> qheld w" and dis: "\<not> q_enabled (queues w h)"
  shows "queue_push_w_dropped h c d w = Some (d, w)"
proof -
  from queue_lock_section [OF inv h] obtain w1 where w1: "Lock (q_lock (queues w h)) w = Some (LOCK_OK, w1)"
    "queues w1 = queues w" by metis
  from Lock_Unlock [OF w1(1)] show ?thesis
    using h dis w1 by (simp add: queue_push_w_dropped_def qheld_def)
qed

lemma queue_pop_disabled:
  assumes inv: "queue_inv w" and h: "h \<in> qheld w" and dis: "\<not> q_enabled (queues w h)"
  shows "\<exists>w' q'. queue_pop others outcome h ms (Some v) w = Some (ZSA_WAIT_RESULT_FAILED, Some 0, w') \<and>
     queue_inv w' \<and> queues w' = (queues w)(h := q') \<and> contents q' = contents (queues w h) \<and>
     same_setup q' (queues w h) \<and> qheld w' = qheld w \<and> queue_rest w' = queue_rest w \<and> other_locks w' = other_locks w \<and>
     client_refs w' = client_refs w"
proof -
  let ?q = "queues w h"
  from queue_lock_section [OF inv h] obtain w1 where w1: "Lock (q_lock ?q) w = Some (LOCK_OK, w1)"
    "in_section (q_lock ?q) w w1" "capture_refs w1 = capture_refs w" "queues w1 = queues w" .
  have ok: "ring_ok ?q" using queue_invD(4) [OF inv h] by (simp add: queue_ok_def)
  have "queues w1 = (queues w)(h := ?q)" using w1(4) by simp
  from queue_pop_finish_run [OF inv h w1(2) this ok refl refl w1(3), of 0 ZSA_WAIT_RESULT_FAILED] dis obtain w' q' where
    w': "queue_pop_finish h ZSA_WAIT_RESULT_FAILED 0 w1 = Some (ZSA_WAIT_RESULT_FAILED, Some 0, w')"
      "queue_inv w'" "queues w' = (queues w)(h := q')" "contents q' = contents ?q" "same_setup q' ?q" "qheld w' = qheld w"
      "queue_rest w' = queue_rest w" "other_locks w' = other_locks w" "client_refs w' = client_refs w"
    by (auto simp: popped_def)
  have "queue_pop others outcome h ms (Some v) w = Some (ZSA_WAIT_RESULT_FAILED, Some 0, w')"
    using h w1(1,4) w'(1) dis by (simp add: queue_pop_def queue_pop_attempt_def qheld_def)
  then show ?thesis using w' by blast
qed

subsection \<open>Enable, disable, destroy\<close>

text \<open>An update of the flags inside a critical section.\<close>

lemma queue_flags_section:
  assumes inv: "queue_inv w" and h: "h \<in> qheld w"
    and q: "ring_ok q" "contents q = contents (queues w h)" "q_lock q = q_lock (queues w h)" "q_condition q = q_condition (queues w h)"
  obtains w1 w' where "Lock (q_lock (queues w h)) w = Some (LOCK_OK, w1)" "queues w1 = queues w"
    "in_section (q_lock (queues w h)) w (put_queue h q w1)" "capture_refs w1 = capture_refs w"
    "Unlock (q_lock q) (put_queue h q w1) = Some (LOCK_OK, w')"
    "queue_inv w'" "queues w' = (queues w)(h := q)" "client_refs w' = client_refs w" "qheld w' = qheld w" "queue_rest w' = queue_rest w"
    "other_locks w' = other_locks w"
proof -
  from queue_lock_section [OF inv h] obtain w1 where w1: "Lock (q_lock (queues w h)) w = Some (LOCK_OK, w1)"
    "in_section (q_lock (queues w h)) w w1" "capture_refs w1 = capture_refs w" "queues w1 = queues w" .
  have sec: "in_section (q_lock (queues w h)) w (put_queue h q w1)" "queues (put_queue h q w1) = (queues w)(h := q)"
      "\<And>k. capture_refs (put_queue h q w1) k = capture_refs w k + queued q k - queued (queues w h) k + 0"
    using w1 q(2) by (simp_all add: queued_def)
  have pos: "\<And>c. 0 \<le> client_refs w c + 0" using queue_invD(3) [OF inv] by simp
  from queue_leave_section [where \<delta> = "\<lambda>_. 0", OF inv h sec(1,2) q(1,3,4) sec(3) pos] show thesis
    using that [OF w1(1,4) sec(1) w1(3)] by auto
qed

lemma queue_enable_run:
  assumes inv: "queue_inv w" and h: "h \<in> qheld w"
  shows "\<exists>w'. queue_enable h w = Some w' \<and> queue_inv w' \<and> client_refs w' = client_refs w \<and> qheld w' = qheld w \<and>
    queue_rest w' = queue_rest w \<and> other_locks w' = other_locks w \<and>
    queues w' = (queues w)(h := (queues w h)\<lparr>q_enabled := True, q_stopped := False\<rparr>)"
proof -
  let ?q = "(queues w h)\<lparr>q_enabled := True, q_stopped := False\<rparr>"
  have "ring_ok ?q" "contents ?q = contents (queues w h)" "q_lock ?q = q_lock (queues w h)" "q_condition ?q = q_condition (queues w h)"
    using queue_invD(4) [OF inv h] by (simp_all add: queue_ok_def)
  then obtain w1 w' where w': "Lock (q_lock (queues w h)) w = Some (LOCK_OK, w1)" "queues w1 = queues w"
    "Unlock (q_lock ?q) (put_queue h ?q w1) = Some (LOCK_OK, w')"
    "queue_inv w'" "queues w' = (queues w)(h := ?q)" "client_refs w' = client_refs w" "qheld w' = qheld w"
    "queue_rest w' = queue_rest w" "other_locks w' = other_locks w"
    using queue_flags_section [OF inv h, of ?q] by metis
  then show ?thesis using h by (simp add: queue_enable_def qheld_def)
qed

text \<open>The second loop of \<open>queue_disable\<close> ends with an empty queue.\<close>

lemma queue_release_all_run:
  assumes "queue_inv w" and "h \<in> qheld w" and "in_section (q_lock (queues w h)) w w1"
    and "queues w1 = (queues w)(h := q)" "ring_ok q"
    and "\<And>k. capture_refs w1 k = capture_refs w k + queued q k - queued (queues w h) k"
  shows "\<exists>w2 q2. queue_release_all h w1 = Some w2 \<and> in_section (q_lock (queues w h)) w w2 \<and>
     queues w2 = (queues w)(h := q2) \<and> ring_ok q2 \<and> contents q2 = [] \<and> same_setup q2 q \<and>
     (\<forall>k. capture_refs w2 k = capture_refs w k - queued (queues w h) k)"
  using assms(3-6)
proof (induction "length (contents q)" arbitrary: w1 q)
  case 0
  then have "contents q = []" by (simp del: length_contents)
  then have "queue_release_all h w1 = Some w1"
    using 0 ring_empty [of q] by (subst queue_release_all.simps) simp
  then show ?case using 0 \<open>contents q = []\<close>
    by (intro exI [of _ w1] exI [of _ q]) (simp add: same_setup_def queued_def)
next
  case (Suc n)
  have ne: "contents q \<noteq> []" using Suc.hyps(2) by (auto simp del: length_contents)
  let ?c = "hd (contents q)"
  have "1 \<le> queued q ?c"
  proof -
    have "count_list (contents q) ?c \<noteq> 0" using ne by (simp add: count_list_0_iff)
    then show ?thesis by (simp add: queued_def Suc_le_eq)
  qed
  moreover have "queued (queues w h) ?c \<le> capture_refs w ?c"
  proof -
    have "queued (queues w h) ?c \<le> (\<Sum>k \<in> qheld w. queued (queues w k) ?c)"
      by (rule member_le_sum [OF assms(2)]) (auto simp: queued_def queue_invD(2) [OF assms(1)])
    then show ?thesis using queue_invD(3) [OF assms(1), of ?c] by (simp add: client_refs_def)
  qed
  ultimately have pos: "0 < capture_refs w1 ?c" using Suc.prems(4) [of ?c] by simp
  have inv1: "capture_inv w1" and q1: "queues w1 h = q" using Suc.prems(1,2) by (simp_all add: in_section_def)
  have id: "q\<lparr>q_dropped_count := q_dropped_count q\<rparr> = q" by (cases q) simp
  from drop_oldest [OF inv1 q1 Suc.prems(3) ne pos, of "q_dropped_count q"] obtain q2 w2 where
    r: "queue_pop_internal_locked q = Some (?c, q2)" "capture_dec_ref ?c (put_queue h q2 w1) = Some w2" "capture_inv w2"
      "capture_refs w2 = (capture_refs w1)(?c := capture_refs w1 ?c - 1)" "queues w2 = (queues w1)(h := q2)"
      "queue_rest w2 = queue_rest w1" "other_locks w2 = other_locks w1" "ring_ok q2" "contents q2 = tl (contents q)"
      "same_setup q2 q" unfolding id by blast
  have "n = length (contents q2)" using Suc.hyps(2) r(9) by (simp del: length_contents)
  moreover have "in_section (q_lock (queues w h)) w w2" using r(3,6,7) Suc.prems(1) by (simp add: in_section_def)
  moreover have "queues w2 = (queues w)(h := q2)" using r(5) Suc.prems(2) by simp
  moreover have "capture_refs w2 k = capture_refs w k + queued q2 k - queued (queues w h) k" for k
    using Suc.prems(4) [of k] count_tl [OF ne, of k] by (cases "k = ?c") (simp_all add: r(4,9) queued_def)
  ultimately obtain w3 q3 where w3: "queue_release_all h w2 = Some w3" "in_section (q_lock (queues w h)) w w3"
     "queues w3 = (queues w)(h := q3)" "ring_ok q3" "contents q3 = []" "same_setup q3 q2"
     "\<forall>k. capture_refs w3 k = capture_refs w k - queued (queues w h) k"
    using Suc.hyps(1) [of q2 w2] r(8) by blast
  have "queue_release_all h w1 = Some w3"
    using r(1,2) w3(1) q1 ring_empty [OF Suc.prems(3)] ne by (subst queue_release_all.simps) simp
  then show ?case using w3 r(10) by (intro exI [of _ w3] exI [of _ q3]) (auto simp: same_setup_def)
qed

text \<open>
  The first loop. It ends if in every round the other threads let at least one blocked consumer leave
  and keep the queue otherwise usable and disabled.
\<close>

definition drains :: "(nat \<Rightarrow> 'a queue_world_scheme \<Rightarrow> 'a queue_world_scheme) \<Rightarrow> ptr \<Rightarrow> bool" where
  "drains others h \<longleftrightarrow> (\<forall>n v. queue_inv v \<and> h \<in> qheld v \<and> \<not> q_enabled (queues v h) \<and> queue_pop_blocked (queues v h) \<noteq> 0 \<longrightarrow>
     queue_inv (others n v) \<and> h \<in> qheld (others n v) \<and> \<not> q_enabled (queues (others n v) h) \<and>
     unat (queue_pop_blocked (queues (others n v) h)) < unat (queue_pop_blocked (queues v h)))"

lemma queue_wait_for_consumers_run:
  shows "(queue_pop_blocked q \<noteq> 0 \<Longrightarrow> drains others h) \<Longrightarrow> queue_inv w \<Longrightarrow> h \<in> qheld w \<Longrightarrow> in_section (q_lock (queues w h)) w w1 \<Longrightarrow> queues w1 = (queues w)(h := q) \<Longrightarrow>
     ring_ok q \<Longrightarrow> contents q = contents (queues w h) \<Longrightarrow> q_lock q = q_lock (queues w h) \<Longrightarrow>
     q_condition q = q_condition (queues w h) \<Longrightarrow> \<not> q_enabled q \<Longrightarrow> capture_refs w1 = capture_refs w \<Longrightarrow>
     \<exists>w' w2 q2. queue_wait_for_consumers others n h w1 = Some w2 \<and> queue_inv w' \<and> h \<in> qheld w' \<and>
       in_section (q_lock (queues w' h)) w' w2 \<and> queues w2 = (queues w')(h := q2) \<and> ring_ok q2 \<and>
       contents q2 = contents (queues w' h) \<and> q_lock q2 = q_lock (queues w' h) \<and> q_condition q2 = q_condition (queues w' h) \<and>
       \<not> q_enabled q2 \<and> queue_pop_blocked q2 = 0 \<and> capture_refs w2 = capture_refs w' \<and>
       (queue_pop_blocked q = 0 \<longrightarrow> w' = w \<and> w2 = w1 \<and> q2 = q)"
proof (induction "unat (queue_pop_blocked q)" arbitrary: w w1 q n rule: less_induct)
  case less
  note prems = less.prems(2-)
  show ?case
  proof (cases "queue_pop_blocked q = 0")
    case True
    then have "queue_wait_for_consumers others n h w1 = Some w1"
      using prems(4) by (subst queue_wait_for_consumers.simps) simp
    then show ?thesis using prems True by blast
  next
    case False
    have ok: "q_lock q \<noteq> 0" "q_condition q \<noteq> 0 \<longrightarrow> conds w (q_condition q)"
      using queue_invD(4) [OF prems(1,2)] prems(7,8) by (simp_all add: queue_ok_def)
    have post: "\<exists>r. Condition_Post (q_condition q) w1 = Some r"
      using ok(2) prems(3) queue_rest_conds [of w1 w] by (auto simp: in_section_def Condition_Post_def)
    have refs: "\<And>k. capture_refs w1 k = capture_refs w k + queued q k - queued (queues w h) k + 0"
      using prems(6,10) by (simp add: queued_def)
    have pos: "\<And>c. 0 \<le> client_refs w c + 0" using queue_invD(3) [OF prems(1)] by simp
    obtain u where u: "Unlock (q_lock q) w1 = Some (LOCK_OK, u)" "queue_inv u" "queues u = (queues w)(h := q)" "qheld u = qheld w"
      using queue_leave_section [where \<delta> = "\<lambda>_. 0", OF prems(1-5,7,8) refs pos] by metis
    let ?v = "others n u" and ?q = "queues (others n u) h"
    have v: "queue_inv ?v" "h \<in> qheld ?v" "\<not> q_enabled ?q" "unat (queue_pop_blocked ?q) < unat (queue_pop_blocked q)"
      using less.prems(1) [OF False, unfolded drains_def, rule_format, of u n] u prems(2,9) False by simp_all
    from queue_lock_section [OF v(1,2)] obtain w3 where w3: "Lock (q_lock ?q) ?v = Some (LOCK_OK, w3)"
      "in_section (q_lock ?q) ?v w3" "capture_refs w3 = capture_refs ?v" "queues w3 = queues ?v" .
    have okv: "ring_ok ?q" using queue_invD(4) [OF v(1,2)] by (simp add: queue_ok_def)
    have "queues w3 = (queues ?v)(h := ?q)" using w3(4) by simp
    from less.hyps [OF v(4) less.prems(1) [OF False] v(1,2) w3(2) this okv refl refl refl v(3) w3(3), of "Suc n"]
    obtain w' w2 q2 where r: "queue_wait_for_consumers others (Suc n) h w3 = Some w2" "queue_inv w'" "h \<in> qheld w'"
       "in_section (q_lock (queues w' h)) w' w2" "queues w2 = (queues w')(h := q2)" "ring_ok q2"
       "contents q2 = contents (queues w' h)" "q_lock q2 = q_lock (queues w' h)" "q_condition q2 = q_condition (queues w' h)"
       "\<not> q_enabled q2" "queue_pop_blocked q2 = 0" "capture_refs w2 = capture_refs w'" by blast
    have "queue_wait_for_consumers others n h w1 = Some w2"
      using False post u(1) w3(1) r(1) prems(4) by (subst queue_wait_for_consumers.simps) auto
    then show ?thesis using r False by blast
  qed
qed

lemma queue_disable_run:
  assumes inv: "queue_inv w" and h: "h \<in> qheld w" and rely: "queue_pop_blocked (queues w h) \<noteq> 0 \<Longrightarrow> drains others h"
  shows "\<exists>w' u. queue_disable others h w = Some w' \<and> queue_inv w' \<and> h \<in> qheld w' \<and> contents (queues w' h) = [] \<and>
     \<not> q_enabled (queues w' h) \<and> queue_pop_blocked (queues w' h) = 0 \<and> client_refs w' = client_refs u \<and>
     (queue_pop_blocked (queues w h) = 0 \<longrightarrow> u = w \<and> qheld w' = qheld w \<and> queue_rest w' = queue_rest w \<and>
        other_locks w' = other_locks w \<and> (\<forall>k. k \<noteq> h \<longrightarrow> queues w' k = queues w k) \<and>
        same_setup (queues w' h) ((queues w h)\<lparr>q_enabled := False\<rparr>))"
proof -
  let ?q = "(queues w h)\<lparr>q_enabled := False\<rparr>"
  have q: "ring_ok ?q" "contents ?q = contents (queues w h)" "q_lock ?q = q_lock (queues w h)" "q_condition ?q = q_condition (queues w h)"
    using queue_invD(4) [OF inv h] by (simp_all add: queue_ok_def)
  obtain w1 where w1: "Lock (q_lock (queues w h)) w = Some (LOCK_OK, w1)" "queues w1 = queues w"
    "in_section (q_lock (queues w h)) w (put_queue h ?q w1)" "capture_refs w1 = capture_refs w"
    using queue_flags_section [OF inv h q] by metis
  have "queues (put_queue h ?q w1) = (queues w)(h := ?q)" "\<not> q_enabled ?q" "capture_refs (put_queue h ?q w1) = capture_refs w"
    using w1(2,4) by simp_all
  moreover have "queue_pop_blocked ?q \<noteq> 0 \<Longrightarrow> drains others h" using rely by simp
  ultimately obtain u w2 q2 where
    r: "queue_wait_for_consumers others 0 h (put_queue h ?q w1) = Some w2" "queue_inv u" "h \<in> qheld u"
       "in_section (q_lock (queues u h)) u w2" "queues w2 = (queues u)(h := q2)" "ring_ok q2"
       "contents q2 = contents (queues u h)" "q_lock q2 = q_lock (queues u h)" "q_condition q2 = q_condition (queues u h)"
       "\<not> q_enabled q2" "queue_pop_blocked q2 = 0" "capture_refs w2 = capture_refs u"
       "queue_pop_blocked ?q = 0 \<longrightarrow> u = w \<and> w2 = put_queue h ?q w1 \<and> q2 = ?q"
    using queue_wait_for_consumers_run [OF _ inv h w1(3) _ q, of others 0] by blast
  have "capture_refs w2 k = capture_refs u k + queued q2 k - queued (queues u h) k" for k
    using r(7,12) by (simp add: queued_def)
  from queue_release_all_run [OF r(2-6) this] obtain w3 q3 where w3: "queue_release_all h w2 = Some w3"
     "in_section (q_lock (queues u h)) u w3" "queues w3 = (queues u)(h := q3)" "ring_ok q3" "contents q3 = []" "same_setup q3 q2"
     "\<forall>k. capture_refs w3 k = capture_refs u k - queued (queues u h) k" by blast
  have refs: "\<And>k. capture_refs w3 k = capture_refs u k + queued q3 k - queued (queues u h) k + 0"
    using w3(5,7) by (simp add: queued_def)
  have lc: "q_lock q3 = q_lock (queues u h)" "q_condition q3 = q_condition (queues u h)"
    using w3(6) r(8,9) by (simp_all add: same_setup_def)
  have pos: "\<And>c. 0 \<le> client_refs u c + 0" using queue_invD(3) [OF r(2)] by simp
  from queue_leave_section [where \<delta> = "\<lambda>_. 0", OF r(2,3) w3(2-4) lc refs pos] obtain w' where
    w': "Unlock (q_lock q3) w3 = Some (LOCK_OK, w')" "queue_inv w'" "queues w' = (queues u)(h := q3)"
      "client_refs w' = client_refs u" "qheld w' = qheld u" "queue_rest w' = queue_rest u" "other_locks w' = other_locks u" by auto
  have "queue_disable others h w = Some w'"
    using h w1(1,2) r(1) w3(1,3) w'(1) by (simp add: queue_disable_def qheld_def)
  then show ?thesis using w' r w3(5,6) by (intro exI [of _ w'] exI [of _ u]) (auto simp: same_setup_def)
qed

text \<open>Taking a queue with its lock and condition out of the state.\<close>

definition queue_gone :: "ptr \<Rightarrow> 'a queue_world_scheme \<Rightarrow> 'a queue_world_scheme" where
  "queue_gone h w =
     (let q = queues w h;
          w = (if q_condition q \<noteq> 0 then w\<lparr>conds := (conds w)(q_condition q := False)\<rparr> else w);
          w = put_queue h (q\<lparr>q_queue := None\<rparr>) w
      in w\<lparr>locks := (locks w)(q_lock q := None), htype := (htype w)(h := None)\<rparr>)"

lemma queue_gone_simps [simp]:
  "images (queue_gone h w) = images w" "captures (queue_gone h w) = captures w"
  "blocks (queue_gone h w) = blocks w" "next_addr (queue_gone h w) = next_addr w"
  "g_init_once (queue_gone h w) = g_init_once w" "g_lock (queue_gone h w) = g_lock w"
  "g_alloc (queue_gone h w) = g_alloc w" "g_free (queue_gone h w) = g_free w"
  "locks (queue_gone h w) = (locks w)(q_lock (queues w h) := None)" "htype (queue_gone h w) = (htype w)(h := None)"
  "conds (queue_gone h w) = (if q_condition (queues w h) \<noteq> 0 then (conds w)(q_condition (queues w h) := False) else conds w)"
  "queues (queue_gone h w) = (queues w)(h := (queues w h)\<lparr>q_queue := None\<rparr>)"
  by (simp_all add: queue_gone_def Let_def put_queue_def)

lemma queue_gone_inv:
  assumes inv: "queue_inv w" and h: "h \<in> qheld w" and e: "contents (queues w h) = []"
  shows "queue_inv (queue_gone h w)" and "qheld (queue_gone h w) = qheld w - {h}"
    and "client_refs (queue_gone h w) = client_refs w" and "other_locks (queue_gone h w) = (other_locks w)(q_lock (queues w h) := None)"
    and "outside (queue_gone h w) = outside w"
proof -
  let ?g = "queue_gone h w" and ?q = "queues w h"
  note cinv = queue_invD(1) [OF inv] and iinv = capture_invD(1) [OF queue_invD(1) [OF inv]]
  have l: "q_lock ?q \<notin> (\<lambda>k. img_lock (images w k)) ` held w"
    using queue_invD(4) [OF inv h] by (auto simp: queue_ok_def other_locks_def split: if_splits)
  have live: "live H_queue w h" using h by (simp add: qheld_def)
  have "mem_ok ?g" using alloc_invD(1) [OF image_invD(1) [OF iinv]] by (auto simp: mem_ok_def split: if_splits)
  then have a: "alloc_inv ?g" by (intro alloc_inv_other [OF image_invD(1) [OF iinv]]) auto
  have "\<And>k. live H_image ?g k = live H_image w k" "\<And>k. live H_capture ?g k = live H_capture w k"
    using live by (auto simp: live_def)
  note lv = this
  have lk: "\<And>k. k \<in> held w \<Longrightarrow> locks ?g (img_lock (images w k)) = locks w (img_lock (images w k))"
    using l by (auto simp: image_iff)
  have img: "image_inv ?g" "held ?g = held w" "image_refs ?g = image_refs w"
    using image_inv_frame [OF iinv a, OF _ _ lv(1) lk] by simp_all
  have cap: "capture_inv ?g" "capture_refs ?g = capture_refs w" "outside ?g = outside w"
    using capture_inv_frame [OF cinv img(1,3) _ lv(2)] by simp_all
  then show "outside ?g = outside w" by simp
  show held: "qheld ?g = qheld w - {h}" by (auto simp: qheld_def live_def)
  show ol: "other_locks ?g = (other_locks w)(q_lock ?q := None)"
    unfolding other_locks_def img(2) by (auto simp: fun_eq_iff)
  have ok: "queue_ok ?g (queues ?g k)" if k: "k \<in> qheld w" "k \<noteq> h" for k
  proof -
    have "queues_apart (queues w k) ?q" using inv k h by (auto simp: queue_inv_def)
    then show ?thesis using queue_invD(4) [OF inv k(1)] k(2) by (auto simp: queue_ok_def queues_apart_def ol)
  qed
  have "(\<Sum>k \<in> qheld w. queued (queues w k) c) = (\<Sum>k \<in> qheld w - {h}. queued (queues ?g k) c)" for c
    using sum.remove [OF queue_invD(2) [OF inv] h, of "\<lambda>k. queued (queues w k) c"] e by (simp add: queued_def)
  then show cl: "client_refs ?g = client_refs w" by (simp add: client_refs_def held cap(2) fun_eq_iff)
  show "queue_inv ?g"
    unfolding queue_inv_def held cl using inv cap(1) ok by (auto simp: queue_inv_def)
qed

definition queue_removed :: "ptr \<Rightarrow> 'a queue_world_scheme \<Rightarrow> 'a queue_world_scheme \<Rightarrow> bool" where
  "queue_removed h w w' \<longleftrightarrow> other_locks w' = (other_locks w)(q_lock (queues w h) := None) \<and>
     other_handles {H_image, H_capture} w' = (other_handles {H_image, H_capture} w)(h := None) \<and> outside w' = outside w \<and>
     queue_world.more w' = queue_world.more w"

lemma queue_destroy_run:
  assumes inv: "queue_inv w" and h: "h \<in> qheld w" and rely: "queue_pop_blocked (queues w h) \<noteq> 0 \<Longrightarrow> drains others h"
  shows "\<exists>w' u. queue_destroy others h w = Some w' \<and> queue_inv w' \<and> htype w' h = None \<and> client_refs w' = client_refs u \<and>
     (queue_pop_blocked (queues w h) = 0 \<longrightarrow> u = w \<and> qheld w' = qheld w - {h} \<and> (\<forall>k. k \<noteq> h \<longrightarrow> queues w' k = queues w k) \<and>
        queue_removed h w w')"
proof -
  from queue_disable_run [OF inv h, of others] rely obtain v u where
    v: "queue_disable others h w = Some v" "queue_inv v" "h \<in> qheld v" "contents (queues v h) = []" "client_refs v = client_refs u"
      "queue_pop_blocked (queues w h) = 0 \<longrightarrow> u = w \<and> qheld v = qheld w \<and> (\<forall>k. k \<noteq> h \<longrightarrow> queues v k = queues w k) \<and>
        queue_rest v = queue_rest w \<and> other_locks v = other_locks w \<and> same_setup (queues v h) ((queues w h)\<lparr>q_enabled := False\<rparr>)" by blast
  let ?q = "queues v h"
  have ok: "q_lock ?q \<noteq> 0" "locks v (q_lock ?q) = Some False" "q_condition ?q \<noteq> 0 \<longrightarrow> conds v (q_condition ?q)" "q_queue ?q \<noteq> None"
    using queue_invD(4) [OF v(2,3)] by (auto simp: queue_ok_def other_locks_def ring_ok_def split: if_splits)
  have live: "live H_queue w h" "live H_queue v h" using h v(3) by (simp_all add: qheld_def)
  have "queue_destroy others h w = Some (queue_gone h v)"
    using live v(1) ok
    by (cases "q_condition ?q = 0")
      (simp_all add: queue_destroy_def Let_def Condition_Deinit_def Lock_Deinit_def handle_destroy_def live_def queue_gone_def put_queue_def)
  moreover have "queue_removed h w (queue_gone h v)" if "queue_pop_blocked (queues w h) = 0"
    using v(6) that queue_gone_inv(4,5) [OF v(2-4)]
    by (auto simp: queue_removed_def queue_rest_def same_setup_def) (simp_all add: queue_gone_def Let_def put_queue_def other_handles_def fun_eq_iff)
  ultimately show ?thesis using queue_gone_inv [OF v(2-4)] v(5,6) by (intro exI [of _ "queue_gone h v"] exI [of _ u]) auto
qed

subsection \<open>Creating a queue\<close>

text \<open>States that differ in fresh resources only.\<close>

lemma fresh_resources:
  assumes inv: "capture_inv w" and a: "alloc_inv w'" and same: "images w' = images w" "blocks w' = blocks w" "captures w' = captures w"
    and t: "htype w' = (htype w)(h := X)" "htype w h = None" "X = None \<or> X = Some T" "T \<noteq> H_image" "T \<noteq> H_capture"
    and l: "\<And>l. locks w l \<noteq> None \<Longrightarrow> locks w' l = locks w l"
  shows "capture_inv w'" and "capture_refs w' = capture_refs w" and "outside w' = outside w"
    and "\<And>l. other_locks w l \<noteq> None \<Longrightarrow> other_locks w' l = other_locks w l" and "held w' = held w"
    and "\<And>l. locks w l = None \<Longrightarrow> other_locks w' l = locks w' l"
proof -
  note iinv = capture_invD(1) [OF inv]
  have lv: "\<And>k. live H_image w' k = live H_image w k" "\<And>k. live H_capture w' k = live H_capture w k"
    using t by (auto simp: live_def)
  have il: "\<And>k. k \<in> held w \<Longrightarrow> locks w (img_lock (images w k)) \<noteq> None"
    using held_wf [OF iinv] by (simp add: image_wf_def)
  have img: "image_inv w'" "held w' = held w" "image_refs w' = image_refs w"
    using image_inv_frame [OF iinv a same(1,2) lv(1)] l il by auto
  show "capture_inv w'" "capture_refs w' = capture_refs w" "outside w' = outside w"
    using capture_inv_frame [OF inv img(1,3) same(3) lv(2)] by simp_all
  show "held w' = held w" by (rule img(2))
  show "other_locks w' l = other_locks w l" if "other_locks w l \<noteq> None" for l
    using that l [of l] unfolding other_locks_def img(2) same(1) by (auto split: if_splits)
  show "other_locks w' l = locks w' l" if "locks w l = None" for l
  proof -
    have "l \<noteq> img_lock (images w k)" if "k \<in> held w" for k using il [OF that] \<open>locks w l = None\<close> by auto
    then have "l \<notin> (\<lambda>k. img_lock (images w k)) ` held w" by auto
    then show ?thesis unfolding other_locks_def img(2) same(1) by simp
  qed
qed

lemma queue_inv_same:
  assumes inv: "queue_inv w" and c: "capture_inv w'" "capture_refs w' = capture_refs w" and h: "qheld w' = qheld w"
    and q: "\<And>k. k \<in> qheld w \<Longrightarrow> queues w' k = queues w k"
    and l: "\<And>l. other_locks w l \<noteq> None \<Longrightarrow> other_locks w' l = other_locks w l" and d: "\<And>c. conds w c \<Longrightarrow> conds w' c"
  shows "queue_inv w' \<and> client_refs w' = client_refs w"
proof -
  have "client_refs w' = client_refs w" by (simp add: client_refs_def fun_eq_iff c(2) h q)
  moreover have "queue_ok w' (queues w' k)" if "k \<in> qheld w" for k
    using queue_invD(4) [OF inv that] l [of "q_lock (queues w k)"] d [of "q_condition (queues w k)"] q [OF that]
    by (auto simp: queue_ok_def)
  ultimately show ?thesis using inv c(1) q by (auto simp: queue_inv_def h)
qed

lemma queue_inv_add:
  assumes inv: "queue_inv w" and c: "capture_inv w'" "capture_refs w' = capture_refs w" and h: "qheld w' = insert h (qheld w)" "h \<notin> qheld w"
    and q: "\<And>k. k \<in> qheld w \<Longrightarrow> queues w' k = queues w k"
    and l: "\<And>l. other_locks w l \<noteq> None \<Longrightarrow> other_locks w' l = other_locks w l" and d: "\<And>c. conds w c \<Longrightarrow> conds w' c"
    and new: "queue_ok w' (queues w' h)" "contents (queues w' h) = []" "other_locks w (q_lock (queues w' h)) = None"
      "\<not> conds w (q_condition (queues w' h))"
  shows "queue_inv w' \<and> client_refs w' = client_refs w"
proof -
  have "(\<Sum>k \<in> insert h (qheld w). queued (queues w' k) x) = (\<Sum>k \<in> qheld w. queued (queues w k) x)" for x
    using h(2) queue_invD(2) [OF inv] new(2) by (simp add: q queued_def)
  then have cl: "client_refs w' = client_refs w" by (simp add: client_refs_def fun_eq_iff c(2) h(1))
  have ok: "queue_ok w' (queues w' k)" if "k \<in> qheld w" for k
    using queue_invD(4) [OF inv that] l [of "q_lock (queues w k)"] d [of "q_condition (queues w k)"] q [OF that]
    by (auto simp: queue_ok_def)
  have "queues_apart (queues w k) (queues w' h)" "queues_apart (queues w' h) (queues w k)" if "k \<in> qheld w" for k
    using queue_invD(4) [OF inv that] new(3,4) by (auto simp: queue_ok_def queues_apart_def)
  then show ?thesis using inv c(1) q ok new(1) h by (auto simp: queue_inv_def cl)
qed

text \<open>Destroying a queue that has no lock yet, as the error path of \<open>queue_create\<close> does.\<close>

lemma queue_destroy_unlocked:
  assumes "live H_queue w h" and "q_lock (queues w h) = 0" "q_condition (queues w h) = 0" "queue_pop_blocked (queues w h) = 0"
    and "q_read_location (queues w h) = q_write_location (queues w h)"
  shows "\<exists>q. queue_destroy others h w = Some ((put_queue h q w)\<lparr>htype := (htype w)(h := None)\<rparr>)"
proof -
  let ?q = "(queues w h)\<lparr>q_enabled := False\<rparr>"
  have "queue_wait_for_consumers others 0 h (put_queue h ?q w) = Some (put_queue h ?q w)"
    using assms(4) by (subst queue_wait_for_consumers.simps) simp
  moreover have "queue_release_all h (put_queue h ?q w) = Some (put_queue h ?q w)"
    using assms(5) by (subst queue_release_all.simps) (simp add: is_queue_empty_def)
  ultimately have "queue_disable others h w = Some (put_queue h ?q w)"
    using assms by (simp add: queue_disable_def Lock_def Unlock_def)
  then have "queue_destroy others h w =
      handle_destroy h (if q_queue ?q \<noteq> None then put_queue h (?q\<lparr>q_queue := None\<rparr>) (put_queue h ?q w) else put_queue h ?q w)"
    using assms(1-3) by (simp add: queue_destroy_def Let_def Lock_Deinit_def)
  then show ?thesis using assms(1) unfolding queue_store.put_put by (auto simp: handle_destroy_def live_def)
qed

text \<open>The context of a queue whose depth and name are set.\<close>

definition queue_named :: "u32 \<Rightarrow> string option \<Rightarrow> queue_context_t" where
  "queue_named d n = queue_zero\<lparr>q_depth := d + 1, q_name := Some (case_option ''Unknown queue'' id n)\<rparr>"

definition queue_ready :: "u32 \<Rightarrow> string option \<Rightarrow> ptr \<Rightarrow> ptr \<Rightarrow> queue_context_t" where
  "queue_ready d n l c =
     (queue_named d n)\<lparr>q_queue := Some (replicate (unat (d + 1)) None), q_lock := l, q_condition := c\<rparr>"

lemma queue_create_eq:
  assumes "d \<noteq> 0" "\<not> d > 10000" and h: "handle_create H_queue w = (h, w1)" "h \<noteq> 0"
    and m: "c_malloc (8 * unat (d + 1)) w1 = (p, w2)"
  shows "queue_create d n w =
    (if p = 0 then map_option (\<lambda>w. (ZSA_RESULT_FAILED, 0, w)) (queue_destroy (\<lambda>_ w. w) h (put_queue h (queue_named d n) w2))
     else case Lock_Init w2 of (l, w3) \<Rightarrow>
       if l = 0 then map_option (\<lambda>w. (ZSA_RESULT_FAILED, 0, w)) (queue_destroy (\<lambda>_ w. w) h (put_queue h (queue_ready d n 0 0) w3))
       else case Condition_Init w3 of (c, w4) \<Rightarrow> Some (ZSA_RESULT_SUCCEEDED, h, put_queue h (queue_ready d n l c) w4))"
proof -
  have m': "c_malloc k (put_queue h q v) = (fst (c_malloc k v), put_queue h q (snd (c_malloc k v)))" for k q and v :: "'a queue_world_scheme"
    by (cases v) (simp add: c_malloc_def os_request_def put_queue_def)
  have l': "Lock_Init (put_queue h q v) = (fst (Lock_Init v), put_queue h q (snd (Lock_Init v)))" for q and v :: "'a queue_world_scheme"
    by (cases v) (simp add: Lock_Init_def c_malloc_def os_request_def put_queue_def)
  have c': "Condition_Init (put_queue h q v) = (fst (Condition_Init v), put_queue h q (snd (Condition_Init v)))" for q and v :: "'a queue_world_scheme"
    by (cases v) (simp add: Condition_Init_def c_malloc_def os_request_def put_queue_def)
  show ?thesis
    using assms
    by (cases "p = 0"; cases "Lock_Init w2"; cases "fst (Lock_Init w2) = 0"; cases "Condition_Init (snd (Lock_Init w2))")
      (simp_all add: queue_create_def queue_t_create_def Let_def m' l' c' queue_store.put_put queue_named_def queue_ready_def
        queue_zero_def sizeof_queue_entry_t_def map_conv_bind_option comp_def)
qed

lemma ring_ok_ready:
  assumes "d \<noteq> 0" "\<not> d > 10000"
  shows "ring_ok (queue_ready d n l c)" and "contents (queue_ready d n l c) = []" and "capacity (queue_ready d n l c) = unat d"
proof -
  have "unat d \<noteq> 0" "unat d \<le> 10000" using assms by (auto simp: word_less_nat_alt unat_eq_0)
  then have "unat (d + 1) = Suc (unat d)" by (simp add: unat_word_ariths)
  then show "ring_ok (queue_ready d n l c)" "contents (queue_ready d n l c) = []" "capacity (queue_ready d n l c) = unat d"
    using \<open>unat d \<noteq> 0\<close> \<open>unat d \<le> 10000\<close>
    by (simp_all add: queue_ready_def queue_named_def queue_zero_def ring_ok_def contents_def qlen_def capacity_def)
qed

lemma queue_create_undo:
  assumes inv: "queue_inv w" and a: "alloc_inv v" and t: "htype v = (htype w)(h := Some H_queue)" "htype w h = None" "h \<noteq> 0"
    and same: "locks v = locks w" "conds v = conds w" "queues v = queues w" "captures v = captures w" "images v = images w" "blocks v = blocks w"
    and q: "q_lock q = 0" "q_condition q = 0" "queue_pop_blocked q = 0" "q_read_location q = q_write_location q"
  shows "\<exists>w'. queue_destroy others h (put_queue h q v) = Some w' \<and> queue_inv w' \<and> client_refs w' = client_refs w \<and> qheld w' = qheld w"
proof -
  have "live H_queue (put_queue h q v) h" using t by (simp add: live_def)
  then obtain q' where run: "queue_destroy others h (put_queue h q v) =
      Some ((put_queue h q' (put_queue h q v))\<lparr>htype := (htype (put_queue h q v))(h := None)\<rparr>)"
    using queue_destroy_unlocked [of "put_queue h q v" h others] q by auto
  define w' where "w' = (put_queue h q' (put_queue h q v))\<lparr>htype := (htype (put_queue h q v))(h := None)\<rparr>"
  have "alloc_inv (put_queue h q' (put_queue h q v))" using a by (simp add: put_queue_def alloc_inv_defs mem_ok_def)
  from alloc_inv_destroy [OF this, of h] have aw: "alloc_inv w'" by (simp add: w'_def)
  have ty: "htype w' = (htype w)(h := None)" using t(1) by (simp add: w'_def)
  have e: "images w' = images w" "blocks w' = blocks w" "captures w' = captures w" "locks w' = locks w" "conds w' = conds w"
      "\<And>k. k \<noteq> h \<Longrightarrow> queues w' k = queues w k"
    using same by (simp_all add: w'_def put_queue_def)
  have held: "qheld w' = qheld w" "h \<notin> qheld w" using ty t(2) by (auto simp: qheld_def live_def)
  note fr = fresh_resources [OF queue_invD(1) [OF inv] aw e(1-3) ty t(2), of H_queue]
  have c: "capture_inv w'" "capture_refs w' = capture_refs w" "\<And>l. other_locks w l \<noteq> None \<Longrightarrow> other_locks w' l = other_locks w l"
    using fr(1,2,4) e(4) by auto
  have old: "\<And>k. k \<in> qheld w \<Longrightarrow> queues w' k = queues w k" by (rule e(6)) (use held(2) in auto)
  have "queue_inv w' \<and> client_refs w' = client_refs w"
    by (rule queue_inv_same [OF inv c(1,2) held(1) old]) (use e(5) c(3) in auto)
  then show ?thesis using run held(1) by (auto simp: w'_def)
qed

text \<open>What else the creation of queue \<open>h\<close> changes: nothing.\<close>

definition queue_added :: "ptr \<Rightarrow> 'a queue_world_scheme \<Rightarrow> 'a queue_world_scheme \<Rightarrow> bool" where
  "queue_added h w w' \<longleftrightarrow> h \<noteq> 0 \<and> htype w h = None \<and> htype w' = (htype w)(h \<mapsto> H_queue) \<and> (\<forall>k. k \<noteq> h \<longrightarrow> queues w' k = queues w k) \<and>
     other_locks w (q_lock (queues w' h)) = None \<and> (\<forall>x. other_locks w x \<noteq> None \<longrightarrow> other_locks w' x = other_locks w x) \<and>
     outside w' = outside w \<and> queue_world.more w' = queue_world.more w"

lemma queue_create_inv:
  assumes inv: "queue_inv w" and d: "d \<noteq> 0" "\<not> d > 10000" and run: "queue_create d n w = Some (r, h, w')"
  shows "queue_inv w' \<and> client_refs w' = client_refs w \<and>
    (if r = ZSA_RESULT_SUCCEEDED
     then queue_added h w w' \<and> qheld w' = insert h (qheld w) \<and> (\<exists>l c. queues w' h = queue_ready d n l c)
     else h = 0 \<and> qheld w' = qheld w)"
proof -
  note cinv = queue_invD(1) [OF inv]
  note ainv = image_invD(1) [OF capture_invD(1) [OF cinv]]
  obtain h0 w1 where h0: "handle_create H_queue w = (h0, w1)" by fastforce
  have h0nz: "h0 \<noteq> 0"
  proof
    assume "h0 = 0"
    then show False using run d h0 by (simp add: queue_create_def queue_t_create_def)
  qed
  obtain p w2 where m: "c_malloc (8 * unat (d + 1)) w1 = (p, w2)" by fastforce
  obtain l w3 where l: "Lock_Init w2 = (l, w3)" by fastforce
  obtain c w4 where c: "Condition_Init w3 = (c, w4)" by fastforce
  note hc = handle_create_other [OF capture_invD(1) [OF cinv] h0]
  have a1: "alloc_inv w1" using ainv h0 by (rule alloc_inv_handle_create)
  have a2: "alloc_inv w2" using a1 m by (rule alloc_inv_malloc)
  have a3: "alloc_inv w3" using a2 l by (rule alloc_inv_Lock_Init)
  have a4: "alloc_inv w4" using a3 c by (rule alloc_inv_Condition_Init)
  have f1: "htype w1 = (htype w)(h0 := Some H_queue)" "htype w h0 = None" "locks w1 = locks w" "conds w1 = conds w"
      "queues w1 = queues w" "captures w1 = captures w" "images w1 = images w" "blocks w1 = blocks w"
    using hc h0nz more_captures [OF hc(9)] more_queues [of w1 w] alloc_invD(5) [OF ainv] h0
    by (auto elim: handle_create_cases)
  have f2: "htype w2 = htype w1" "locks w2 = locks w1" "conds w2 = conds w1" "queues w2 = queues w1" "captures w2 = captures w1"
      "images w2 = images w1" "blocks w2 = blocks w1"
    using m by (auto simp: c_malloc_def os_request_def split: if_splits)
  have f3: "htype w3 = htype w2" "locks w3 = (if l = 0 then locks w2 else (locks w2)(l := Some False))" "locks w2 l = None"
      "conds w3 = conds w2" "queues w3 = queues w2" "captures w3 = captures w2" "images w3 = images w2" "blocks w3 = blocks w2"
    using alloc_invD(5) [OF a2] l alloc_invD(1) [OF a2] by (cases rule: Lock_Init_cases; auto simp: mem_ok_def)+
  have f4: "htype w4 = htype w3" "locks w4 = locks w3" "conds w4 = (if c = 0 then conds w3 else (conds w3)(c := True))"
      "\<not> conds w3 c" "queues w4 = queues w3" "captures w4 = captures w3" "images w4 = images w3" "blocks w4 = blocks w3"
    using alloc_invD(5) [OF a3] c alloc_invD(1) [OF a3] by (cases rule: Condition_Init_cases; auto simp: mem_ok_def)+
  note undo = queue_create_undo [OF inv, where h = h0 and others = "\<lambda>_ w. w"]
  note eq = queue_create_eq [OF d h0 h0nz m, of n]
  consider (no_array) "p = 0" | (no_lock) "p \<noteq> 0" "l = 0" | (made) "p \<noteq> 0" "l \<noteq> 0" by blast
  then show ?thesis
  proof cases
    case no_array
    from undo [OF a2, of "queue_named d n"] f1 f2 h0nz obtain u where
      "queue_destroy (\<lambda>_ w. w) h0 (put_queue h0 (queue_named d n) w2) = Some u"
      "queue_inv u" "client_refs u = client_refs w" "qheld u = qheld w" by (auto simp: queue_named_def queue_zero_def)
    then show ?thesis using run no_array eq by auto
  next
    case no_lock
    from undo [OF a3, of "queue_ready d n 0 0"] f1 f2 f3 h0nz no_lock obtain u where
      "queue_destroy (\<lambda>_ w. w) h0 (put_queue h0 (queue_ready d n 0 0) w3) = Some u"
      "queue_inv u" "client_refs u = client_refs w" "qheld u = qheld w" by (auto simp: queue_ready_def queue_named_def queue_zero_def)
    then show ?thesis using run no_lock eq l by auto
  next
    case made
    define v where "v = put_queue h0 (queue_ready d n l c) w4"
    have res: "r = ZSA_RESULT_SUCCEEDED" "h = h0" "w' = v" using run made eq l c by (auto simp: v_def)
    have av: "alloc_inv v" using a4 by (simp add: v_def put_queue_def alloc_inv_defs mem_ok_def)
    have ty: "htype v = (htype w)(h0 := Some H_queue)" using f1 f2 f3 f4 by (simp add: v_def)
    have e: "images v = images w" "blocks v = blocks w" "captures v = captures w" "locks v = (locks w)(l := Some False)"
        "conds v = (if c = 0 then conds w else (conds w)(c := True))" "\<And>k. k \<noteq> h0 \<Longrightarrow> queues v k = queues w k"
        "queues v h0 = queue_ready d n l c" "locks w l = None" "\<not> conds w c"
      using f1 f2 f3 f4 made by (simp_all add: v_def put_queue_def)
    have held: "qheld v = insert h0 (qheld w)" "h0 \<notin> qheld w" using ty f1(2) h0nz by (auto simp: qheld_def live_def)
    have lk: "locks w x \<noteq> None \<Longrightarrow> locks v x = locks w x" for x using e(4,8) by auto
    note fr = fresh_resources [OF queue_invD(1) [OF inv] av e(1-3) ty f1(2), of H_queue, OF _ _ _ lk]
    have fc: "capture_inv v" "capture_refs v = capture_refs w" "\<And>x. other_locks w x \<noteq> None \<Longrightarrow> other_locks v x = other_locks w x"
        "other_locks v l = Some False" "outside v = outside w"
      using fr(1-4) fr(6) [of l] e(4,8) by auto
    have qr: "q_lock (queue_ready d n l c) = l" "q_condition (queue_ready d n l c) = c" by (simp_all add: queue_ready_def)
    have old: "\<And>k. k \<in> qheld w \<Longrightarrow> queues v k = queues w k" by (rule e(6)) (use held(2) in auto)
    have "queue_inv v \<and> client_refs v = client_refs w"
    proof (rule queue_inv_add [OF inv fc(1,2) held old])
      show "queue_ok v (queues v h0)" using ring_ok_ready [OF d] fc(4) made(2) e(5) by (auto simp: queue_ok_def e(7) qr)
      show "other_locks w (q_lock (queues v h0)) = None" using e(8) by (simp add: e(7) qr other_locks_def)
    qed (use e fc(3) held(2) ring_ok_ready [OF d] qr in auto)
    moreover have "queue_world.more v = queue_world.more w"
      using h0 m l c by (auto simp: v_def put_queue_def handle_create_def Lock_Init_def Condition_Init_def c_malloc_def os_request_def split: if_splits)
    moreover have "other_locks w (q_lock (queues v h0)) = None" using e(8) by (simp add: e(7) qr other_locks_def)
    ultimately show ?thesis using res held(1) f1(2) h0nz e(6,7) ty fc(3,5) by (auto simp: queue_added_def)
  qed
qed

text \<open>With memory and the primitives at hand, the creation succeeds.\<close>

lemma queue_create_granted:
  assumes "os_grants w = (\<lambda>_. True)" and "0 < next_addr w" and d: "d \<noteq> 0" "\<not> d > 10000"
  shows "\<exists>h w'. queue_create d n w = Some (ZSA_RESULT_SUCCEEDED, h, w') \<and> os_grants w' = (\<lambda>_. True)"
proof -
  obtain h w1 where h: "handle_create H_queue w = (h, w1)" by fastforce
  obtain p w2 where m: "c_malloc (8 * unat (d + 1)) w1 = (p, w2)" by fastforce
  have nz: "h \<noteq> 0" "p \<noteq> 0" "os_grants w2 = (\<lambda>_. True)" "0 < next_addr w2"
    using h m assms(1,2) by (auto simp: handle_create_def c_malloc_def os_request_def)
  show ?thesis unfolding queue_create_eq [OF d h nz(1) m]
    using nz by (simp add: Lock_Init_def Condition_Init_def c_malloc_def os_request_def put_queue_def)
qed

subsection \<open>Properties\<close>

text \<open>
  An enabled, empty queue (handle 11) of two captures, and a capture (handle 9) to which a client holds
  three references. The capture holds the only reference to image 3.
\<close>

definition one_queue :: queue_world where
  "one_queue =
     \<lparr>next_addr = 200, os_grants = (\<lambda>_. True), os_requests = 0,
      htype = [3 \<mapsto> H_image, 9 \<mapsto> H_capture, 11 \<mapsto> H_queue], locks = [7 \<mapsto> False, 13 \<mapsto> False], conds = (\<lambda>c. c = 15),
      g_init_once = True, g_lock = RW_READERS 0, g_alloc = CB_default_alloc, g_free = CB_default_free,
      image_count = (\<lambda>_. 0)(ALLOCATION_SOURCE_USER := 1), g_allocator_sessions = 0,
      blocks = [100 \<mapsto> \<lparr>blk_size = 40,
                 blk_header = Some \<lparr>ac_source = ALLOCATION_SOURCE_USER, ac_free = CB_default_free, ac_free_context = 0\<rparr>\<rparr>],
      user_contexts = (\<lambda>_. 0), callbacks = [],
      images = (\<lambda>_. image_zero)(3 := fresh_image 8 132 7), clock_gettime = (\<lambda>_. None), clock_reads = 0,
      captures = (\<lambda>_. capture_zero)
        (9 := \<lparr>cap_ref_count = 3, cap_lock = RW_READERS 0, cap_image = (\<lambda>_. 0)(IMAGE_TYPE_COLOR := 3),
               cap_temperature_c = NAN\<rparr>),
      queues = (\<lambda>_. queue_zero)(11 := (queue_ready 2 None 13 15)\<lparr>q_enabled := True\<rparr>)\<rparr>"

lemma one_queue_held: "held one_queue = {3}" "cheld one_queue = {9}" "qheld one_queue = {11}"
  by (auto simp: held_def cheld_def qheld_def live_def one_queue_def fresh_image_def image_zero_def capture_zero_def split: if_splits)

lemma one_queue_context:
  "captures one_queue 9 = \<lparr>cap_ref_count = 3, cap_lock = RW_READERS 0, cap_image = (\<lambda>_. 0)(IMAGE_TYPE_COLOR := 3),
     cap_temperature_c = NAN\<rparr>"
  "queues one_queue 11 = (queue_ready 2 None 13 15)\<lparr>q_enabled := True\<rparr>"
  "images one_queue 3 = fresh_image 8 132 7"
  by (simp_all add: one_queue_def)

lemma one_queue_ring:
  "ring_ok (queues one_queue 11)" "contents (queues one_queue 11) = []" "capacity (queues one_queue 11) = 2"
  "q_enabled (queues one_queue 11)" "q_lock (queues one_queue 11) = 13" "q_condition (queues one_queue 11) = 15"
  "queue_pop_blocked (queues one_queue 11) = 0"
  using ring_ok_ready [of 2] by (simp_all add: one_queue_context(2) capacity_def) (simp_all add: queue_ready_def queue_named_def queue_zero_def)

lemma one_queue_refs: "client_refs one_queue 9 = 3"
  by (simp add: client_refs_def one_queue_held capture_refs_def one_queue_context(1) one_queue_ring(2) queued_def)

lemma one_queue_inv: "queue_inv one_queue"
proof -
  have "alloc_inv one_queue"
    by (auto simp: one_queue_def alloc_inv_defs mem_ok_def source_out_of_range_iff sizeof_allocation_context_t_def
        split: if_splits)
  moreover have "images_ok one_queue"
    unfolding images_ok_def one_queue_held
    by (auto simp: one_queue_def image_wf_def buffer_ok_def apart_def fresh_image_def owns_buffer_def image_zero_def)
  moreover have "0 \<le> outside one_queue i" for i
  proof (cases "i = 3")
    case True
    then show ?thesis by (simp add: outside_def image_refs_def slot_count_def one_queue_held one_queue_context
        fresh_image_def uses_def image_types_def)
  next
    case False
    then show ?thesis by (simp add: outside_def image_refs_def slot_count_def one_queue_held one_queue_context
        uses_def image_types_def)
  qed
  ultimately have "capture_inv one_queue"
    by (simp add: capture_inv_def image_inv_def one_queue_held one_queue_context)
  moreover have "other_locks one_queue 13 = Some False"
    by (simp add: other_locks_def one_queue_held one_queue_context fresh_image_def) (simp add: one_queue_def)
  moreover have "conds one_queue 15" by (simp add: one_queue_def)
  moreover have "0 \<le> client_refs one_queue c" for c
    by (simp add: client_refs_def one_queue_held capture_refs_def one_queue_context(1) one_queue_ring(2) queued_def)
  ultimately show ?thesis by (simp add: queue_inv_def one_queue_held queue_ok_def one_queue_ring)
qed

text \<open>Pushing several captures one after the other.\<close>

fun queue_pushes :: "ptr \<Rightarrow> ptr list \<Rightarrow> 'a queue_world_scheme \<Rightarrow> 'a queue_world_scheme option" where
  "queue_pushes h [] w = Some w"
| "queue_pushes h (c # cs) w = do { w \<leftarrow> queue_push h c w; queue_pushes h cs w }"

lemma queue_pushes_run:
  assumes "queue_inv w" and "h \<in> qheld w" and "q_enabled (queues w h)" and "\<forall>c \<in> set cs. c \<noteq> 0 \<and> 0 < client_refs w c"
  shows "\<exists>w'. queue_pushes h cs w = Some w' \<and> queue_inv w' \<and> client_refs w' = client_refs w \<and> h \<in> qheld w' \<and>
     contents (queues w' h) = foldl (push_newest (capacity (queues w h))) (contents (queues w h)) cs"
  using assms
proof (induction cs arbitrary: w)
  case (Cons c cs)
  let ?q = "queues w h"
  from queue_push_run [OF Cons.prems(1-3), of c None] Cons.prems(4) obtain w1 q1 where
    w1: "queue_push_w_dropped h c None w = Some (None, w1)" "queue_inv w1" "queues w1 = (queues w)(h := q1)"
      "contents q1 = push_newest (capacity ?q) (contents ?q) c" "same_setup q1 ?q" "qheld w1 = qheld w" "client_refs w1 = client_refs w"
    by (auto simp: push_newest_def)
  have "queue_push h c w = Some w1" using w1(1) by (simp add: queue_push_def)
  moreover have "capacity q1 = capacity ?q" using w1(5) by (rule same_setup_capacity)
  moreover have "q_enabled q1" using w1(5) Cons.prems(3) by (simp add: same_setup_def)
  ultimately show ?case using Cons.IH [OF w1(2)] Cons.prems(2,4) w1 by simp
qed simp

text \<open>
  (C6) A queue keeps the newest captures, in order: after any sequence of pushes into an enabled queue
  it contains the last \<open>capacity\<close> elements of what it contained followed by what was pushed. Every push
  returns, no reference of a client is taken or lost, and each capture that was dropped to make room has
  had the queue's reference released.
\<close>

theorem queue_keeps_newest:
  assumes "queue_inv w" and "h \<in> qheld w" and "q_enabled (queues w h)" and "\<forall>c \<in> set cs. c \<noteq> 0 \<and> 0 < client_refs w c"
  shows "\<exists>w'. queue_pushes h cs w = Some w' \<and> queue_inv w' \<and> client_refs w' = client_refs w \<and>
     contents (queues w' h) = drop (length (contents (queues w h) @ cs) - capacity (queues w h)) (contents (queues w h) @ cs)"
proof -
  have ok: "ring_ok (queues w h)" using queue_invD(4) [OF assms(1,2)] by (simp add: queue_ok_def)
  show ?thesis using queue_pushes_run [OF assms] foldl_push_newest [OF ring.bounded [OF ok] ring.cap_pos [OF ok], of cs] by auto
qed

theorem queue_keeps_newest_witness:
  "\<exists>w'. queue_pushes 11 [9, 9, 9] one_queue = Some w' \<and> contents (queues w' 11) = [9, 9] \<and> client_refs w' 9 = 3"
proof -
  have "11 \<in> qheld one_queue" "\<forall>c \<in> set [9, 9, 9]. c \<noteq> 0 \<and> 0 < client_refs one_queue c"
    by (simp_all add: one_queue_held one_queue_refs)
  from queue_keeps_newest [OF one_queue_inv this(1) one_queue_ring(4) this(2)] show ?thesis
    by (auto simp: one_queue_ring one_queue_refs simp del: length_contents)
qed

text \<open>
  (C7) A pop from an enabled queue that is not empty returns the oldest capture without waiting, removes
  exactly it, and hands the queue's reference to the caller; from an empty queue with no time to wait it
  returns a timeout and \<open>NULL\<close> and changes no reference.
\<close>

theorem queue_pop_takes_oldest:
  assumes "queue_inv w" and "h \<in> qheld w" and "q_enabled (queues w h)" and "contents (queues w h) \<noteq> [] \<or> ms = 0"
  shows "\<exists>w'. queue_pop others outcome h ms (Some v) w =
        Some (case contents (queues w h) of
                [] \<Rightarrow> (ZSA_WAIT_RESULT_TIMEOUT, Some 0, w')
              | c # _ \<Rightarrow> (ZSA_WAIT_RESULT_SUCCEEDED, Some c, w')) \<and>
      queue_inv w' \<and> contents (queues w' h) = tl (contents (queues w h)) \<and>
      (\<forall>k. k \<noteq> h \<longrightarrow> queues w' k = queues w k) \<and>
      client_refs w' = (\<lambda>k. client_refs w k + (if contents (queues w h) \<noteq> [] \<and> k = hd (contents (queues w h)) then 1 else 0))"
proof -
  have ok: "ring_ok (queues w h)" using queue_invD(4) [OF assms(1,2)] by (simp add: queue_ok_def)
  then have nz: "contents (queues w h) \<noteq> [] \<Longrightarrow> hd (contents (queues w h)) \<noteq> 0" by (rule ring_pop)
  from queue_pop_now [OF assms, of others outcome v] show ?thesis
  proof (elim exE conjE, intro exI conjI)
    fix w' q' assume r: "queue_pop others outcome h ms (Some v) w =
        Some (if (if contents (queues w h) = [] then 0 else hd (contents (queues w h))) = 0 then ZSA_WAIT_RESULT_TIMEOUT
              else ZSA_WAIT_RESULT_SUCCEEDED, Some (if contents (queues w h) = [] then 0 else hd (contents (queues w h))), w')"
      and q: "queues w' = (queues w)(h := q')" "contents q' = tl (contents (queues w h))" and inv: "queue_inv w'"
      and cl: "client_refs w' = (\<lambda>k. client_refs w k + popped (if contents (queues w h) = [] then 0 else hd (contents (queues w h))) k)"
    show "queue_pop others outcome h ms (Some v) w =
        Some (case contents (queues w h) of
                [] \<Rightarrow> (ZSA_WAIT_RESULT_TIMEOUT, Some 0, w')
              | c # _ \<Rightarrow> (ZSA_WAIT_RESULT_SUCCEEDED, Some c, w'))"
      using r nz by (auto split: list.splits)
    show "queue_inv w'" by (rule inv)
    show "contents (queues w' h) = tl (contents (queues w h))" "\<forall>k. k \<noteq> h \<longrightarrow> queues w' k = queues w k" using q by simp_all
    show "client_refs w' = (\<lambda>k. client_refs w k + (if contents (queues w h) \<noteq> [] \<and> k = hd (contents (queues w h)) then 1 else 0))"
      using cl nz by (auto simp: fun_eq_iff popped_def)
  qed
qed

theorem queue_pop_takes_oldest_witness:
  "\<exists>w'. queue_pop (\<lambda>v. v) COND_OK 11 0 (Some 0) one_queue = Some (ZSA_WAIT_RESULT_TIMEOUT, Some 0, w') \<and> client_refs w' 9 = 3"
proof -
  have "11 \<in> qheld one_queue" by (simp add: one_queue_held)
  from queue_pop_takes_oldest [OF one_queue_inv this one_queue_ring(4), of 0 "\<lambda>v. v" COND_OK 0] show ?thesis
    by (auto simp: one_queue_ring one_queue_refs)
qed

text \<open>What another thread does while a consumer waits: push a capture, and perhaps take it away again.\<close>

definition other_pushes :: "ptr \<Rightarrow> ptr \<Rightarrow> 'a queue_world_scheme \<Rightarrow> 'a queue_world_scheme" where
  "other_pushes h c v = case_option v id (queue_push h c v)"

definition other_pops :: "ptr \<Rightarrow> 'a queue_world_scheme \<Rightarrow> 'a queue_world_scheme" where
  "other_pops h v = (case queue_pop (\<lambda>v. v) COND_OK h 0 (Some 0) v of None \<Rightarrow> v | Some (_, _, v') \<Rightarrow> v')"

lemma other_pushes_run:
  assumes "queue_inv v" and "h \<in> qheld v" and "q_enabled (queues v h)" and "contents (queues v h) = []" and "c \<noteq> 0" "0 < client_refs v c"
  shows "queue_inv (other_pushes h c v) \<and> h \<in> qheld (other_pushes h c v) \<and> client_refs (other_pushes h c v) = client_refs v \<and>
    contents (queues (other_pushes h c v) h) = [c] \<and> same_setup (queues (other_pushes h c v) h) (queues v h)"
proof -
  have ok: "ring_ok (queues v h)" using queue_invD(4) [OF assms(1,2)] by (simp add: queue_ok_def)
  have nf: "length (contents (queues v h)) \<noteq> capacity (queues v h)" using ring.cap_pos [OF ok] assms(4) by simp
  from queue_push_run [OF assms(1-3,5,6), of None] nf assms(2,4) show ?thesis
    by (auto simp: other_pushes_def queue_push_def)
qed

lemma waiting_state:
  assumes "contents q = []" "q_enabled q"
  shows "contents (q\<lparr>queue_pop_blocked := n\<rparr>) = []" "q_enabled (q\<lparr>queue_pop_blocked := n\<rparr>)"
  using assms by simp_all



text \<open>
  (C27) A woken consumer tries the queue only once and insists on finding a capture. When another consumer
  takes the pushed capture before the woken one has the lock again, the assertion in \<open>queue_pop\<close> fails
  and the program stops.
\<close>

theorem queue_pop_stolen_wakeup_aborts:
  assumes "queue_inv w" and "h \<in> qheld w" and "q_enabled (queues w h)" and "contents (queues w h) = []"
    and "ms \<noteq> 0" and "q_condition (queues w h) \<noteq> 0" and "c \<noteq> 0" and "0 < client_refs w c"
  shows "queue_pop (\<lambda>v. other_pops h (other_pushes h c v)) COND_OK h ms (Some v) w = None"
proof -
  obtain wr where wr: "queue_inv wr" "qheld wr = qheld w" "client_refs wr = client_refs w"
    "queues wr = (queues w)(h := (queues w h)\<lparr>queue_pop_blocked := queue_pop_blocked (queues w h) + 1\<rparr>)"
    and none: "\<And>others wo. others wr = wo \<Longrightarrow> queue_inv wo \<Longrightarrow> h \<in> qheld wo \<Longrightarrow> q_lock (queues wo h) = q_lock (queues w h) \<Longrightarrow>
      contents (queues wo h) = [] \<Longrightarrow> q_enabled (queues wo h) \<Longrightarrow> queue_pop others COND_OK h ms (Some v) w = None"
    by (rule queue_pop_wait [OF assms(1-6), where v = v]) (rule that, assumption+)
  let ?wp = "other_pushes h c wr"
  have wp: "queue_inv ?wp" "h \<in> qheld ?wp" "contents (queues ?wp h) = [c]"
      "same_setup (queues ?wp h) ((queues w h)\<lparr>queue_pop_blocked := queue_pop_blocked (queues w h) + 1\<rparr>)"
    using other_pushes_run [OF wr(1), of h c] assms wr by simp_all
  then have "q_enabled (queues ?wp h)" using assms(3) by (simp add: same_setup_def)
  from queue_pop_now [OF wp(1,2) this, of 0 "\<lambda>v. v" COND_OK 0] wp(2,3) obtain q' where
    "queue_inv (other_pops h ?wp)" "queues (other_pops h ?wp) = (queues ?wp)(h := q')" "contents q' = []"
    "same_setup q' (queues ?wp h)" "h \<in> qheld (other_pops h ?wp)" by (auto simp: other_pops_def)
  moreover from this wp(4) have "q_lock q' = q_lock (queues w h)" "q_enabled q'"
    using assms(3) by (simp_all add: same_setup_def)
  ultimately show ?thesis by (intro none [of "\<lambda>v. other_pops h (other_pushes h c v)", OF refl]) simp_all
qed

theorem queue_pop_stolen_wakeup_aborts_witness:
  "queue_pop (\<lambda>v. other_pops 11 (other_pushes 11 9 v)) COND_OK 11 500 (Some 0) one_queue = None"
proof -
  have "11 \<in> qheld one_queue" by (simp add: one_queue_held)
  from queue_pop_stolen_wakeup_aborts [OF one_queue_inv this one_queue_ring(4,2), of 500 9 0] show ?thesis
    by (simp add: one_queue_ring one_queue_refs)
qed

text \<open>
  (C22) \<open>queue_disable\<close> returns, provided that in every round of its waiting loop some blocked consumer
  gets to leave. The queue is then empty and disabled with nobody blocked in it; when nobody was, the
  references of all clients are what they were before, so that exactly the queue's own ones are gone.
\<close>

theorem queue_disable_empties:
  assumes "queue_inv w" and "h \<in> qheld w" and "queue_pop_blocked (queues w h) \<noteq> 0 \<longrightarrow> drains others h"
  shows "\<exists>w'. queue_disable others h w = Some w' \<and> queue_inv w' \<and> contents (queues w' h) = [] \<and>
      \<not> q_enabled (queues w' h) \<and> queue_pop_blocked (queues w' h) = 0 \<and>
      (queue_pop_blocked (queues w h) = 0 \<longrightarrow> client_refs w' = client_refs w \<and> (\<forall>k. k \<noteq> h \<longrightarrow> queues w' k = queues w k))"
  using queue_disable_run [OF assms(1,2), of others] assms(3) by blast

lemma one_queue_blocked_inv: "queue_inv (put_queue 11 ((queues one_queue 11)\<lparr>queue_pop_blocked := 1\<rparr>) one_queue)"
proof -
  let ?q = "(queues one_queue 11)\<lparr>queue_pop_blocked := 1\<rparr>"
  have h: "11 \<in> qheld one_queue" by (simp add: one_queue_held)
  have ok: "ring_ok ?q" using one_queue_ring(1) by simp
  show ?thesis
    using queue_update [where \<delta> = "\<lambda>_. 0" and w' = "put_queue 11 ?q one_queue" and q = ?q, OF one_queue_inv h]
      queue_invD(1) [OF one_queue_inv] queue_invD(3) [OF one_queue_inv] ok by (simp_all add: queued_def)
qed

lemma leaving_drains:
  "drains (\<lambda>n v. put_queue h ((queues v h)\<lparr>queue_pop_blocked := queue_pop_blocked (queues v h) - 1\<rparr>) v) h"
  unfolding drains_def
proof (intro allI impI, elim conjE)
  fix v assume v: "queue_inv v" "h \<in> qheld v" "\<not> q_enabled (queues v h)" "queue_pop_blocked (queues v h) \<noteq> 0"
  let ?q = "(queues v h)\<lparr>queue_pop_blocked := queue_pop_blocked (queues v h) - 1\<rparr>"
  have ok: "ring_ok (queues v h)" using queue_invD(4) [OF v(1,2)] by (simp add: queue_ok_def)
  have "queue_inv (put_queue h ?q v)" "qheld (put_queue h ?q v) = qheld v"
    using queue_update [where \<delta> = "\<lambda>_. 0" and w' = "put_queue h ?q v" and q = ?q, OF v(1,2)]
      queue_invD(1) [OF v(1)] queue_invD(3) [OF v(1)] ok by (simp_all add: queued_def)
  moreover have "unat (queue_pop_blocked (queues v h) - 1) < unat (queue_pop_blocked (queues v h))"
    using v(4) by (simp add: unat_minus_one unat_gt_0)
  ultimately show "queue_inv (put_queue h ?q v) \<and> h \<in> qheld (put_queue h ?q v) \<and> \<not> q_enabled (queues (put_queue h ?q v) h) \<and>
     unat (queue_pop_blocked (queues (put_queue h ?q v) h)) < unat (queue_pop_blocked (queues v h))" using v(2,3) by simp
qed

theorem queue_disable_empties_witness:
  "\<exists>w'. queue_disable (\<lambda>n v. put_queue 11 ((queues v 11)\<lparr>queue_pop_blocked := queue_pop_blocked (queues v 11) - 1\<rparr>) v) 11
      (put_queue 11 ((queues one_queue 11)\<lparr>queue_pop_blocked := 1\<rparr>) one_queue) = Some w' \<and> \<not> q_enabled (queues w' 11)"
proof -
  let ?w = "put_queue 11 ((queues one_queue 11)\<lparr>queue_pop_blocked := 1\<rparr>) one_queue"
  have "11 \<in> qheld ?w" using one_queue_held(3) by (simp add: qheld_def)
  from queue_disable_empties [OF one_queue_blocked_inv this] leaving_drains [of 11] show ?thesis by blast
qed

end
