(* ===== verification/Capturesync.thy ===== *)
theory Capturesync
  imports Queue
begin

section \<open>Synchronisation of depth and color captures\<close>

text \<open>
  \<open>src/capturesync/capturesync.c\<close>: captures arrive from the two sensors, the oldest one of each is kept
  in a frame, the later ones in a queue per sensor, and pairs of captures whose timestamps lie in the
  same window are merged and published in the output queue. The state adds the contexts of the
  synchronisers.
\<close>

subsection \<open>State\<close>

text \<open>The accessor a frame reads its image with, \<open>pfn_get_typed_image_t\<close>: a null pointer until it is set.\<close>

datatype pfn_get_typed_image_t = PFN_NULL | PFN_capture_get_color_image | PFN_capture_get_ir_image

record frame_info_t =
  fi_get_typed_image :: pfn_get_typed_image_t
  fi_color_capture :: bool
  fi_queue :: ptr
  fi_capture :: ptr
  fi_image :: ptr
  fi_ts :: u64

record capturesync_context_t =
  cs_sync_queue :: ptr
  cs_color :: frame_info_t
  cs_depth_ir :: frame_info_t
  cs_fps_period :: u64
  cs_fps_1_quarter_period :: u64
  cs_sync_captures :: bool
  cs_synchronized_images_only :: bool
  cs_waiting_for_clean_depth_ts :: bool
  cs_depth_captures_dropped :: int
  cs_disable_sync :: bool
  cs_enable_ts_logging :: bool
  cs_depth_delay_off_color_usec :: int
  cs_running :: bool
  cs_lock :: ptr

definition frame_zero :: frame_info_t where
  "frame_zero = \<lparr>fi_get_typed_image = PFN_NULL, fi_color_capture = False, fi_queue = 0, fi_capture = 0,
     fi_image = 0, fi_ts = 0\<rparr>"

definition capturesync_zero :: capturesync_context_t where
  "capturesync_zero = \<lparr>cs_sync_queue = 0, cs_color = frame_zero, cs_depth_ir = frame_zero, cs_fps_period = 0,
     cs_fps_1_quarter_period = 0, cs_sync_captures = False, cs_synchronized_images_only = False,
     cs_waiting_for_clean_depth_ts = False, cs_depth_captures_dropped = 0, cs_disable_sync = False,
     cs_enable_ts_logging = False, cs_depth_delay_off_color_usec = 0, cs_running = False, cs_lock = 0\<rparr>"

record capturesync_world = queue_world +
  syncs :: "ptr \<Rightarrow> capturesync_context_t"

definition put_sync :: "ptr \<Rightarrow> capturesync_context_t \<Rightarrow> 'a capturesync_world_scheme \<Rightarrow> 'a capturesync_world_scheme" where
  "put_sync h s w = w\<lparr>syncs := (syncs w)(h := s)\<rparr>"

definition capturesync_t_create :: "'a capturesync_world_scheme \<Rightarrow> ptr \<times> 'a capturesync_world_scheme" where
  "capturesync_t_create w =
     (case handle_create H_capturesync w of (h, w) \<Rightarrow> (h, if h = 0 then w else put_sync h capturesync_zero w))"

abbreviation capturesync_t_get_context :: "ptr \<Rightarrow> 'a capturesync_world_scheme \<Rightarrow> capturesync_context_t option option" where
  "capturesync_t_get_context h w \<equiv> handle_get_context H_capturesync syncs h w"

text \<open>\<open>DEPTH_CAPTURE\<close> and \<open>COLOR_CAPTURE\<close>, and the frame of a sensor.\<close>

abbreviation (input) DEPTH_CAPTURE :: bool where "DEPTH_CAPTURE \<equiv> False"
abbreviation (input) COLOR_CAPTURE :: bool where "COLOR_CAPTURE \<equiv> True"

definition get_frame :: "bool \<Rightarrow> capturesync_context_t \<Rightarrow> frame_info_t" where
  "get_frame color_capture s = (if color_capture then cs_color s else cs_depth_ir s)"

definition set_frame :: "bool \<Rightarrow> frame_info_t \<Rightarrow> capturesync_context_t \<Rightarrow> capturesync_context_t" where
  "set_frame color_capture f s = (if color_capture then s\<lparr>cs_color := f\<rparr> else s\<lparr>cs_depth_ir := f\<rparr>)"

definition frame :: "bool \<Rightarrow> ptr \<Rightarrow> 'a capturesync_world_scheme \<Rightarrow> frame_info_t" where
  "frame color_capture h w = get_frame color_capture (syncs w h)"

definition put_frame :: "bool \<Rightarrow> ptr \<Rightarrow> frame_info_t \<Rightarrow> 'a capturesync_world_scheme \<Rightarrow> 'a capturesync_world_scheme" where
  "put_frame color_capture h f w = put_sync h (set_frame color_capture f (syncs w h)) w"

definition call_get_typed_image ::
  "pfn_get_typed_image_t \<Rightarrow> ptr \<Rightarrow> 'a capturesync_world_scheme \<Rightarrow> (ptr \<times> 'a capturesync_world_scheme) option" where
  "call_get_typed_image pfn capture w =
     (case pfn of
        PFN_NULL \<Rightarrow> None
      | PFN_capture_get_color_image \<Rightarrow> capture_get_color_image capture w
      | PFN_capture_get_ir_image \<Rightarrow> capture_get_ir_image capture w)"

subsection \<open>The window of matching timestamps\<close>

text \<open>
  The macros \<open>TS_SUBTRACT\<close> and \<open>TS_ADD\<close> are used with \<open>uint64_t\<close> and with \<open>int64_t\<close> operands. A signed
  result that does not fit in 64 bits is not defined.
\<close>

definition TS_SUBTRACT_u64 :: "u64 \<Rightarrow> u64 \<Rightarrow> u64" where
  "TS_SUBTRACT_u64 ts v = (if ts \<le> v then 0 else ts - v)"

definition is_int64 :: "int \<Rightarrow> bool" where
  "is_int64 n \<longleftrightarrow> - 9223372036854775808 \<le> n \<and> n \<le> 9223372036854775807"

definition TS_SUBTRACT_i64 :: "int \<Rightarrow> int \<Rightarrow> int option" where
  "TS_SUBTRACT_i64 ts v = (if ts \<le> v then Some 0 else if is_int64 (ts - v) then Some (ts - v) else None)"

definition TS_ADD_i64 :: "int \<Rightarrow> int \<Rightarrow> int option" where
  "TS_ADD_i64 ts v = (if \<not> is_int64 (ts + v) then None else if ts + v \<le> 0 then Some 0 else Some (ts + v))"

text \<open>\<open>begin_sync_window\<close> and \<open>end_sync_window\<close>; the reference timestamp is the depth one for a negative delay.\<close>

definition sync_window :: "capturesync_context_t \<Rightarrow> (u64 \<times> u64) option" where
  "sync_window s =
     (if cs_depth_delay_off_color_usec s < 0 then do {
        let b = TS_SUBTRACT_u64 (fi_ts (cs_depth_ir s)) (cs_fps_1_quarter_period s);
        b \<leftarrow> TS_SUBTRACT_i64 (sint b) (cs_depth_delay_off_color_usec s);
        let b = word_of_int b;
        Some (b, b + cs_fps_period s)
      } else do {
        let b = TS_SUBTRACT_u64 (fi_ts (cs_color s)) (cs_fps_1_quarter_period s);
        b \<leftarrow> TS_ADD_i64 (sint b) (cs_depth_delay_off_color_usec s);
        let b = word_of_int b;
        Some (b, b + cs_fps_period s)
      })"

datatype sync_decision = Drop_depth | Drop_color | Link

definition sync_decide :: "capturesync_context_t \<Rightarrow> sync_decision option" where
  "sync_decide s = do {
     (begin_sync_window, end_sync_window) \<leftarrow> sync_window s;
     Some (if cs_depth_delay_off_color_usec s < 0 then
             (if fi_ts (cs_color s) > end_sync_window then Drop_depth
              else if fi_ts (cs_color s) < begin_sync_window then Drop_color
              else Link)
           else
             (if fi_ts (cs_depth_ir s) > end_sync_window then Drop_color
              else if fi_ts (cs_depth_ir s) < begin_sync_window then Drop_depth
              else Link))
   }"

subsection \<open>Frames\<close>

text \<open>
  \<open>drop_sample\<close> releases what a frame holds and refills it from the queue of its sensor; the pop does
  not wait.
\<close>

definition drop_sample_refill ::
  "ptr \<Rightarrow> zsa_wait_result_t \<Rightarrow> bool \<Rightarrow> 'a capturesync_world_scheme \<Rightarrow> (zsa_wait_result_t \<times> 'a capturesync_world_scheme) option" where
  "drop_sample_refill h wresult color_capture w =
     (if wresult \<noteq> ZSA_WAIT_RESULT_FAILED then do {
        let f = frame color_capture h w;
        (wresult, out, w) \<leftarrow> queue_pop (\<lambda>w. w) COND_TIMEOUT (fi_queue f) 0 (Some (fi_capture f)) w;
        let w = put_frame color_capture h ((frame color_capture h w)\<lparr>fi_capture := case_option 0 id out\<rparr>) w;
        (wresult, w) \<leftarrow>
          (if wresult = ZSA_WAIT_RESULT_SUCCEEDED then do {
             let f = frame color_capture h w;
             (img, w) \<leftarrow> call_get_typed_image (fi_get_typed_image f) (fi_capture f) w;
             let w = put_frame color_capture h ((frame color_capture h w)\<lparr>fi_image := img\<rparr>) w;
             Some (if img = 0 then ZSA_WAIT_RESULT_FAILED else ZSA_WAIT_RESULT_SUCCEEDED, w)
           } else Some (wresult, w));
        if wresult = ZSA_WAIT_RESULT_SUCCEEDED then do {
          ts \<leftarrow> image_get_device_timestamp_usec (fi_image (frame color_capture h w)) w;
          Some (wresult, put_frame color_capture h ((frame color_capture h w)\<lparr>fi_ts := ts\<rparr>) w)
        } else Some (wresult, w)
      } else Some (wresult, w))"

definition drop_sample_release :: "ptr \<Rightarrow> bool \<Rightarrow> bool \<Rightarrow> 'a capturesync_world_scheme \<Rightarrow> 'a capturesync_world_scheme option" where
  "drop_sample_release h color_capture drop_into_queue w = do {
     w \<leftarrow> (if drop_into_queue \<and> \<not> cs_synchronized_images_only (syncs w h)
           then queue_push (cs_sync_queue (syncs w h)) (fi_capture (frame color_capture h w)) w
           else Some w);
     w \<leftarrow> capture_dec_ref (fi_capture (frame color_capture h w)) w;
     let w = put_frame color_capture h ((frame color_capture h w)\<lparr>fi_capture := 0\<rparr>) w;
     w \<leftarrow> image_dec_ref (fi_image (frame color_capture h w)) w;
     Some (put_frame color_capture h ((frame color_capture h w)\<lparr>fi_image := 0\<rparr>) w)
   }"

definition drop_sample ::
  "ptr \<Rightarrow> zsa_wait_result_t \<Rightarrow> bool \<Rightarrow> bool \<Rightarrow> 'a capturesync_world_scheme \<Rightarrow> (zsa_wait_result_t \<times> 'a capturesync_world_scheme) option" where
  "drop_sample h wresult color_capture drop_into_queue w = do {
     w \<leftarrow> drop_sample_release h color_capture drop_into_queue w;
     (wresult, w) \<leftarrow> drop_sample_refill h wresult color_capture w;
     if wresult \<noteq> ZSA_WAIT_RESULT_SUCCEEDED then do {
       let f = frame color_capture h w;
       w \<leftarrow> (if fi_capture f \<noteq> 0 then capture_dec_ref (fi_capture f) w else Some w);
       w \<leftarrow> (if fi_image f \<noteq> 0 then image_dec_ref (fi_image f) w else Some w);
       Some (wresult, put_frame color_capture h
         ((frame color_capture h w)\<lparr>fi_capture := 0, fi_image := 0, fi_ts := 0\<rparr>) w)
     } else Some (wresult, w)
   }"

definition replace_sample ::
  "ptr \<Rightarrow> ptr \<Rightarrow> bool \<Rightarrow> 'a capturesync_world_scheme \<Rightarrow> 'a capturesync_world_scheme option" where
  "replace_sample h capture_new color_capture w = do {
     w \<leftarrow> (if \<not> cs_synchronized_images_only (syncs w h)
           then queue_push (cs_sync_queue (syncs w h)) (fi_capture (frame color_capture h w)) w
           else Some w);
     w \<leftarrow> capture_dec_ref (fi_capture (frame color_capture h w)) w;
     w \<leftarrow> image_dec_ref (fi_image (frame color_capture h w)) w;
     if fi_capture (frame color_capture h w) \<noteq> 0 then do {
       let w = put_frame color_capture h ((frame color_capture h w)\<lparr>fi_capture := capture_new\<rparr>) w;
       (img, w) \<leftarrow> call_get_typed_image (fi_get_typed_image (frame color_capture h w)) capture_new w;
       let w = put_frame color_capture h ((frame color_capture h w)\<lparr>fi_image := img\<rparr>) w;
       ts \<leftarrow> image_get_device_timestamp_usec (fi_image (frame color_capture h w)) w;
       Some (put_frame color_capture h ((frame color_capture h w)\<lparr>fi_ts := ts\<rparr>) w)
     } else Some (put_frame color_capture h
         ((frame color_capture h w)\<lparr>fi_capture := 0, fi_image := 0, fi_ts := 0\<rparr>) w)
   }"

definition merge_captures ::
  "ptr \<Rightarrow> ptr \<Rightarrow> 'a capturesync_world_scheme \<Rightarrow> (ptr \<times> 'a capturesync_world_scheme) option" where
  "merge_captures depth color w = do {
     (img, w) \<leftarrow> capture_get_color_image color w;
     w \<leftarrow> capture_set_color_image depth img w;
     w \<leftarrow> image_dec_ref img w;
     Some (depth, w)
   }"

subsection \<open>Arriving captures\<close>

text \<open>
  One round of the loop of \<open>capturesync_add_capture\<close>, and the loop. Every branch of a round ends in
  \<open>continue\<close>; the branch that would set \<open>running\<close> to \<open>false\<close> comes after a test that always holds
  inside the loop.
\<close>

definition sync_round ::
  "ptr \<Rightarrow> zsa_wait_result_t \<Rightarrow> 'a capturesync_world_scheme \<Rightarrow> (zsa_wait_result_t \<times> 'a capturesync_world_scheme) option" where
  "sync_round h wresult w = do {
     d \<leftarrow> sync_decide (syncs w h);
     case d of
       Drop_depth \<Rightarrow> drop_sample h wresult DEPTH_CAPTURE True w
     | Drop_color \<Rightarrow> drop_sample h wresult COLOR_CAPTURE True w
     | Link \<Rightarrow>
         if fi_capture (cs_color (syncs w h)) \<noteq> 0 \<and> fi_capture (cs_depth_ir (syncs w h)) \<noteq> 0 then do {
           (merged, w) \<leftarrow> merge_captures (fi_capture (cs_depth_ir (syncs w h))) (fi_capture (cs_color (syncs w h))) w;
           w \<leftarrow> queue_push (cs_sync_queue (syncs w h)) merged w;
           (wresult, w) \<leftarrow> drop_sample h wresult COLOR_CAPTURE False w;
           drop_sample h wresult DEPTH_CAPTURE False w
         }
         else if wresult = ZSA_WAIT_RESULT_FAILED then Some (wresult, put_sync h ((syncs w h)\<lparr>cs_running := False\<rparr>) w)
         else Some (wresult, w)
   }"

definition sync_active :: "ptr \<Rightarrow> zsa_wait_result_t \<Rightarrow> 'a capturesync_world_scheme \<Rightarrow> bool" where
  "sync_active h wresult w \<longleftrightarrow> wresult = ZSA_WAIT_RESULT_SUCCEEDED \<and>
     fi_capture (cs_depth_ir (syncs w h)) \<noteq> 0 \<and> fi_capture (cs_color (syncs w h)) \<noteq> 0"

partial_function (option) sync_loop ::
  "ptr \<Rightarrow> zsa_wait_result_t \<Rightarrow> 'a capturesync_world_scheme \<Rightarrow> 'a capturesync_world_scheme option" where
  "sync_loop h wresult w =
     (if sync_active h wresult w then
        Option.bind (sync_round h wresult w) (\<lambda>r. sync_loop h (fst r) (snd r))
      else Some w)"

text \<open>The frame or the queue of the sensor takes the capture.\<close>

definition store_capture :: "ptr \<Rightarrow> bool \<Rightarrow> ptr \<Rightarrow> 'a capturesync_world_scheme \<Rightarrow> 'a capturesync_world_scheme option" where
  "store_capture h color_capture capture_raw w =
     (if fi_capture (frame color_capture h w) = 0 then
        (if fi_image (frame color_capture h w) \<noteq> 0 then None
         else do {
           (img, w) \<leftarrow> call_get_typed_image (fi_get_typed_image (frame color_capture h w)) capture_raw w;
           let w = put_frame color_capture h ((frame color_capture h w)\<lparr>fi_image := img\<rparr>) w;
           ts \<leftarrow> image_get_device_timestamp_usec (fi_image (frame color_capture h w)) w;
           let w = put_frame color_capture h ((frame color_capture h w)\<lparr>fi_ts := ts, fi_capture := capture_raw\<rparr>) w;
           capture_inc_ref capture_raw w
         })
      else do {
        (dropped, w) \<leftarrow> queue_push_w_dropped (fi_queue (frame color_capture h w)) capture_raw (Some 0) w;
        let dropped_sample = case_option 0 id dropped;
        if dropped_sample \<noteq> 0 then replace_sample h dropped_sample color_capture w else Some w
      })"

text \<open>
  The gate before synchronisation: captures are passed on unsynchronised, or a depth capture from before
  the reset of the timestamps is ignored. The result says whether to go on. A division by a period of 0
  is a fault.
\<close>

definition sync_gate ::
  "ptr \<Rightarrow> bool \<Rightarrow> ptr \<Rightarrow> u64 \<Rightarrow> 'a capturesync_world_scheme \<Rightarrow> (zsa_result_t \<times> 'a capturesync_world_scheme) option" where
  "sync_gate h color_capture capture_raw ts_raw_capture w =
     (let s = syncs w h in
      if \<not> cs_sync_captures s \<or> cs_disable_sync s then do {
        w \<leftarrow> queue_push (cs_sync_queue s) capture_raw w;
        Some (ZSA_RESULT_FAILED, w)
      }
      else if \<not> color_capture \<and> cs_waiting_for_clean_depth_ts s then
        (if cs_fps_period s = 0 then None
         else if ts_raw_capture div cs_fps_period s > 10
         then Some (ZSA_RESULT_FAILED, put_sync h (s\<lparr>cs_depth_captures_dropped := cs_depth_captures_dropped s + 1\<rparr>) w)
         else Some (ZSA_RESULT_SUCCEEDED, put_sync h (s\<lparr>cs_waiting_for_clean_depth_ts := False\<rparr>) w))
      else Some (ZSA_RESULT_SUCCEEDED, w))"

text \<open>The part of \<open>capturesync_add_capture\<close> under the lock.\<close>

definition add_locked ::
  "ptr \<Rightarrow> bool \<Rightarrow> ptr \<Rightarrow> u64 \<Rightarrow> 'a capturesync_world_scheme \<Rightarrow> 'a capturesync_world_scheme option" where
  "add_locked h color_capture capture_raw ts_raw_capture w = do {
     (_, w) \<leftarrow> Lock (cs_lock (syncs w h)) w;
     (result, w) \<leftarrow> (if cs_running (syncs w h) then sync_gate h color_capture capture_raw ts_raw_capture w
                     else Some (ZSA_RESULT_FAILED, w));
     w \<leftarrow> (if ZSA_SUCCEEDED result then do {
             w \<leftarrow> store_capture h color_capture capture_raw w;
             sync_loop h ZSA_WAIT_RESULT_SUCCEEDED w
           } else Some w);
     (_, w) \<leftarrow> Unlock (cs_lock (syncs w h)) w;
     Some w
   }"

text \<open>
  \<open>others q\<close> is what the other threads do while \<open>queue_stop\<close> waits for the consumers of queue \<open>q\<close>. The
  context is used on the error path without a check.
\<close>

definition capturesync_add_capture ::
  "(ptr \<Rightarrow> nat \<Rightarrow> 'a capturesync_world_scheme \<Rightarrow> 'a capturesync_world_scheme) \<Rightarrow> ptr \<Rightarrow> zsa_result_t \<Rightarrow> ptr \<Rightarrow> bool \<Rightarrow>
     'a capturesync_world_scheme \<Rightarrow> 'a capturesync_world_scheme option" where
  "capturesync_add_capture others capturesync_handle capture_result capture_raw color_capture w = do {
     sync \<leftarrow> (if capturesync_handle \<noteq> 0 then capturesync_t_get_context capturesync_handle w else Some None);
     let result = ZSA_RESULT_FROM_BOOL (sync \<noteq> None);
     if ZSA_FAILED capture_result then
       (case sync of
          None \<Rightarrow> None
        | Some s \<Rightarrow> do {
            w \<leftarrow> queue_stop (others (cs_sync_queue s)) (cs_sync_queue s) w;
            w \<leftarrow> queue_stop (others (fi_queue (cs_depth_ir s))) (fi_queue (cs_depth_ir s)) w;
            queue_stop (others (fi_queue (cs_color s))) (fi_queue (cs_color s)) w
          })
     else if ZSA_FAILED result \<or> capture_raw = 0 then Some w
     else do {
       (img, w) \<leftarrow> (if color_capture then capture_get_color_image capture_raw w else capture_get_ir_image capture_raw w);
       if img = 0 then Some w
       else do {
         ts_raw_capture \<leftarrow> image_get_device_timestamp_usec img w;
         w \<leftarrow> image_dec_ref img w;
         add_locked capturesync_handle color_capture capture_raw ts_raw_capture w
       }
     }
   }"

subsection \<open>Stopping and destroying\<close>

text \<open>The release of what a frame still holds, at the end of \<open>capturesync_stop\<close>.\<close>

definition release_frame :: "ptr \<Rightarrow> bool \<Rightarrow> 'a capturesync_world_scheme \<Rightarrow> 'a capturesync_world_scheme option" where
  "release_frame h color_capture w = do {
     w \<leftarrow> (if fi_capture (frame color_capture h w) \<noteq> 0 then do {
             w \<leftarrow> capture_dec_ref (fi_capture (frame color_capture h w)) w;
             Some (put_frame color_capture h ((frame color_capture h w)\<lparr>fi_capture := 0, fi_ts := UINT64_MAX\<rparr>) w)
           } else Some w);
     if fi_image (frame color_capture h w) \<noteq> 0 then do {
       w \<leftarrow> image_dec_ref (fi_image (frame color_capture h w)) w;
       Some (put_frame color_capture h ((frame color_capture h w)\<lparr>fi_image := 0\<rparr>) w)
     } else Some w
   }"

definition disable_if_any ::
  "(ptr \<Rightarrow> nat \<Rightarrow> 'a capturesync_world_scheme \<Rightarrow> 'a capturesync_world_scheme) \<Rightarrow> ptr \<Rightarrow> 'a capturesync_world_scheme \<Rightarrow> 'a capturesync_world_scheme option" where
  "disable_if_any others q w = (if q \<noteq> 0 then queue_disable (others q) q w else Some w)"

definition capturesync_stop ::
  "(ptr \<Rightarrow> nat \<Rightarrow> 'a capturesync_world_scheme \<Rightarrow> 'a capturesync_world_scheme) \<Rightarrow> ptr \<Rightarrow> 'a capturesync_world_scheme \<Rightarrow>
     'a capturesync_world_scheme option" where
  "capturesync_stop others h w = do {
     ctx \<leftarrow> capturesync_t_get_context h w;
     case ctx of
       None \<Rightarrow> Some w
     | Some _ \<Rightarrow> do {
         (_, w) \<leftarrow> Lock (cs_lock (syncs w h)) w;
         let w = put_sync h ((syncs w h)\<lparr>cs_running := False\<rparr>) w;
         w \<leftarrow> disable_if_any others (fi_queue (cs_color (syncs w h))) w;
         w \<leftarrow> disable_if_any others (fi_queue (cs_depth_ir (syncs w h))) w;
         w \<leftarrow> disable_if_any others (cs_sync_queue (syncs w h)) w;
         w \<leftarrow> release_frame h COLOR_CAPTURE w;
         w \<leftarrow> release_frame h DEPTH_CAPTURE w;
         (_, w) \<leftarrow> Unlock (cs_lock (syncs w h)) w;
         Some w
       }
   }"

definition destroy_if_any ::
  "(ptr \<Rightarrow> nat \<Rightarrow> 'a capturesync_world_scheme \<Rightarrow> 'a capturesync_world_scheme) \<Rightarrow> ptr \<Rightarrow> 'a capturesync_world_scheme \<Rightarrow> 'a capturesync_world_scheme option" where
  "destroy_if_any others q w = (if q \<noteq> 0 then queue_destroy (others q) q w else Some w)"

definition capturesync_destroy ::
  "(ptr \<Rightarrow> nat \<Rightarrow> 'a capturesync_world_scheme \<Rightarrow> 'a capturesync_world_scheme) \<Rightarrow> ptr \<Rightarrow> 'a capturesync_world_scheme \<Rightarrow>
     'a capturesync_world_scheme option" where
  "capturesync_destroy others h w = do {
     ctx \<leftarrow> capturesync_t_get_context h w;
     case ctx of
       None \<Rightarrow> Some w
     | Some _ \<Rightarrow> do {
         w \<leftarrow> capturesync_stop others h w;
         w \<leftarrow> destroy_if_any others (fi_queue (cs_depth_ir (syncs w h))) w;
         w \<leftarrow> destroy_if_any others (fi_queue (cs_color (syncs w h))) w;
         w \<leftarrow> destroy_if_any others (cs_sync_queue (syncs w h)) w;
         (_, w) \<leftarrow> Lock_Deinit (cs_lock (syncs w h)) w;
         handle_destroy h w
       }
   }"

subsection \<open>Creation, start and output\<close>

definition QUEUE_CALC_DEPTH :: "u32 \<Rightarrow> u32 \<Rightarrow> u32" where
  "QUEUE_CALC_DEPTH fps depth_msec = depth_msec div (1000000 div fps)"

definition QUEUE_DEFAULT_SIZE :: u32 where
  "QUEUE_DEFAULT_SIZE = QUEUE_CALC_DEPTH (the (zsa_convert_fps_to_uint ZSA_FRAMES_PER_SECOND_30)) 500000"

text \<open>The test on an environment variable: set, not empty and not starting with the digit 0.\<close>

definition env_flag :: "string option \<Rightarrow> bool" where
  "env_flag v = (case v of None \<Rightarrow> False | Some [] \<Rightarrow> False | Some (c # _) \<Rightarrow> c \<noteq> CHR ''0'')"

text \<open>
  A queue creation whose result goes into the context. \<open>queue_create\<close> writes its out parameter in every
  case, \<open>NULL\<close> on failure.
\<close>

definition create_queue_in ::
  "(ptr \<Rightarrow> capturesync_context_t \<Rightarrow> capturesync_context_t) \<Rightarrow> u32 \<Rightarrow> string \<Rightarrow> ptr \<Rightarrow> zsa_result_t \<Rightarrow>
     'a capturesync_world_scheme \<Rightarrow> (zsa_result_t \<times> 'a capturesync_world_scheme) option" where
  "create_queue_in upd depth name h result w =
     (if ZSA_SUCCEEDED result then do {
        (result, q, w) \<leftarrow> queue_create depth (Some name) w;
        Some (result, put_sync h (upd q (syncs w h)) w)
      } else Some (result, w))"

text \<open>
  \<open>getenv\<close> reads the environment. The context is written to before the check of its creation takes
  effect, so a failed creation of the handle is a fault.
\<close>

definition capturesync_create ::
  "(string \<Rightarrow> string option) \<Rightarrow> ptr option \<Rightarrow> 'a capturesync_world_scheme \<Rightarrow>
     (zsa_result_t \<times> ptr option \<times> 'a capturesync_world_scheme) option" where
  "capturesync_create getenv capturesync_handle w =
     (if capturesync_handle = None then Some (ZSA_RESULT_FAILED, None, w)
      else case capturesync_t_create w of (h, w) \<Rightarrow>
        if h = 0 then None
        else do {
          let w = put_sync h ((syncs w h)
                \<lparr>cs_color := (cs_color (syncs w h))\<lparr>fi_color_capture := True, fi_get_typed_image := PFN_capture_get_color_image\<rparr>,
                 cs_depth_ir := (cs_depth_ir (syncs w h))\<lparr>fi_color_capture := False, fi_get_typed_image := PFN_capture_get_ir_image\<rparr>\<rparr>) w;
          let (lock, w) = Lock_Init w;
          let w = put_sync h ((syncs w h)\<lparr>cs_lock := lock\<rparr>) w;
          let result = ZSA_RESULT_FROM_BOOL (lock \<noteq> 0);
          (result, w) \<leftarrow> create_queue_in (\<lambda>q s. s\<lparr>cs_depth_ir := (cs_depth_ir s)\<lparr>fi_queue := q\<rparr>\<rparr>)
                          QUEUE_DEFAULT_SIZE ''Queue_depth'' h result w;
          (result, w) \<leftarrow> create_queue_in (\<lambda>q s. s\<lparr>cs_color := (cs_color s)\<lparr>fi_queue := q\<rparr>\<rparr>)
                          QUEUE_DEFAULT_SIZE ''Queue_color'' h result w;
          (result, w) \<leftarrow> create_queue_in (\<lambda>q s. s\<lparr>cs_sync_queue := q\<rparr>)
                          (QUEUE_DEFAULT_SIZE div 2) ''Queue_capture'' h result w;
          w \<leftarrow> (if ZSA_SUCCEEDED result then do {
                  w \<leftarrow> queue_disable (\<lambda>_ w. w) (fi_queue (cs_color (syncs w h))) w;
                  w \<leftarrow> queue_disable (\<lambda>_ w. w) (fi_queue (cs_depth_ir (syncs w h))) w;
                  queue_disable (\<lambda>_ w. w) (cs_sync_queue (syncs w h)) w
                } else Some w);
          let w = (if env_flag (getenv ''ZSA_DISABLE_SYNCHRONIZATION'')
                   then put_sync h ((syncs w h)\<lparr>cs_disable_sync := True\<rparr>) w else w);
          let w = (if env_flag (getenv ''ZSA_ENABLE_TS_LOGGING'')
                   then put_sync h ((syncs w h)\<lparr>cs_enable_ts_logging := True\<rparr>) w else w);
          if ZSA_FAILED result then do {
            w \<leftarrow> capturesync_destroy (\<lambda>_ _ w. w) h w;
            Some (result, Some 0, w)
          } else Some (result, Some h, w)
        })"

text \<open>The \<open>assert\<close> inside \<open>zsa_convert_fps_to_uint\<close> stops the program for an unknown frame rate.\<close>

definition capturesync_start ::
  "ptr \<Rightarrow> zsa_device_configuration_t option \<Rightarrow> 'a capturesync_world_scheme \<Rightarrow> (zsa_result_t \<times> 'a capturesync_world_scheme) option" where
  "capturesync_start h config w = do {
     ctx \<leftarrow> capturesync_t_get_context h w;
     case ctx of
       None \<Rightarrow> Some (ZSA_RESULT_FAILED, w)
     | Some _ \<Rightarrow>
         (case config of
            None \<Rightarrow> Some (ZSA_RESULT_FAILED, w)
          | Some cfg \<Rightarrow> do {
              let w = put_sync h ((syncs w h)\<lparr>cs_waiting_for_clean_depth_ts := True,
                        cs_synchronized_images_only := cfg_synchronized_images_only cfg\<rparr>) w;
              camera_fps \<leftarrow> zsa_convert_fps_to_uint (cfg_camera_fps cfg);
              if \<not> camera_fps > 0 then Some (ZSA_RESULT_FAILED, w)
              else do {
                let period = (ucast (1000000 div camera_fps) :: u64);
                let w = put_sync h ((syncs w h)\<lparr>cs_fps_period := period, cs_fps_1_quarter_period := period div 4,
                          cs_depth_delay_off_color_usec := cfg_depth_delay_off_color_usec cfg,
                          cs_sync_captures := \<not> (cfg_color_resolution cfg = ZSA_COLOR_RESOLUTION_OFF \<or>
                                                cfg_depth_mode cfg = ZSA_DEPTH_MODE_OFF)\<rparr>) w;
                w \<leftarrow> queue_enable (fi_queue (cs_color (syncs w h))) w;
                w \<leftarrow> queue_enable (fi_queue (cs_depth_ir (syncs w h))) w;
                w \<leftarrow> queue_enable (cs_sync_queue (syncs w h)) w;
                Some (ZSA_RESULT_SUCCEEDED, put_sync h ((syncs w h)\<lparr>cs_running := True\<rparr>) w)
              }
            })
   }"

definition capturesync_get_capture ::
  "('a capturesync_world_scheme \<Rightarrow> 'a capturesync_world_scheme) \<Rightarrow> COND_RESULT \<Rightarrow> ptr \<Rightarrow> ptr option \<Rightarrow> int \<Rightarrow>
     'a capturesync_world_scheme \<Rightarrow> (zsa_wait_result_t \<times> ptr option \<times> 'a capturesync_world_scheme) option" where
  "capturesync_get_capture others outcome h capture timeout_in_ms w = do {
     ctx \<leftarrow> capturesync_t_get_context h w;
     case ctx of
       None \<Rightarrow> Some (ZSA_WAIT_RESULT_FAILED, capture, w)
     | Some _ \<Rightarrow>
         if capture = None then Some (ZSA_WAIT_RESULT_FAILED, capture, w)
         else do {
           (wresult, out, w) \<leftarrow> queue_pop others outcome (cs_sync_queue (syncs w h)) timeout_in_ms (Some 0) w;
           Some (wresult, if wresult = ZSA_WAIT_RESULT_SUCCEEDED then out else capture, w)
         }
   }"

subsection \<open>The store of synchronisers\<close>

interpretation sync_store: context_store H_capturesync syncs put_sync
  by unfold_locales (simp_all add: put_sync_def)

lemma frame_simps [simp]:
  "get_frame b (set_frame b f s) = f" "get_frame b (set_frame (\<not> b) f s) = get_frame b s"
  "set_frame b f (set_frame b g s) = set_frame b f s" "set_frame b (get_frame b s) s = s"
  "cs_sync_queue (set_frame b f s) = cs_sync_queue s" "cs_fps_period (set_frame b f s) = cs_fps_period s"
  "cs_fps_1_quarter_period (set_frame b f s) = cs_fps_1_quarter_period s"
  "cs_sync_captures (set_frame b f s) = cs_sync_captures s"
  "cs_synchronized_images_only (set_frame b f s) = cs_synchronized_images_only s"
  "cs_waiting_for_clean_depth_ts (set_frame b f s) = cs_waiting_for_clean_depth_ts s"
  "cs_depth_delay_off_color_usec (set_frame b f s) = cs_depth_delay_off_color_usec s"
  "cs_disable_sync (set_frame b f s) = cs_disable_sync s"
  "cs_running (set_frame b f s) = cs_running s" "cs_lock (set_frame b f s) = cs_lock s"
  by (simp_all add: get_frame_def set_frame_def)

lemma frame_sensors:
  "get_frame True s = cs_color s" "get_frame False s = cs_depth_ir s"
  "cs_color (set_frame b f s) = (if b then f else cs_color s)"
  "cs_depth_ir (set_frame b f s) = (if b then cs_depth_ir s else f)"
  by (simp_all add: get_frame_def set_frame_def)

lemma put_sync_simps [simp]:
  "syncs (put_sync h s w) = (syncs w)(h := s)" "queues (put_sync h s w) = queues w" "captures (put_sync h s w) = captures w"
  "images (put_sync h s w) = images w" "locks (put_sync h s w) = locks w" "htype (put_sync h s w) = htype w"
  "conds (put_sync h s w) = conds w" "live T (put_sync h s w) x = live T w x" "other_locks (put_sync h s w) = other_locks w"
  "qheld (put_sync h s w) = qheld w" "image_stamps (put_sync h s w) = image_stamps w"
  "other_handles S (put_sync h s w) = other_handles S w" "cheld (put_sync h s w) = cheld w"
  "capture_slots (put_sync h s w) = capture_slots w" "capturesync_world.more (put_sync h s w) = capturesync_world.more w"
  by (simp_all add: capture_slots_def put_sync_def live_def qheld_def other_locks_def held_def image_stamps_def other_handles_def cheld_def fun_eq_iff)

lemma put_sync_refs [simp]:
  "outside (put_sync h s w) = outside w" "client_refs (put_sync h s w) = client_refs w"
  "capture_refs (put_sync h s w) = capture_refs w" "image_refs (put_sync h s w) = image_refs w"
proof -
  have i: "image_refs (put_sync h s w) = image_refs w" by (simp add: image_refs_def held_def put_sync_def live_def fun_eq_iff)
  have c: "captures (put_sync h s w) = captures w" "\<And>x. live H_capture (put_sync h s w) x = live H_capture w x" by simp_all
  note f = capture_frame [OF c]
  show "image_refs (put_sync h s w) = image_refs w" by (rule i)
  show "outside (put_sync h s w) = outside w" by (simp add: outside_def fun_eq_iff i f(2))
  show "capture_refs (put_sync h s w) = capture_refs w" by (rule f(3))
  then show "client_refs (put_sync h s w) = client_refs w" by (simp add: client_refs_def fun_eq_iff)
qed

lemma put_sync_inv [simp]: "queue_inv (put_sync h s w) = queue_inv w"
proof -
  have "image_inv (put_sync h s w) = image_inv w"
    by (simp add: put_sync_def image_inv_def alloc_inv_defs mem_ok_def images_ok_def held_def image_wf_def buffer_ok_def live_def)
  then have "capture_inv (put_sync h s w) = capture_inv w" by (simp add: capture_inv_def)
  then show ?thesis by (simp add: queue_inv_def queue_ok_def)
qed

lemma put_frame_simps [simp]:
  "syncs (put_frame b h f w) = (syncs w)(h := set_frame b f (syncs w h))" "frame b h (put_frame b h g w) = g"
  by (simp_all add: put_frame_def frame_def)

lemma more_syncs: "queue_world.more w = queue_world.more w' \<Longrightarrow> syncs w = syncs w' \<and> capturesync_world.more w = capturesync_world.more w'"
  by (cases w; cases w') simp

subsection \<open>What the layers below leave alone\<close>

definition level :: "'a capturesync_world_scheme \<Rightarrow> 'a capturesync_world_scheme \<Rightarrow> bool" where
  "level w w' \<longleftrightarrow> queue_inv w' \<and> qheld w' = qheld w \<and> other_locks w' = other_locks w \<and>
     other_handles {H_image, H_capture} w' = other_handles {H_image, H_capture} w \<and> image_stamps w' = image_stamps w \<and>
     (\<forall>k. same_setup (queues w' k) (queues w k)) \<and> capturesync_world.more w' = capturesync_world.more w"

definition calm :: "'a capturesync_world_scheme \<Rightarrow> 'a capturesync_world_scheme \<Rightarrow> bool" where
  "calm w w' \<longleftrightarrow> level w w' \<and> syncs w' = syncs w \<and> capture_slots w' = capture_slots w"

lemma level_refl [simp]: "level w w = queue_inv w" "calm w w = queue_inv w"
  by (auto simp: level_def calm_def same_setup_def)

lemma level_trans: "level w w1 \<Longrightarrow> level w1 w2 \<Longrightarrow> level w w2"
  by (auto simp: level_def same_setup_def)

lemma level_put [simp]: "level w (put_sync h s w') = level w w'" "level (put_sync h s w) w' = level w w'"
  by (simp_all add: level_def)

lemma level_put_frame [simp]: "level w (put_frame b h f w') = level w w'" "level (put_frame b h f w) w' = level w w'"
  by (simp_all add: put_frame_def)

lemma levelD:
  "level w w' \<Longrightarrow> queue_inv w'" "level w w' \<Longrightarrow> qheld w' = qheld w" "level w w' \<Longrightarrow> other_locks w' = other_locks w"
  "level w w' \<Longrightarrow> image_stamps w' = image_stamps w" "level w w' \<Longrightarrow> same_setup (queues w' k) (queues w k)"
  "level w w' \<Longrightarrow> live H_capturesync w' x = live H_capturesync w x"
  using live_other [of "{H_image, H_capture}" w' w H_capturesync x] by (simp_all add: level_def)

lemma calmD: "calm w w' \<Longrightarrow> level w w'" "calm w w' \<Longrightarrow> syncs w' = syncs w" "calm w w' \<Longrightarrow> queue_inv w'"
  "calm w w' \<Longrightarrow> capture_slots w' = capture_slots w"
  by (auto simp: calm_def dest: levelD)

lemma calm_rest:
  assumes "queue_inv w'" and "queue_rest w' = queue_rest w" and "other_locks w' = other_locks w"
    and "queues w' = (queues w)(h := q)" and "same_setup q (queues w h)"
  shows "calm w w'" and "outside w' = outside w"
proof -
  have r: "queue_world.more w' = queue_world.more w" "capture_slots w' = capture_slots w" "image_stamps w' = image_stamps w" "outside w' = outside w"
      "other_handles {H_image, H_capture} w' = other_handles {H_image, H_capture} w"
    using assms(2) by (simp_all add: queue_rest_def)
  then show "outside w' = outside w" by simp
  show "calm w w'"
    using assms r more_syncs [OF r(1)] queue_rest_qheld [OF assms(2)] by (simp add: calm_def level_def same_setup_def)
qed

lemma calm_env:
  assumes "queue_inv w'" and "capture_env w' = capture_env w" and "capture_slots w' = capture_slots w"
  shows "calm w w'" and "queues w' = queues w"
  using assms(1,3) capture_env_queues [OF assms(2)] more_syncs [OF capture_env_queues(5) [OF assms(2)]]
  by (simp_all add: calm_def level_def same_setup_def)

lemma sync_push:
  assumes inv: "queue_inv w" and q: "q \<in> qheld w" and c: "c \<noteq> 0" "0 < client_refs w c"
  shows "\<exists>w'. queue_push q c w = Some w' \<and> calm w w' \<and> client_refs w' = client_refs w \<and> outside w' = outside w \<and>
     (\<forall>k. k \<noteq> q \<longrightarrow> queues w' k = queues w k) \<and>
     contents (queues w' q) = (if q_enabled (queues w q) then push_newest (capacity (queues w q)) (contents (queues w q)) c
                               else contents (queues w q))"
proof (cases "q_enabled (queues w q)")
  case True
  from queue_push_run [OF inv q True c, of None] obtain w' q' where w': "queue_push_w_dropped q c None w = Some (None, w')"
    "queue_inv w'" "queues w' = (queues w)(q := q')" "same_setup q' (queues w q)" "queue_rest w' = queue_rest w"
    "other_locks w' = other_locks w" "client_refs w' = client_refs w"
    "contents q' = (if length (contents (queues w q)) = capacity (queues w q) then tl (contents (queues w q)) else contents (queues w q)) @ [c]"
    by auto
  then show ?thesis using True calm_rest [OF w'(2,5,6,3,4)] by (simp add: queue_push_def push_newest_def)
next
  case False
  then show ?thesis using queue_push_disabled [OF inv q False, of c None] inv by (simp add: queue_push_def)
qed

lemma sync_pop:
  assumes inv: "queue_inv w" and q: "q \<in> qheld w"
  defines "c \<equiv> (if q_enabled (queues w q) \<and> contents (queues w q) \<noteq> [] then hd (contents (queues w q)) else 0)"
  shows "\<exists>w' r. queue_pop others outcome q 0 (Some v) w = Some (r, Some c, w') \<and> calm w w' \<and>
     client_refs w' = (\<lambda>k. client_refs w k + popped c k) \<and> outside w' = outside w \<and>
     (\<forall>k. k \<noteq> q \<longrightarrow> queues w' k = queues w k) \<and> (r = ZSA_WAIT_RESULT_SUCCEEDED \<longleftrightarrow> c \<noteq> 0) \<and>
     (r = ZSA_WAIT_RESULT_FAILED \<longleftrightarrow> \<not> q_enabled (queues w q)) \<and>
     contents (queues w' q) = (if q_enabled (queues w q) then tl (contents (queues w q)) else contents (queues w q))"
proof (cases "q_enabled (queues w q)")
  case True
  have ok: "ring_ok (queues w q)" using queue_invD(4) [OF inv q] by (simp add: queue_ok_def)
  from queue_pop_now [OF inv q True, of 0 others outcome v] True obtain w' q' where
    w': "queue_pop others outcome q 0 (Some v) w = Some (if c = 0 then ZSA_WAIT_RESULT_TIMEOUT else ZSA_WAIT_RESULT_SUCCEEDED, Some c, w')"
     "queue_inv w'" "queues w' = (queues w)(q := q')" "contents q' = tl (contents (queues w q))"
     "same_setup q' (queues w q)" "queue_rest w' = queue_rest w" "other_locks w' = other_locks w"
     "client_refs w' = (\<lambda>k. client_refs w k + popped c k)" unfolding c_def by (auto split: if_splits)
  then show ?thesis using True calm_rest [OF w'(2,6,7,3,5)] by auto
next
  case False
  then have c: "c = 0" by (simp add: c_def)
  from queue_pop_disabled [OF inv q False, of others outcome 0 v] obtain w' q' where
    w': "queue_pop others outcome q 0 (Some v) w = Some (ZSA_WAIT_RESULT_FAILED, Some 0, w')"
     "queue_inv w'" "queues w' = (queues w)(q := q')" "contents q' = contents (queues w q)"
     "same_setup q' (queues w q)" "queue_rest w' = queue_rest w" "other_locks w' = other_locks w" "client_refs w' = client_refs w"
    by blast
  then show ?thesis using False calm_rest [OF w'(2,6,7,3,5)] by (auto simp: c popped_def)
qed

lemma sync_capture_ref:
  assumes inv: "queue_inv w" and c: "0 < client_refs w c"
  shows "\<exists>w'. capture_dec_ref c w = Some w' \<and> calm w w' \<and> client_refs w' = (client_refs w)(c := client_refs w c - 1) \<and>
      outside w' = outside w \<and> queues w' = queues w"
    and "\<exists>w'. capture_inc_ref c w = Some w' \<and> calm w w' \<and> client_refs w' = (client_refs w)(c := client_refs w c + 1) \<and>
      outside w' = outside w \<and> queues w' = queues w"
  using client_rc.dec_held [OF inv c] client_rc.inc_held [OF inv c]
  by (auto simp: capture_rest_def dest: calm_env)

lemma image_dec_ref_NULL [simp]: "image_dec_ref 0 w = Some w"
  by (simp add: image_dec_ref_def)

lemma sync_image_release:
  assumes inv: "queue_inv w" and i: "popped i i \<le> outside w i"
  shows "\<exists>w'. image_dec_ref i w = Some w' \<and> calm w w' \<and> client_refs w' = client_refs w \<and>
      outside w' = (\<lambda>k. outside w k - popped i k) \<and> queues w' = queues w"
proof (cases "i = 0")
  case True
  then show ?thesis using inv by (auto simp: popped_def)
next
  case False
  then have "0 < outside w i" using i by (simp add: popped_def)
  from outside_rc.dec_held [OF inv this] obtain w' where w': "image_dec_ref i w = Some w'" "queue_inv w'"
    "outside w' = (outside w)(i := outside w i - 1)" "image_client_rest w' = image_client_rest w" by blast
  have env: "capture_env w' = capture_env w" "client_refs w' = client_refs w" "capture_slots w' = capture_slots w"
    using w'(4) by (simp_all add: image_client_rest_def capture_slots_def fun_eq_iff)
  show ?thesis using w' False env(2) calm_env [OF w'(2) env(1,3)] by (auto simp: popped_def fun_eq_iff)
qed

text \<open>The accessor of a sensor, and the slot it reads.\<close>

definition sensor_pfn :: "bool \<Rightarrow> pfn_get_typed_image_t" where
  "sensor_pfn b = (if b then PFN_capture_get_color_image else PFN_capture_get_ir_image)"

definition sensor_slot :: "bool \<Rightarrow> image_type_index_t" where
  "sensor_slot b = (if b then IMAGE_TYPE_COLOR else IMAGE_TYPE_IR)"

lemma call_sensor: "call_get_typed_image (sensor_pfn b) c w = capture_get_image (sensor_slot b) c w"
  by (simp add: call_get_typed_image_def sensor_pfn_def sensor_slot_def capture_get_color_image_def capture_get_ir_image_def)

lemma sync_get_image:
  fixes w :: "'a capturesync_world_scheme" and x :: image_type_index_t
  assumes inv: "queue_inv w" and c: "c \<in> cheld w"
  defines "i \<equiv> capture_slots w c x"
  shows "\<exists>w'. capture_get_image x c w = Some (i, w') \<and> calm w w' \<and> client_refs w' = client_refs w \<and>
     outside w' = (\<lambda>k. outside w k + popped i k) \<and> queues w' = queues w"
proof -
  from client_get_image [OF inv c, of x] obtain w' where w': "capture_get_image x c w = Some (i, w')" "queue_inv w'"
    "image_client_rest w' = image_client_rest w" "outside w' = (\<lambda>k. outside w k + popped i k)"
    unfolding i_def capture_slots_def by blast
  have env: "capture_env w' = capture_env w" "client_refs w' = client_refs w" "capture_slots w' = capture_slots w"
    using w'(3) by (simp_all add: image_client_rest_def capture_slots_def fun_eq_iff)
  show ?thesis using w' env(2) calm_env [OF w'(2) env(1,3)] by simp
qed

lemma sync_stamp:
  assumes inv: "queue_inv w" and i: "popped i i \<le> outside w i"
  shows "image_get_device_timestamp_usec i w = Some (if i = 0 then 0 else image_stamps w i)"
proof (cases "i = 0")
  case False
  then have "0 < image_refs w i" using i outside_pos(2) [OF inv, of i] by (simp add: popped_def)
  then have "live H_image w i" by (simp add: image_refs_pos held_live)
  then show ?thesis using False by (simp add: image_get_device_timestamp_usec_def image_read_def image_stamps_def)
qed (simp add: image_get_device_timestamp_usec_def image_read_def)

subsection \<open>Invariant\<close>

text \<open>
  Each frame holds one reference to its capture and one to the image in it; \<open>user_refs\<close> and
  \<open>user_images\<close> are the references beyond those of the frames of synchroniser \<open>h\<close>. The three queues are
  its own, and a frame without a capture holds no image.
\<close>

definition user_refs :: "ptr \<Rightarrow> 'a capturesync_world_scheme \<Rightarrow> ptr \<Rightarrow> int" where
  "user_refs h w c = client_refs w c - popped (fi_capture (frame True h w)) c - popped (fi_capture (frame False h w)) c"

definition user_images :: "ptr \<Rightarrow> 'a capturesync_world_scheme \<Rightarrow> ptr \<Rightarrow> int" where
  "user_images h w i = outside w i - popped (fi_image (frame True h w)) i - popped (fi_image (frame False h w)) i"

definition frame_ok :: "bool \<Rightarrow> frame_info_t \<Rightarrow> bool" where
  "frame_ok b f \<longleftrightarrow> fi_get_typed_image f = sensor_pfn b \<and> (fi_capture f = 0 \<longrightarrow> fi_image f = 0)"

definition sync_queues :: "capturesync_context_t \<Rightarrow> ptr list" where
  "sync_queues s = [cs_sync_queue s, fi_queue (cs_color s), fi_queue (cs_depth_ir s)]"

definition sync_core :: "ptr \<Rightarrow> 'a capturesync_world_scheme \<Rightarrow> bool" where
  "sync_core h w \<longleftrightarrow> queue_inv w \<and> live H_capturesync w h \<and> set (sync_queues (syncs w h)) \<subseteq> qheld w \<and>
     distinct (sync_queues (syncs w h)) \<and> (\<forall>b. frame_ok b (frame b h w)) \<and>
     (\<forall>c. 0 \<le> user_refs h w c) \<and> (\<forall>i. 0 \<le> user_images h w i)"

lemma sync_coreD:
  assumes "sync_core h w"
  shows "queue_inv w" and "live H_capturesync w h" and "cs_sync_queue (syncs w h) \<in> qheld w" and "fi_queue (frame b h w) \<in> qheld w"
    and "fi_queue (frame b h w) \<noteq> cs_sync_queue (syncs w h)" and "fi_queue (frame b h w) \<noteq> fi_queue (frame (\<not> b) h w)"
    and "fi_get_typed_image (frame b h w) = sensor_pfn b" and "fi_capture (frame b h w) = 0 \<Longrightarrow> fi_image (frame b h w) = 0"
    and "0 \<le> user_refs h w c" and "0 \<le> user_images h w i"
  using assms by (auto simp: sync_core_def sync_queues_def frame_def get_frame_def frame_ok_def)

lemma popped_nonneg: "0 \<le> popped c k"
  by (simp add: popped_def)

lemma popped_NULL [simp]: "popped 0 k = 0" "popped k 0 = 0"
  by (auto simp: popped_def)

lemma frame_covered:
  assumes "sync_core h w"
  shows "popped (fi_capture (frame b h w)) c \<le> client_refs w c" and "popped (fi_image (frame b h w)) i \<le> outside w i"
    and "fi_capture (frame b h w) \<noteq> 0 \<Longrightarrow> 0 < client_refs w (fi_capture (frame b h w))"
proof -
  show "popped (fi_capture (frame b h w)) c \<le> client_refs w c" for c
    using sync_coreD(9) [OF assms, of c] popped_nonneg [of "fi_capture (frame (\<not> b) h w)" c]
    by (cases b) (simp_all add: user_refs_def)
  from this [of "fi_capture (frame b h w)"]
  show "fi_capture (frame b h w) \<noteq> 0 \<Longrightarrow> 0 < client_refs w (fi_capture (frame b h w))" by (simp add: popped_def)
  show "popped (fi_image (frame b h w)) i \<le> outside w i"
    using sync_coreD(10) [OF assms, of i] popped_nonneg [of "fi_image (frame (\<not> b) h w)" i]
    by (cases b) (simp_all add: user_images_def)
qed

text \<open>
  A step that replaces what frame \<open>b\<close> holds, moving references accordingly, keeps the invariant and the
  references of the users. \<open>moved b h f w w'\<close>: the frame of \<open>w\<close> has become \<open>f\<close> in \<open>w'\<close>.
\<close>

definition moved :: "bool \<Rightarrow> ptr \<Rightarrow> frame_info_t \<Rightarrow> 'a capturesync_world_scheme \<Rightarrow> 'a capturesync_world_scheme \<Rightarrow> bool" where
  "moved b h f w w' \<longleftrightarrow> level w w' \<and> capture_slots w' = capture_slots w \<and> syncs w' = (syncs w)(h := set_frame b f (syncs w h)) \<and>
     client_refs w' = (\<lambda>c. client_refs w c - popped (fi_capture (frame b h w)) c + popped (fi_capture f) c) \<and>
     outside w' = (\<lambda>i. outside w i - popped (fi_image (frame b h w)) i + popped (fi_image f) i)"

lemma moved_core:
  assumes core: "sync_core h w" and m: "moved b h f w w'" and f: "frame_ok b f" "fi_queue f = fi_queue (frame b h w)"
  shows "sync_core h w'" and "user_refs h w' = user_refs h w" and "user_images h w' = user_images h w"
proof -
  have s: "syncs w' h = set_frame b f (syncs w h)" using m by (simp add: moved_def)
  show u: "user_refs h w' = user_refs h w" "user_images h w' = user_images h w"
    using m by (cases b; simp add: user_refs_def user_images_def moved_def frame_def frame_sensors fun_eq_iff)+
  have l: "live H_capturesync w' h"
    using m sync_coreD(2) [OF core] by (auto simp: moved_def levelD(6))
  have q: "sync_queues (syncs w' h) = sync_queues (syncs w h)"
    using f(2) by (cases b) (simp_all add: s sync_queues_def frame_sensors frame_def)
  have allf: "frame_ok c (frame c h w)" for c using core by (simp add: sync_core_def)
  have fr: "frame_ok c (frame c h w')" for c
    using allf [of True] allf [of False] f(1) by (cases b; cases c) (simp_all add: frame_def s frame_sensors)
  show "sync_core h w'"
    using core m l fr u q levelD(1,2) [of w w'] unfolding sync_core_def by (simp add: moved_def)
qed

subsection \<open>Frames and queues\<close>

lemma frame_calm: "calm w w' \<Longrightarrow> frame b h w' = frame b h w"
  by (simp add: frame_def calmD(2))

lemma put_frame_frame:
  "client_refs (put_frame b h f w) = client_refs w" "outside (put_frame b h f w) = outside w"
  "queues (put_frame b h f w) = queues w" "queue_inv (put_frame b h f w) = queue_inv w" "cheld (put_frame b h f w) = cheld w"
  "captures (put_frame b h f w) = captures w" "qheld (put_frame b h f w) = qheld w" "capture_slots (put_frame b h f w) = capture_slots w" "image_stamps (put_frame b h f w) = image_stamps w"
  by (simp_all add: put_frame_def)

lemma put_frame_twice [simp]: "put_frame b h f (put_frame b h g w) = put_frame b h f w"
  by (simp add: put_frame_def put_sync_def)

text \<open>What a publication in the output queue makes of its contents.\<close>

definition published :: "bool \<Rightarrow> queue_context_t \<Rightarrow> ptr \<Rightarrow> ptr list" where
  "published yes q c = (if yes \<and> q_enabled q then push_newest (capacity q) (contents q) c else contents q)"

lemma publish_run:
  assumes core: "sync_core h w" and c: "fi_capture (frame b h w) \<noteq> 0"
  defines "q \<equiv> cs_sync_queue (syncs w h)"
  shows "\<exists>w'. (if yes then queue_push q (fi_capture (frame b h w)) w else Some w) = Some w' \<and> calm w w' \<and>
     client_refs w' = client_refs w \<and> outside w' = outside w \<and> (\<forall>k. k \<noteq> q \<longrightarrow> queues w' k = queues w k) \<and>
     contents (queues w' q) = published yes (queues w q) (fi_capture (frame b h w))"
proof (cases yes)
  case True
  then show ?thesis
    using sync_push [OF sync_coreD(1,3) [OF core] c frame_covered(3) [OF core c]] by (simp add: q_def published_def)
qed (use sync_coreD(1) [OF core] in \<open>simp add: published_def\<close>)

lemma drop_sample_release_run:
  assumes core: "sync_core h w" and c: "fi_capture (frame b h w) \<noteq> 0"
  defines "f \<equiv> frame b h w" and "q \<equiv> cs_sync_queue (syncs w h)"
  shows "\<exists>w'. drop_sample_release h b d w = Some w' \<and> moved b h (f\<lparr>fi_capture := 0, fi_image := 0\<rparr>) w w' \<and>
     (\<forall>k. k \<noteq> q \<longrightarrow> queues w' k = queues w k) \<and>
     contents (queues w' q) = published (d \<and> \<not> cs_synchronized_images_only (syncs w h)) (queues w q) (fi_capture f)"
proof -
  let ?yes = "d \<and> \<not> cs_synchronized_images_only (syncs w h)"
  from publish_run [OF core c, of ?yes] obtain w1 where
    w1: "(if ?yes then queue_push q (fi_capture f) w else Some w) = Some w1" "calm w w1" "client_refs w1 = client_refs w"
      "outside w1 = outside w" "\<forall>k. k \<noteq> q \<longrightarrow> queues w1 k = queues w k"
      "contents (queues w1 q) = published ?yes (queues w q) (fi_capture f)" unfolding f_def q_def by blast
  have "0 < client_refs w1 (fi_capture f)" using frame_covered(3) [OF core c] by (simp add: w1(3) f_def)
  from sync_capture_ref(1) [OF calmD(3) [OF w1(2)] this] obtain w2 where
    w2: "capture_dec_ref (fi_capture f) w1 = Some w2" "calm w1 w2"
      "client_refs w2 = (client_refs w)(fi_capture f := client_refs w (fi_capture f) - 1)" "outside w2 = outside w"
      "queues w2 = queues w1" by (auto simp: w1(3,4))
  let ?w3 = "put_frame b h (f\<lparr>fi_capture := 0\<rparr>) w2"
  have inv3: "queue_inv ?w3" and "popped (fi_image f) (fi_image f) \<le> outside ?w3 (fi_image f)"
    using calmD(3) [OF w2(2)] frame_covered(2) [OF core] by (simp_all add: put_frame_frame w2(4) f_def)
  from sync_image_release [OF this] obtain w4 where
    w4: "image_dec_ref (fi_image f) ?w3 = Some w4" "calm ?w3 w4" "client_refs w4 = client_refs w2"
      "outside w4 = (\<lambda>k. outside w k - popped (fi_image f) k)" "queues w4 = queues w1"
    by (auto simp: put_frame_frame w2(4,5))
  let ?f = "f\<lparr>fi_capture := 0, fi_image := 0\<rparr>"
  let ?w5 = "put_frame b h ?f w4"
  have fr: "frame b h w1 = f" "frame b h w2 = f" "frame b h w4 = f\<lparr>fi_capture := 0\<rparr>"
    using frame_calm [OF w1(2)] frame_calm [OF w2(2)] frame_calm [OF w4(2)] by (simp_all add: f_def)
  have run: "drop_sample_release h b d w = Some ?w5"
    unfolding drop_sample_release_def f_def [symmetric] q_def [symmetric] w1(1) using w2(1) w4(1) fr by simp
  have "level w ?w5"
    using level_trans [OF calmD(1) [OF w1(2)] level_trans [OF calmD(1) [OF w2(2)]]] calmD(1) [OF w4(2)] by simp
  moreover have "syncs ?w5 = (syncs w)(h := set_frame b ?f (syncs w h))"
    using calmD(2) [OF w1(2)] calmD(2) [OF w2(2)] calmD(2) [OF w4(2)] by simp
  ultimately have "moved b h ?f w ?w5"
    using c calmD(4) [OF w1(2)] calmD(4) [OF w2(2)] calmD(4) [OF w4(2)]
    by (auto simp: moved_def put_frame_frame w4(3,4) w2(3) f_def [symmetric] popped_def fun_eq_iff)
  then show ?thesis using run w1(5,6) by (intro exI [of _ ?w5]) (simp add: put_frame_frame w4(5))
qed

lemma level_step: "level w w1 \<Longrightarrow> calm w1 w2 \<Longrightarrow> level w w2"
  by (blast intro: level_trans calmD)

lemma drop_sample_refill_run:
  fixes r :: zsa_wait_result_t and w :: "'a capturesync_world_scheme"
  assumes core: "sync_core h w" and e: "fi_capture (frame b h w) = 0"
  defines "f \<equiv> frame b h w" and "q \<equiv> fi_queue (frame b h w)"
  defines "c \<equiv> (if r \<noteq> ZSA_WAIT_RESULT_FAILED \<and> q_enabled (queues w q) \<and> contents (queues w q) \<noteq> [] then hd (contents (queues w q)) else 0)"
  shows "\<exists>r' w' i t. drop_sample_refill h r b w = Some (r', w') \<and> moved b h (f\<lparr>fi_capture := c, fi_image := i, fi_ts := t\<rparr>) w w' \<and>
     (\<forall>k. k \<noteq> q \<longrightarrow> queues w' k = queues w k) \<and>
     contents (queues w' q) = (if r \<noteq> ZSA_WAIT_RESULT_FAILED \<and> q_enabled (queues w q) then tl (contents (queues w q)) else contents (queues w q)) \<and>
     (r' = ZSA_WAIT_RESULT_SUCCEEDED \<longleftrightarrow> c \<noteq> 0 \<and> i \<noteq> 0) \<and>
     (r' = ZSA_WAIT_RESULT_FAILED \<longrightarrow> r = ZSA_WAIT_RESULT_FAILED \<or> \<not> q_enabled (queues w q) \<or> c \<noteq> 0) \<and> (if c = 0 then i = 0 else i = capture_slots w c (sensor_slot b)) \<and> (i \<noteq> 0 \<longrightarrow> t = image_stamps w i)"
proof (cases "r = ZSA_WAIT_RESULT_FAILED")
  case True
  have "f\<lparr>fi_capture := 0, fi_image := 0, fi_ts := fi_ts f\<rparr> = f"
    using e sync_coreD(8) [OF core e] by (cases f) (simp add: f_def)
  then have "moved b h (f\<lparr>fi_capture := 0, fi_image := 0, fi_ts := fi_ts f\<rparr>) w w"
    using sync_coreD(1) [OF core] by (simp add: moved_def f_def frame_def)
  then show ?thesis using True by (intro exI [of _ r] exI [of _ w] exI [of _ 0] exI [of _ "fi_ts f"])
      (simp add: drop_sample_refill_def c_def)
next
  case False
  have i0: "fi_image f = 0" unfolding f_def by (rule sync_coreD(8) [OF core e])
  have e': "fi_capture f = 0" using e by (simp add: f_def)
  from sync_pop [OF sync_coreD(1) [OF core] sync_coreD(4) [OF core], of "\<lambda>w. w" COND_TIMEOUT b 0] False obtain w1 r1 where
    w1: "queue_pop (\<lambda>w. w) COND_TIMEOUT q 0 (Some 0) w = Some (r1, Some c, w1)" "calm w w1"
     "client_refs w1 = (\<lambda>k. client_refs w k + popped c k)" "outside w1 = outside w"
     "\<forall>k. k \<noteq> q \<longrightarrow> queues w1 k = queues w k" "r1 = ZSA_WAIT_RESULT_SUCCEEDED \<longleftrightarrow> c \<noteq> 0"
     "r1 = ZSA_WAIT_RESULT_FAILED \<longleftrightarrow> \<not> q_enabled (queues w q)"
     "contents (queues w1 q) = (if q_enabled (queues w q) then tl (contents (queues w q)) else contents (queues w q))"
    unfolding q_def c_def by auto
  have fr1: "frame b h w1 = f" using frame_calm [OF w1(2)] by (simp add: f_def)
  let ?w2 = "put_frame b h (f\<lparr>fi_capture := c\<rparr>) w1"
  have lev1: "level w w1" by (rule calmD(1) [OF w1(2)])
  have pop: "queue_pop (\<lambda>w. w) COND_TIMEOUT (fi_queue f) 0 (Some (fi_capture f)) w = Some (r1, Some c, w1)"
    using w1(1) e' by (simp add: q_def f_def)
  show ?thesis
  proof (cases "c = 0")
    case True
    have same: "f\<lparr>fi_capture := 0, fi_image := 0, fi_ts := fi_ts f\<rparr> = f\<lparr>fi_capture := 0\<rparr>" using i0 by (cases f) simp
    have "drop_sample_refill h r b w = Some (r1, ?w2)"
      unfolding drop_sample_refill_def f_def [symmetric] using False pop w1(6) True fr1 by simp
    moreover have "moved b h (f\<lparr>fi_capture := c\<rparr>) w ?w2"
      using lev1 w1(3,4) True calmD(2,4) [OF w1(2)] e' i0
      by (simp add: moved_def put_frame_frame f_def [symmetric])
    ultimately show ?thesis using True False w1(5-8) same
      by (intro exI [of _ r1] exI [of _ ?w2] exI [of _ 0] exI [of _ "fi_ts f"]) (simp add: put_frame_frame)
  next
    case cap: False
    have inv2: "queue_inv ?w2" using calmD(3) [OF w1(2)] by (simp add: put_frame_frame)
    have pos2: "0 < client_refs ?w2 c"
      using queue_invD(3) [OF sync_coreD(1) [OF core], of c] cap by (simp add: put_frame_frame w1(3) popped_def)
    define i where "i = capture_slots w c (sensor_slot b)"
    from sync_get_image [OF inv2 client_refs_pos(2) [OF inv2 pos2], of "sensor_slot b"] calmD(4) [OF w1(2)] obtain w3 where
      w3: "capture_get_image (sensor_slot b) c ?w2 = Some (i, w3)" "calm ?w2 w3" "client_refs w3 = client_refs w1"
        "outside w3 = (\<lambda>k. outside w k + popped i k)" "queues w3 = queues w1"
      by (auto simp: put_frame_frame w1(4) i_def)
    let ?f = "f\<lparr>fi_capture := c, fi_image := i\<rparr>"
    let ?w4 = "put_frame b h ?f w3"
    have fr3: "frame b h w3 = f\<lparr>fi_capture := c\<rparr>" using frame_calm [OF w3(2), of b h] by simp
    have pfn: "fi_get_typed_image f = sensor_pfn b" unfolding f_def by (rule sync_coreD(7) [OF core])
    have lev3: "level w w3" using level_step [OF _ w3(2)] lev1 by simp
    have "popped i i \<le> outside ?w4 i"
      using capture_invD(3) [OF queue_invD(1) [OF sync_coreD(1) [OF core]], of i] by (simp add: put_frame_frame w3(4))
    from sync_stamp [OF _ this] levelD(1,4) [OF lev3]
    have st: "image_get_device_timestamp_usec i ?w4 = Some (if i = 0 then 0 else image_stamps w i)"
      by (simp add: put_frame_frame)
    define t where "t = (if i = 0 then fi_ts f else image_stamps w i)"
    define r2 where "r2 = (if i = 0 then ZSA_WAIT_RESULT_FAILED else ZSA_WAIT_RESULT_SUCCEEDED)"
    let ?w5 = "put_frame b h (?f\<lparr>fi_ts := t\<rparr>) w3"
    have id: "i = 0 \<Longrightarrow> f\<lparr>fi_capture := c, fi_image := 0, fi_ts := fi_ts f\<rparr> = f\<lparr>fi_capture := c, fi_image := 0\<rparr>" by (cases f) simp
    have run: "drop_sample_refill h r b w = Some (r2, ?w5)"
      unfolding drop_sample_refill_def f_def [symmetric]
      using False pop w1(6) cap fr1 w3(1) fr3 st id by (simp add: pfn call_sensor r2_def t_def)
    have "moved b h (?f\<lparr>fi_ts := t\<rparr>) w ?w5"
      using lev3 w3(3,4) w1(3) e' i0 calmD(2,4) [OF w3(2)] calmD(2,4) [OF w1(2)]
      by (simp add: moved_def put_frame_frame f_def [symmetric])
    then show ?thesis using run w1(5,8) False cap w3(5)
      by (intro exI [of _ r2] exI [of _ ?w5] exI [of _ i] exI [of _ t]) (simp add: put_frame_frame r2_def t_def i_def)
  qed
qed

lemma moved_trans:
  assumes "moved b h f w w1" and "moved b h g w1 w2"
  shows "moved b h g w w2"
  using assms level_trans [of w w1 w2] by (simp add: moved_def frame_def)

lemma drop_sample_run:
  fixes r :: zsa_wait_result_t and w :: "'a capturesync_world_scheme"
  assumes core: "sync_core h w" and c: "fi_capture (frame b h w) \<noteq> 0"
  defines "f \<equiv> frame b h w" and "q \<equiv> fi_queue (frame b h w)" and "sq \<equiv> cs_sync_queue (syncs w h)"
  shows "\<exists>r' w' g. drop_sample h r b d w = Some (r', w') \<and> moved b h g w w' \<and> frame_ok b g \<and> fi_queue g = q \<and>
     (\<forall>k. k \<noteq> q \<longrightarrow> k \<noteq> sq \<longrightarrow> queues w' k = queues w k) \<and>
     contents (queues w' sq) = published (d \<and> \<not> cs_synchronized_images_only (syncs w h)) (queues w sq) (fi_capture f) \<and>
     contents (queues w' q) = (if r \<noteq> ZSA_WAIT_RESULT_FAILED \<and> q_enabled (queues w q) then tl (contents (queues w q)) else contents (queues w q)) \<and>
     (if r' = ZSA_WAIT_RESULT_SUCCEEDED
      then r \<noteq> ZSA_WAIT_RESULT_FAILED \<and> q_enabled (queues w q) \<and> contents (queues w q) \<noteq> [] \<and> fi_capture g = hd (contents (queues w q)) \<and>
        fi_capture g \<noteq> 0 \<and> fi_image g \<noteq> 0 \<and> fi_image g = capture_slots w (fi_capture g) (sensor_slot b) \<and> fi_ts g = image_stamps w (fi_image g)
      else g = f\<lparr>fi_capture := 0, fi_image := 0, fi_ts := 0\<rparr>) \<and>
     (r \<noteq> ZSA_WAIT_RESULT_FAILED \<longrightarrow> q_enabled (queues w q) \<longrightarrow>
        contents (queues w q) = [] \<and> r' = ZSA_WAIT_RESULT_TIMEOUT \<or>
        contents (queues w q) \<noteq> [] \<and> (capture_slots w (hd (contents (queues w q))) (sensor_slot b) \<noteq> 0 \<longrightarrow> r' = ZSA_WAIT_RESULT_SUCCEEDED))"
proof -
  let ?f1 = "f\<lparr>fi_capture := 0, fi_image := 0\<rparr>"
  from drop_sample_release_run [OF core c, of d] obtain w1 where
    w1: "drop_sample_release h b d w = Some w1" "moved b h ?f1 w w1" "\<forall>k. k \<noteq> sq \<longrightarrow> queues w1 k = queues w k"
      "contents (queues w1 sq) = published (d \<and> \<not> cs_synchronized_images_only (syncs w h)) (queues w sq) (fi_capture f)"
    unfolding f_def sq_def by blast
  have ok1: "frame_ok b ?f1" using core by (simp add: sync_core_def frame_ok_def f_def)
  have core1: "sync_core h w1" by (rule moved_core(1) [OF core w1(2) ok1]) (simp add: f_def)
  have fr1: "frame b h w1 = ?f1" using w1(2) by (simp add: moved_def frame_def)
  have qsq: "q \<noteq> sq" unfolding q_def sq_def by (rule sync_coreD(5) [OF core])
  have q1: "queues w1 q = queues w q" using w1(3) qsq by simp
  have st1: "image_stamps w1 = image_stamps w" using w1(2) levelD(4) by (auto simp: moved_def)
  have sl1: "capture_slots w1 = capture_slots w" using w1(2) by (simp add: moved_def)
  define n where "n = (if r \<noteq> ZSA_WAIT_RESULT_FAILED \<and> q_enabled (queues w q) \<and> contents (queues w q) \<noteq> [] then hd (contents (queues w q)) else 0)"
  have f1q: "fi_queue ?f1 = q" by (simp add: q_def f_def)
  have "fi_capture (frame b h w1) = 0" by (simp add: fr1)
  from drop_sample_refill_run [OF core1 this, of r, unfolded fr1 f1q q1 st1 sl1 n_def [symmetric]] obtain r' w2 i t where
    w2: "drop_sample_refill h r b w1 = Some (r', w2)" "moved b h (?f1\<lparr>fi_capture := n, fi_image := i, fi_ts := t\<rparr>) w1 w2"
     "\<forall>k. k \<noteq> q \<longrightarrow> queues w2 k = queues w1 k"
     "contents (queues w2 q) = (if r \<noteq> ZSA_WAIT_RESULT_FAILED \<and> q_enabled (queues w q) then tl (contents (queues w q)) else contents (queues w q))"
     "r' = ZSA_WAIT_RESULT_SUCCEEDED \<longleftrightarrow> n \<noteq> 0 \<and> i \<noteq> 0"
     "r' = ZSA_WAIT_RESULT_FAILED \<longrightarrow> r = ZSA_WAIT_RESULT_FAILED \<or> \<not> q_enabled (queues w q) \<or> n \<noteq> 0" "if n = 0 then i = 0 else i = capture_slots w n (sensor_slot b)" "i \<noteq> 0 \<longrightarrow> t = image_stamps w i"
    by blast
  let ?g = "f\<lparr>fi_capture := n, fi_image := i, fi_ts := t\<rparr>"
  have m2: "moved b h ?g w1 w2" using w2(2) by simp
  have m: "moved b h ?g w w2" by (rule moved_trans [OF w1(2) m2])
  have okg: "frame_ok b ?g" using ok1 w2(7) by (simp add: frame_ok_def split: if_splits)
  have fr2: "frame b h w2 = ?g" using m by (simp add: moved_def frame_def)
  have rest: "\<forall>k. k \<noteq> q \<longrightarrow> k \<noteq> sq \<longrightarrow> queues w2 k = queues w k"
    "contents (queues w2 sq) = published (d \<and> \<not> cs_synchronized_images_only (syncs w h)) (queues w sq) (fi_capture f)"
    using w2(3) w1(3,4) qsq by simp_all
  have ring: "ring_ok (queues w q)" using queue_invD(4) [OF sync_coreD(1,4) [OF core]] by (simp add: queue_ok_def q_def)
  have fin: "r \<noteq> ZSA_WAIT_RESULT_FAILED \<longrightarrow> q_enabled (queues w q) \<longrightarrow>
        contents (queues w q) = [] \<and> r' = ZSA_WAIT_RESULT_TIMEOUT \<or>
        contents (queues w q) \<noteq> [] \<and> (capture_slots w (hd (contents (queues w q))) (sensor_slot b) \<noteq> 0 \<longrightarrow> r' = ZSA_WAIT_RESULT_SUCCEEDED)"
    using w2(5-7) ring_pop(4) [OF ring] by (cases r') (auto simp: n_def split: if_splits)
  show ?thesis
  proof (cases "r' = ZSA_WAIT_RESULT_SUCCEEDED")
    case True
    then have n: "n \<noteq> 0" "i \<noteq> 0" using w2(5) by simp_all
    have "drop_sample h r b d w = Some (r', w2)" using w1(1) w2(1) True by (simp add: drop_sample_def)
    then show ?thesis using m okg rest w2(4,7,8) n True fin
      by (intro exI [of _ r'] exI [of _ w2] exI [of _ ?g]) (auto simp: q_def f_def n_def split: if_splits)
  next
    case False
    then have i: "i = 0" using w2(5,7) by (auto split: if_splits)
    have core2: "sync_core h w2" by (rule moved_core(1) [OF core m okg]) (simp add: f_def)
    have cov: "n \<noteq> 0 \<Longrightarrow> 0 < client_refs w2 n" using frame_covered(3) [OF core2, of b] fr2 by simp
    have "\<exists>w3. (if n \<noteq> 0 then capture_dec_ref n w2 else Some w2) = Some w3 \<and> calm w2 w3 \<and>
        client_refs w3 = (\<lambda>k. client_refs w2 k - popped n k) \<and> outside w3 = outside w2 \<and> queues w3 = queues w2"
    proof (cases "n = 0")
      case False
      then show ?thesis using sync_capture_ref(1) [OF sync_coreD(1) [OF core2] cov] by (auto simp: popped_def fun_eq_iff)
    qed (use sync_coreD(1) [OF core2] in simp)
    then obtain w3 where w3: "(if n \<noteq> 0 then capture_dec_ref n w2 else Some w2) = Some w3" "calm w2 w3"
        "client_refs w3 = (\<lambda>k. client_refs w2 k - popped n k)" "outside w3 = outside w2" "queues w3 = queues w2" by blast
    let ?z = "f\<lparr>fi_capture := 0, fi_image := 0, fi_ts := 0\<rparr>"
    have fr3: "frame b h w3 = ?g" using frame_calm [OF w3(2)] fr2 by simp
    have "drop_sample h r b d w = Some (r', put_frame b h ?z w3)"
      using w1(1) w2(1) False w3(1) i by (cases "n = 0") (simp_all add: drop_sample_def fr2 fr3)
    moreover have "moved b h ?z w2 (put_frame b h ?z w3)"
      using w3(3,4) calmD(1,2,4) [OF w3(2)] i by (simp add: moved_def put_frame_frame fr2)
    then have "moved b h ?z w (put_frame b h ?z w3)" by (rule moved_trans [OF m])
    moreover have "frame_ok b ?z" using ok1 by (simp add: frame_ok_def)
    ultimately show ?thesis using rest w2(4) False fin
      by (intro exI [of _ r'] exI [of _ "put_frame b h ?z w3"] exI [of _ ?z]) (simp add: put_frame_frame w3(5) q_def f_def)
  qed
qed

subsection \<open>Steps of the synchroniser\<close>

text \<open>
  \<open>stable h w w'\<close>: the synchroniser keeps its invariant, its settings and its queues, and no reference
  of its users is gained or lost.
\<close>

definition refilled :: "capturesync_context_t \<Rightarrow> capturesync_context_t \<Rightarrow> bool" where
  "refilled s s' \<longleftrightarrow> s' = s\<lparr>cs_color := cs_color s', cs_depth_ir := cs_depth_ir s'\<rparr> \<and>
     fi_queue (cs_color s') = fi_queue (cs_color s) \<and> fi_queue (cs_depth_ir s') = fi_queue (cs_depth_ir s)"

definition stable :: "ptr \<Rightarrow> 'a capturesync_world_scheme \<Rightarrow> 'a capturesync_world_scheme \<Rightarrow> bool" where
  "stable h w w' \<longleftrightarrow> level w w' \<and> sync_core h w' \<and> user_refs h w' = user_refs h w \<and> user_images h w' = user_images h w \<and>
     refilled (syncs w h) (syncs w' h) \<and> (\<forall>k. k \<noteq> h \<longrightarrow> syncs w' k = syncs w k)"

lemma refilled_refl [simp]: "refilled s s"
  by (simp add: refilled_def)

lemma refilled_trans:
  assumes "refilled s t" and "refilled t u"
  shows "refilled s u"
proof -
  have t: "t = s\<lparr>cs_color := cs_color t, cs_depth_ir := cs_depth_ir t\<rparr>" and u: "u = t\<lparr>cs_color := cs_color u, cs_depth_ir := cs_depth_ir u\<rparr>"
    using assms by (simp_all add: refilled_def)
  have "u = s\<lparr>cs_color := cs_color u, cs_depth_ir := cs_depth_ir u\<rparr>" by (subst u, subst t) simp
  then show ?thesis using assms by (simp add: refilled_def)
qed

lemma refilled_settings:
  assumes "refilled s s'"
  shows "cs_sync_queue s' = cs_sync_queue s" "cs_fps_period s' = cs_fps_period s"
    "cs_fps_1_quarter_period s' = cs_fps_1_quarter_period s" "cs_synchronized_images_only s' = cs_synchronized_images_only s"
    "cs_depth_delay_off_color_usec s' = cs_depth_delay_off_color_usec s" "cs_running s' = cs_running s" "cs_lock s' = cs_lock s"
    "cs_sync_captures s' = cs_sync_captures s" "cs_disable_sync s' = cs_disable_sync s"
    "cs_waiting_for_clean_depth_ts s' = cs_waiting_for_clean_depth_ts s" "fi_queue (get_frame b s') = fi_queue (get_frame b s)"
proof -
  have e: "s' = s\<lparr>cs_color := cs_color s', cs_depth_ir := cs_depth_ir s'\<rparr>" using assms by (simp add: refilled_def)
  show "cs_sync_queue s' = cs_sync_queue s" "cs_fps_period s' = cs_fps_period s"
    "cs_fps_1_quarter_period s' = cs_fps_1_quarter_period s" "cs_synchronized_images_only s' = cs_synchronized_images_only s"
    "cs_depth_delay_off_color_usec s' = cs_depth_delay_off_color_usec s" "cs_running s' = cs_running s" "cs_lock s' = cs_lock s"
    "cs_sync_captures s' = cs_sync_captures s" "cs_disable_sync s' = cs_disable_sync s"
    "cs_waiting_for_clean_depth_ts s' = cs_waiting_for_clean_depth_ts s" by (subst e; simp)+
  show "fi_queue (get_frame b s') = fi_queue (get_frame b s)" using assms by (simp add: refilled_def get_frame_def)
qed

lemma stable_refl: "sync_core h w \<Longrightarrow> stable h w w"
  by (simp add: stable_def sync_coreD(1))

lemma stable_trans: "stable h w w1 \<Longrightarrow> stable h w1 w2 \<Longrightarrow> stable h w w2"
  unfolding stable_def using level_trans [of w w1 w2] refilled_trans [of "syncs w h" "syncs w1 h" "syncs w2 h"] by simp

lemma stableD:
  assumes "stable h w w'"
  shows "sync_core h w'" and "level w w'" and "user_refs h w' = user_refs h w" and "user_images h w' = user_images h w"
    and "refilled (syncs w h) (syncs w' h)" and "fi_queue (frame b h w') = fi_queue (frame b h w)"
  using assms refilled_settings(11) [of "syncs w h" "syncs w' h" b] by (simp_all add: stable_def frame_def)

lemma moved_stable:
  assumes "sync_core h w" and "moved b h f w w'" and "frame_ok b f" "fi_queue f = fi_queue (frame b h w)"
  shows "stable h w w'" and "frame b h w' = f" and "frame (\<not> b) h w' = frame (\<not> b) h w"
proof -
  have s: "syncs w' = (syncs w)(h := set_frame b f (syncs w h))" using assms(2) by (simp add: moved_def)
  show "frame b h w' = f" "frame (\<not> b) h w' = frame (\<not> b) h w"
    using s by (simp_all add: frame_def get_frame_def set_frame_def)
  have "refilled (syncs w h) (set_frame b f (syncs w h))"
    using assms(4) by (simp add: refilled_def set_frame_def frame_def get_frame_def)
  then show "stable h w w'" using moved_core [OF assms] assms(2) s by (simp add: stable_def moved_def)
qed

lemma calm_stable:
  assumes "sync_core h w" and "level w w'" and "syncs w' = syncs w" and "client_refs w' = client_refs w" and "outside w' = outside w"
  shows "stable h w w'"
proof -
  have u: "user_refs h w' = user_refs h w" "user_images h w' = user_images h w"
    using assms(3-5) by (simp_all add: user_refs_def user_images_def frame_def fun_eq_iff)
  have "sync_core h w'" using assms(1) u levelD(1,2,6) [OF assms(2)] assms(3)
    by (simp add: sync_core_def frame_def)
  then show ?thesis using assms(2,3) u by (simp add: stable_def)
qed

text \<open>Merging: the color image of the color capture goes into the depth capture.\<close>

lemma merge_captures_run:
  assumes core: "sync_core h w" and c: "fi_capture (frame False h w) \<noteq> 0" "fi_capture (frame True h w) \<noteq> 0"
  defines "d \<equiv> fi_capture (frame False h w)" and "k \<equiv> fi_capture (frame True h w)"
  shows "\<exists>w'. merge_captures d k w = Some (d, w') \<and> stable h w w' \<and> syncs w' = syncs w \<and> queues w' = queues w \<and>
     client_refs w' = client_refs w \<and>
     capture_slots w' = (capture_slots w)(d := (capture_slots w d)(IMAGE_TYPE_COLOR := capture_slots w k IMAGE_TYPE_COLOR))"
proof -
  note inv = sync_coreD(1) [OF core]
  have held: "k \<in> cheld w" using frame_covered(3) [OF core c(2)] client_refs_pos(2) [OF inv] by (simp add: k_def)
  define i where "i = capture_slots w k IMAGE_TYPE_COLOR"
  from sync_get_image [OF inv held, of IMAGE_TYPE_COLOR, folded i_def] obtain w1 where
    w1: "capture_get_image IMAGE_TYPE_COLOR k w = Some (i, w1)" "calm w w1" "client_refs w1 = client_refs w"
      "outside w1 = (\<lambda>j. outside w j + popped i j)" "queues w1 = queues w" by blast
  have inv1: "queue_inv w1" by (rule calmD(3) [OF w1(2)])
  have "0 < client_refs w1 d" using frame_covered(3) [OF core c(1)] by (simp add: w1(3) d_def)
  then have held1: "d \<in> cheld w1" by (rule client_refs_pos(2) [OF inv1])
  have i1: "i = 0 \<or> 0 < outside w1 i"
    using capture_invD(3) [OF queue_invD(1) [OF inv], of i] by (auto simp: w1(4) popped_def)
  from client_set_image [OF inv1 held1 i1, of IMAGE_TYPE_COLOR] obtain w2 where
    w2: "capture_set_image IMAGE_TYPE_COLOR d i w1 = Some w2" "queue_inv w2" "capture_env w2 = capture_env w1"
      "client_refs w2 = client_refs w1" "outside w2 = outside w1"
      "captures w2 = (captures w1)(d := (captures w1 d)\<lparr>cap_image := (cap_image (captures w1 d))(IMAGE_TYPE_COLOR := i)\<rparr>)" by blast
  have sl2: "capture_slots w2 = (capture_slots w)(d := (capture_slots w d)(IMAGE_TYPE_COLOR := i))"
    using calmD(4) [OF w1(2)] by (simp add: capture_slots_def w2(6) fun_eq_iff)
  note e2 = capture_env_queues [OF w2(3)]
  have lev2: "level w1 w2" "syncs w2 = syncs w1" using w2(2) e2 more_syncs [OF e2(5)] by (simp_all add: level_def same_setup_def)
  have "popped i i \<le> outside w2 i"
    using capture_invD(3) [OF queue_invD(1) [OF inv], of i] by (simp add: w2(5) w1(4))
  from sync_image_release [OF w2(2) this] obtain w3 where w3: "image_dec_ref i w2 = Some w3" "calm w2 w3"
      "client_refs w3 = client_refs w2" "outside w3 = (\<lambda>j. outside w2 j - popped i j)" "queues w3 = queues w2" by blast
  have run: "merge_captures d k w = Some (d, w3)"
    using w1(1) w2(1) w3(1) by (simp add: merge_captures_def capture_get_color_image_def capture_set_color_image_def)
  have "level w w3" using level_step [OF level_trans [OF calmD(1) [OF w1(2)] lev2(1)] w3(2)] .
  moreover have "syncs w3 = syncs w" using calmD(2) [OF w1(2)] lev2(2) calmD(2) [OF w3(2)] by simp
  moreover have "client_refs w3 = client_refs w" "outside w3 = outside w"
    using w1(3,4) w2(4,5) w3(3,4) by (simp_all add: fun_eq_iff)
  ultimately show ?thesis using run calm_stable [OF core] w3(5) e2(1) w1(5) calmD(4) [OF w3(2)] sl2
    by (intro exI [of _ w3]) (simp add: i_def)
qed

subsection \<open>The decision, in integers\<close>

text \<open>The decision without machine arithmetic, and the settings for which it is the one the code takes.\<close>

definition ideal_decide :: "int \<Rightarrow> int \<Rightarrow> int \<Rightarrow> int \<Rightarrow> int \<Rightarrow> sync_decision" where
  "ideal_decide delay period quarter color depth =
     (if delay < 0 then
        (let b = max 0 (depth - quarter) - delay
         in if color > b + period then Drop_depth else if color < b then Drop_color else Link)
      else
        (let b = max 0 (color - quarter) + delay
         in if depth > b + period then Drop_color else if depth < b then Drop_depth else Link))"

definition sync_settings_ok :: "capturesync_context_t \<Rightarrow> bool" where
  "sync_settings_ok s \<longleftrightarrow> uint (cs_fps_period s) < 2 ^ 32 \<and> cs_fps_1_quarter_period s = cs_fps_period s div 4 \<and>
     is_int32 (cs_depth_delay_off_color_usec s)"

lemma uint_TS_SUBTRACT: "uint (TS_SUBTRACT_u64 a b) = max 0 (uint a - uint b)"
  by (auto simp: TS_SUBTRACT_u64_def word_le_def max_def uint_sub_lem [THEN iffD1])

lemma sint_small: "uint (x :: u64) < 2 ^ 63 \<Longrightarrow> sint x = uint x"
  using signed_take_bit_int_eq_self [of 63 "uint x"] by (simp add: sint_uint order_trans [OF _ uint_ge_0])

lemma uint_of_small: "0 \<le> n \<Longrightarrow> n < 2 ^ 64 \<Longrightarrow> uint (word_of_int n :: u64) = n"
  by (simp add: uint_word_of_int)

lemma sync_decide_exact:
  assumes "sync_settings_ok s" and "uint (fi_ts (cs_color s)) < 2 ^ 62" and "uint (fi_ts (cs_depth_ir s)) < 2 ^ 62"
  shows "sync_decide s = Some (ideal_decide (cs_depth_delay_off_color_usec s) (uint (cs_fps_period s))
     (uint (cs_fps_1_quarter_period s)) (uint (fi_ts (cs_color s))) (uint (fi_ts (cs_depth_ir s))))"
proof -
  let ?d = "cs_depth_delay_off_color_usec s" and ?p = "cs_fps_period s" and ?q = "cs_fps_1_quarter_period s"
  have d: "- 2147483648 \<le> ?d" "?d \<le> 2147483647" and p: "uint ?p < 2 ^ 32" using assms(1) by (simp_all add: sync_settings_ok_def is_int32_def)
  have end_eq: "uint (word_of_int n + ?p :: u64) = n + uint ?p" if "0 \<le> n" "n < 2 ^ 62 + 2 ^ 32" for n
  proof -
    have "uint (word_of_int n + ?p :: u64) = (uint (word_of_int n :: u64) + uint ?p) mod 2 ^ 64"
      by (simp add: uint_word_ariths)
    then show ?thesis using that p uint_of_small [of n] by simp
  qed
  have base: "max 0 (uint t - uint ?q) < 2 ^ 62" if "uint t < 2 ^ 62" for t :: u64
    using that uint_ge_0 [of ?q] unfolding max_less_iff_conj by (intro conjI) (simp, linarith)
  show ?thesis
  proof (cases "?d < 0")
    case True
    let ?b = "max 0 (uint (fi_ts (cs_depth_ir s)) - uint ?q)"
    have b: "0 \<le> ?b" "?b < 2 ^ 62" using base [OF assms(3)] by simp_all
    have "sint (TS_SUBTRACT_u64 (fi_ts (cs_depth_ir s)) ?q) = ?b"
      using sint_small [of "TS_SUBTRACT_u64 (fi_ts (cs_depth_ir s)) ?q"] b by (simp add: uint_TS_SUBTRACT)
    moreover have "TS_SUBTRACT_i64 ?b ?d = Some (?b - ?d)"
      using b d True unfolding TS_SUBTRACT_i64_def is_int64_def by auto
    ultimately have win: "sync_window s = Some (word_of_int (?b - ?d), word_of_int (?b - ?d) + ?p)"
      using True by (simp add: sync_window_def Let_def)
    have n: "0 \<le> ?b - ?d" "?b - ?d < 2 ^ 62 + 2 ^ 32" using b d True by simp_all
    then show ?thesis using True end_eq [OF n] uint_of_small [OF n(1)]
      by (simp add: sync_decide_def win ideal_decide_def word_less_def Let_def)
  next
    case False
    let ?b = "max 0 (uint (fi_ts (cs_color s)) - uint ?q)"
    have b: "0 \<le> ?b" "?b < 2 ^ 62" using base [OF assms(2)] by simp_all
    have "sint (TS_SUBTRACT_u64 (fi_ts (cs_color s)) ?q) = ?b"
      using sint_small [of "TS_SUBTRACT_u64 (fi_ts (cs_color s)) ?q"] b by (simp add: uint_TS_SUBTRACT)
    moreover have "TS_ADD_i64 ?b ?d = Some (?b + ?d)"
      using b d False unfolding TS_ADD_i64_def is_int64_def by auto
    ultimately have win: "sync_window s = Some (word_of_int (?b + ?d), word_of_int (?b + ?d) + ?p)"
      using False by (simp add: sync_window_def Let_def)
    have n: "0 \<le> ?b + ?d" "?b + ?d < 2 ^ 62 + 2 ^ 32" using b d False by simp_all
    then show ?thesis using False end_eq [OF n] uint_of_small [OF n(1)]
      by (simp add: sync_decide_def win ideal_decide_def word_less_def Let_def)
  qed
qed

subsection \<open>Rounds\<close>

text \<open>The number of captures that wait in the queues of the two sensors.\<close>

definition backlog :: "ptr \<Rightarrow> 'a capturesync_world_scheme \<Rightarrow> nat" where
  "backlog h w = length (contents (queues w (fi_queue (frame True h w)))) + length (contents (queues w (fi_queue (frame False h w))))"

definition stamps_bounded :: "'a capturesync_world_scheme \<Rightarrow> bool" where
  "stamps_bounded w \<longleftrightarrow> (\<forall>i. uint (image_stamps w i) < 2 ^ 62)"

definition stamped :: "ptr \<Rightarrow> 'a capturesync_world_scheme \<Rightarrow> bool" where
  "stamped h w \<longleftrightarrow> (\<forall>b. fi_capture (frame b h w) \<noteq> 0 \<longrightarrow> uint (fi_ts (frame b h w)) < 2 ^ 62)"

lemma stamped_cases:
  assumes "stamped h w" and "frame (\<not> b) h w' = frame (\<not> b) h w"
    and "fi_capture (frame b h w') \<noteq> 0 \<Longrightarrow> uint (fi_ts (frame b h w')) < 2 ^ 62"
  shows "stamped h w'"
  unfolding stamped_def
proof
  fix c
  show "fi_capture (frame c h w') \<noteq> 0 \<longrightarrow> uint (fi_ts (frame c h w')) < 2 ^ 62"
  proof (cases "c = b")
    case False
    then have "c = (\<not> b)" by simp
    then show ?thesis using assms(1,2) by (simp add: stamped_def)
  qed (use assms(3) in simp)
qed

lemma backlog_sensor:
  "backlog h w = length (contents (queues w (fi_queue (frame b h w)))) + length (contents (queues w (fi_queue (frame (\<not> b) h w))))"
  by (cases b) (simp_all add: backlog_def)

lemma drop_sample_stable:
  assumes core: "sync_core h w" and c: "fi_capture (frame b h w) \<noteq> 0" and st: "stamps_bounded w" "stamped h w"
  shows "\<exists>r' w'. drop_sample h r b d w = Some (r', w') \<and> stable h w w' \<and> stamped h w' \<and> frame (\<not> b) h w' = frame (\<not> b) h w \<and>
     backlog h w' \<le> backlog h w \<and> (r' = ZSA_WAIT_RESULT_SUCCEEDED \<longrightarrow> backlog h w' < backlog h w)"
proof -
  let ?q = "fi_queue (frame b h w)" and ?sq = "cs_sync_queue (syncs w h)" and ?o = "fi_queue (frame (\<not> b) h w)"
  from drop_sample_run [OF core c, of r d] obtain r' w' g where
    w': "drop_sample h r b d w = Some (r', w')" "moved b h g w w'" "frame_ok b g" "fi_queue g = ?q"
     "\<forall>k. k \<noteq> ?q \<longrightarrow> k \<noteq> ?sq \<longrightarrow> queues w' k = queues w k"
     "contents (queues w' ?q) = (if r \<noteq> ZSA_WAIT_RESULT_FAILED \<and> q_enabled (queues w ?q) then tl (contents (queues w ?q)) else contents (queues w ?q))"
     "if r' = ZSA_WAIT_RESULT_SUCCEEDED
      then r \<noteq> ZSA_WAIT_RESULT_FAILED \<and> q_enabled (queues w ?q) \<and> contents (queues w ?q) \<noteq> [] \<and> fi_capture g = hd (contents (queues w ?q)) \<and>
        fi_capture g \<noteq> 0 \<and> fi_image g \<noteq> 0 \<and> fi_image g = capture_slots w (fi_capture g) (sensor_slot b) \<and> fi_ts g = image_stamps w (fi_image g)
      else g = (frame b h w)\<lparr>fi_capture := 0, fi_image := 0, fi_ts := 0\<rparr>" by blast
  note m = moved_stable [OF core w'(2-4)]
  have "?o \<noteq> ?q" "?o \<noteq> ?sq" using sync_coreD(5,6) [OF core, of "\<not> b"] by auto
  then have o: "queues w' ?o = queues w ?o" using w'(5) by simp
  have bl: "backlog h w' = length (contents (queues w' ?q)) + length (contents (queues w ?o))"
    using o by (simp add: backlog_sensor [of h w' b] m(2,3) w'(4))
  have "stamped h w'"
    by (rule stamped_cases [OF st(2) m(3)]) (use w'(7) st(1) in \<open>auto simp: m(2) stamps_bounded_def split: if_splits\<close>)
  moreover have "length (contents (queues w' ?q)) \<le> length (contents (queues w ?q))" using w'(6) by (auto simp del: length_contents)
  moreover have "r' = ZSA_WAIT_RESULT_SUCCEEDED \<longrightarrow> length (contents (queues w' ?q)) < length (contents (queues w ?q))"
    using w'(6,7) by (auto simp: diff_less simp del: length_contents)
  ultimately show ?thesis using w'(1) m(1,3) bl backlog_sensor [of h w b] by auto
qed

lemma push_stable:
  assumes core: "sync_core h w" and c: "c \<noteq> 0" "0 < client_refs w c"
  shows "\<exists>w'. queue_push (cs_sync_queue (syncs w h)) c w = Some w' \<and> stable h w w' \<and> syncs w' = syncs w \<and> backlog h w' = backlog h w \<and>
     client_refs w' = client_refs w \<and> capture_slots w' = capture_slots w \<and>
     contents (queues w' (cs_sync_queue (syncs w h))) = published True (queues w (cs_sync_queue (syncs w h))) c"
proof -
  let ?sq = "cs_sync_queue (syncs w h)"
  from sync_push [OF sync_coreD(1,3) [OF core] c] obtain w' where
    w': "queue_push ?sq c w = Some w'" "calm w w'" "client_refs w' = client_refs w" "outside w' = outside w"
     "\<forall>k. k \<noteq> ?sq \<longrightarrow> queues w' k = queues w k" "contents (queues w' ?sq) = published True (queues w ?sq) c"
    unfolding published_def by auto
  have "fi_queue (frame b h w') = fi_queue (frame b h w)" "fi_queue (frame b h w) \<noteq> ?sq" for b
    using frame_calm [OF w'(2)] sync_coreD(5) [OF core] by simp_all
  then have "backlog h w' = backlog h w" using w'(5) by (simp add: backlog_def)
  then show ?thesis using w' calm_stable [OF core calmD(1,2) [OF w'(2)] w'(3,4)] calmD(2,4) [OF w'(2)] by auto
qed

lemma stable_bounded: "stable h w w' \<Longrightarrow> stamps_bounded w \<Longrightarrow> stamps_bounded w'"
  using levelD(4) [of w w'] by (simp add: stable_def stamps_bounded_def)

lemma sync_round_run:
  assumes core: "sync_core h w" and act: "sync_active h ZSA_WAIT_RESULT_SUCCEEDED w"
    and ok: "sync_settings_ok (syncs w h)" and st: "stamps_bounded w" "stamped h w"
  shows "\<exists>r' w'. sync_round h ZSA_WAIT_RESULT_SUCCEEDED w = Some (r', w') \<and> stable h w w' \<and> stamped h w' \<and>
     (r' = ZSA_WAIT_RESULT_SUCCEEDED \<longrightarrow> backlog h w' < backlog h w)"
proof -
  have c: "fi_capture (frame b h w) \<noteq> 0" for b using act by (simp add: sync_active_def frame_def get_frame_def)
  have "uint (fi_ts (cs_color (syncs w h))) < 2 ^ 62" "uint (fi_ts (cs_depth_ir (syncs w h))) < 2 ^ 62"
    using st(2) c [of True] c [of False] unfolding stamped_def by (metis frame_def get_frame_def)+
  from sync_decide_exact [OF ok this] obtain e where e: "sync_decide (syncs w h) = Some e" by blast
  show ?thesis
  proof (cases e)
    case Drop_depth
    then show ?thesis using drop_sample_stable [OF core c st, of ZSA_WAIT_RESULT_SUCCEEDED False True] e
      by (auto simp: sync_round_def)
  next
    case Drop_color
    then show ?thesis using drop_sample_stable [OF core c st, of ZSA_WAIT_RESULT_SUCCEEDED True True] e
      by (auto simp: sync_round_def)
  next
    case Link
    let ?d = "fi_capture (frame False h w)" and ?k = "fi_capture (frame True h w)" and ?sq = "cs_sync_queue (syncs w h)"
    from merge_captures_run [OF core c c] obtain w1 where w1: "merge_captures ?d ?k w = Some (?d, w1)" "stable h w w1"
      "syncs w1 = syncs w" "queues w1 = queues w" "client_refs w1 = client_refs w" by blast
    note core1 = stableD(1) [OF w1(2)]
    have f1: "frame b h w1 = frame b h w" for b using w1(3) by (simp add: frame_def)
    have "0 < client_refs w1 ?d" using frame_covered(3) [OF core c [of False]] w1(5) by simp
    from push_stable [OF core1 c this] obtain w2 where w2: "queue_push ?sq ?d w1 = Some w2" "stable h w1 w2" "syncs w2 = syncs w"
      "backlog h w2 = backlog h w1" by (auto simp: w1(3))
    have f2: "frame b h w2 = frame b h w" for b using w2(3) by (simp add: frame_def)
    have s2: "stable h w w2" by (rule stable_trans [OF w1(2) w2(2)])
    have st2: "stamps_bounded w2" "stamped h w2" using stable_bounded [OF s2 st(1)] st(2) by (simp_all add: stamped_def f2)
    have b2: "backlog h w2 = backlog h w" using w2(4) w1(4) by (simp add: backlog_def f1)
    have c2: "fi_capture (frame True h w2) \<noteq> 0" using c by (simp add: f2)
    from drop_sample_stable [OF stableD(1) [OF s2] c2 st2, of ZSA_WAIT_RESULT_SUCCEEDED False] obtain r3 w3 where
      w3: "drop_sample h ZSA_WAIT_RESULT_SUCCEEDED True False w2 = Some (r3, w3)" "stable h w2 w3" "stamped h w3"
        "frame False h w3 = frame False h w" "backlog h w3 \<le> backlog h w" by (auto simp: f2 b2)
    have c3: "fi_capture (frame False h w3) \<noteq> 0" using c by (simp add: w3(4))
    from drop_sample_stable [OF stableD(1) [OF w3(2)] c3 stable_bounded [OF w3(2) st2(1)] w3(3), of r3 False] obtain r4 w4 where
      w4: "drop_sample h r3 False False w3 = Some (r4, w4)" "stable h w3 w4" "stamped h w4"
        "r4 = ZSA_WAIT_RESULT_SUCCEEDED \<longrightarrow> backlog h w4 < backlog h w3" by blast
    have "sync_round h ZSA_WAIT_RESULT_SUCCEEDED w = Some (r4, w4)"
      using e Link c [of True] c [of False] w1(1,3) w2(1) w3(1) w4(1) by (simp add: sync_round_def frame_def frame_sensors)
    then show ?thesis using stable_trans [OF stable_trans [OF s2 w3(2)] w4(2)] w4(3,4) w3(5) by auto
  qed
qed

text \<open>The loop ends, whatever is in the queues.\<close>

lemma sync_loop_run:
  assumes "sync_core h w" and "sync_settings_ok (syncs w h)" and "stamps_bounded w" and "stamped h w"
  shows "\<exists>w'. sync_loop h r w = Some w' \<and> stable h w w' \<and> stamped h w'"
  using assms
proof (induction "backlog h w" arbitrary: w r rule: less_induct)
  case less
  show ?case
  proof (cases "sync_active h r w")
    case False
    then have "sync_loop h r w = Some w" by (subst sync_loop.simps) simp
    then show ?thesis using less.prems stable_refl by blast
  next
    case True
    then have r: "r = ZSA_WAIT_RESULT_SUCCEEDED" by (simp add: sync_active_def)
    from sync_round_run [OF less.prems(1) True [unfolded r] less.prems(2-4)] obtain r' w1 where
      w1: "sync_round h r w = Some (r', w1)" "stable h w w1" "stamped h w1"
        "r' = ZSA_WAIT_RESULT_SUCCEEDED \<longrightarrow> backlog h w1 < backlog h w" unfolding r by blast
    have loop: "sync_loop h r w = sync_loop h r' w1" using True w1(1) by (subst sync_loop.simps) simp
    show ?thesis
    proof (cases "r' = ZSA_WAIT_RESULT_SUCCEEDED")
      case True
      have "sync_settings_ok (syncs w1 h)"
        using less.prems(2) refilled_settings [OF stableD(5) [OF w1(2)]] by (simp add: sync_settings_ok_def)
      from less.hyps [OF _ stableD(1) [OF w1(2)] this stable_bounded [OF w1(2) less.prems(3)] w1(3), of r'] w1(4) True
      show ?thesis using loop stable_trans [OF w1(2)] by auto
    next
      case False
      then have "sync_loop h r' w1 = Some w1" by (subst sync_loop.simps) (simp add: sync_active_def)
      then show ?thesis using loop w1(2,3) by simp
    qed
  qed
qed

subsection \<open>Arriving captures\<close>

lemma moved_bounded:
  assumes "stamps_bounded w" and "t = (if i = 0 then 0 else image_stamps w i)"
  shows "uint t < 2 ^ 62"
  using assms by (simp add: stamps_bounded_def)

text \<open>Taking the image of a capture into a frame, with its timestamp.\<close>

lemma frame_image_run:
  fixes w :: "'a capturesync_world_scheme" and n :: ptr and b :: bool
  assumes inv: "queue_inv w" and n: "0 < client_refs w n"
  defines "i \<equiv> capture_slots w n (sensor_slot b)"
  shows "\<exists>w1. call_get_typed_image (sensor_pfn b) n w = Some (i, w1) \<and> calm w w1 \<and> client_refs w1 = client_refs w \<and>
     outside w1 = (\<lambda>k. outside w k + popped i k) \<and> queues w1 = queues w \<and>
     (\<forall>f. image_get_device_timestamp_usec i (put_frame b h f w1) = Some (if i = 0 then 0 else image_stamps w i))"
proof -
  from sync_get_image [OF inv client_refs_pos(2) [OF inv n], of "sensor_slot b", folded i_def] obtain w1 where
    w1: "capture_get_image (sensor_slot b) n w = Some (i, w1)" "calm w w1" "client_refs w1 = client_refs w"
      "outside w1 = (\<lambda>k. outside w k + popped i k)" "queues w1 = queues w" by blast
  have "popped i i \<le> outside (put_frame b h f w1) i" for f
    using capture_invD(3) [OF queue_invD(1) [OF inv], of i] by (simp add: put_frame_frame w1(4))
  from sync_stamp [OF _ this] calmD(3) [OF w1(2)] levelD(4) [OF calmD(1) [OF w1(2)]]
  have "image_get_device_timestamp_usec i (put_frame b h f w1) = Some (if i = 0 then 0 else image_stamps w i)" for f
    by (simp add: put_frame_frame)
  then show ?thesis using w1 by (auto simp: call_sensor)
qed

lemma replace_sample_run:
  fixes w :: "'a capturesync_world_scheme" and n :: ptr and b :: bool
  assumes core: "sync_core h w" and c: "fi_capture (frame b h w) \<noteq> 0" and n: "0 < user_refs h w n"
  defines "f \<equiv> frame b h w" and "i \<equiv> capture_slots w n (sensor_slot b)"
  defines "g \<equiv> f\<lparr>fi_capture := n, fi_image := i, fi_ts := if i = 0 then 0 else image_stamps w i\<rparr>"
  shows "\<exists>w'. replace_sample h n b w = Some w' \<and> level w w' \<and> capture_slots w' = capture_slots w \<and>
     syncs w' = (syncs w)(h := set_frame b g (syncs w h)) \<and>
     client_refs w' = (\<lambda>k. client_refs w k - popped (fi_capture f) k) \<and>
     outside w' = (\<lambda>k. outside w k - popped (fi_image f) k + popped i k) \<and>
     (\<forall>k. k \<noteq> cs_sync_queue (syncs w h) \<longrightarrow> queues w' k = queues w k) \<and>
     contents (queues w' (cs_sync_queue (syncs w h))) =
       published (\<not> cs_synchronized_images_only (syncs w h)) (queues w (cs_sync_queue (syncs w h))) (fi_capture f)"
proof -
  let ?yes = "\<not> cs_synchronized_images_only (syncs w h)" and ?sq = "cs_sync_queue (syncs w h)"
  from publish_run [OF core c, of ?yes] obtain w1 where
    w1: "(if ?yes then queue_push ?sq (fi_capture f) w else Some w) = Some w1" "calm w w1" "client_refs w1 = client_refs w"
      "outside w1 = outside w" "\<forall>k. k \<noteq> ?sq \<longrightarrow> queues w1 k = queues w k"
      "contents (queues w1 ?sq) = published ?yes (queues w ?sq) (fi_capture f)" unfolding f_def by blast
  have "0 < client_refs w1 (fi_capture f)" using frame_covered(3) [OF core c] by (simp add: w1(3) f_def)
  from sync_capture_ref(1) [OF calmD(3) [OF w1(2)] this] c obtain w2 where
    w2: "capture_dec_ref (fi_capture f) w1 = Some w2" "calm w1 w2"
      "client_refs w2 = (\<lambda>k. client_refs w k - popped (fi_capture f) k)" "outside w2 = outside w"
      "queues w2 = queues w1"
    by (auto simp: w1(3,4) popped_def f_def fun_eq_iff)
  have "popped (fi_image f) (fi_image f) \<le> outside w2 (fi_image f)"
    using frame_covered(2) [OF core] by (simp add: w2(4) f_def)
  from sync_image_release [OF calmD(3) [OF w2(2)] this] obtain w3 where
    w3: "image_dec_ref (fi_image f) w2 = Some w3" "calm w2 w3" "client_refs w3 = client_refs w2"
      "outside w3 = (\<lambda>k. outside w k - popped (fi_image f) k)" "queues w3 = queues w1" by (auto simp: w2(4,5))
  let ?w4 = "put_frame b h (f\<lparr>fi_capture := n\<rparr>) w3"
  have lev3: "level w w3" using level_step [OF level_step [OF calmD(1) [OF w1(2)] w2(2)] w3(2)] .
  have syn3: "syncs w3 = syncs w" "capture_slots w3 = capture_slots w"
    using calmD(2,4) [OF w1(2)] calmD(2,4) [OF w2(2)] calmD(2,4) [OF w3(2)] by simp_all
  have inv4: "queue_inv ?w4" using levelD(1) [OF lev3] by (simp add: put_frame_frame)
  have "popped (fi_capture (frame (\<not> b) h w)) n \<ge> 0" by (rule popped_nonneg)
  then have "0 < client_refs w n - popped (fi_capture f) n" using n by (cases b) (simp_all add: user_refs_def f_def)
  then have "0 < client_refs ?w4 n" by (simp add: put_frame_frame w3(3) w2(3))
  from frame_image_run [OF inv4 this, of b h] syn3(2) levelD(4) [OF lev3] obtain w5 where
    w5: "call_get_typed_image (sensor_pfn b) n ?w4 = Some (i, w5)" "calm ?w4 w5" "client_refs w5 = client_refs w2"
      "outside w5 = (\<lambda>k. outside w k - popped (fi_image f) k + popped i k)"
      "\<forall>f. image_get_device_timestamp_usec i (put_frame b h f w5) = Some (if i = 0 then 0 else image_stamps w i)" "queues w5 = queues w1"
    by (auto simp: put_frame_frame w3(3-5) i_def)
  have fr: "frame b h w1 = f" "frame b h w2 = f" "frame b h w3 = f" "frame b h w5 = f\<lparr>fi_capture := n\<rparr>"
    using frame_calm [OF w1(2)] frame_calm [OF w2(2)] frame_calm [OF w3(2)] frame_calm [OF w5(2)] by (simp_all add: f_def)
  have pfn: "fi_get_typed_image f = sensor_pfn b" unfolding f_def by (rule sync_coreD(7) [OF core])
  have cf: "fi_capture f \<noteq> 0" using c by (simp add: f_def)
  have "replace_sample h n b w = Some (put_frame b h g w5)"
    unfolding replace_sample_def f_def [symmetric] w1(1)
    using w2(1) w3(1) w5(1,5) fr pfn cf by (simp add: g_def)
  moreover have "level w (put_frame b h g w5)" using level_step [OF _ w5(2)] lev3 by simp
  moreover have "syncs (put_frame b h g w5) = (syncs w)(h := set_frame b g (syncs w h))"
    using calmD(2) [OF w5(2)] syn3(1) by simp
  ultimately show ?thesis using calmD(4) [OF w5(2)] syn3(2) w5(3,4,6) w2(3) w1(5,6) by (auto simp: put_frame_frame)
qed

lemma store_capture_fill:
  fixes w :: "'a capturesync_world_scheme" and n :: ptr and b :: bool
  assumes core: "sync_core h w" and e: "fi_capture (frame b h w) = 0" and n: "n \<noteq> 0" "0 < client_refs w n"
  defines "i \<equiv> capture_slots w n (sensor_slot b)"
  shows "\<exists>w'. store_capture h b n w = Some w' \<and> queues w' = queues w \<and>
     moved b h ((frame b h w)\<lparr>fi_capture := n, fi_image := i, fi_ts := if i = 0 then 0 else image_stamps w i\<rparr>) w w'"
proof -
  let ?f = "frame b h w"
  note inv = sync_coreD(1) [OF core]
  have pfn: "fi_get_typed_image ?f = sensor_pfn b" by (rule sync_coreD(7) [OF core])
  have i0: "fi_image ?f = 0" by (rule sync_coreD(8) [OF core e])
  from frame_image_run [OF inv n(2), of b h, folded i_def] obtain w1 where
    w1: "call_get_typed_image (sensor_pfn b) n w = Some (i, w1)" "calm w w1" "client_refs w1 = client_refs w"
      "outside w1 = (\<lambda>k. outside w k + popped i k)" "queues w1 = queues w"
      "\<forall>f. image_get_device_timestamp_usec i (put_frame b h f w1) = Some (if i = 0 then 0 else image_stamps w i)" by blast
  let ?g = "?f\<lparr>fi_capture := n, fi_image := i, fi_ts := if i = 0 then 0 else image_stamps w i\<rparr>"
  let ?w2 = "put_frame b h ?g w1"
  have "queue_inv ?w2" "0 < client_refs ?w2 n" using calmD(3) [OF w1(2)] n(2) by (simp_all add: put_frame_frame w1(3))
  from sync_capture_ref(2) [OF this] obtain w3 where
    w3: "capture_inc_ref n ?w2 = Some w3" "calm ?w2 w3" "client_refs w3 = (client_refs w)(n := client_refs w n + 1)"
      "outside w3 = outside w1" "queues w3 = queues w1" by (auto simp: put_frame_frame w1(3))
  have fr1: "frame b h w1 = ?f" by (rule frame_calm [OF w1(2)])
  have comm: "?f\<lparr>fi_image := i, fi_ts := t, fi_capture := n\<rparr> = ?f\<lparr>fi_capture := n, fi_image := i, fi_ts := t\<rparr>" for t
    by (cases ?f) simp
  have run: "store_capture h b n w = Some w3"
    unfolding store_capture_def using e i0 pfn w1(1,6) fr1 w3(1) by (simp add: comm)
  have "level w w3" using level_step [OF _ w3(2)] calmD(1) [OF w1(2)] by simp
  then have "moved b h ?g w w3"
    using calmD(2,4) [OF w1(2)] calmD(2,4) [OF w3(2)] w3(3,4) w1(4) e i0 n(1)
    by (auto simp: moved_def put_frame_frame popped_def fun_eq_iff)
  then show ?thesis using run w3(5) w1(5) by auto
qed

lemma store_capture_wait:
  fixes w :: "'a capturesync_world_scheme" and b :: bool
  assumes core: "sync_core h w" and c: "fi_capture (frame b h w) \<noteq> 0" and n: "n \<noteq> 0" "0 < client_refs w n"
  defines "q \<equiv> fi_queue (frame b h w)"
  assumes en: "q_enabled (queues w q)" and room: "length (contents (queues w q)) \<noteq> capacity (queues w q)"
  shows "\<exists>w'. store_capture h b n w = Some w' \<and> calm w w' \<and> client_refs w' = client_refs w \<and> outside w' = outside w \<and>
     (\<forall>k. k \<noteq> q \<longrightarrow> queues w' k = queues w k) \<and> contents (queues w' q) = contents (queues w q) @ [n]"
proof -
  have qh: "q \<in> qheld w" unfolding q_def by (rule sync_coreD(4) [OF core])
  from queue_push_run [OF sync_coreD(1) [OF core] qh en n, of "Some 0"] room obtain w1 q' where
    w1: "queue_push_w_dropped q n (Some 0) w = Some (Some 0, w1)" "queue_inv w1"
     "queues w1 = (queues w)(q := q')" "same_setup q' (queues w q)" "queue_rest w1 = queue_rest w" "other_locks w1 = other_locks w"
     "client_refs w1 = client_refs w" "contents q' = contents (queues w q) @ [n]" by auto
  have "store_capture h b n w = Some w1" using c w1(1) by (simp add: store_capture_def q_def)
  then show ?thesis using calm_rest [OF w1(2,5,6,3,4)] w1(3,7,8) by auto
qed

lemma store_capture_full:
  fixes w :: "'a capturesync_world_scheme" and b :: bool
  assumes core: "sync_core h w" and c: "fi_capture (frame b h w) \<noteq> 0" and n: "n \<noteq> 0" "0 < client_refs w n"
  defines "f \<equiv> frame b h w" and "q \<equiv> fi_queue (frame b h w)" and "sq \<equiv> cs_sync_queue (syncs w h)"
  defines "old \<equiv> hd (contents (queues w q))"
  defines "i \<equiv> capture_slots w old (sensor_slot b)"
  assumes en: "q_enabled (queues w q)" and full: "length (contents (queues w q)) = capacity (queues w q)"
  shows "\<exists>w'. store_capture h b n w = Some w' \<and> old \<noteq> 0 \<and>
     moved b h (f\<lparr>fi_capture := old, fi_image := i, fi_ts := if i = 0 then 0 else image_stamps w i\<rparr>) w w' \<and>
     (\<forall>k. k \<noteq> q \<longrightarrow> k \<noteq> sq \<longrightarrow> queues w' k = queues w k) \<and> contents (queues w' q) = tl (contents (queues w q)) @ [n] \<and>
     contents (queues w' sq) = published (\<not> cs_synchronized_images_only (syncs w h)) (queues w sq) (fi_capture f)"
proof -
  note inv = sync_coreD(1) [OF core]
  have qh: "q \<in> qheld w" unfolding q_def by (rule sync_coreD(4) [OF core])
  have qsq: "q \<noteq> sq" unfolding q_def sq_def by (rule sync_coreD(5) [OF core])
  from queue_push_run [OF inv qh en n, of "Some 0", folded old_def] full obtain w1 q' where
    w1: "queue_push_w_dropped q n (Some 0) w = Some (Some old, w1)" "queue_inv w1"
     "queues w1 = (queues w)(q := q')" "same_setup q' (queues w q)" "queue_rest w1 = queue_rest w" "other_locks w1 = other_locks w"
     "client_refs w1 = (\<lambda>k. client_refs w k + (if k = old then 1 else 0))" "contents q' = tl (contents (queues w q)) @ [n]" by auto
  note calm1 = calm_rest [OF w1(2,5,6,3,4)]
  have ring: "ring_ok (queues w q)" using queue_invD(4) [OF inv qh] by (simp add: queue_ok_def)
  have "contents (queues w q) \<noteq> []" using full ring.cap_pos [OF ring] by (auto simp del: length_contents)
  then have old: "old \<noteq> 0" unfolding old_def by (rule ring_pop [OF ring])
  have u1: "user_refs h w1 = (\<lambda>k. user_refs h w k + popped old k)" "user_images h w1 = user_images h w"
    using w1(7) old calm1(2) by (auto simp: user_refs_def user_images_def frame_calm [OF calm1(1)] popped_def fun_eq_iff)
  have core1: "sync_core h w1"
    using core levelD(1,2,6) [OF calmD(1) [OF calm1(1)]] calmD(2) [OF calm1(1)] u1 popped_nonneg [of old]
    by (simp add: sync_core_def frame_def add_nonneg_nonneg)
  have pos: "0 < user_refs h w1 old" using sync_coreD(9) [OF core, of old] old by (simp add: u1 popped_def)
  have c1: "fi_capture (frame b h w1) \<noteq> 0" using c by (simp add: frame_calm [OF calm1(1)])
  let ?g = "f\<lparr>fi_capture := old, fi_image := i, fi_ts := if i = 0 then 0 else image_stamps w i\<rparr>"
  note same1 = frame_calm [OF calm1(1)] calmD(2,4) [OF calm1(1)] levelD(4) [OF calmD(1) [OF calm1(1)]] calm1(2)
  from replace_sample_run [OF core1 c1 pos, unfolded same1, folded i_def f_def sq_def] obtain w2 where
    w2: "replace_sample h old b w1 = Some w2" "level w1 w2" "capture_slots w2 = capture_slots w"
      "syncs w2 = (syncs w)(h := set_frame b ?g (syncs w h))"
      "client_refs w2 = (\<lambda>k. client_refs w1 k - popped (fi_capture f) k)"
      "outside w2 = (\<lambda>k. outside w k - popped (fi_image f) k + popped i k)" "\<forall>k. k \<noteq> sq \<longrightarrow> queues w2 k = queues w1 k"
      "contents (queues w2 sq) = published (\<not> cs_synchronized_images_only (syncs w h)) (queues w1 sq) (fi_capture f)" by blast
  have run: "store_capture h b n w = Some w2" using c w1(1) old w2(1) by (simp add: store_capture_def q_def f_def)
  have "moved b h ?g w w2"
    using level_trans [OF calmD(1) [OF calm1(1)] w2(2)] w2(3-6) w1(7) old
    by (auto simp: moved_def popped_def fun_eq_iff f_def)
  then show ?thesis using run old w2(7,8) w1(3,8) qsq by auto
qed

lemma store_capture_run:
  assumes core: "sync_core h w" and st: "stamps_bounded w" "stamped h w" and n: "n \<noteq> 0" "0 < user_refs h w n"
  shows "\<exists>w'. store_capture h b n w = Some w' \<and> stable h w w' \<and> stamped h w'"
proof -
  let ?f = "frame b h w"
  note inv = sync_coreD(1) [OF core]
  have pfn: "fi_get_typed_image ?f = sensor_pfn b" by (rule sync_coreD(7) [OF core])
  have cl: "popped (fi_capture (frame True h w)) k + popped (fi_capture (frame False h w)) k \<ge> 0" for k
    using popped_nonneg by (simp add: add_nonneg_nonneg)
  have pos: "0 < client_refs w n" using n(2) cl [of n] by (simp add: user_refs_def)
  have fin: "\<exists>w'. store_capture h b n w = Some w' \<and> stable h w w' \<and> stamped h w'"
    if "store_capture h b n w = Some w'" "moved b h g w w'" "frame_ok b g" "fi_queue g = fi_queue ?f" "uint (fi_ts g) < 2 ^ 62" for w' g
    using moved_stable [OF core that(2-4)] stamped_cases [OF st(2), of b w'] that by auto
  show ?thesis
  proof (cases "fi_capture ?f = 0")
    case True
    from store_capture_fill [OF core True n(1) pos] show ?thesis
      using fin pfn n(1) moved_bounded [OF st(1) refl] by (auto simp: frame_ok_def)
  next
    case False
    let ?q = "fi_queue ?f"
    show ?thesis
    proof (cases "q_enabled (queues w ?q)")
      case dis: False
      have "store_capture h b n w = Some w"
        using queue_push_disabled [OF inv sync_coreD(4) [OF core] dis, of n "Some 0"] False by (simp add: store_capture_def)
      then show ?thesis using stable_refl [OF core] st(2) by simp
    next
      case en: True
      show ?thesis
      proof (cases "length (contents (queues w ?q)) = capacity (queues w ?q)")
        case True
        from store_capture_full [OF core False n(1) pos en True] show ?thesis
          using fin pfn moved_bounded [OF st(1) refl] by (auto simp: frame_ok_def)
      next
        case room: False
        from store_capture_wait [OF core False n(1) pos en room] obtain w1 where
          w1: "store_capture h b n w = Some w1" "calm w w1" "client_refs w1 = client_refs w" "outside w1 = outside w" by blast
        have "stamped h w1" using st(2) by (simp add: stamped_def frame_calm [OF w1(2)])
        then show ?thesis using w1(1) calm_stable [OF core calmD(1,2) [OF w1(2)] w1(3,4)] by simp
      qed
    qed
  qed
qed

subsection \<open>The lock of a synchroniser\<close>

text \<open>The lock is none of the queues'; between the calls it is free.\<close>

definition own_lock :: "bool \<Rightarrow> ptr \<Rightarrow> 'a capturesync_world_scheme \<Rightarrow> bool" where
  "own_lock b h w \<longleftrightarrow> cs_lock (syncs w h) \<noteq> 0 \<and> other_locks w (cs_lock (syncs w h)) = Some b \<and>
     (\<forall>q \<in> qheld w. q_lock (queues w q) \<noteq> cs_lock (syncs w h))"

definition sync_inv :: "ptr \<Rightarrow> 'a capturesync_world_scheme \<Rightarrow> bool" where
  "sync_inv h w \<longleftrightarrow> sync_core h w \<and> own_lock False h w \<and> stamped h w \<and>
     (cs_running (syncs w h) \<longrightarrow> sync_settings_ok (syncs w h) \<and> cs_fps_period (syncs w h) \<noteq> 0)"

text \<open>Steps that may also count and raise or lower the flags of the start of streaming.\<close>

definition kept :: "capturesync_context_t \<Rightarrow> capturesync_context_t \<Rightarrow> bool" where
  "kept s s' \<longleftrightarrow> cs_lock s' = cs_lock s \<and> cs_running s' = cs_running s \<and> cs_fps_period s' = cs_fps_period s \<and>
     cs_fps_1_quarter_period s' = cs_fps_1_quarter_period s \<and> cs_depth_delay_off_color_usec s' = cs_depth_delay_off_color_usec s \<and>
     cs_sync_queue s' = cs_sync_queue s \<and> (\<forall>b. fi_queue (get_frame b s') = fi_queue (get_frame b s))"

definition steady :: "ptr \<Rightarrow> 'a capturesync_world_scheme \<Rightarrow> 'a capturesync_world_scheme \<Rightarrow> bool" where
  "steady h w w' \<longleftrightarrow> level w w' \<and> sync_core h w' \<and> user_refs h w' = user_refs h w \<and> user_images h w' = user_images h w \<and>
     kept (syncs w h) (syncs w' h)"

lemma stable_steady: "stable h w w' \<Longrightarrow> steady h w w'"
  using refilled_settings [of "syncs w h" "syncs w' h"] by (simp add: stable_def steady_def kept_def)

lemma steady_trans: "steady h w w1 \<Longrightarrow> steady h w1 w2 \<Longrightarrow> steady h w w2"
  unfolding steady_def using level_trans [of w w1 w2] by (simp add: kept_def)

lemma steadyD:
  assumes "steady h w w'"
  shows "sync_core h w'" "level w w'" "user_refs h w' = user_refs h w" "user_images h w' = user_images h w" "kept (syncs w h) (syncs w' h)"
  using assms by (simp_all add: steady_def)

lemma steady_settings: "steady h w w' \<Longrightarrow> sync_settings_ok (syncs w' h) = sync_settings_ok (syncs w h)"
  by (simp add: steady_def kept_def sync_settings_ok_def)

lemma own_lock_level:
  assumes "level w w'" and "cs_lock (syncs w' h) = cs_lock (syncs w h)"
  shows "own_lock b h w' = own_lock b h w"
  using levelD(5) [OF assms(1)] by (auto simp: own_lock_def levelD(2,3) [OF assms(1)] assms(2) same_setup_def)

lemma put_sync_steady:
  assumes core: "sync_core h w" and s: "kept (syncs w h) s" "cs_color s = cs_color (syncs w h)" "cs_depth_ir s = cs_depth_ir (syncs w h)"
  shows "steady h w (put_sync h s w)" and "frame b h (put_sync h s w) = frame b h w"
proof -
  show fr: "frame b h (put_sync h s w) = frame b h w" for b using s(2,3) by (simp add: frame_def get_frame_def)
  have q: "sync_queues s = sync_queues (syncs w h)" using s by (simp add: sync_queues_def kept_def)
  show "steady h w (put_sync h s w)"
    using core s(1) q sync_coreD(1) [OF core] by (simp add: steady_def sync_core_def fr user_refs_def user_images_def fun_eq_iff)
qed

lemma own_lock_held:
  assumes "sync_core h w" and "own_lock b h w"
  shows "locks w (cs_lock (syncs w h)) = Some b"
  using set_lock(6) [OF queue_invD(1) [OF sync_coreD(1) [OF assms(1)]]] assms(2) by (simp add: own_lock_def)

lemma set_own_lock:
  fixes w :: "'a capturesync_world_scheme" and b' :: bool
  assumes core: "sync_core h w" and own: "own_lock b h w"
  defines "w1 \<equiv> w\<lparr>locks := (locks w)(cs_lock (syncs w h) := Some b')\<rparr>"
  shows "sync_core h w1" and "own_lock b' h w1" and "syncs w1 = syncs w"
    and "user_refs h w1 = user_refs h w" and "user_images h w1 = user_images h w" and "image_stamps w1 = image_stamps w"
    and "queues w1 = queues w" and "qheld w1 = qheld w" and "capture_slots w1 = capture_slots w"
    and "client_refs w1 = client_refs w" and "outside w1 = outside w" and "other_locks w1 = (other_locks w)(cs_lock (syncs w h) := Some b')"
proof -
  let ?l = "cs_lock (syncs w h)"
  have l: "?l \<noteq> 0" "other_locks w ?l = Some b" "\<forall>q \<in> qheld w. q_lock (queues w q) \<noteq> ?l" using own by (simp_all add: own_lock_def)
  note inv = sync_coreD(1) [OF core]
  note set = set_lock(1-5) [where b' = b', OF queue_invD(1) [OF inv] l(2), folded w1_def]
  show sy: "syncs w1 = syncs w" by (simp add: w1_def)
  show q: "queues w1 = queues w" by (rule set(3))
  show qh: "qheld w1 = qheld w" by (rule queue_rest_qheld [OF set(4)])
  have r: "image_stamps w1 = image_stamps w" "outside w1 = outside w" "conds w1 = conds w" "capture_slots w1 = capture_slots w"
    using set(4) by (simp_all add: queue_rest_def)
  then show "image_stamps w1 = image_stamps w" "capture_slots w1 = capture_slots w" "outside w1 = outside w" by simp_all
  show cl: "client_refs w1 = client_refs w" by (simp add: client_refs_def qh q set(2) fun_eq_iff)
  have "queue_inv w1" using inv set(1,5) l(3) by (auto simp: queue_inv_def queue_ok_def qh q cl r(3))
  moreover show u: "user_refs h w1 = user_refs h w" "user_images h w1 = user_images h w"
    by (simp_all add: user_refs_def user_images_def cl r(2) frame_def sy fun_eq_iff)
  moreover have "live H_capturesync w1 h" using sync_coreD(2) [OF core] by (simp add: w1_def live_def)
  ultimately show "sync_core h w1" using core by (simp add: sync_core_def sy qh frame_def)
  show "own_lock b' h w1" using l set(5) by (simp add: own_lock_def sy qh q)
  show "other_locks w1 = (other_locks w)(?l := Some b')" by (rule set(5))
qed

lemma sync_gate_run:
  assumes core: "sync_core h w" and st: "stamped h w" and p: "cs_fps_period (syncs w h) \<noteq> 0" and n: "n \<noteq> 0" "0 < client_refs w n"
  shows "\<exists>r w'. sync_gate h b n ts w = Some (r, w') \<and> steady h w w' \<and> stamped h w'"
proof -
  let ?s = "syncs w h"
  consider "\<not> cs_sync_captures ?s \<or> cs_disable_sync ?s"
    | "\<not> (\<not> cs_sync_captures ?s \<or> cs_disable_sync ?s)" "\<not> b \<and> cs_waiting_for_clean_depth_ts ?s"
    | "\<not> (\<not> cs_sync_captures ?s \<or> cs_disable_sync ?s)" "\<not> (\<not> b \<and> cs_waiting_for_clean_depth_ts ?s)" by blast
  then show ?thesis
  proof cases
    case 1
    from push_stable [OF core n] obtain w' where w': "queue_push (cs_sync_queue ?s) n w = Some w'" "stable h w w'" "syncs w' = syncs w"
      by blast
    have "stamped h w'" using st by (simp add: stamped_def frame_def w'(3))
    then show ?thesis using 1 w' stable_steady [OF w'(2)] by (simp add: sync_gate_def Let_def)
  next
    case 2
    let ?s1 = "?s\<lparr>cs_depth_captures_dropped := cs_depth_captures_dropped ?s + 1\<rparr>" and ?s2 = "?s\<lparr>cs_waiting_for_clean_depth_ts := False\<rparr>"
    have k: "kept ?s ?s1" "kept ?s ?s2" by (simp_all add: kept_def get_frame_def)
    note u1 = put_sync_steady [OF core k(1)] and u2 = put_sync_steady [OF core k(2)]
    have "stamped h (put_sync h ?s1 w)" "stamped h (put_sync h ?s2 w)" using st u1(2) u2(2) by (simp_all add: stamped_def)
    then show ?thesis using 2 p u1(1) u2(1) by (auto simp: sync_gate_def Let_def)
  next
    case 3
    then show ?thesis using stable_steady [OF stable_refl [OF core]] st by (auto simp: sync_gate_def Let_def)
  qed
qed

lemma add_locked_run:
  assumes inv: "sync_inv h w" and bd: "stamps_bounded w" and n: "n \<noteq> 0" "0 < user_refs h w n"
  shows "\<exists>w'. add_locked h b n ts w = Some w' \<and> sync_inv h w' \<and> user_refs h w' = user_refs h w \<and> user_images h w' = user_images h w \<and>
     cs_running (syncs w' h) = cs_running (syncs w h) \<and> level w w' \<and> kept (syncs w h) (syncs w' h)"
proof -
  let ?l = "cs_lock (syncs w h)"
  have core: "sync_core h w" and own: "own_lock False h w" and st: "stamped h w"
    and run: "cs_running (syncs w h) \<Longrightarrow> sync_settings_ok (syncs w h) \<and> cs_fps_period (syncs w h) \<noteq> 0"
    using inv by (simp_all add: sync_inv_def)
  define w1 where "w1 = w\<lparr>locks := (locks w)(?l := Some True)\<rparr>"
  note s1 = set_own_lock [OF core own, of True, folded w1_def]
  have lk: "Lock ?l w = Some (LOCK_OK, w1)" using own own_lock_held [OF core own] by (simp add: Lock_free own_lock_def w1_def)
  have st1: "stamped h w1" "stamps_bounded w1" using st bd by (simp_all add: stamped_def frame_def s1(3) stamps_bounded_def s1(6))
  have u1: "0 < user_refs h w1 n" using n(2) by (simp add: s1(4))
  have pos: "0 < client_refs v n" if "0 < user_refs h v n" for v
    using that popped_nonneg [of "fi_capture (frame True h v)" n] popped_nonneg [of "fi_capture (frame False h v)" n]
    by (simp add: user_refs_def)
  have "\<exists>r w2. (if cs_running (syncs w1 h) then sync_gate h b n ts w1 else Some (ZSA_RESULT_FAILED, w1)) = Some (r, w2) \<and>
      steady h w1 w2 \<and> stamped h w2 \<and> (r = ZSA_RESULT_SUCCEEDED \<longrightarrow> cs_running (syncs w1 h))"
  proof (cases "cs_running (syncs w1 h)")
    case True
    then have "cs_fps_period (syncs w1 h) \<noteq> 0" using run by (simp add: s1(3))
    from sync_gate_run [OF s1(1) st1(1) this n(1) pos [OF u1], of b ts] show ?thesis using True by auto
  qed (use stable_steady [OF stable_refl [OF s1(1)]] st1 in simp)
  then obtain r w2 where w2: "(if cs_running (syncs w1 h) then sync_gate h b n ts w1 else Some (ZSA_RESULT_FAILED, w1)) = Some (r, w2)"
      "steady h w1 w2" "stamped h w2" "r = ZSA_RESULT_SUCCEEDED \<longrightarrow> cs_running (syncs w1 h)" by blast
  have bd2: "stamps_bounded w2" using st1(2) levelD(4) [OF steadyD(2) [OF w2(2)]] by (simp add: stamps_bounded_def)
  have "\<exists>w3. (if ZSA_SUCCEEDED r then do { w \<leftarrow> store_capture h b n w2; sync_loop h ZSA_WAIT_RESULT_SUCCEEDED w } else Some w2) = Some w3 \<and>
      steady h w2 w3 \<and> stamped h w3"
  proof (cases "ZSA_SUCCEEDED r")
    case True
    then have ok: "sync_settings_ok (syncs w2 h)" using w2(4) run steady_settings [OF w2(2)] by (simp add: succeeded_iff s1(3))
    have "0 < user_refs h w2 n" using u1 steadyD(3) [OF w2(2)] by simp
    from store_capture_run [OF steadyD(1) [OF w2(2)] bd2 w2(3) n(1) this, of b] obtain v where
      v: "store_capture h b n w2 = Some v" "stable h w2 v" "stamped h v" by blast
    have "sync_settings_ok (syncs v h)" using ok steady_settings [OF stable_steady [OF v(2)]] by simp
    from sync_loop_run [OF stableD(1) [OF v(2)] this stable_bounded [OF v(2) bd2] v(3)] obtain w3 where
      w3: "sync_loop h ZSA_WAIT_RESULT_SUCCEEDED v = Some w3" "stable h v w3" "stamped h w3" by blast
    then show ?thesis using True v(1) stable_steady [OF stable_trans [OF v(2) w3(2)]] by simp
  qed (use stable_steady [OF stable_refl [OF steadyD(1) [OF w2(2)]]] w2(3) in simp)
  then obtain w3 where w3: "(if ZSA_SUCCEEDED r then do { w \<leftarrow> store_capture h b n w2; sync_loop h ZSA_WAIT_RESULT_SUCCEEDED w } else Some w2) = Some w3"
      "steady h w2 w3" "stamped h w3" by blast
  have s3: "steady h w1 w3" by (rule steady_trans [OF w2(2) w3(2)])
  have k3: "kept (syncs w h) (syncs w3 h)" using steadyD(5) [OF s3] by (simp add: s1(3))
  then have l3: "cs_lock (syncs w3 h) = ?l" by (simp add: kept_def)
  have own3: "own_lock True h w3"
    using own_lock_level [OF steadyD(2) [OF s3], of h True] s1(2) l3 by (simp add: s1(3))
  define w4 where "w4 = w3\<lparr>locks := (locks w3)(cs_lock (syncs w3 h) := Some False)\<rparr>"
  note s4 = set_own_lock [OF steadyD(1) [OF s3] own3, of False, folded w4_def]
  have ul: "Unlock ?l w3 = Some (LOCK_OK, w4)" using own_lock_held [OF steadyD(1) [OF s3] own3] own3 by (simp add: Unlock_held own_lock_def w4_def l3)
  have "add_locked h b n ts w = Some w4"
    unfolding add_locked_def using lk w2(1) w3(1) ul by (simp add: s1(3) l3)
  moreover have "level w w4"
  proof -
    have l: "level w1 w3" by (rule steadyD(2) [OF s3])
    have "other_locks w4 = other_locks w"
      using own by (simp add: s4(12) l3 levelD(3) [OF l] s1(12) own_lock_def fun_upd_idem)
    moreover have "other_handles {H_image, H_capture} w4 = other_handles {H_image, H_capture} w" "capturesync_world.more w4 = capturesync_world.more w"
      using l by (simp_all add: level_def w1_def w4_def other_handles_def [abs_def])
    moreover have "same_setup (queues w4 k) (queues w k)" for k using levelD(5) [OF l] by (simp add: s4(7) s1(7))
    ultimately show ?thesis
      using sync_coreD(1) [OF s4(1)] levelD(2,4) [OF l] by (simp add: level_def s4(6,8) s1(6,8))
  qed
  moreover have "stamped h w4" using w3(3) by (simp add: stamped_def frame_def s4(3))
  moreover have "cs_running (syncs w4 h) \<longrightarrow> sync_settings_ok (syncs w4 h) \<and> cs_fps_period (syncs w4 h) \<noteq> 0"
    using run k3 steady_settings [OF s3] by (simp add: s4(3) s1(3) kept_def)
  ultimately show ?thesis
    using s4(1-5) steadyD(3,4) [OF s3] s1(4,5) k3 by (intro exI [of _ w4]) (simp add: sync_inv_def kept_def)
qed

subsection \<open>Whole calls\<close>

lemma steady_inv:
  assumes inv: "sync_inv h w" and st: "steady h w w'" "stamped h w'"
  shows "sync_inv h w'" and "cs_running (syncs w' h) = cs_running (syncs w h)"
proof -
  have k: "kept (syncs w h) (syncs w' h)" by (rule steadyD(5) [OF st(1)])
  then show "cs_running (syncs w' h) = cs_running (syncs w h)" by (simp add: kept_def)
  have "own_lock False h w'" using inv own_lock_level [OF steadyD(2) [OF st(1)], of h False] k by (simp add: sync_inv_def kept_def)
  then show "sync_inv h w'"
    using inv st(2) steadyD(1) [OF st(1)] steady_settings [OF st(1)] k by (simp add: sync_inv_def kept_def)
qed

text \<open>What comes before the lock: reading the timestamp of the capture.\<close>

lemma add_capture_read:
  fixes w :: "'a capturesync_world_scheme" and n :: ptr and b :: bool
  assumes inv: "sync_inv h w" and n: "n \<noteq> 0" "0 < user_refs h w n"
  defines "i \<equiv> capture_slots w n (sensor_slot b)"
  shows "\<exists>w'. capturesync_add_capture others h ZSA_RESULT_SUCCEEDED n b w =
       (if i = 0 then Some w' else add_locked h b n (image_stamps w i) w') \<and>
     stable h w w' \<and> sync_inv h w' \<and> syncs w' = syncs w \<and> queues w' = queues w \<and> capture_slots w' = capture_slots w"
proof -
  have core: "sync_core h w" and st: "stamped h w" using inv by (simp_all add: sync_inv_def)
  note q = sync_coreD(1) [OF core]
  have live: "live H_capturesync w h" "h \<noteq> 0" using sync_coreD(2) [OF core] by (simp_all add: live_def)
  have pos: "0 < client_refs w n"
    using n(2) popped_nonneg [of "fi_capture (frame True h w)" n] popped_nonneg [of "fi_capture (frame False h w)" n]
    by (simp add: user_refs_def)
  from sync_get_image [OF q client_refs_pos(2) [OF q pos], of "sensor_slot b", folded i_def] obtain w1 where
    w1: "capture_get_image (sensor_slot b) n w = Some (i, w1)" "calm w w1" "client_refs w1 = client_refs w"
      "outside w1 = (\<lambda>k. outside w k + popped i k)" "queues w1 = queues w" by blast
  have get: "(if b then capture_get_color_image n w else capture_get_ir_image n w) = Some (i, w1)"
    using w1(1) by (simp add: sensor_slot_def capture_get_color_image_def capture_get_ir_image_def split: if_splits)
  have cov: "popped i i \<le> outside w1 i"
    using capture_invD(3) [OF queue_invD(1) [OF q], of i] by (simp add: w1(4))
  note inv1 = calmD(3) [OF w1(2)]
  from sync_image_release [OF inv1 cov] obtain w2 where w2: "image_dec_ref i w1 = Some w2" "calm w1 w2"
    "client_refs w2 = client_refs w" "outside w2 = outside w" "queues w2 = queues w" by (auto simp: w1(3-5))
  have sy: "syncs w2 = syncs w" "capture_slots w2 = capture_slots w" using calmD(2,4) [OF w1(2)] calmD(2,4) [OF w2(2)] by simp_all
  note s2 = calm_stable [OF core level_step [OF calmD(1) [OF w1(2)] w2(2)] sy(1) w2(3,4)]
  have "stamped h w2" using st by (simp add: stamped_def frame_def sy(1))
  then have inv2: "sync_inv h w2" using steady_inv [OF inv stable_steady [OF s2]] by blast
  have "image_get_device_timestamp_usec i w1 = Some (if i = 0 then 0 else image_stamps w i)"
    using sync_stamp [OF inv1 cov] levelD(4) [OF calmD(1) [OF w1(2)]] by simp
  then have "capturesync_add_capture others h ZSA_RESULT_SUCCEEDED n b w = (if i = 0 then Some w2 else add_locked h b n (image_stamps w i) w2)"
    using live n(1) get w2(1) by (cases "i = 0") (simp_all add: capturesync_add_capture_def)
  then show ?thesis using s2 inv2 sy w2(5) by blast
qed

lemma add_capture_run:
  assumes inv: "sync_inv h w" and bd: "stamps_bounded w" and n: "n = 0 \<or> 0 < user_refs h w n"
  shows "\<exists>w'. capturesync_add_capture others h ZSA_RESULT_SUCCEEDED n b w = Some w' \<and> sync_inv h w' \<and>
     user_refs h w' = user_refs h w \<and> user_images h w' = user_images h w \<and> cs_running (syncs w' h) = cs_running (syncs w h) \<and>
     level w w' \<and> kept (syncs w h) (syncs w' h)"
proof (cases "n = 0")
  case True
  have "live H_capturesync w h" "h \<noteq> 0" using sync_coreD(2) inv by (auto simp: sync_inv_def live_def)
  then have "capturesync_add_capture others h ZSA_RESULT_SUCCEEDED n b w = Some w"
    using True by (simp add: capturesync_add_capture_def)
  moreover have "level w w" using sync_coreD(1) inv by (auto simp: sync_inv_def)
  ultimately show ?thesis using inv by (simp add: kept_def)
next
  case False
  let ?i = "capture_slots w n (sensor_slot b)"
  have u: "0 < user_refs h w n" using n False by simp
  from add_capture_read [OF inv False u, of others b] obtain w2 where
    w2: "capturesync_add_capture others h ZSA_RESULT_SUCCEEDED n b w = (if ?i = 0 then Some w2 else add_locked h b n (image_stamps w ?i) w2)"
      "stable h w w2" "sync_inv h w2" "syncs w2 = syncs w" by blast
  have "0 < user_refs h w2 n" using u stableD(3) [OF w2(2)] by simp
  from add_locked_run [OF w2(3) stable_bounded [OF w2(2) bd] False this, of b "image_stamps w ?i"] obtain w3 where
    "add_locked h b n (image_stamps w ?i) w2 = Some w3" "sync_inv h w3" "user_refs h w3 = user_refs h w2" "user_images h w3 = user_images h w2"
      "cs_running (syncs w3 h) = cs_running (syncs w2 h)" "level w2 w3" "kept (syncs w2 h) (syncs w3 h)" by blast
  moreover from this have "level w w3" using level_trans [OF stableD(2) [OF w2(2)]] by blast
  ultimately show ?thesis using w2 stableD(2,3,4) [OF w2(2)] by (cases "?i = 0") (simp_all add: kept_def)
qed

text \<open>What the calls of a synchroniser leave alone: the state of the components above it, their handles and their locks.\<close>

definition beside :: "'a capturesync_world_scheme \<Rightarrow> 'a capturesync_world_scheme \<Rightarrow> bool" where
  "beside w w' \<longleftrightarrow> capturesync_world.more w' = capturesync_world.more w \<and> other_locks w' = other_locks w \<and>
     other_handles {H_image, H_capture} w' = other_handles {H_image, H_capture} w"

text \<open>A queue of the synchroniser is disabled while nobody waits for it.\<close>

definition idle :: "ptr \<Rightarrow> 'a capturesync_world_scheme \<Rightarrow> bool" where
  "idle h w \<longleftrightarrow> (\<forall>q \<in> set (sync_queues (syncs w h)). queue_pop_blocked (queues w q) = 0)"

text \<open>Operations on some queues, after which each of them has property \<open>P\<close>, that move no reference of a client.\<close>

definition touched :: "(queue_context_t \<Rightarrow> bool) \<Rightarrow> ptr set \<Rightarrow> 'a capturesync_world_scheme \<Rightarrow> 'a capturesync_world_scheme \<Rightarrow> bool" where
  "touched P Q w w' \<longleftrightarrow> queue_inv w' \<and> syncs w' = syncs w \<and> capturesync_world.more w' = capturesync_world.more w \<and> qheld w' = qheld w \<and> other_locks w' = other_locks w \<and>
     other_handles {H_image, H_capture} w' = other_handles {H_image, H_capture} w \<and> image_stamps w' = image_stamps w \<and>
     capture_slots w' = capture_slots w \<and> client_refs w' = client_refs w \<and> outside w' = outside w \<and>
     (\<forall>k. q_lock (queues w' k) = q_lock (queues w k) \<and> queue_pop_blocked (queues w' k) = queue_pop_blocked (queues w k) \<and>
       q_depth (queues w' k) = q_depth (queues w k)) \<and>
     (\<forall>k. k \<notin> Q \<longrightarrow> queues w' k = queues w k) \<and> (\<forall>k \<in> Q. P (queues w' k))"

abbreviation shut :: "ptr set \<Rightarrow> 'a capturesync_world_scheme \<Rightarrow> 'a capturesync_world_scheme \<Rightarrow> bool" where
  "shut \<equiv> touched (\<lambda>q. \<not> q_enabled q \<and> contents q = [])"

lemma touched_trans: "touched P Q w w1 \<Longrightarrow> touched P R w1 w2 \<Longrightarrow> touched P (Q \<union> R) w w2"
  unfolding touched_def by (metis (no_types, lifting) UnE UnI1 UnI2)

lemma touched_core:
  assumes "touched P Q w w'" and "sync_core h w"
  shows "sync_core h w'" and "user_refs h w' = user_refs h w" and "user_images h w' = user_images h w" and "frame b h w' = frame b h w"
    and "own_lock c h w' = own_lock c h w" and "stamped h w' = stamped h w" and "idle h w' = idle h w"
proof -
  have s: "syncs w' = syncs w" and live: "live H_capturesync w' h = live H_capturesync w h"
    using assms(1) live_other [of "{H_image, H_capture}" w' w H_capturesync h] by (simp_all add: touched_def)
  show fr: "frame b h w' = frame b h w" for b by (simp add: frame_def s)
  show u: "user_refs h w' = user_refs h w" "user_images h w' = user_images h w"
    using assms(1) by (simp_all add: user_refs_def user_images_def fr touched_def fun_eq_iff)
  show "sync_core h w'" using assms u live by (simp add: sync_core_def touched_def fr)
  show "own_lock c h w' = own_lock c h w" "stamped h w' = stamped h w" "idle h w' = idle h w"
    using assms(1) by (simp_all add: own_lock_def stamped_def idle_def touched_def fr)
qed

lemma queue_disable_shut:
  assumes inv: "queue_inv w" and q: "q \<in> qheld w" "queue_pop_blocked (queues w q) = 0"
  shows "\<exists>w'. queue_disable others q w = Some w' \<and> shut {q} w w'"
proof -
  from queue_disable_run [OF inv q(1), of others] q(2) obtain w' where
    w': "queue_disable others q w = Some w'" "queue_inv w'" "contents (queues w' q) = []" "\<not> q_enabled (queues w' q)"
      "client_refs w' = client_refs w" "qheld w' = qheld w" "queue_rest w' = queue_rest w" "other_locks w' = other_locks w"
      "\<forall>k. k \<noteq> q \<longrightarrow> queues w' k = queues w k" "same_setup (queues w' q) ((queues w q)\<lparr>q_enabled := False\<rparr>)" by auto
  have r: "queue_world.more w' = queue_world.more w" "image_stamps w' = image_stamps w" "outside w' = outside w"
      "other_handles {H_image, H_capture} w' = other_handles {H_image, H_capture} w" "capture_slots w' = capture_slots w"
    using w'(7) by (simp_all add: queue_rest_def)
  have "q_lock (queues w' k) = q_lock (queues w k) \<and> queue_pop_blocked (queues w' k) = queue_pop_blocked (queues w k) \<and>
       q_depth (queues w' k) = q_depth (queues w k)" for k
    using w'(9,10) by (cases "k = q") (simp_all add: same_setup_def)
  then show ?thesis using w' r more_syncs [OF r(1)] by (simp add: touched_def)
qed

lemma queue_stop_shut:
  assumes inv: "queue_inv w" and q: "q \<in> qheld w" "queue_pop_blocked (queues w q) = 0"
  shows "\<exists>w'. queue_stop others q w = Some w' \<and> shut {q} w w'"
proof -
  let ?q = "(queues w q)\<lparr>q_stopped := True\<rparr>"
  have "ring_ok ?q" "contents ?q = contents (queues w q)" "q_lock ?q = q_lock (queues w q)" "q_condition ?q = q_condition (queues w q)"
    using queue_invD(4) [OF inv q(1)] by (simp_all add: queue_ok_def)
  from queue_flags_section [OF inv q(1) this] obtain w1 v where
    v: "Lock (q_lock (queues w q)) w = Some (LOCK_OK, w1)" "queues w1 = queues w"
      "Unlock (q_lock ?q) (put_queue q ?q w1) = Some (LOCK_OK, v)" "queue_inv v" "queues v = (queues w)(q := ?q)"
      "client_refs v = client_refs w" "qheld v = qheld w" "queue_rest v = queue_rest w" "other_locks v = other_locks w" by metis
  have "q \<in> qheld v" "queue_pop_blocked (queues v q) = 0" using q v(5,7) by simp_all
  from queue_disable_shut [OF v(4) this, of others] obtain w' where w': "queue_disable others q v = Some w'" "shut {q} v w'" by blast
  have "queue_stop others q w = Some w'" using q(1) v(1,2,3) w'(1) by (simp add: queue_stop_def qheld_def)
  moreover have r: "queue_world.more v = queue_world.more w" "image_stamps v = image_stamps w" "outside v = outside w"
      "other_handles {H_image, H_capture} v = other_handles {H_image, H_capture} w" "capture_slots v = capture_slots w"
    using v(8) by (simp_all add: queue_rest_def)
  have "shut {q} w w'" using w'(2) v(4-9) r more_syncs [OF r(1)] by (auto simp: touched_def)
  ultimately show ?thesis by blast
qed

text \<open>Three queues in a row, with an operation that touches each of them.\<close>

lemma touched_three:
  fixes w :: "'a capturesync_world_scheme"
  assumes op: "\<And>(w :: 'a capturesync_world_scheme) q. queue_inv w \<Longrightarrow> q \<in> qheld w \<Longrightarrow> queue_pop_blocked (queues w q) = 0 \<Longrightarrow>
      \<exists>w'. f q w = Some w' \<and> touched P {q} w w'"
    and inv: "queue_inv w" and Q: "\<forall>q \<in> {a, b, c}. q \<in> qheld w \<and> queue_pop_blocked (queues w q) = 0"
  shows "\<exists>w1 w2 w3. f a w = Some w1 \<and> f b w1 = Some w2 \<and> f c w2 = Some w3 \<and> syncs w1 = syncs w \<and> syncs w2 = syncs w \<and>
     touched P {a, b, c} w w3"
proof -
  have next_op: "\<exists>v'. f q v = Some v' \<and> touched P {q} v v'" if "touched P S w v" "q \<in> {a, b, c}" for S v q
  proof -
    have "queue_inv v" "q \<in> qheld v" "queue_pop_blocked (queues v q) = 0" using that Q by (auto simp: touched_def)
    then show ?thesis by (rule op)
  qed
  from op [OF inv] Q obtain w1 where w1: "f a w = Some w1" "touched P {a} w w1" by blast
  from next_op [OF w1(2)] obtain w2 where w2: "f b w1 = Some w2" "touched P {b} w1 w2" by blast
  note s2 = touched_trans [OF w1(2) w2(2)]
  from next_op [OF s2] obtain w3 where w3: "f c w2 = Some w3" "touched P {c} w2 w3" by blast
  have "touched P {a, b, c} w w3" using touched_trans [OF s2 w3(2)] by (simp add: insert_commute)
  then show ?thesis using w1 w2 w3 by (auto simp: touched_def)
qed

lemma idle_queues:
  assumes "sync_core h w" and "idle h w"
  shows "\<forall>q \<in> set (sync_queues (syncs w h)). q \<in> qheld w \<and> queue_pop_blocked (queues w q) = 0"
  using assms by (auto simp: sync_core_def idle_def)

lemma add_capture_error_run:
  assumes inv: "sync_inv h w" and idle: "idle h w"
  shows "\<exists>w'. capturesync_add_capture others h ZSA_RESULT_FAILED n b w = Some w' \<and> shut (set (sync_queues (syncs w h))) w w' \<and> sync_inv h w'"
proof -
  let ?s = "syncs w h"
  have core: "sync_core h w" using inv by (simp add: sync_inv_def)
  have "\<forall>q \<in> {cs_sync_queue ?s, fi_queue (cs_depth_ir ?s), fi_queue (cs_color ?s)}. q \<in> qheld w \<and> queue_pop_blocked (queues w q) = 0"
    using idle_queues [OF core idle] by (auto simp: sync_queues_def)
  from touched_three [where f = "\<lambda>q. queue_stop (others q) q", OF queue_stop_shut sync_coreD(1) [OF core] this] obtain w1 w2 w3 where
    w3: "queue_stop (others (cs_sync_queue ?s)) (cs_sync_queue ?s) w = Some w1"
      "queue_stop (others (fi_queue (cs_depth_ir ?s))) (fi_queue (cs_depth_ir ?s)) w1 = Some w2"
      "queue_stop (others (fi_queue (cs_color ?s))) (fi_queue (cs_color ?s)) w2 = Some w3"
      "shut {cs_sync_queue ?s, fi_queue (cs_depth_ir ?s), fi_queue (cs_color ?s)} w w3" by blast
  have live: "live H_capturesync w h" "h \<noteq> 0" using sync_coreD(2) [OF core] by (simp_all add: live_def)
  have run: "capturesync_add_capture others h ZSA_RESULT_FAILED n b w = Some w3"
    using live w3(1-3) by (simp add: capturesync_add_capture_def)
  have "shut (set (sync_queues ?s)) w w3" using w3(4) by (simp add: sync_queues_def insert_commute)
  moreover from this have "sync_inv h w3"
    using inv touched_core [OF _ core] by (simp add: sync_inv_def) (simp add: touched_def)
  ultimately show ?thesis using run by blast
qed

subsection \<open>Stopping\<close>

lemma release_frame_run:
  assumes core: "sync_core h w"
  shows "\<exists>w' g. release_frame h b w = Some w' \<and> moved b h g w w' \<and> frame_ok b g \<and> fi_queue g = fi_queue (frame b h w) \<and>
     fi_capture g = 0 \<and> fi_image g = 0 \<and> queues w' = queues w"
proof -
  let ?f = "frame b h w"
  have ok: "frame_ok b ?f" using core by (simp add: sync_core_def)
  note inv = sync_coreD(1) [OF core]
  show ?thesis
  proof (cases "fi_capture ?f = 0")
    case True
    then have "release_frame h b w = Some w" using ok by (simp add: release_frame_def frame_ok_def)
    moreover have "moved b h ?f w w" using inv by (simp add: moved_def frame_def)
    ultimately show ?thesis using True ok by (auto simp: frame_ok_def)
  next
    case False
    from sync_capture_ref(1) [OF inv frame_covered(3) [OF core False]] False obtain w1 where
      w1: "capture_dec_ref (fi_capture ?f) w = Some w1" "calm w w1" "client_refs w1 = (\<lambda>k. client_refs w k - popped (fi_capture ?f) k)"
        "outside w1 = outside w" "queues w1 = queues w" by (auto simp: popped_def fun_eq_iff)
    let ?g = "?f\<lparr>fi_capture := 0, fi_ts := UINT64_MAX\<rparr>"
    let ?w2 = "put_frame b h ?g w1"
    have "queue_inv ?w2" "popped (fi_image ?f) (fi_image ?f) \<le> outside ?w2 (fi_image ?f)"
      using calmD(3) [OF w1(2)] frame_covered(2) [OF core] by (simp_all add: put_frame_frame w1(4))
    from sync_image_release [OF this] obtain w3 where
      w3: "image_dec_ref (fi_image ?f) ?w2 = Some w3" "calm ?w2 w3" "client_refs w3 = client_refs w1"
        "outside w3 = (\<lambda>k. outside w k - popped (fi_image ?f) k)" "queues w3 = queues w"
      by (auto simp: put_frame_frame w1(4,5))
    let ?w4 = "put_frame b h (?g\<lparr>fi_image := 0\<rparr>) w3"
    have fr: "frame b h w1 = ?f" "frame b h w3 = ?g" using frame_calm [OF w1(2)] frame_calm [OF w3(2)] by simp_all
    have same: "fi_image ?f = 0 \<Longrightarrow> ?g\<lparr>fi_image := 0\<rparr> = ?g" by (cases ?f) simp
    have "?w4 = ?w2" if z: "fi_image ?f = 0"
    proof -
      have "w3 = ?w2" using w3(1) z by simp
      then show ?thesis by (simp only: same [OF z] put_frame_twice)
    qed
    then have "release_frame h b w = Some ?w4"
      using False w1(1) w3(1) fr by (cases "fi_image ?f = 0") (simp_all add: release_frame_def)
    moreover have "moved b h (?g\<lparr>fi_image := 0\<rparr>) w ?w4"
      using level_step [OF _ w3(2)] calmD(1,2,4) [OF w1(2)] calmD(2,4) [OF w3(2)] w3(3,4) w1(3)
      by (simp add: moved_def put_frame_frame)
    ultimately show ?thesis using ok w3(5) by (intro exI [of _ ?w4] exI [of _ "?g\<lparr>fi_image := 0\<rparr>"]) (simp add: frame_ok_def put_frame_frame)
  qed
qed

text \<open>The flag of a synchroniser that is being stopped.\<close>

lemma stop_flag:
  fixes w :: "'a capturesync_world_scheme"
  assumes core: "sync_core h w"
  defines "v \<equiv> put_sync h ((syncs w h)\<lparr>cs_running := False\<rparr>) w"
  shows "sync_core h v" and "frame b h v = frame b h w" and "user_refs h v = user_refs h w" and "user_images h v = user_images h w"
    and "idle h v = idle h w" and "own_lock c h v = own_lock c h w" and "stamped h v = stamped h w"
proof -
  show fr: "frame b h v = frame b h w" for b by (simp add: v_def frame_def get_frame_def)
  show u: "user_refs h v = user_refs h w" "user_images h v = user_images h w"
    by (simp_all add: user_refs_def user_images_def fr fun_eq_iff) (simp_all add: v_def)
  have q: "sync_queues (syncs v h) = sync_queues (syncs w h)" by (simp add: v_def sync_queues_def)
  show "sync_core h v" using core by (simp add: sync_core_def fr u q) (simp add: v_def)
  show "idle h v = idle h w" "own_lock c h v = own_lock c h w" "stamped h v = stamped h w"
    by (simp_all add: idle_def own_lock_def stamped_def q fr) (simp_all add: v_def)
qed

lemma capturesync_stop_run:
  assumes inv: "sync_inv h w" and idle: "idle h w"
  shows "\<exists>w'. capturesync_stop others h w = Some w' \<and> sync_inv h w' \<and> \<not> cs_running (syncs w' h) \<and>
     (\<forall>b. fi_capture (frame b h w') = 0 \<and> fi_image (frame b h w') = 0) \<and>
     sync_queues (syncs w' h) = sync_queues (syncs w h) \<and>
     (\<forall>q \<in> set (sync_queues (syncs w h)). \<not> q_enabled (queues w' q) \<and> contents (queues w' q) = []) \<and>
     user_refs h w' = user_refs h w \<and> user_images h w' = user_images h w \<and> idle h w' \<and> beside w w' \<and>
     (\<forall>k. q_lock (queues w' k) = q_lock (queues w k)) \<and> cs_lock (syncs w' h) = cs_lock (syncs w h)"
proof -
  let ?l = "cs_lock (syncs w h)"
  have core: "sync_core h w" and own: "own_lock False h w" using inv by (simp_all add: sync_inv_def)
  define w1 where "w1 = w\<lparr>locks := (locks w)(?l := Some True)\<rparr>"
  note s1 = set_own_lock [OF core own, of True, folded w1_def]
  have lk: "Lock ?l w = Some (LOCK_OK, w1)" using own own_lock_held [OF core own] by (simp add: Lock_free own_lock_def w1_def)
  define w2 where "w2 = put_sync h ((syncs w1 h)\<lparr>cs_running := False\<rparr>) w1"
  note s2 = stop_flag [OF s1(1), folded w2_def]
  let ?s = "syncs w2 h"
  have ss: "?s = (syncs w h)\<lparr>cs_running := False\<rparr>" by (simp add: w2_def s1(3))
  have id2: "idle h w2" using idle by (simp add: s2(5)) (simp add: idle_def s1(3,7))
  note iq = idle_queues [OF s2(1) id2]
  have "\<forall>q \<in> {fi_queue (cs_color ?s), fi_queue (cs_depth_ir ?s), cs_sync_queue ?s}. q \<in> qheld w2 \<and> queue_pop_blocked (queues w2 q) = 0"
    using iq by (auto simp: sync_queues_def)
  from touched_three [where f = "\<lambda>q. queue_disable (others q) q", OF queue_disable_shut sync_coreD(1) [OF s2(1)] this] obtain w3 w4 w5 where
    d: "queue_disable (others (fi_queue (cs_color ?s))) (fi_queue (cs_color ?s)) w2 = Some w3"
      "queue_disable (others (fi_queue (cs_depth_ir ?s))) (fi_queue (cs_depth_ir ?s)) w3 = Some w4"
      "queue_disable (others (cs_sync_queue ?s)) (cs_sync_queue ?s) w4 = Some w5" "syncs w3 = syncs w2" "syncs w4 = syncs w2"
      "shut {fi_queue (cs_color ?s), fi_queue (cs_depth_ir ?s), cs_sync_queue ?s} w2 w5" by blast
  note s5 = touched_core [OF d(6) s2(1)]
  have nz: "fi_queue (cs_color ?s) \<noteq> 0" "fi_queue (cs_depth_ir ?s) \<noteq> 0" "cs_sync_queue ?s \<noteq> 0"
    using iq by (auto simp: sync_queues_def qheld_def live_def)
  have sy5: "syncs w5 = syncs w2" using d(6) by (simp add: touched_def)
  from release_frame_run [OF s5(1), of True] obtain w6 g6 where
    w6: "release_frame h True w5 = Some w6" "moved True h g6 w5 w6" "frame_ok True g6" "fi_queue g6 = fi_queue (frame True h w5)"
      "fi_capture g6 = 0" "fi_image g6 = 0" "queues w6 = queues w5" by blast
  note s6 = moved_stable [OF s5(1) w6(2-4)]
  from release_frame_run [OF stableD(1) [OF s6(1)], of False] obtain w7 g7 where
    w7: "release_frame h False w6 = Some w7" "moved False h g7 w6 w7" "frame_ok False g7" "fi_queue g7 = fi_queue (frame False h w6)"
      "fi_capture g7 = 0" "fi_image g7 = 0" "queues w7 = queues w6" by blast
  note s7 = moved_stable [OF stableD(1) [OF s6(1)] w7(2-4)]
  note st7 = stable_trans [OF s6(1) s7(1)]
  note set7 = refilled_settings [OF stableD(5) [OF st7]]
  have own5: "own_lock True h w5" using s1(2) by (simp add: s5(5) s2(6))
  have l7: "cs_lock (syncs w7 h) = ?l" by (simp add: set7(7) sy5 ss)
  have own7: "own_lock True h w7"
    using own_lock_level [OF stableD(2) [OF st7], of h True] own5 l7 by (simp add: sy5 ss)
  define w8 where "w8 = w7\<lparr>locks := (locks w7)(cs_lock (syncs w7 h) := Some False)\<rparr>"
  note s8 = set_own_lock [OF stableD(1) [OF st7] own7, of False, folded w8_def]
  have ul: "Unlock ?l w7 = Some (LOCK_OK, w8)"
    using own_lock_held [OF stableD(1) [OF st7] own7] own7 by (simp add: Unlock_held own_lock_def w8_def l7)
  have live: "live H_capturesync w h" by (rule sync_coreD(2) [OF core])
  have "capturesync_stop others h w = Some w8"
    using live lk d(1-3) nz w6(1) w7(1) ul
    by (simp add: capturesync_stop_def w2_def [unfolded s1(3), symmetric] disable_if_any_def d(4,5) l7 ss s1(3))
  moreover have fr: "fi_capture (frame b h w8) = 0 \<and> fi_image (frame b h w8) = 0" for b
    using w6(5,6) w7(5,6) s6(2) s7(2,3) by (cases b) (simp_all add: frame_def s8(3))
  moreover have q8: "sync_queues (syncs w8 h) = sync_queues (syncs w h)"
    using set7(1) set7(11) [of True] set7(11) [of False] by (simp add: sync_queues_def s8(3) get_frame_def sy5 ss)
  moreover have r8: "\<not> cs_running (syncs w8 h)" by (simp add: s8(3) set7(6) sy5 ss)
  moreover have "sync_inv h w8" using s8(1,2) r8 fr by (simp add: sync_inv_def stamped_def)
  moreover have "\<forall>q \<in> set (sync_queues (syncs w h)). \<not> q_enabled (queues w8 q) \<and> contents (queues w8 q) = []"
    using d(6) by (simp add: touched_def s8(7) w7(7) w6(7) sync_queues_def ss)
  moreover have "user_refs h w8 = user_refs h w" "user_images h w8 = user_images h w"
    using stableD(3,4) [OF st7] by (simp_all add: s8(4,5) s5(2,3) s2(3,4) s1(4,5))
  moreover have "idle h w8"
    using id2 touched_core(7) [OF d(6) s2(1)] by (simp add: idle_def q8 s8(7) w7(7) w6(7)) (simp add: sync_queues_def sy5 ss)
  moreover have ol7: "other_locks w7 = (other_locks w)(?l := Some True)"
    using levelD(3) [OF stableD(2) [OF st7]] d(6) by (simp add: touched_def w2_def s1(12))
  have "other_locks w8 = other_locks w"
    using own by (simp add: s8(12) l7 ol7 own_lock_def fun_upd_idem_iff)
  then have "beside w w8" using stableD(2) [OF st7] d(6)
    by (simp add: beside_def level_def touched_def w8_def w2_def w1_def other_handles_def [abs_def])
  moreover have "\<forall>k. q_lock (queues w8 k) = q_lock (queues w k)" "cs_lock (syncs w8 h) = ?l"
    using d(6) l7 by (simp_all add: touched_def s8(3,7) w7(7) w6(7) w2_def s1(7))
  ultimately show ?thesis by blast
qed

subsection \<open>Starting\<close>

lemma queue_enable_touched:
  assumes inv: "queue_inv w" and q: "q \<in> qheld w" "queue_pop_blocked (queues w q) = 0"
  shows "\<exists>w'. queue_enable q w = Some w' \<and> touched q_enabled {q} w w'"
proof -
  from queue_enable_run [OF inv q(1)] obtain w' where
    w': "queue_enable q w = Some w'" "queue_inv w'" "client_refs w' = client_refs w" "qheld w' = qheld w" "queue_rest w' = queue_rest w"
      "other_locks w' = other_locks w" "queues w' = (queues w)(q := (queues w q)\<lparr>q_enabled := True, q_stopped := False\<rparr>)" by blast
  have r: "queue_world.more w' = queue_world.more w" "image_stamps w' = image_stamps w" "outside w' = outside w"
      "other_handles {H_image, H_capture} w' = other_handles {H_image, H_capture} w" "capture_slots w' = capture_slots w"
    using w'(5) by (simp_all add: queue_rest_def)
  then show ?thesis using w' more_syncs [OF r(1)] by (simp add: touched_def)
qed

text \<open>The settings of a start: the frame period in microseconds and whether both sensors deliver.\<close>

definition started_with :: "zsa_device_configuration_t \<Rightarrow> u32 \<Rightarrow> capturesync_context_t \<Rightarrow> capturesync_context_t \<Rightarrow> bool" where
  "started_with cfg fps s s' \<longleftrightarrow> cs_running s' \<and> cs_waiting_for_clean_depth_ts s' \<and>
     uint (cs_fps_period s') = 1000000 div uint fps \<and> cs_fps_1_quarter_period s' = cs_fps_period s' div 4 \<and>
     cs_depth_delay_off_color_usec s' = cfg_depth_delay_off_color_usec cfg \<and>
     (cs_sync_captures s' \<longleftrightarrow> cfg_color_resolution cfg \<noteq> ZSA_COLOR_RESOLUTION_OFF \<and> cfg_depth_mode cfg \<noteq> ZSA_DEPTH_MODE_OFF) \<and>
     cs_synchronized_images_only s' = cfg_synchronized_images_only cfg \<and>
     sync_queues s' = sync_queues s \<and> cs_color s' = cs_color s \<and> cs_depth_ir s' = cs_depth_ir s \<and> cs_lock s' = cs_lock s"

lemma period_bounds:
  assumes "zsa_convert_fps_to_uint f = Some fps"
  shows "0 < fps" and "uint (ucast (1000000 div fps) :: u64) = 1000000 div uint fps" and "0 < uint (ucast (1000000 div fps) :: u64)"
    and "uint (ucast (1000000 div fps) :: u64) < 2 ^ 32"
  using assms by (cases f; simp)+

lemma put_sync_settings:
  fixes w :: "'a capturesync_world_scheme"
  assumes core: "sync_core h w" and s: "sync_queues s = sync_queues (syncs w h)" "cs_color s = cs_color (syncs w h)" "cs_depth_ir s = cs_depth_ir (syncs w h)"
    "cs_lock s = cs_lock (syncs w h)"
  shows "sync_core h (put_sync h s w)" and "frame b h (put_sync h s w) = frame b h w"
    and "own_lock c h (put_sync h s w) = own_lock c h w" and "stamped h (put_sync h s w) = stamped h w"
    and "idle h (put_sync h s w) = idle h w" and "user_refs h (put_sync h s w) = user_refs h w" and "user_images h (put_sync h s w) = user_images h w"
proof -
  show fr: "frame b h (put_sync h s w) = frame b h w" for b using s(2,3) by (simp add: frame_def get_frame_def)
  show u: "user_refs h (put_sync h s w) = user_refs h w" "user_images h (put_sync h s w) = user_images h w"
    by (simp_all add: user_refs_def user_images_def fr fun_eq_iff)
  show "sync_core h (put_sync h s w)" using core s(1) by (simp add: sync_core_def fr u)
  show "own_lock c h (put_sync h s w) = own_lock c h w" "stamped h (put_sync h s w) = stamped h w" "idle h (put_sync h s w) = idle h w"
    using s(1,4) by (simp_all add: own_lock_def stamped_def idle_def fr)
qed

lemma capturesync_start_run:
  assumes inv: "sync_inv h w" and idle: "idle h w" and f: "zsa_convert_fps_to_uint (cfg_camera_fps cfg) = Some fps"
    and d: "is_int32 (cfg_depth_delay_off_color_usec cfg)"
  shows "\<exists>w'. capturesync_start h (Some cfg) w = Some (ZSA_RESULT_SUCCEEDED, w') \<and> sync_inv h w' \<and>
     started_with cfg fps (syncs w h) (syncs w' h) \<and> (\<forall>q \<in> set (sync_queues (syncs w h)). q_enabled (queues w' q)) \<and>
     user_refs h w' = user_refs h w \<and> user_images h w' = user_images h w \<and> idle h w' \<and> beside w w'"
proof -
  have core: "sync_core h w" using inv by (simp add: sync_inv_def)
  note p = period_bounds [OF f]
  let ?p = "ucast (1000000 div fps) :: u64"
  define s where "s = (syncs w h)\<lparr>cs_waiting_for_clean_depth_ts := True, cs_synchronized_images_only := cfg_synchronized_images_only cfg,
    cs_fps_period := ?p, cs_fps_1_quarter_period := ?p div 4, cs_depth_delay_off_color_usec := cfg_depth_delay_off_color_usec cfg,
    cs_sync_captures := \<not> (cfg_color_resolution cfg = ZSA_COLOR_RESOLUTION_OFF \<or> cfg_depth_mode cfg = ZSA_DEPTH_MODE_OFF)\<rparr>"
  let ?w1 = "put_sync h s w"
  have ss: "sync_queues s = sync_queues (syncs w h)" "cs_color s = cs_color (syncs w h)" "cs_depth_ir s = cs_depth_ir (syncs w h)"
    "cs_lock s = cs_lock (syncs w h)" "cs_sync_queue s = cs_sync_queue (syncs w h)" by (simp_all add: s_def sync_queues_def)
  note u = put_sync_settings [OF core ss(1-4)]
  have sy: "syncs ?w1 h = s" by simp
  have "\<forall>q \<in> {fi_queue (cs_color s), fi_queue (cs_depth_ir s), cs_sync_queue s}. q \<in> qheld ?w1 \<and> queue_pop_blocked (queues ?w1 q) = 0"
    using idle_queues [OF u(1)] idle u(5) by (auto simp: sync_queues_def)
  from touched_three [where f = queue_enable, OF queue_enable_touched sync_coreD(1) [OF u(1)] this] obtain w2 w3 w4 where
    w4: "queue_enable (fi_queue (cs_color s)) ?w1 = Some w2" "queue_enable (fi_queue (cs_depth_ir s)) w2 = Some w3"
      "queue_enable (cs_sync_queue s) w3 = Some w4" "syncs w2 = syncs ?w1" "syncs w3 = syncs ?w1"
      "touched q_enabled {fi_queue (cs_color s), fi_queue (cs_depth_ir s), cs_sync_queue s} ?w1 w4" by blast
  note t = touched_core [OF w4(6) u(1)]
  have sy4: "syncs w4 = syncs ?w1" using w4(6) by (simp add: touched_def)
  let ?s5 = "s\<lparr>cs_running := True\<rparr>"
  let ?w5 = "put_sync h ?s5 w4"
  have s5: "sync_queues ?s5 = sync_queues (syncs w4 h)" "cs_color ?s5 = cs_color (syncs w4 h)" "cs_depth_ir ?s5 = cs_depth_ir (syncs w4 h)"
    "cs_lock ?s5 = cs_lock (syncs w4 h)" by (simp_all add: sy4 sync_queues_def)
  note v = put_sync_settings [OF t(1) s5]
  have live: "live H_capturesync w h" by (rule sync_coreD(2) [OF core])
  have "capturesync_start h (Some cfg) w = Some (ZSA_RESULT_SUCCEEDED, ?w5)"
    using live f p(1) w4(1-3) unfolding capturesync_start_def
    by (simp add: s_def sync_store.put_put w4(4,5) sy4 Let_def)
  moreover have "sync_settings_ok ?s5" "cs_fps_period ?s5 \<noteq> 0" using p d by (auto simp: sync_settings_ok_def s_def)
  then have "sync_inv h ?w5"
    using inv v(1,3,4) t(5,6) u(3,4) by (simp add: sync_inv_def)
  moreover have "started_with cfg fps (syncs w h) (syncs ?w5 h)" using p(2) by (simp add: started_with_def s_def sync_queues_def)
  moreover have "\<forall>q \<in> set (sync_queues (syncs w h)). q_enabled (queues ?w5 q)"
    using w4(6) ss by (simp add: touched_def sync_queues_def)
  moreover have "idle h ?w5" using idle by (simp add: v(5) t(7) u(5))
  moreover have "beside w ?w5" using w4(6) by (simp add: beside_def touched_def)
  ultimately show ?thesis using v(6,7) t(2,3) u(6,7) by (intro exI [of _ ?w5]) simp
qed

end
