(* ===== verification/Libusb.thy ===== *)
theory Libusb
  imports Capturesync
begin

section \<open>The USB library\<close>

text \<open>
  The calls that \<open>src/usbcommand\<close> makes to libusb. What they return is decided by the device, the
  operating system and the library, so it is a parameter: a \<open>libusb_api\<close> answers each call, depending on
  the calls made before it. The state records the calls in order. Only what the documentation of libusb
  says about the code's side of a call is built in: \<open>libusb_open\<close> and \<open>libusb_init\<close> write their out
  parameter only on success, and closing a null handle does nothing.
\<close>

type_synonym bytes = "u8 list"

record guid_t =
  guid_id :: bytes

record libusb_device_descriptor =
  idVendor :: u16
  idProduct :: u16
  iSerialNumber :: u8

record libusb_bos_dev_capability =
  bDevCapabilityType :: u8
  cap_address :: ptr

datatype libusb_call =
    LU_init int ptr
  | LU_exit ptr
  | LU_set_option ptr int
  | LU_get_device_list ptr int
  | LU_free_device_list "ptr list"
  | LU_get_device_descriptor ptr
  | LU_open ptr int ptr
  | LU_close ptr
  | LU_get_bos_descriptor ptr int
  | LU_free_bos_descriptor
  | LU_get_container_id_descriptor ptr int
  | LU_free_container_id_descriptor
  | LU_get_string_descriptor_ascii ptr u8
  | LU_get_configuration ptr
  | LU_set_configuration ptr int
  | LU_kernel_driver_active ptr u8
  | LU_detach_kernel_driver ptr u8
  | LU_claim_interface ptr u8 int
  | LU_release_interface ptr u8
  | LU_bulk_out ptr u8 bytes
  | LU_bulk_in ptr u8 nat
  | LU_alloc_transfer ptr
  | LU_free_transfer ptr
  | LU_submit_transfer ptr int
  | LU_cancel_transfer ptr
  | LU_handle_events ptr
  | LU_stream_callback bool ptr ptr

type_synonym history = "libusb_call list"

text \<open>
  The answers of the library: an error code (negative) or success, with what the call delivers. A call
  that reads at most \<open>n\<close> bytes delivers the bytes it has read.
\<close>

record libusb_api =
  api_init :: "history \<Rightarrow> int \<times> ptr"
  api_set_option :: "history \<Rightarrow> ptr \<Rightarrow> int \<Rightarrow> int"
  api_get_device_list :: "history \<Rightarrow> ptr \<Rightarrow> int \<times> ptr list"
  api_get_device_descriptor :: "history \<Rightarrow> ptr \<Rightarrow> int \<times> libusb_device_descriptor"
  api_open :: "history \<Rightarrow> ptr \<Rightarrow> int \<times> ptr"
  api_get_bos_descriptor :: "history \<Rightarrow> ptr \<Rightarrow> int \<times> libusb_bos_dev_capability list"
  api_get_container_id_descriptor :: "history \<Rightarrow> ptr \<Rightarrow> int \<times> guid_t"
  api_get_string_descriptor_ascii :: "history \<Rightarrow> ptr \<Rightarrow> u8 \<Rightarrow> nat \<Rightarrow> int \<times> bytes"
  api_get_configuration :: "history \<Rightarrow> ptr \<Rightarrow> int \<times> int"
  api_set_configuration :: "history \<Rightarrow> ptr \<Rightarrow> int \<Rightarrow> int"
  api_kernel_driver_active :: "history \<Rightarrow> ptr \<Rightarrow> u8 \<Rightarrow> int"
  api_detach_kernel_driver :: "history \<Rightarrow> ptr \<Rightarrow> u8 \<Rightarrow> int"
  api_claim_interface :: "history \<Rightarrow> ptr \<Rightarrow> u8 \<Rightarrow> int"
  api_bulk_out :: "history \<Rightarrow> ptr \<Rightarrow> u8 \<Rightarrow> bytes \<Rightarrow> int \<times> int"
  api_bulk_in :: "history \<Rightarrow> ptr \<Rightarrow> u8 \<Rightarrow> nat \<Rightarrow> int \<times> bytes"
  api_alloc_transfer :: "history \<Rightarrow> ptr"
  api_submit_transfer :: "history \<Rightarrow> ptr \<Rightarrow> int"
  api_handle_events :: "history \<Rightarrow> ptr \<Rightarrow> int"

subsection \<open>State\<close>

text \<open>The context of \<open>usb_cmd_priv.h\<close> and the transfers of a stream.\<close>

record usb_async_transfer_data_t =
  xfr_usbcmd :: ptr
  xfr_bulk_transfer :: ptr
  xfr_image :: ptr
  xfr_list_index :: nat

record usbcmd_context_t =
  uc_source :: allocation_source_t
  uc_libusb :: ptr
  uc_libusb_context :: ptr
  uc_libusb_verbosity :: int
  uc_index :: u8
  uc_pid :: u16
  uc_interface :: u8
  uc_cmd_tx_endpoint :: u8
  uc_cmd_rx_endpoint :: u8
  uc_stream_endpoint :: u8
  uc_transaction_id :: u32
  uc_serial_number :: bytes
  uc_container_id :: guid_t
  uc_callback :: ptr
  uc_stream_context :: ptr
  uc_stream_going :: bool
  uc_transfer_list :: "ptr list"
  uc_stream_size :: u64
  uc_lock :: ptr
  uc_stream_handle :: ptr

abbreviation MAX_SERIAL_NUMBER_LENGTH :: nat where "MAX_SERIAL_NUMBER_LENGTH \<equiv> 26"
abbreviation USB_CMD_MAX_XFR_COUNT :: nat where "USB_CMD_MAX_XFR_COUNT \<equiv> 8"
abbreviation USB_CMD_MAX_XFR_POOL :: u64 where "USB_CMD_MAX_XFR_POOL \<equiv> 10000000"
abbreviation USB_MAX_TX_DATA :: u64 where "USB_MAX_TX_DATA \<equiv> 128"
abbreviation USB_CMD_PACKET_TYPE :: u32 where "USB_CMD_PACKET_TYPE \<equiv> 0x06022009"
abbreviation USB_CMD_PACKET_TYPE_RESPONSE :: u32 where "USB_CMD_PACKET_TYPE_RESPONSE \<equiv> 0x0A6FE000"
abbreviation ZSA_MSFT_VID :: u16 where "ZSA_MSFT_VID \<equiv> 0x045E"
abbreviation ZSA_RGB_PID :: u16 where "ZSA_RGB_PID \<equiv> 0x097D"
abbreviation ZSA_DEPTH_PID :: u16 where "ZSA_DEPTH_PID \<equiv> 0x097C"
abbreviation USB_CMD_DEFAULT_CONFIG :: int where "USB_CMD_DEFAULT_CONFIG \<equiv> 1"

text \<open>Values of libusb: no error, the container ID capability and the log levels.\<close>

abbreviation LIBUSB_SUCCESS :: int where "LIBUSB_SUCCESS \<equiv> 0"
abbreviation LIBUSB_BT_CONTAINER_ID :: u8 where "LIBUSB_BT_CONTAINER_ID \<equiv> 4"
abbreviation LIBUSB_LOG_LEVEL_NONE :: int where "LIBUSB_LOG_LEVEL_NONE \<equiv> 0"
abbreviation LIBUSB_LOG_LEVEL_WARNING :: int where "LIBUSB_LOG_LEVEL_WARNING \<equiv> 2"

definition usbcmd_zero :: usbcmd_context_t where
  "usbcmd_zero = \<lparr>uc_source = ALLOCATION_SOURCE_USER, uc_libusb = 0, uc_libusb_context = 0, uc_libusb_verbosity = 0, uc_index = 0,
     uc_pid = 0, uc_interface = 0, uc_cmd_tx_endpoint = 0, uc_cmd_rx_endpoint = 0, uc_stream_endpoint = 0, uc_transaction_id = 0,
     uc_serial_number = replicate MAX_SERIAL_NUMBER_LENGTH 0, uc_container_id = \<lparr>guid_id = replicate 16 0\<rparr>, uc_callback = 0,
     uc_stream_context = 0, uc_stream_going = False, uc_transfer_list = replicate USB_CMD_MAX_XFR_COUNT 0, uc_stream_size = 0,
     uc_lock = 0, uc_stream_handle = 0\<rparr>"

record usb_world = capturesync_world +
  usbcmds :: "ptr \<Rightarrow> usbcmd_context_t"
  transfers :: "ptr \<Rightarrow> usb_async_transfer_data_t option"  \<comment> \<open>the allocated transfer records\<close>
  libusb_calls :: history

definition put_usbcmd :: "ptr \<Rightarrow> usbcmd_context_t \<Rightarrow> 'a usb_world_scheme \<Rightarrow> 'a usb_world_scheme" where
  "put_usbcmd h c w = w\<lparr>usbcmds := (usbcmds w)(h := c)\<rparr>"

definition usbcmd_t_create :: "'a usb_world_scheme \<Rightarrow> ptr \<times> 'a usb_world_scheme" where
  "usbcmd_t_create w =
     (case handle_create H_usbcmd w of (h, w) \<Rightarrow> (h, if h = 0 then w else put_usbcmd h usbcmd_zero w))"

abbreviation usbcmd_t_get_context :: "ptr \<Rightarrow> 'a usb_world_scheme \<Rightarrow> usbcmd_context_t option option" where
  "usbcmd_t_get_context h w \<equiv> handle_get_context H_usbcmd usbcmds h w"

interpretation usbcmd_store: context_store H_usbcmd usbcmds put_usbcmd
  by unfold_locales (simp_all add: put_usbcmd_def)

subsection \<open>Calls\<close>

definition lu_call :: "libusb_call \<Rightarrow> 'a usb_world_scheme \<Rightarrow> 'a usb_world_scheme" where
  "lu_call c w = w\<lparr>libusb_calls := libusb_calls w @ [c]\<rparr>"

definition libusb_init :: "libusb_api \<Rightarrow> 'a usb_world_scheme \<Rightarrow> int \<times> ptr \<times> 'a usb_world_scheme" where
  "libusb_init api w = (case api_init api (libusb_calls w) of (err, ctx) \<Rightarrow> (err, ctx, lu_call (LU_init err ctx) w))"

definition libusb_exit :: "ptr \<Rightarrow> 'a usb_world_scheme \<Rightarrow> 'a usb_world_scheme" where
  "libusb_exit ctx w = lu_call (LU_exit ctx) w"

definition libusb_set_option :: "libusb_api \<Rightarrow> ptr \<Rightarrow> int \<Rightarrow> 'a usb_world_scheme \<Rightarrow> int \<times> 'a usb_world_scheme" where
  "libusb_set_option api ctx log_level w = (api_set_option api (libusb_calls w) ctx log_level, lu_call (LU_set_option ctx log_level) w)"

definition libusb_get_device_list :: "libusb_api \<Rightarrow> ptr \<Rightarrow> 'a usb_world_scheme \<Rightarrow> int \<times> ptr list \<times> 'a usb_world_scheme" where
  "libusb_get_device_list api ctx w =
     (case api_get_device_list api (libusb_calls w) ctx of (count, devs) \<Rightarrow> (count, devs, lu_call (LU_get_device_list ctx count) w))"

definition libusb_free_device_list :: "ptr list \<Rightarrow> 'a usb_world_scheme \<Rightarrow> 'a usb_world_scheme" where
  "libusb_free_device_list devs w = lu_call (LU_free_device_list devs) w"

definition libusb_get_device_descriptor ::
  "libusb_api \<Rightarrow> ptr \<Rightarrow> 'a usb_world_scheme \<Rightarrow> int \<times> libusb_device_descriptor \<times> 'a usb_world_scheme" where
  "libusb_get_device_descriptor api dev w =
     (case api_get_device_descriptor api (libusb_calls w) dev of (err, desc) \<Rightarrow> (err, desc, lu_call (LU_get_device_descriptor dev) w))"

definition libusb_open :: "libusb_api \<Rightarrow> ptr \<Rightarrow> 'a usb_world_scheme \<Rightarrow> int \<times> ptr \<times> 'a usb_world_scheme" where
  "libusb_open api dev w = (case api_open api (libusb_calls w) dev of (err, h) \<Rightarrow> (err, h, lu_call (LU_open dev err h) w))"

definition libusb_close :: "ptr \<Rightarrow> 'a usb_world_scheme \<Rightarrow> 'a usb_world_scheme" where
  "libusb_close h w = (if h = 0 then w else lu_call (LU_close h) w)"

definition libusb_get_bos_descriptor ::
  "libusb_api \<Rightarrow> ptr \<Rightarrow> 'a usb_world_scheme \<Rightarrow> int \<times> libusb_bos_dev_capability list \<times> 'a usb_world_scheme" where
  "libusb_get_bos_descriptor api h w =
     (case api_get_bos_descriptor api (libusb_calls w) h of (err, caps) \<Rightarrow> (err, caps, lu_call (LU_get_bos_descriptor h err) w))"

definition libusb_get_container_id_descriptor ::
  "libusb_api \<Rightarrow> ptr \<Rightarrow> 'a usb_world_scheme \<Rightarrow> int \<times> guid_t \<times> 'a usb_world_scheme" where
  "libusb_get_container_id_descriptor api cap w =
     (case api_get_container_id_descriptor api (libusb_calls w) cap of (err, g) \<Rightarrow>
        (err, g, lu_call (LU_get_container_id_descriptor cap err) w))"

definition libusb_get_string_descriptor_ascii ::
  "libusb_api \<Rightarrow> ptr \<Rightarrow> u8 \<Rightarrow> nat \<Rightarrow> 'a usb_world_scheme \<Rightarrow> int \<times> bytes \<times> 'a usb_world_scheme" where
  "libusb_get_string_descriptor_ascii api h i n w =
     (case api_get_string_descriptor_ascii api (libusb_calls w) h i n of (err, s) \<Rightarrow>
        (err, s, lu_call (LU_get_string_descriptor_ascii h i) w))"

definition libusb_get_configuration :: "libusb_api \<Rightarrow> ptr \<Rightarrow> 'a usb_world_scheme \<Rightarrow> int \<times> int \<times> 'a usb_world_scheme" where
  "libusb_get_configuration api h w =
     (case api_get_configuration api (libusb_calls w) h of (err, c) \<Rightarrow> (err, c, lu_call (LU_get_configuration h) w))"

definition libusb_set_configuration :: "libusb_api \<Rightarrow> ptr \<Rightarrow> int \<Rightarrow> 'a usb_world_scheme \<Rightarrow> int \<times> 'a usb_world_scheme" where
  "libusb_set_configuration api h c w = (api_set_configuration api (libusb_calls w) h c, lu_call (LU_set_configuration h c) w)"

definition libusb_kernel_driver_active :: "libusb_api \<Rightarrow> ptr \<Rightarrow> u8 \<Rightarrow> 'a usb_world_scheme \<Rightarrow> int \<times> 'a usb_world_scheme" where
  "libusb_kernel_driver_active api h i w = (api_kernel_driver_active api (libusb_calls w) h i, lu_call (LU_kernel_driver_active h i) w)"

definition libusb_detach_kernel_driver :: "libusb_api \<Rightarrow> ptr \<Rightarrow> u8 \<Rightarrow> 'a usb_world_scheme \<Rightarrow> int \<times> 'a usb_world_scheme" where
  "libusb_detach_kernel_driver api h i w = (api_detach_kernel_driver api (libusb_calls w) h i, lu_call (LU_detach_kernel_driver h i) w)"

definition libusb_claim_interface :: "libusb_api \<Rightarrow> ptr \<Rightarrow> u8 \<Rightarrow> 'a usb_world_scheme \<Rightarrow> int \<times> 'a usb_world_scheme" where
  "libusb_claim_interface api h i w =
     (let err = api_claim_interface api (libusb_calls w) h i in (err, lu_call (LU_claim_interface h i err) w))"

definition libusb_release_interface :: "ptr \<Rightarrow> u8 \<Rightarrow> 'a usb_world_scheme \<Rightarrow> 'a usb_world_scheme" where
  "libusb_release_interface h i w = lu_call (LU_release_interface h i) w"

text \<open>\<open>libusb_bulk_transfer\<close> to an endpoint of the device and from one.\<close>

definition libusb_bulk_out :: "libusb_api \<Rightarrow> ptr \<Rightarrow> u8 \<Rightarrow> bytes \<Rightarrow> 'a usb_world_scheme \<Rightarrow> int \<times> int \<times> 'a usb_world_scheme" where
  "libusb_bulk_out api h ep data w =
     (case api_bulk_out api (libusb_calls w) h ep data of (err, n) \<Rightarrow> (err, n, lu_call (LU_bulk_out h ep data) w))"

definition libusb_bulk_in :: "libusb_api \<Rightarrow> ptr \<Rightarrow> u8 \<Rightarrow> nat \<Rightarrow> 'a usb_world_scheme \<Rightarrow> int \<times> bytes \<times> 'a usb_world_scheme" where
  "libusb_bulk_in api h ep n w =
     (case api_bulk_in api (libusb_calls w) h ep n of (err, data) \<Rightarrow> (err, data, lu_call (LU_bulk_in h ep n) w))"

text \<open>The documented bound of a read: never more bytes than the length that is passed.\<close>

definition api_bounded :: "libusb_api \<Rightarrow> bool" where
  "api_bounded api \<longleftrightarrow> (\<forall>hist h ep n. length (snd (api_bulk_in api hist h ep n)) \<le> n) \<and>
     (\<forall>hist h i n. length (snd (api_get_string_descriptor_ascii api hist h i n)) \<le> n)"

text \<open>Handles of devices and contexts of the library that the calls so far have opened and not closed.\<close>

fun lu_open_step :: "libusb_call \<Rightarrow> ptr list \<Rightarrow> ptr list" where
  "lu_open_step (LU_open dev err h) hs = (if err < 0 then hs else h # hs)"
| "lu_open_step (LU_close h) hs = remove1 h hs"
| "lu_open_step _ hs = hs"

definition open_handles :: "history \<Rightarrow> ptr list" where
  "open_handles hist = fold lu_open_step hist []"

fun lu_context_step :: "libusb_call \<Rightarrow> ptr list \<Rightarrow> ptr list" where
  "lu_context_step (LU_init err ctx) cs = (if err < 0 then cs else ctx # cs)"
| "lu_context_step (LU_exit ctx) cs = remove1 ctx cs"
| "lu_context_step _ cs = cs"

definition open_contexts :: "history \<Rightarrow> ptr list" where
  "open_contexts hist = fold lu_context_step hist []"

subsection \<open>What the calls leave alone\<close>

lemma put_usbcmd_simps [simp]:
  "usbcmds (put_usbcmd h c w) = (usbcmds w)(h := c)" "libusb_calls (put_usbcmd h c w) = libusb_calls w" "locks (put_usbcmd h c w) = locks w"
  "htype (put_usbcmd h c w) = htype w" "transfers (put_usbcmd h c w) = transfers w" "live T (put_usbcmd h c w) x = live T w x"
  by (simp_all add: put_usbcmd_def live_def)

lemma lu_call_simps [simp]:
  "usbcmds (lu_call c w) = usbcmds w" "libusb_calls (lu_call c w) = libusb_calls w @ [c]" "locks (lu_call c w) = locks w"
  "htype (lu_call c w) = htype w" "transfers (lu_call c w) = transfers w" "live T (lu_call c w) x = live T w x"
  by (simp_all add: lu_call_def live_def)

lemma open_append [simp]:
  "open_handles (hist @ calls) = fold lu_open_step calls (open_handles hist)"
  "open_contexts (hist @ calls) = fold lu_context_step calls (open_contexts hist)"
  by (simp_all add: open_handles_def open_contexts_def)

text \<open>
  \<open>usb_step h w w'\<close>: a step that changes only the context of device \<open>h\<close> and makes calls to the library. All
  other components keep their state.
\<close>

definition usb_step :: "ptr \<Rightarrow> 'a usb_world_scheme \<Rightarrow> 'a usb_world_scheme \<Rightarrow> bool" where
  "usb_step h w w' \<longleftrightarrow> (\<exists>c calls. w' = w\<lparr>usbcmds := (usbcmds w)(h := c), libusb_calls := libusb_calls w @ calls\<rparr>)"

lemma usb_stepI:
  "w' = w\<lparr>usbcmds := (usbcmds w)(h := c), libusb_calls := libusb_calls w @ calls\<rparr> \<Longrightarrow> usb_step h w w'"
  unfolding usb_step_def by blast

lemma usb_stepE:
  assumes "usb_step h w w'"
  obtains c calls where "w' = w\<lparr>usbcmds := (usbcmds w)(h := c), libusb_calls := libusb_calls w @ calls\<rparr>"
  using assms unfolding usb_step_def by blast

lemma usb_step_refl [simp]: "usb_step h w w"
  by (rule usb_stepI [where c = "usbcmds w h" and calls = "[]"]) simp

lemma usb_step_trans:
  assumes "usb_step h w w1" and "usb_step h w1 w2"
  shows "usb_step h w w2"
proof -
  obtain c1 k1 where 1: "w1 = w\<lparr>usbcmds := (usbcmds w)(h := c1), libusb_calls := libusb_calls w @ k1\<rparr>"
    using assms(1) by (rule usb_stepE)
  obtain c2 k2 where 2: "w2 = w1\<lparr>usbcmds := (usbcmds w1)(h := c2), libusb_calls := libusb_calls w1 @ k2\<rparr>"
    using assms(2) by (rule usb_stepE)
  show ?thesis by (rule usb_stepI [where c = c2 and calls = "k1 @ k2"]) (simp add: 1 2)
qed

lemma usb_step_put [simp]: "usb_step h w w' \<Longrightarrow> usb_step h w (put_usbcmd h c w')"
  and usb_step_call [simp]: "usb_step h w w' \<Longrightarrow> usb_step h w (lu_call k w')"
proof -
  have p: "usb_step h w' (put_usbcmd h c w')"
    by (rule usb_stepI [where c = c and calls = "[]"]) (simp add: put_usbcmd_def)
  have l: "usb_step h w' (lu_call k w')"
    by (rule usb_stepI [where c = "usbcmds w' h" and calls = "[k]"]) (simp add: lu_call_def)
  show "usb_step h w w' \<Longrightarrow> usb_step h w (put_usbcmd h c w')" "usb_step h w w' \<Longrightarrow> usb_step h w (lu_call k w')"
    using p l usb_step_trans by blast+
qed

lemma usb_stepD:
  assumes "usb_step h w w'"
  shows "locks w' = locks w" "htype w' = htype w" "live T w' x = live T w x" "transfers w' = transfers w"
    "k \<noteq> h \<Longrightarrow> usbcmds w' k = usbcmds w k" "next_addr w' = next_addr w" "os_requests w' = os_requests w" "os_grants w' = os_grants w"
    "conds w' = conds w" "queues w' = queues w" "syncs w' = syncs w" "captures w' = captures w" "images w' = images w"
  using assms by (auto elim!: usb_stepE simp: live_def)

end
