(* ===== verification/Usbcommand.thy ===== *)
theory Usbcommand
  imports Libusb
begin

section \<open>Commands over USB\<close>

text \<open>
  \<open>src/usbcommand/usbcommand.c\<close>: finding and opening a device, the transactions with it (a command packet,
  the data, a response packet) and its destruction. A buffer that a caller passes is the list of its bytes,
  and \<open>None\<close> is a null pointer; an access beyond it is a fault. Of the struct \<open>usb_async_transfer_data_t\<close> and
  of the stream only \<open>usb_cmd_stream_stop\<close> is here, because the destruction calls it.
\<close>

unbundle bit_operations_syntax

subsection \<open>Results and strings\<close>

definition TraceLibUsbError :: "int \<Rightarrow> zsa_result_t" where
  "TraceLibUsbError err = (if err < 0 then ZSA_RESULT_FAILED else ZSA_RESULT_SUCCEEDED)"

text \<open>The bytes \<open>uuid_to_string\<close> prints, in its order, with the format \<open>%02x\<close>.\<close>

definition hex_digit :: "nat \<Rightarrow> char" where
  "hex_digit n = ''0123456789abcdef'' ! n"

definition hex2 :: "u8 \<Rightarrow> string" where
  "hex2 b = [hex_digit (unat b div 16), hex_digit (unat b mod 16)]"

definition uuid_text :: "guid_t \<Rightarrow> string" where
  "uuid_text guid = (let id = (\<lambda>i. hex2 (guid_id guid ! i)) in
     ''{'' @ id 3 @ id 2 @ id 1 @ id 0 @ ''-'' @ id 5 @ id 4 @ ''-'' @ id 7 @ id 6 @ ''-'' @ id 9 @ id 8 @ ''-'' @
     id 10 @ id 11 @ id 12 @ id 13 @ id 14 @ id 15 @ ''}'')"

abbreviation UUID_STR_LENGTH :: nat where
  "UUID_STR_LENGTH \<equiv> 39"

text \<open>\<open>snprintf\<close> writes at most \<open>string_size - 1\<close> characters, then a null character.\<close>

definition uuid_to_string :: "guid_t \<Rightarrow> nat \<Rightarrow> string" where
  "uuid_to_string guid string_size = take (string_size - 1) (uuid_text guid)"

subsection \<open>Log level of the library\<close>

definition usb_cmd_set_libusb_debug_verbosity ::
  "libusb_api \<Rightarrow> ptr \<Rightarrow> 'a usb_world_scheme \<Rightarrow> zsa_result_t \<times> 'a usb_world_scheme" where
  "usb_cmd_set_libusb_debug_verbosity api h w =
     (let w = put_usbcmd h ((usbcmds w h)\<lparr>uc_libusb_verbosity := LIBUSB_LOG_LEVEL_WARNING\<rparr>) w
      in case libusb_set_option api (uc_libusb_context (usbcmds w h)) LIBUSB_LOG_LEVEL_WARNING w of
           (err, w) \<Rightarrow> (TraceLibUsbError err, w))"

definition libusb_logging_disable :: "libusb_api \<Rightarrow> ptr \<Rightarrow> 'a usb_world_scheme \<Rightarrow> 'a usb_world_scheme" where
  "libusb_logging_disable api ctx w = snd (libusb_set_option api ctx LIBUSB_LOG_LEVEL_NONE w)"

definition libusb_logging_restore :: "libusb_api \<Rightarrow> ptr \<Rightarrow> int \<Rightarrow> 'a usb_world_scheme \<Rightarrow> 'a usb_world_scheme" where
  "libusb_logging_restore api ctx verbosity w = snd (libusb_set_option api ctx verbosity w)"

subsection \<open>Finding a device\<close>

text \<open>The loop over the capabilities stops at the first container ID.\<close>

fun find_container_capability :: "libusb_bos_dev_capability list \<Rightarrow> libusb_bos_dev_capability option" where
  "find_container_capability [] = None"
| "find_container_capability (c # cs) =
     (if bDevCapabilityType c = LIBUSB_BT_CONTAINER_ID then Some c else find_container_capability cs)"

definition populate_container_id :: "libusb_api \<Rightarrow> ptr \<Rightarrow> 'a usb_world_scheme \<Rightarrow> zsa_result_t \<times> 'a usb_world_scheme" where
  "populate_container_id api h w =
     (case libusb_get_bos_descriptor api (uc_libusb (usbcmds w h)) w of (err, caps, w) \<Rightarrow>
        if ZSA_FAILED (TraceLibUsbError err) then (ZSA_RESULT_FAILED, w)
        else case find_container_capability caps of
               None \<Rightarrow> (ZSA_RESULT_FAILED, lu_call LU_free_bos_descriptor w)
             | Some cap \<Rightarrow>
                 (case libusb_get_container_id_descriptor api (cap_address cap) w of (err, container_id, w) \<Rightarrow>
                    let result = TraceLibUsbError err;
                        w = (if ZSA_SUCCEEDED result
                             then lu_call LU_free_container_id_descriptor
                                    (put_usbcmd h ((usbcmds w h)\<lparr>uc_container_id := container_id\<rparr>) w)
                             else w)
                    in (result, lu_call LU_free_bos_descriptor w)))"

text \<open>A buffer that takes the bytes a read delivers.\<close>

definition overwrite :: "bytes \<Rightarrow> bytes \<Rightarrow> bytes option" where
  "overwrite buf data = (if length data \<le> length buf then Some (data @ drop (length data) buf) else None)"

definition populate_serialnumber ::
  "libusb_api \<Rightarrow> ptr \<Rightarrow> libusb_device_descriptor \<Rightarrow> 'a usb_world_scheme \<Rightarrow> (zsa_result_t \<times> 'a usb_world_scheme) option" where
  "populate_serialnumber api h desc w =
     (if iSerialNumber desc = 0 then Some (ZSA_RESULT_FAILED, w)
      else case libusb_get_string_descriptor_ascii api (uc_libusb (usbcmds w h)) (iSerialNumber desc)
                  (length (uc_serial_number (usbcmds w h))) w of (err, s, w) \<Rightarrow> do {
             serial \<leftarrow> overwrite (uc_serial_number (usbcmds w h)) s;
             Some (TraceLibUsbError err, put_usbcmd h ((usbcmds w h)\<lparr>uc_serial_number := serial\<rparr>) w)
           })"

text \<open>
  The device that \<open>find_libusb_device\<close> looks at: it is opened and kept when its container ID is the
  wanted one, or any when the search is by index; otherwise it is closed again. The result says whether it
  was kept. The counts of attempts to open only choose a message.
\<close>

definition try_device ::
  "libusb_api \<Rightarrow> ptr \<Rightarrow> guid_t option \<Rightarrow> ptr \<Rightarrow> bool \<Rightarrow> 'a usb_world_scheme \<Rightarrow> bool \<times> 'a usb_world_scheme" where
  "try_device api h container_id dev described w =
     (let w = put_usbcmd h ((usbcmds w h)\<lparr>uc_libusb := 0\<rparr>) w in
      if \<not> described then (False, libusb_close 0 w)
      else let ctx = uc_libusb_context (usbcmds w h); w = libusb_logging_disable api ctx w in
        case libusb_open api dev w of (result_libusb, handle, w) \<Rightarrow>
          let w = (if result_libusb < LIBUSB_SUCCESS then w else put_usbcmd h ((usbcmds w h)\<lparr>uc_libusb := handle\<rparr>) w);
              w = libusb_logging_restore api ctx (uc_libusb_verbosity (usbcmds w h)) w
          in if result_libusb < LIBUSB_SUCCESS then (False, w)
             else case populate_container_id api h w of (result, w) \<Rightarrow>
               if ZSA_SUCCEEDED result \<and> (container_id = None \<or> container_id = Some (uc_container_id (usbcmds w h)))
               then (True, w)
               else (False, put_usbcmd h ((usbcmds w h)\<lparr>uc_libusb := 0\<rparr>) (libusb_close (uc_libusb (usbcmds w h)) w)))"

text \<open>The loop over the devices. \<open>list_index\<close> is a \<open>uint8_t\<close> and counts the devices of the right kind.\<close>

fun find_loop ::
  "libusb_api \<Rightarrow> u32 \<Rightarrow> guid_t option \<Rightarrow> ptr \<Rightarrow> ptr list \<Rightarrow> u8 \<Rightarrow> libusb_device_descriptor \<Rightarrow> 'a usb_world_scheme \<Rightarrow>
     bool \<times> libusb_device_descriptor \<times> 'a usb_world_scheme" where
  "find_loop api device_index container_id h [] list_index desc w = (False, desc, w)"
| "find_loop api device_index container_id h (dev # devs) list_index desc w =
     (case libusb_get_device_descriptor api dev w of (err, new_desc, w) \<Rightarrow>
        let described = ZSA_SUCCEEDED (TraceLibUsbError err); desc = (if described then new_desc else desc) in
        if described \<and> (idVendor desc \<noteq> ZSA_MSFT_VID \<or> idProduct desc \<noteq> uc_pid (usbcmds w h))
        then find_loop api device_index container_id h devs list_index desc w
        else if described \<and> device_index \<noteq> ucast list_index \<and> container_id = None
        then find_loop api device_index container_id h devs (list_index + 1) desc w
        else case try_device api h container_id dev described w of (found, w) \<Rightarrow>
               if found then (True, desc, w)
               else find_loop api device_index container_id h devs (if described then list_index + 1 else list_index) desc w)"

definition find_libusb_device ::
  "libusb_api \<Rightarrow> u32 \<Rightarrow> guid_t option \<Rightarrow> libusb_device_descriptor \<Rightarrow> ptr \<Rightarrow> 'a usb_world_scheme \<Rightarrow>
     zsa_result_t \<times> libusb_device_descriptor \<times> 'a usb_world_scheme" where
  "find_libusb_device api device_index container_id desc h w =
     (case libusb_init api w of (err, ctx, w) \<Rightarrow>
        if ZSA_FAILED (TraceLibUsbError err) then (ZSA_RESULT_FAILED, desc, libusb_free_device_list [] w)
        else let w = put_usbcmd h ((usbcmds w h)\<lparr>uc_libusb_context := ctx\<rparr>) w in
        case usb_cmd_set_libusb_debug_verbosity api h w of (result, w) \<Rightarrow>
          if ZSA_FAILED result then (ZSA_RESULT_FAILED, desc, libusb_free_device_list [] w)
          else let w = libusb_logging_disable api (uc_libusb_context (usbcmds w h)) w in
            case libusb_get_device_list api (uc_libusb_context (usbcmds w h)) w of (count, dev_list, w) \<Rightarrow>
            let w = libusb_logging_restore api (uc_libusb_context (usbcmds w h)) (uc_libusb_verbosity (usbcmds w h)) w in
            if \<not> count < INT32_MAX \<or> count = 0 then (ZSA_RESULT_FAILED, desc, libusb_free_device_list dev_list w)
            else case find_loop api device_index container_id h (take (nat count) dev_list) 0 desc w of (found, desc, w) \<Rightarrow>
              let w = (if \<not> found \<and> uc_libusb (usbcmds w h) \<noteq> 0
                       then put_usbcmd h ((usbcmds w h)\<lparr>uc_libusb := 0\<rparr>) (libusb_close (uc_libusb (usbcmds w h)) w)
                       else w)
              in (ZSA_RESULT_FROM_BOOL found, desc, libusb_free_device_list dev_list w))"

subsection \<open>Destruction\<close>

text \<open>
  \<open>usb_cmd_stream_stop\<close> of \<open>usbstreaming.c\<close>: \<open>thread\<close> is what the thread of the stream does until it ends,
  which \<open>ThreadAPI_Join\<close> waits for.
\<close>

definition usb_cmd_stream_stop ::
  "('a usb_world_scheme \<Rightarrow> 'a usb_world_scheme) \<Rightarrow> ptr \<Rightarrow> 'a usb_world_scheme \<Rightarrow> (zsa_result_t \<times> 'a usb_world_scheme) option" where
  "usb_cmd_stream_stop thread h w = do {
     ctx \<leftarrow> usbcmd_t_get_context h w;
     case ctx of
       None \<Rightarrow> Some (ZSA_RESULT_FAILED, w)
     | Some _ \<Rightarrow> do {
         (_, w) \<leftarrow> Lock (uc_lock (usbcmds w h)) w;
         let w = put_usbcmd h ((usbcmds w h)\<lparr>uc_stream_going := False\<rparr>) w;
         let w = (if uc_stream_handle (usbcmds w h) \<noteq> 0
                  then (let w = thread w in put_usbcmd h ((usbcmds w h)\<lparr>uc_stream_handle := 0\<rparr>) w) else w);
         (_, w) \<leftarrow> Unlock (uc_lock (usbcmds w h)) w;
         Some (ZSA_RESULT_SUCCEEDED, w)
       }
   }"

text \<open>The device and the library are closed.\<close>

definition usb_cmd_close_device :: "ptr \<Rightarrow> 'a usb_world_scheme \<Rightarrow> 'a usb_world_scheme" where
  "usb_cmd_close_device h w =
     (let w = (if uc_libusb (usbcmds w h) \<noteq> 0
               then libusb_release_interface (uc_libusb (usbcmds w h)) (uc_interface (usbcmds w h)) w else w);
          w = (if uc_libusb (usbcmds w h) \<noteq> 0
               then put_usbcmd h ((usbcmds w h)\<lparr>uc_libusb := 0\<rparr>) (libusb_close (uc_libusb (usbcmds w h)) w) else w)
      in if uc_libusb_context (usbcmds w h) \<noteq> 0
         then put_usbcmd h ((usbcmds w h)\<lparr>uc_libusb_context := 0\<rparr>) (libusb_exit (uc_libusb_context (usbcmds w h)) w) else w)"

definition usb_cmd_destroy ::
  "('a usb_world_scheme \<Rightarrow> 'a usb_world_scheme) \<Rightarrow> ptr \<Rightarrow> 'a usb_world_scheme \<Rightarrow> 'a usb_world_scheme option" where
  "usb_cmd_destroy thread h w = do {
     ctx \<leftarrow> usbcmd_t_get_context h w;
     case ctx of
       None \<Rightarrow> Some w
     | Some _ \<Rightarrow> do {
         (_, w) \<leftarrow> usb_cmd_stream_stop thread h w;
         w \<leftarrow> (if uc_lock (usbcmds w h) \<noteq> 0 then do {
                 (_, w) \<leftarrow> Lock (uc_lock (usbcmds w h)) w;
                 (_, w) \<leftarrow> Unlock (uc_lock (usbcmds w h)) w;
                 Some w
               } else Some w);
         let w = usb_cmd_close_device h w;
         w \<leftarrow> (if uc_lock (usbcmds w h) \<noteq> 0 then do {
                 (_, w) \<leftarrow> Lock_Deinit (uc_lock (usbcmds w h)) w;
                 Some (put_usbcmd h ((usbcmds w h)\<lparr>uc_lock := 0\<rparr>) w)
               } else Some w);
         handle_destroy h w
       }
   }"

subsection \<open>Creation\<close>

datatype usb_command_device_type_t =
    USB_DEVICE_DEPTH_PROCESSOR | USB_DEVICE_COLOR_IMU_PROCESSOR | USB_DEVICE_TYPE_OTHER nat

definition usb_device_settings :: "usb_command_device_type_t \<Rightarrow> usbcmd_context_t \<Rightarrow> usbcmd_context_t" where
  "usb_device_settings device_type c =
     (if device_type = USB_DEVICE_DEPTH_PROCESSOR
      then c\<lparr>uc_pid := ZSA_DEPTH_PID, uc_interface := 0, uc_cmd_tx_endpoint := 0x02, uc_cmd_rx_endpoint := 0x81,
             uc_stream_endpoint := 0x83, uc_source := ALLOCATION_SOURCE_USB_DEPTH\<rparr>
      else c\<lparr>uc_pid := ZSA_RGB_PID, uc_interface := 2, uc_cmd_tx_endpoint := 0x04, uc_cmd_rx_endpoint := 0x83,
             uc_stream_endpoint := 0x82, uc_source := ALLOCATION_SOURCE_USB_IMU\<rparr>)"

text \<open>The configuration and the interface of the device that was found.\<close>

definition usb_claim_device :: "libusb_api \<Rightarrow> ptr \<Rightarrow> 'a usb_world_scheme \<Rightarrow> zsa_result_t \<times> 'a usb_world_scheme" where
  "usb_claim_device api h w =
     (let dev = uc_libusb (usbcmds w h) in
      case libusb_get_configuration api dev w of (err, activeConfig, w) \<Rightarrow>
      if ZSA_FAILED (TraceLibUsbError err) then (ZSA_RESULT_FAILED, w)
      else case (if activeConfig \<noteq> USB_CMD_DEFAULT_CONFIG then libusb_set_configuration api dev USB_CMD_DEFAULT_CONFIG w
                 else (LIBUSB_SUCCESS, w)) of (err, w) \<Rightarrow>
      if ZSA_FAILED (TraceLibUsbError err) then (ZSA_RESULT_FAILED, w)
      else case libusb_kernel_driver_active api dev (uc_interface (usbcmds w h)) w of (active, w) \<Rightarrow>
      case (if active = 1 then libusb_detach_kernel_driver api dev (uc_interface (usbcmds w h)) w else (LIBUSB_SUCCESS, w)) of (err, w) \<Rightarrow>
      if ZSA_FAILED (TraceLibUsbError err) then (ZSA_RESULT_FAILED, w)
      else case libusb_claim_interface api dev (uc_interface (usbcmds w h)) w of (err, w) \<Rightarrow> (TraceLibUsbError err, w))"

text \<open>From the search for the device to the claim of its interface.\<close>

definition usb_device_setup ::
  "libusb_api \<Rightarrow> u32 \<Rightarrow> guid_t option \<Rightarrow> ptr \<Rightarrow> 'a usb_world_scheme \<Rightarrow> (zsa_result_t \<times> 'a usb_world_scheme) option" where
  "usb_device_setup api device_index container_id h w =
     (case find_libusb_device api device_index container_id \<lparr>idVendor = 0, idProduct = 0, iSerialNumber = 0\<rparr> h w of
        (result, desc, w) \<Rightarrow>
        if ZSA_FAILED result then Some (result, w)
        else do {
          (result, w) \<leftarrow> populate_serialnumber api h desc w;
          if ZSA_FAILED result then Some (result, w) else Some (usb_claim_device api h w)
        })"

definition usb_cmd_create ::
  "libusb_api \<Rightarrow> usb_command_device_type_t \<Rightarrow> u32 \<Rightarrow> guid_t option \<Rightarrow> ptr \<Rightarrow> 'a usb_world_scheme \<Rightarrow>
     (zsa_result_t \<times> ptr \<times> 'a usb_world_scheme) option" where
  "usb_cmd_create api device_type device_index container_id usbcmd_handle w =
     (case device_type of
        USB_DEVICE_TYPE_OTHER _ \<Rightarrow> Some (ZSA_RESULT_FAILED, usbcmd_handle, w)
      | _ \<Rightarrow>
        (case usbcmd_t_create w of (h, w) \<Rightarrow> do {
           (result, w) \<leftarrow>
             (if h = 0 then Some (ZSA_RESULT_FAILED, w)
              else do {
                let w = put_usbcmd h ((usbcmds w h)\<lparr>uc_stream_going := False\<rparr>) w;
                let (lock, w) = Lock_Init w;
                let w = put_usbcmd h ((usbcmds w h)\<lparr>uc_lock := lock\<rparr>) w;
                if lock = 0 then Some (ZSA_RESULT_FAILED, w)
                else usb_device_setup api device_index container_id h
                       (put_usbcmd h (usb_device_settings device_type (usbcmds w h)) w)
              });
           if ZSA_FAILED result then do {
             w \<leftarrow> usb_cmd_destroy (\<lambda>w. w) h w;
             Some (result, 0, libusb_free_device_list [] w)
           } else Some (result, h, libusb_free_device_list [] w)
         }))"

subsection \<open>Transactions\<close>

text \<open>Little-endian words, the command packet and the response packet.\<close>

definition le32 :: "u32 \<Rightarrow> bytes" where
  "le32 x = [ucast x, ucast (drop_bit 8 x), ucast (drop_bit 16 x), ucast (drop_bit 24 x)]"

definition of_le32 :: "bytes \<Rightarrow> u32" where
  "of_le32 bs = ucast (bs ! 0) OR push_bit 8 (ucast (bs ! 1)) OR push_bit 16 (ucast (bs ! 2)) OR push_bit 24 (ucast (bs ! 3))"

record usb_command_header_t =
  hdr_packet_type :: u32
  hdr_packet_transaction_id :: u32
  hdr_payload_size :: u32
  hdr_command :: u32
  hdr_reserved :: u32

definition header_bytes :: "usb_command_header_t \<Rightarrow> bytes" where
  "header_bytes p = le32 (hdr_packet_type p) @ le32 (hdr_packet_transaction_id p) @ le32 (hdr_payload_size p) @
     le32 (hdr_command p) @ le32 (hdr_reserved p)"

record usb_command_response_t =
  rsp_packet_type :: u32
  rsp_packet_transaction_id :: u32
  rsp_status :: u32
  rsp_reserved :: u32

definition response_of_bytes :: "bytes \<Rightarrow> usb_command_response_t" where
  "response_of_bytes bs = \<lparr>rsp_packet_type = of_le32 (take 4 bs), rsp_packet_transaction_id = of_le32 (take 4 (drop 4 bs)),
     rsp_status = of_le32 (take 4 (drop 8 bs)), rsp_reserved = of_le32 (take 4 (drop 12 bs))\<rparr>"

abbreviation sizeof_response :: nat where "sizeof_response \<equiv> 16"

text \<open>
  The data of a transaction: written from the buffer \<open>p_tx_data\<close>, read into the buffer \<open>p_rx_data\<close>. The
  result says whether the transaction goes on, and the count of transferred bytes.
\<close>

definition usb_cmd_io_data ::
  "libusb_api \<Rightarrow> ptr \<Rightarrow> nat \<Rightarrow> bytes option \<Rightarrow> bytes option \<Rightarrow> 'a usb_world_scheme \<Rightarrow>
     (bool \<times> int \<times> bytes option \<times> 'a usb_world_scheme) option" where
  "usb_cmd_io_data api h payload_size p_rx_data p_tx_data w = do {
     let c = usbcmds w h;
     (go_on, count, w) \<leftarrow>
       (case p_tx_data of
          None \<Rightarrow> Some (True, 0, w)
        | Some tx \<Rightarrow>
            if length tx < payload_size then None
            else case libusb_bulk_out api (uc_libusb c) (uc_cmd_tx_endpoint c) (take payload_size tx) w of
                   (err, n, w) \<Rightarrow> Some (err = LIBUSB_SUCCESS, if err = LIBUSB_SUCCESS then n else 0, w));
     if \<not> go_on then Some (False, count, p_rx_data, w)
     else case p_rx_data of
            None \<Rightarrow> Some (True, count, None, w)
          | Some rx \<Rightarrow>
              (case libusb_bulk_in api (uc_libusb c) (uc_cmd_rx_endpoint c) payload_size w of
                 (err, data, w) \<Rightarrow> do {
                   rx \<leftarrow> overwrite rx data;
                   Some (err = LIBUSB_SUCCESS, if err = LIBUSB_SUCCESS then int (length data) else 0, Some rx, w)
                 })
   }"

text \<open>The response packet: its status, if it is the response to this command.\<close>

definition usb_cmd_io_status :: "libusb_api \<Rightarrow> ptr \<Rightarrow> u32 \<Rightarrow> 'a usb_world_scheme \<Rightarrow> (u32 option \<times> 'a usb_world_scheme) option" where
  "usb_cmd_io_status api h transaction_id w =
     (case libusb_bulk_in api (uc_libusb (usbcmds w h)) (uc_cmd_rx_endpoint (usbcmds w h)) sizeof_response w of
        (err, data, w) \<Rightarrow>
        if sizeof_response < length data then None
        else Some (if err = LIBUSB_SUCCESS \<and> length data = sizeof_response \<and>
                      rsp_packet_transaction_id (response_of_bytes data) = transaction_id \<and>
                      rsp_packet_type (response_of_bytes data) = USB_CMD_PACKET_TYPE_RESPONSE
                   then Some (rsp_status (response_of_bytes data)) else None, w))"

text \<open>
  The transaction under the lock. A command packet has the bytes of the header and of the command data;
  the identifier of the transaction counts the commands.
\<close>

definition usb_command_packet :: "usbcmd_context_t \<Rightarrow> u32 \<Rightarrow> nat \<Rightarrow> bytes \<Rightarrow> bytes" where
  "usb_command_packet c cmd payload_size cmd_data =
     header_bytes \<lparr>hdr_packet_type = USB_CMD_PACKET_TYPE, hdr_packet_transaction_id = uc_transaction_id c,
       hdr_payload_size = of_nat payload_size, hdr_command = cmd, hdr_reserved = 0\<rparr> @ cmd_data"

definition usb_cmd_io_locked ::
  "libusb_api \<Rightarrow> ptr \<Rightarrow> u32 \<Rightarrow> bytes \<Rightarrow> nat \<Rightarrow> bytes option \<Rightarrow> bytes option \<Rightarrow> 'a usb_world_scheme \<Rightarrow>
     (u32 option \<times> int \<times> bytes option \<times> 'a usb_world_scheme) option" where
  "usb_cmd_io_locked api h cmd cmd_data payload_size p_rx_data p_tx_data w = do {
     let c = usbcmds w h;
     let w = put_usbcmd h (c\<lparr>uc_transaction_id := uc_transaction_id c + 1\<rparr>) w;
     let (err, _, w) = libusb_bulk_out api (uc_libusb c) (uc_cmd_tx_endpoint c) (usb_command_packet c cmd payload_size cmd_data) w;
     if err \<noteq> LIBUSB_SUCCESS then Some (None, 0, p_rx_data, w)
     else do {
       (go_on, count, p_rx_data, w) \<leftarrow> usb_cmd_io_data api h payload_size p_rx_data p_tx_data w;
       if \<not> go_on then Some (None, count, p_rx_data, w)
       else do {
         (status, w) \<leftarrow> usb_cmd_io_status api h (uc_transaction_id c) w;
         Some (status, count, p_rx_data, w)
       }
     }
   }"

text \<open>
  \<open>usb_cmd_io\<close>. The trace message reads the first eight bytes of the command data whenever there is any.
  The results are the result, the buffer that was read into, the count of bytes (written when the caller
  asks for it) and the status of the command.
\<close>

definition usb_cmd_io ::
  "libusb_api \<Rightarrow> ptr \<Rightarrow> u32 \<Rightarrow> bytes option \<Rightarrow> u64 \<Rightarrow> bytes option \<Rightarrow> u64 \<Rightarrow> bytes option \<Rightarrow> u64 \<Rightarrow> u64 option \<Rightarrow> u32 option \<Rightarrow>
     'a usb_world_scheme \<Rightarrow> (zsa_result_t \<times> bytes option \<times> u64 option \<times> u32 option \<times> 'a usb_world_scheme) option" where
  "usb_cmd_io api h cmd p_cmd_data cmd_data_size p_rx_data rx_data_size p_tx_data tx_data_size transfer_count cmd_status w = do {
     ctx \<leftarrow> usbcmd_t_get_context h w;
     let payload_size = (if rx_data_size = 0 then tx_data_size else rx_data_size);
     if ctx = None \<or> cmd_status = None \<or> (p_rx_data \<noteq> None \<and> p_tx_data \<noteq> None) \<or>
        cmd_data_size > USB_MAX_TX_DATA \<or> uint payload_size > INT32_MAX
     then Some (ZSA_RESULT_FAILED, p_rx_data, transfer_count, cmd_status, w)
     else if cmd_data_size > 0 \<and> (case p_cmd_data of None \<Rightarrow> True | Some d \<Rightarrow> length d < 8 \<or> length d < unat cmd_data_size)
     then None
     else do {
       let cmd_data = (case p_cmd_data of None \<Rightarrow> [] | Some d \<Rightarrow> take (unat cmd_data_size) d);
       (_, w) \<leftarrow> Lock (uc_lock (usbcmds w h)) w;
       (status, count, rx, w) \<leftarrow> usb_cmd_io_locked api h cmd cmd_data (unat payload_size) p_rx_data p_tx_data w;
       (_, w) \<leftarrow> Unlock (uc_lock (usbcmds w h)) w;
       Some (ZSA_RESULT_FROM_BOOL (status \<noteq> None), rx, map_option (\<lambda>_. word_of_int count) transfer_count,
             (if status = None then cmd_status else status), w)
     }
   }"

text \<open>The readers and writers check the status of the command, or leave that to their caller.\<close>

definition usb_cmd_read ::
  "libusb_api \<Rightarrow> ptr \<Rightarrow> u32 \<Rightarrow> bytes option \<Rightarrow> u64 \<Rightarrow> bytes option \<Rightarrow> u64 \<Rightarrow> u64 option \<Rightarrow> 'a usb_world_scheme \<Rightarrow>
     (zsa_result_t \<times> bytes option \<times> u64 option \<times> 'a usb_world_scheme) option" where
  "usb_cmd_read api h cmd p_cmd_data cmd_data_size p_data data_size bytes_read w = do {
     (result, data, bytes_read, cmd_status, w) \<leftarrow>
       usb_cmd_io api h cmd p_cmd_data cmd_data_size p_data data_size None 0 bytes_read (Some 0) w;
     Some (if ZSA_SUCCEEDED result \<and> cmd_status \<noteq> Some 0 then ZSA_RESULT_FAILED else result, data, bytes_read, w)
   }"

definition usb_cmd_read_with_status ::
  "libusb_api \<Rightarrow> ptr \<Rightarrow> u32 \<Rightarrow> bytes option \<Rightarrow> u64 \<Rightarrow> bytes option \<Rightarrow> u64 \<Rightarrow> u64 option \<Rightarrow> u32 option \<Rightarrow> 'a usb_world_scheme \<Rightarrow>
     (zsa_result_t \<times> bytes option \<times> u64 option \<times> u32 option \<times> 'a usb_world_scheme) option" where
  "usb_cmd_read_with_status api h cmd p_cmd_data cmd_data_size p_data data_size bytes_read cmd_status w =
     (if cmd_status = None then Some (ZSA_RESULT_FAILED, p_data, bytes_read, cmd_status, w)
      else usb_cmd_io api h cmd p_cmd_data cmd_data_size p_data data_size None 0 bytes_read cmd_status w)"

definition usb_cmd_write ::
  "libusb_api \<Rightarrow> ptr \<Rightarrow> u32 \<Rightarrow> bytes option \<Rightarrow> u64 \<Rightarrow> bytes option \<Rightarrow> u64 \<Rightarrow> 'a usb_world_scheme \<Rightarrow>
     (zsa_result_t \<times> 'a usb_world_scheme) option" where
  "usb_cmd_write api h cmd p_cmd_data cmd_data_size p_data data_size w = do {
     (result, _, _, cmd_status, w) \<leftarrow>
       usb_cmd_io api h cmd p_cmd_data cmd_data_size None 0 p_data data_size None (Some 0) w;
     Some (if ZSA_SUCCEEDED result \<and> cmd_status \<noteq> Some 0 then ZSA_RESULT_FAILED else result, w)
   }"

definition usb_cmd_write_with_status ::
  "libusb_api \<Rightarrow> ptr \<Rightarrow> u32 \<Rightarrow> bytes option \<Rightarrow> u64 \<Rightarrow> bytes option \<Rightarrow> u64 \<Rightarrow> u32 option \<Rightarrow> 'a usb_world_scheme \<Rightarrow>
     (zsa_result_t \<times> u32 option \<times> 'a usb_world_scheme) option" where
  "usb_cmd_write_with_status api h cmd p_cmd_data cmd_data_size p_data data_size cmd_status w = do {
     (result, _, _, cmd_status, w) \<leftarrow>
       usb_cmd_io api h cmd p_cmd_data cmd_data_size None 0 p_data data_size None cmd_status w;
     Some (result, cmd_status, w)
   }"

subsection \<open>Queries\<close>

text \<open>\<open>strlen\<close> of an array: reading on after its end is a fault.\<close>

definition c_strlen :: "bytes \<Rightarrow> nat option" where
  "c_strlen s = (if 0 \<in> set s then Some (length (takeWhile (\<lambda>b. b \<noteq> 0) s)) else None)"

definition usb_cmd_get_serial_number ::
  "ptr \<Rightarrow> bytes option \<Rightarrow> u64 option \<Rightarrow> 'a usb_world_scheme \<Rightarrow> (zsa_buffer_result_t \<times> bytes option \<times> u64 option) option" where
  "usb_cmd_get_serial_number h serial_number serial_number_size w = do {
     ctx \<leftarrow> usbcmd_t_get_context h w;
     case (ctx, serial_number_size) of
       (Some c, Some n) \<Rightarrow> do {
         len \<leftarrow> c_strlen (uc_serial_number c);
         let required_length = (of_nat (len + 1) :: u64);
         if required_length > n then Some (ZSA_BUFFER_RESULT_TOO_SMALL, serial_number, Some required_length)
         else case serial_number of
                None \<Rightarrow> Some (ZSA_BUFFER_RESULT_FAILED, None, serial_number_size)
              | Some buf \<Rightarrow> do {
                  buf \<leftarrow> overwrite buf (take len (uc_serial_number c) @ [0]);
                  Some (ZSA_BUFFER_RESULT_SUCCEEDED, Some buf, Some required_length)
                }
       }
     | _ \<Rightarrow> Some (ZSA_BUFFER_RESULT_FAILED, serial_number, serial_number_size)
   }"

definition usb_cmd_stream_register_cb ::
  "ptr \<Rightarrow> ptr \<Rightarrow> ptr \<Rightarrow> 'a usb_world_scheme \<Rightarrow> (zsa_result_t \<times> 'a usb_world_scheme) option" where
  "usb_cmd_stream_register_cb h capture_ready_cb context w = do {
     ctx \<leftarrow> usbcmd_t_get_context h w;
     case ctx of
       None \<Rightarrow> Some (ZSA_RESULT_FAILED, w)
     | Some c \<Rightarrow> Some (ZSA_RESULT_SUCCEEDED, put_usbcmd h (c\<lparr>uc_callback := capture_ready_cb, uc_stream_context := context\<rparr>) w)
   }"

definition usb_cmd_get_container_id :: "ptr \<Rightarrow> 'a usb_world_scheme \<Rightarrow> guid_t option option" where
  "usb_cmd_get_container_id h w = do {
     ctx \<leftarrow> usbcmd_t_get_context h w;
     Some (map_option uc_container_id ctx)
   }"

text \<open>
  The loop of \<open>usb_cmd_get_device_count\<close>: it stops at the first descriptor that cannot be read. The counts
  are those of the color and of the depth endpoints.
\<close>

fun count_devices ::
  "libusb_api \<Rightarrow> ptr list \<Rightarrow> u32 \<Rightarrow> u32 \<Rightarrow> 'a usb_world_scheme \<Rightarrow> zsa_result_t \<times> u32 \<times> u32 \<times> 'a usb_world_scheme" where
  "count_devices api [] color depth w = (ZSA_RESULT_SUCCEEDED, color, depth, w)"
| "count_devices api (dev # devs) color depth w =
     (case libusb_get_device_descriptor api dev w of (err, desc, w) \<Rightarrow>
        if ZSA_FAILED (TraceLibUsbError err) then (ZSA_RESULT_FAILED, color, depth, w)
        else if idVendor desc = ZSA_MSFT_VID \<and> idProduct desc = ZSA_RGB_PID then count_devices api devs (color + 1) depth w
        else if idVendor desc = ZSA_MSFT_VID \<and> idProduct desc = ZSA_DEPTH_PID then count_devices api devs color (depth + 1) w
        else count_devices api devs color depth w)"

definition usb_cmd_get_device_count ::
  "libusb_api \<Rightarrow> u32 option \<Rightarrow> 'a usb_world_scheme \<Rightarrow> zsa_result_t \<times> u32 option \<times> 'a usb_world_scheme" where
  "usb_cmd_get_device_count api p_device_count w =
     (if p_device_count = None then (ZSA_RESULT_FAILED, None, w)
      else case libusb_init api w of (err, ctx, w) \<Rightarrow>
        if err < 0 then (ZSA_RESULT_FAILED, Some 0, w)
        else let w = libusb_logging_disable api ctx w in
          case libusb_get_device_list api ctx w of (count, dev_list, w) \<Rightarrow>
          if count > INT32_MAX \<or> count = 0 then (ZSA_RESULT_FAILED, Some 0, w)
          else case count_devices api (take (nat count) dev_list) 0 0 w of (result, color, depth, w) \<Rightarrow>
            (result, Some (max color depth), libusb_exit ctx (libusb_free_device_list dev_list w)))"

subsection \<open>Text and bytes\<close>

lemma hex_digit_inj: "m < 16 \<Longrightarrow> n < 16 \<Longrightarrow> hex_digit m = hex_digit n \<longleftrightarrow> m = n"
proof -
  have "\<forall>m \<in> {0..<16}. \<forall>n \<in> {0..<16}. (hex_digit m = hex_digit n) = (m = n)"
    by (simp add: hex_digit_def atLeast0_lessThan_Suc numeral_eq_Suc)
  then show "m < 16 \<Longrightarrow> n < 16 \<Longrightarrow> hex_digit m = hex_digit n \<longleftrightarrow> m = n" by simp
qed

lemma hex2_inj: "hex2 a = hex2 b \<longleftrightarrow> a = b"
proof
  assume "hex2 a = hex2 b"
  moreover have "unat a div 16 < 16" "unat b div 16 < 16"
    using unsigned_less [of a, where ?'a = nat] unsigned_less [of b, where ?'a = nat] by (simp_all add: less_mult_imp_div_less)
  ultimately have "unat a div 16 = unat b div 16" "unat a mod 16 = unat b mod 16"
    by (simp_all add: hex2_def hex_digit_inj)
  then show "a = b" by (metis div_mult_mod_eq word_unat_eq_iff)
qed simp

lemma length_hex2 [simp]: "length (hex2 b) = 2"
  by (simp add: hex2_def)

lemma length_uuid_text: "length (uuid_text g) = 38"
  by (simp add: uuid_text_def Let_def)

lemma uuid_text_inj:
  assumes "length (guid_id g) = 16" and "length (guid_id k) = 16"
  shows "uuid_text g = uuid_text k \<longleftrightarrow> g = k"
proof
  assume "uuid_text g = uuid_text k"
  then have "\<forall>i \<in> {0, 1, 2, 3, 4, 5, 6, 7, 8, 9, 10, 11, 12, 13, 14, 15}. hex2 (guid_id g ! i) = hex2 (guid_id k ! i)"
    by (simp add: uuid_text_def Let_def append_eq_append_conv)
  moreover have "i \<in> {0, 1, 2, 3, 4, 5, 6, 7, 8, 9, 10, 11, 12, 13, 14, 15}" if "i < 16" for i :: nat
    using that by (simp add: numeral_eq_Suc less_Suc_eq)
  ultimately have "\<forall>i < 16. hex2 (guid_id g ! i) = hex2 (guid_id k ! i)" by blast
  then have "guid_id g = guid_id k" using assms by (intro nth_equalityI) (simp_all add: hex2_inj)
  then show "g = k" by (cases g; cases k) simp
qed simp

lemma of_le32_le32: "of_le32 (le32 x) = x"
proof (rule bit_word_eqI)
  fix n assume "n < LENGTH(32)"
  then consider "n < 8" | "8 \<le> n" "n < 16" | "16 \<le> n" "n < 24" | "24 \<le> n" "n < 32" by fastforce
  then show "bit (of_le32 (le32 x)) n = bit x n"
    by cases (auto simp: of_le32_def le32_def bit_simps)
qed

subsection \<open>Devices and contexts of the library are released\<close>

text \<open>
  \<open>balanced hs cs h w\<close>: besides the handles \<open>hs\<close> and the library contexts \<open>cs\<close> of others, what is open is
  what the context of device \<open>h\<close> names.
\<close>

definition balanced :: "ptr list \<Rightarrow> ptr list \<Rightarrow> ptr \<Rightarrow> 'a usb_world_scheme \<Rightarrow> bool" where
  "balanced hs cs h w \<longleftrightarrow>
     open_handles (libusb_calls w) = (if uc_libusb (usbcmds w h) = 0 then hs else uc_libusb (usbcmds w h) # hs) \<and>
     open_contexts (libusb_calls w) = (if uc_libusb_context (usbcmds w h) = 0 then cs else uc_libusb_context (usbcmds w h) # cs)"

text \<open>The documented results of a successful open and init: a handle, not a null pointer.\<close>

definition api_nonnull :: "libusb_api \<Rightarrow> bool" where
  "api_nonnull api \<longleftrightarrow> (\<forall>hist dev. 0 \<le> fst (api_open api hist dev) \<longrightarrow> snd (api_open api hist dev) \<noteq> 0) \<and>
     (\<forall>hist. 0 \<le> fst (api_init api hist) \<longrightarrow> snd (api_init api hist) \<noteq> 0)"

lemma trace_libusb [simp]: "ZSA_SUCCEEDED (TraceLibUsbError err) = (0 \<le> err)" "ZSA_FAILED (TraceLibUsbError err) = (err < 0)"
  "TraceLibUsbError err = ZSA_RESULT_SUCCEEDED \<longleftrightarrow> 0 \<le> err"
  by (simp_all add: TraceLibUsbError_def)

text \<open>What a device search leaves alone in the context of the device.\<close>

definition device_rest where
  "device_rest c = (uc_libusb_context c, uc_libusb_verbosity c, uc_pid c, uc_interface c, uc_cmd_tx_endpoint c, uc_cmd_rx_endpoint c,
     uc_stream_endpoint c, uc_source c, uc_lock c, uc_stream_handle c, uc_serial_number c, uc_transaction_id c, uc_stream_going c)"

lemma populate_container_id_run:
  assumes "populate_container_id api h w = (r, w')"
  shows "usb_step h w w'" and "uc_libusb (usbcmds w' h) = uc_libusb (usbcmds w h)" and "device_rest (usbcmds w' h) = device_rest (usbcmds w h)"
    and "open_handles (libusb_calls w') = open_handles (libusb_calls w)" and "open_contexts (libusb_calls w') = open_contexts (libusb_calls w)"
  using assms
  by (auto simp: populate_container_id_def libusb_get_bos_descriptor_def libusb_get_container_id_descriptor_def device_rest_def Let_def
      split: prod.splits option.splits if_splits)

lemma logging_run:
  "usb_step h w (libusb_logging_disable api ctx w)" "usb_step h w (libusb_logging_restore api ctx v w)"
  "usbcmds (libusb_logging_disable api ctx w) = usbcmds w" "usbcmds (libusb_logging_restore api ctx v w) = usbcmds w"
  "open_handles (libusb_calls (libusb_logging_disable api ctx w)) = open_handles (libusb_calls w)"
  "open_handles (libusb_calls (libusb_logging_restore api ctx v w)) = open_handles (libusb_calls w)"
  "open_contexts (libusb_calls (libusb_logging_disable api ctx w)) = open_contexts (libusb_calls w)"
  "open_contexts (libusb_calls (libusb_logging_restore api ctx v w)) = open_contexts (libusb_calls w)"
  by (simp_all add: libusb_logging_disable_def libusb_logging_restore_def libusb_set_option_def)

text \<open>A device that is tried is kept open or closed again.\<close>

definition tried :: "ptr list \<Rightarrow> ptr list \<Rightarrow> ptr \<Rightarrow> 'a usb_world_scheme \<Rightarrow> bool \<Rightarrow> 'a usb_world_scheme \<Rightarrow> bool" where
  "tried hs cs h w found w' \<longleftrightarrow> usb_step h w w' \<and> balanced hs cs h w' \<and> device_rest (usbcmds w' h) = device_rest (usbcmds w h) \<and>
     (uc_libusb (usbcmds w' h) \<noteq> 0 \<longleftrightarrow> found)"

lemma try_device_run:
  assumes api: "api_nonnull api" and bal: "balanced hs cs h w" "uc_libusb (usbcmds w h) = 0"
    and run: "try_device api h cid dev described w = (found, w')"
  shows "tried hs cs h w found w'" and "found \<Longrightarrow> cid = None \<or> cid = Some (uc_container_id (usbcmds w' h))"
proof -
  define w1 where "w1 = libusb_logging_disable api (uc_libusb_context (usbcmds w h)) (put_usbcmd h ((usbcmds w h)\<lparr>uc_libusb := 0\<rparr>) w)"
  have w1: "usb_step h w w1" "uc_libusb (usbcmds w1 h) = 0" "device_rest (usbcmds w1 h) = device_rest (usbcmds w h)" "balanced hs cs h w1"
    using bal usb_step_trans [OF usb_step_put [OF usb_step_refl] logging_run(1)]
    by (simp_all add: w1_def logging_run device_rest_def balanced_def)
  obtain err handle where op: "api_open api (libusb_calls w1) dev = (err, handle)" by fastforce
  let ?w2 = "lu_call (LU_open dev err handle) w1"
  have opened: "libusb_open api dev w1 = (err, handle, ?w2)" by (simp add: libusb_open_def op)
  show "tried hs cs h w found w'" "found \<Longrightarrow> cid = None \<or> cid = Some (uc_container_id (usbcmds w' h))"
  proof (atomize(full), cases "described \<and> 0 \<le> err")
    case False
    have "\<not> found" "uc_libusb (usbcmds w' h) = 0" "tried hs cs h w found w'"
      using False run w1 bal opened usb_step_trans [OF usb_step_call [OF w1(1), of "LU_open dev err handle"] logging_run(2)]
      by (auto simp: try_device_def Let_def w1_def [symmetric] libusb_close_def tried_def logging_run balanced_def device_rest_def split: if_splits)
    then show "tried hs cs h w found w' \<and> (found \<longrightarrow> cid = None \<or> cid = Some (uc_container_id (usbcmds w' h)))" by blast
  next
    case True
    have hd: "handle \<noteq> 0" using api True op by (auto simp: api_nonnull_def) (metis fst_conv snd_conv)
    let ?w3 = "put_usbcmd h ((usbcmds w1 h)\<lparr>uc_libusb := handle\<rparr>) ?w2"
    define w4 where "w4 = libusb_logging_restore api (uc_libusb_context (usbcmds w h)) (uc_libusb_verbosity (usbcmds w1 h)) ?w3"
    have w4: "usb_step h w w4" "device_rest (usbcmds w4 h) = device_rest (usbcmds w h)" "uc_libusb (usbcmds w4 h) = handle"
        "open_handles (libusb_calls w4) = handle # hs"
        "open_contexts (libusb_calls w4) = (if uc_libusb_context (usbcmds w h) = 0 then cs else uc_libusb_context (usbcmds w h) # cs)"
      using w1 True usb_step_trans [OF usb_step_put [OF usb_step_call [OF w1(1)]] logging_run(2)]
      by (auto simp: w4_def logging_run device_rest_def balanced_def)
    obtain r w5 where pop: "populate_container_id api h w4 = (r, w5)" by fastforce
    note p = populate_container_id_run [OF pop]
    have body: "(found, w') = (if ZSA_SUCCEEDED r \<and> (cid = None \<or> cid = Some (uc_container_id (usbcmds w5 h))) then (True, w5)
        else (False, put_usbcmd h ((usbcmds w5 h)\<lparr>uc_libusb := 0\<rparr>) (libusb_close (uc_libusb (usbcmds w5 h)) w5)))"
      using run True opened pop by (simp add: try_device_def Let_def w1_def [symmetric] w4_def split: prod.splits)
    have ctx: "uc_libusb_context (usbcmds w5 h) = uc_libusb_context (usbcmds w h)" using p(3) w4(2) by (simp add: device_rest_def)
    have st: "usb_step h w w5" by (rule usb_step_trans [OF w4(1) p(1)])
    show "tried hs cs h w found w' \<and> (found \<longrightarrow> cid = None \<or> cid = Some (uc_container_id (usbcmds w' h)))"
      using body p(2-5) w4 st ctx hd
      by (auto simp: tried_def balanced_def libusb_close_def device_rest_def split: if_splits)
  qed
qed

lemma tried_trans:
  assumes "tried hs cs h w False w1" and "tried hs cs h w1 found w2"
  shows "tried hs cs h w found w2"
  using assms usb_step_trans [of h w w1 w2] by (simp add: tried_def)

lemma lu_step_tried:
  assumes "balanced hs cs h w" "uc_libusb (usbcmds w h) = 0" and "\<And>l. lu_open_step k l = l" "\<And>l. lu_context_step k l = l"
  shows "tried hs cs h w False (lu_call k w)"
  using assms by (simp add: tried_def balanced_def)

lemma find_loop_run:
  assumes api: "api_nonnull api" and bal: "balanced hs cs h w" "uc_libusb (usbcmds w h) = 0"
    and run: "find_loop api i cid h devs li desc w = (found, desc', w')"
  shows "tried hs cs h w found w' \<and>
    (found \<longrightarrow> idVendor desc' = ZSA_MSFT_VID \<and> idProduct desc' = uc_pid (usbcmds w h) \<and> (cid = None \<or> cid = Some (uc_container_id (usbcmds w' h))))"
  using bal run
proof (induction devs arbitrary: li desc w)
  case Nil
  then show ?case by (auto simp: tried_def)
next
  case (Cons dev devs)
  obtain err nd where a: "api_get_device_descriptor api (libusb_calls w) dev = (err, nd)" by fastforce
  let ?w1 = "lu_call (LU_get_device_descriptor dev) w"
  have t1: "tried hs cs h w False ?w1" using Cons.prems(1,2) by (rule lu_step_tried) simp_all
  then have b1: "balanced hs cs h ?w1" "uc_libusb (usbcmds ?w1 h) = 0" by (simp_all add: tried_def)
  let ?ok = "0 \<le> err" and ?desc = "if 0 \<le> err then nd else desc"
  have again: ?case if "find_loop api i cid h devs li' ?desc w2 = (found, desc', w')" "tried hs cs h ?w1 False w2" for li' w2
  proof -
    have b2: "balanced hs cs h w2" "uc_libusb (usbcmds w2 h) = 0" "uc_pid (usbcmds w2 h) = uc_pid (usbcmds w h)"
      using that(2) by (simp_all add: tried_def device_rest_def)
    from Cons.IH [OF b2(1,2) that(1)] show ?thesis using tried_trans [OF t1 tried_trans [OF that(2)]] b2(3) by auto
  qed
  have here: "tried hs cs h ?w1 False ?w1" using b1 by (simp add: tried_def)
  obtain f w2 where tr: "try_device api h cid dev ?ok ?w1 = (f, w2)" by fastforce
  note t2 = try_device_run [OF api b1 tr]
  note step = Cons.prems(3) [unfolded find_loop.simps libusb_get_device_descriptor_def a prod.case Let_def trace_libusb]
  consider "?ok \<and> (idVendor ?desc \<noteq> ZSA_MSFT_VID \<or> idProduct ?desc \<noteq> uc_pid (usbcmds ?w1 h))"
    | "\<not> (?ok \<and> (idVendor ?desc \<noteq> ZSA_MSFT_VID \<or> idProduct ?desc \<noteq> uc_pid (usbcmds ?w1 h)))" "?ok \<and> i \<noteq> ucast li \<and> cid = None"
    | "\<not> (?ok \<and> (idVendor ?desc \<noteq> ZSA_MSFT_VID \<or> idProduct ?desc \<noteq> uc_pid (usbcmds ?w1 h)))" "\<not> (?ok \<and> i \<noteq> ucast li \<and> cid = None)" by blast
  then show ?case
  proof cases
    case 1
    show ?thesis by (rule again [OF step [unfolded if_P [OF 1]] here])
  next
    case 2
    with step have "find_loop api i cid h devs (li + 1) ?desc ?w1 = (found, desc', w')" by simp
    then show ?thesis by (rule again [OF _ here])
  next
    case 3
    show ?thesis
    proof (cases f)
      case True
      have "try_device api h cid dev False ?w1 \<noteq> (True, w2)" by (simp add: try_device_def Let_def)
      then have ok: ?ok using tr True by metis
      have "(found, desc', w') = (True, ?desc, w2)" using step 3 tr True by (simp split: if_splits)
      then show ?thesis using 3 ok t2 True tried_trans [OF t1] by auto
    next
      case False
      have "find_loop api i cid h devs (if ?ok then li + 1 else li) ?desc w2 = (found, desc', w')"
        using step 3 tr False by (simp split: if_splits)
      moreover have "tried hs cs h ?w1 False w2" using t2(1) False by simp
      ultimately show ?thesis by (rule again)
    qed
  qed
qed

text \<open>The search: what is open at the end is named by the context.\<close>

definition searched :: "ptr list \<Rightarrow> ptr list \<Rightarrow> ptr \<Rightarrow> 'a usb_world_scheme \<Rightarrow> 'a usb_world_scheme \<Rightarrow> bool" where
  "searched hs cs h w w' \<longleftrightarrow> usb_step h w w' \<and> balanced hs cs h w' \<and> uc_lock (usbcmds w' h) = uc_lock (usbcmds w h) \<and>
     uc_stream_handle (usbcmds w' h) = uc_stream_handle (usbcmds w h) \<and> uc_interface (usbcmds w' h) = uc_interface (usbcmds w h) \<and>
     length (uc_serial_number (usbcmds w' h)) = length (uc_serial_number (usbcmds w h)) \<and> uc_pid (usbcmds w' h) = uc_pid (usbcmds w h)"

lemma find_libusb_device_run:
  assumes api: "api_nonnull api" and bal: "balanced hs cs h w" "uc_libusb (usbcmds w h) = 0" "uc_libusb_context (usbcmds w h) = 0"
    and run: "find_libusb_device api i cid desc h w = (r, desc', w')"
  shows "searched hs cs h w w'" and "r = ZSA_RESULT_SUCCEEDED \<longleftrightarrow> uc_libusb (usbcmds w' h) \<noteq> 0"
    and "r = ZSA_RESULT_SUCCEEDED \<Longrightarrow> uc_libusb_context (usbcmds w' h) \<noteq> 0 \<and> idVendor desc' = ZSA_MSFT_VID \<and>
      idProduct desc' = uc_pid (usbcmds w h) \<and> (cid = None \<or> cid = Some (uc_container_id (usbcmds w' h)))"
proof -
  obtain err ctx where a: "api_init api (libusb_calls w) = (err, ctx)" by fastforce
  let ?w1 = "lu_call (LU_init err ctx) w"
  let ?w2 = "put_usbcmd h ((usbcmds w h)\<lparr>uc_libusb_context := ctx\<rparr>) ?w1"
  obtain r3 w3 where v: "usb_cmd_set_libusb_debug_verbosity api h ?w2 = (r3, w3)" by fastforce
  have w3: "usb_step h w w3" "uc_libusb (usbcmds w3 h) = 0" "uc_libusb_context (usbcmds w3 h) = ctx" "uc_lock (usbcmds w3 h) = uc_lock (usbcmds w h)"
     "uc_stream_handle (usbcmds w3 h) = uc_stream_handle (usbcmds w h)" "uc_serial_number (usbcmds w3 h) = uc_serial_number (usbcmds w h)"
     "uc_pid (usbcmds w3 h) = uc_pid (usbcmds w h)" "uc_interface (usbcmds w3 h) = uc_interface (usbcmds w h)"
     "libusb_calls w3 = libusb_calls w @ [LU_init err ctx, LU_set_option ctx LIBUSB_LOG_LEVEL_WARNING]"
    using v bal by (auto simp: usb_cmd_set_libusb_debug_verbosity_def libusb_set_option_def Let_def)
  define w4 where "w4 = libusb_logging_disable api ctx w3"
  obtain n devs where l: "api_get_device_list api (libusb_calls w4) ctx = (n, devs)" by fastforce
  define w6 where "w6 = libusb_logging_restore api ctx (uc_libusb_verbosity (usbcmds w3 h)) (lu_call (LU_get_device_list ctx n) w4)"
  have w6: "usb_step h w w6" "usbcmds w6 = usbcmds w3" "open_handles (libusb_calls w6) = open_handles (libusb_calls w3)"
      "open_contexts (libusb_calls w6) = open_contexts (libusb_calls w3)"
    using usb_step_trans [OF usb_step_call [OF usb_step_trans [OF w3(1) logging_run(1)]] logging_run(2)]
    by (simp_all add: w6_def w4_def logging_run)
  obtain f d w7 where lp: "find_loop api i cid h (take (nat n) devs) 0 desc w6 = (f, d, w7)" by (rule prod_cases3)
  have nz: "ctx \<noteq> 0" if "0 \<le> err" using api that a by (auto simp: api_nonnull_def) (metis fst_conv snd_conv)
  have bal3: "balanced hs cs h w3" "balanced hs cs h w6" if "0 \<le> err"
    using that bal nz [OF that] w3 w6 by (auto simp: balanced_def)
  consider (init) "err < 0" "r = ZSA_RESULT_FAILED" "w' = libusb_free_device_list [] ?w1"
    | (verb) "0 \<le> err" "r = ZSA_RESULT_FAILED" "w' = libusb_free_device_list [] w3"
    | (devs) "0 \<le> err" "r = ZSA_RESULT_FAILED" "w' = libusb_free_device_list devs w6"
    | (loop) "0 \<le> err" "r = ZSA_RESULT_FROM_BOOL f" "desc' = d"
        "w' = libusb_free_device_list devs (if \<not> f \<and> uc_libusb (usbcmds w7 h) \<noteq> 0
           then put_usbcmd h ((usbcmds w7 h)\<lparr>uc_libusb := 0\<rparr>) (libusb_close (uc_libusb (usbcmds w7 h)) w7) else w7)"
    using run v l lp w3(3)
    by (auto simp: find_libusb_device_def libusb_init_def a Let_def w4_def [symmetric] w6_def [symmetric] libusb_get_device_list_def logging_run
        w4_def [THEN arg_cong [where f = usbcmds], simplified logging_run] split: if_splits)
  then have "searched hs cs h w w' \<and> (r = ZSA_RESULT_SUCCEEDED \<longleftrightarrow> uc_libusb (usbcmds w' h) \<noteq> 0) \<and>
    (r = ZSA_RESULT_SUCCEEDED \<longrightarrow> uc_libusb_context (usbcmds w' h) \<noteq> 0 \<and> idVendor desc' = ZSA_MSFT_VID \<and>
      idProduct desc' = uc_pid (usbcmds w h) \<and> (cid = None \<or> cid = Some (uc_container_id (usbcmds w' h))))"
  proof cases
    case init
    then show ?thesis using bal by (auto simp: searched_def balanced_def libusb_free_device_list_def)
  next
    case verb
    then show ?thesis using bal3 w3 by (auto simp: searched_def balanced_def libusb_free_device_list_def)
  next
    case devs
    then show ?thesis using bal3 w3 w6 by (auto simp: searched_def balanced_def libusb_free_device_list_def)
  next
    case loop
    have u6: "uc_libusb (usbcmds w6 h) = 0" using w6(2) w3(2) by simp
    from find_loop_run [OF api bal3(2) [OF loop(1)] u6 lp]
    have t: "tried hs cs h w6 f w7" "f \<Longrightarrow> idVendor d = ZSA_MSFT_VID \<and> idProduct d = uc_pid (usbcmds w6 h) \<and> (cid = None \<or> cid = Some (uc_container_id (usbcmds w7 h)))" by blast+
    have "w' = libusb_free_device_list devs w7" using loop(4) t(1) by (simp add: tried_def)
    moreover have "uc_libusb_context (usbcmds w7 h) = ctx" "uc_lock (usbcmds w7 h) = uc_lock (usbcmds w h)"
      "uc_stream_handle (usbcmds w7 h) = uc_stream_handle (usbcmds w h)" "uc_serial_number (usbcmds w7 h) = uc_serial_number (usbcmds w h)"
      "uc_pid (usbcmds w7 h) = uc_pid (usbcmds w h)" "uc_interface (usbcmds w7 h) = uc_interface (usbcmds w h)"
      using t(1) w3 w6(2) by (simp_all add: tried_def device_rest_def)
    ultimately show ?thesis
      using t loop(2,3) nz [OF loop(1)] usb_step_trans [OF w6(1)] w6(2) w3(7)
      by (auto simp: searched_def tried_def balanced_def libusb_free_device_list_def)
  qed
  then show "searched hs cs h w w'" "r = ZSA_RESULT_SUCCEEDED \<longleftrightarrow> uc_libusb (usbcmds w' h) \<noteq> 0"
    "r = ZSA_RESULT_SUCCEEDED \<Longrightarrow> uc_libusb_context (usbcmds w' h) \<noteq> 0 \<and> idVendor desc' = ZSA_MSFT_VID \<and>
      idProduct desc' = uc_pid (usbcmds w h) \<and> (cid = None \<or> cid = Some (uc_container_id (usbcmds w' h)))" by blast+
qed

lemma searched_call:
  assumes "searched hs cs h w w'" and "\<And>l. lu_open_step k l = l" "\<And>l. lu_context_step k l = l"
  shows "searched hs cs h w (lu_call k w')"
  using assms by (simp add: searched_def balanced_def)

lemma overwrite_bounded: "length s \<le> length buf \<Longrightarrow> \<exists>b. overwrite buf s = Some b \<and> length b = length buf"
  by (simp add: overwrite_def)

lemma populate_serialnumber_run:
  assumes api: "api_bounded api" and s: "searched hs cs h w w1"
  shows "\<exists>r w2. populate_serialnumber api h desc w1 = Some (r, w2) \<and> searched hs cs h w w2 \<and>
     uc_libusb (usbcmds w2 h) = uc_libusb (usbcmds w1 h) \<and> uc_libusb_context (usbcmds w2 h) = uc_libusb_context (usbcmds w1 h)"
proof (cases "iSerialNumber desc = 0")
  case True
  then show ?thesis using s by (simp add: populate_serialnumber_def)
next
  case False
  obtain err t where a: "api_get_string_descriptor_ascii api (libusb_calls w1) (uc_libusb (usbcmds w1 h)) (iSerialNumber desc)
      (length (uc_serial_number (usbcmds w1 h))) = (err, t)" by fastforce
  have "length t \<le> length (uc_serial_number (usbcmds w1 h))" using api a by (auto simp: api_bounded_def) (metis snd_conv)
  from overwrite_bounded [OF this] obtain b where b: "overwrite (uc_serial_number (usbcmds w1 h)) t = Some b"
    "length b = length (uc_serial_number (usbcmds w1 h))" by blast
  let ?w2 = "put_usbcmd h ((usbcmds w1 h)\<lparr>uc_serial_number := b\<rparr>) (lu_call (LU_get_string_descriptor_ascii (uc_libusb (usbcmds w1 h)) (iSerialNumber desc)) w1)"
  have "populate_serialnumber api h desc w1 = Some (TraceLibUsbError err, ?w2)"
    using False a b(1) by (simp add: populate_serialnumber_def libusb_get_string_descriptor_ascii_def)
  moreover have "searched hs cs h w ?w2" using s b(2) by (simp add: searched_def balanced_def)
  ultimately show ?thesis by (intro exI [of _ "TraceLibUsbError err"] exI [of _ ?w2]) simp
qed

lemma usb_claim_device_run:
  assumes "usb_claim_device api h w1 = (r, w2)" and "searched hs cs h w w1"
  shows "searched hs cs h w w2" and "usbcmds w2 = usbcmds w1"
  using assms
  by (auto simp: usb_claim_device_def libusb_get_configuration_def libusb_set_configuration_def libusb_kernel_driver_active_def
      libusb_detach_kernel_driver_def libusb_claim_interface_def Let_def intro!: searched_call split: prod.splits if_splits)

lemma usb_device_setup_run:
  assumes api: "api_nonnull api" "api_bounded api" and bal: "balanced hs cs h w" "uc_libusb (usbcmds w h) = 0" "uc_libusb_context (usbcmds w h) = 0"
  shows "\<exists>r w'. usb_device_setup api i cid h w = Some (r, w') \<and> searched hs cs h w w' \<and>
     (r = ZSA_RESULT_SUCCEEDED \<longrightarrow> uc_libusb (usbcmds w' h) \<noteq> 0 \<and> uc_libusb_context (usbcmds w' h) \<noteq> 0)"
proof -
  obtain r1 d w1 where f: "find_libusb_device api i cid \<lparr>idVendor = 0, idProduct = 0, iSerialNumber = 0\<rparr> h w = (r1, d, w1)" by (rule prod_cases3)
  note s1 = find_libusb_device_run [OF api(1) bal f]
  show ?thesis
  proof (cases "r1 = ZSA_RESULT_SUCCEEDED")
    case False
    then have "usb_device_setup api i cid h w = Some (r1, w1)" by (simp add: usb_device_setup_def f failed_iff [symmetric] ZSA_FAILED_def succeeded_iff)
    then show ?thesis using s1(1) False by blast
  next
    case True
    from populate_serialnumber_run [OF api(2) s1(1), of d] obtain r2 w2 where
      w2: "populate_serialnumber api h d w1 = Some (r2, w2)" "searched hs cs h w w2" "uc_libusb (usbcmds w2 h) = uc_libusb (usbcmds w1 h)"
        "uc_libusb_context (usbcmds w2 h) = uc_libusb_context (usbcmds w1 h)" by blast
    have nz: "uc_libusb (usbcmds w2 h) \<noteq> 0" "uc_libusb_context (usbcmds w2 h) \<noteq> 0" using w2(3,4) s1(2,3) True by simp_all
    obtain r3 w3 where c: "usb_claim_device api h w2 = (r3, w3)" by fastforce
    have "usb_device_setup api i cid h w = Some (if ZSA_FAILED r2 then (r2, w2) else (r3, w3))"
      using True w2(1) c by (simp add: usb_device_setup_def f)
    then show ?thesis using nz w2(2) usb_claim_device_run [OF c w2(2)] by (cases "ZSA_FAILED r2") (simp_all add: failed_iff)
  qed
qed

text \<open>Destruction of a device whose stream is not running.\<close>

definition usb_gone :: "ptr \<Rightarrow> 'a usb_world_scheme \<Rightarrow> 'a usb_world_scheme \<Rightarrow> bool" where
  "usb_gone h w w' \<longleftrightarrow> (\<exists>c calls. w' = w\<lparr>usbcmds := (usbcmds w)(h := c), libusb_calls := libusb_calls w @ calls, htype := (htype w)(h := None),
     locks := if uc_lock (usbcmds w h) = 0 then locks w else (locks w)(uc_lock (usbcmds w h) := None)\<rparr>)"

lemma usb_cmd_stream_stop_idle:
  assumes "live H_usbcmd w h" and "uc_lock (usbcmds w h) = 0 \<or> locks w (uc_lock (usbcmds w h)) = Some False" and "uc_stream_handle (usbcmds w h) = 0"
  shows "usb_cmd_stream_stop thread h w = Some (ZSA_RESULT_SUCCEEDED, put_usbcmd h ((usbcmds w h)\<lparr>uc_stream_going := False\<rparr>) w)"
proof (cases "uc_lock (usbcmds w h) = 0")
  case True
  then show ?thesis using assms(1,3) by (simp add: usb_cmd_stream_stop_def Lock_def Unlock_def)
next
  case False
  then have l: "locks w (uc_lock (usbcmds w h)) = Some False" using assms(2) by simp
  then have id: "(locks w)(uc_lock (usbcmds w h) := Some False) = locks w" by (simp add: fun_upd_idem)
  let ?w1 = "w\<lparr>locks := (locks w)(uc_lock (usbcmds w h) := Some True)\<rparr>" and ?c = "(usbcmds w h)\<lparr>uc_stream_going := False\<rparr>"
  have "Lock (uc_lock (usbcmds w h)) w = Some (LOCK_OK, ?w1)" using l False by (simp add: Lock_free)
  moreover have "Unlock (uc_lock (usbcmds w h)) (put_usbcmd h ?c ?w1) = Some (LOCK_OK, put_usbcmd h ?c w)"
    using False by (simp add: Unlock_def put_usbcmd_def id)
  ultimately show ?thesis using assms(1,3) by (simp add: usb_cmd_stream_stop_def)
qed

lemma usb_cmd_close_device_run:
  fixes w :: "'a usb_world_scheme"
  assumes bal: "balanced hs cs h w"
  defines "w' \<equiv> usb_cmd_close_device h w"
  shows "usb_step h w w'" and "open_handles (libusb_calls w') = hs" and "open_contexts (libusb_calls w') = cs"
    and "uc_lock (usbcmds w' h) = uc_lock (usbcmds w h)"
proof -
  define w2 where "w2 = (if uc_libusb (usbcmds w h) \<noteq> 0 then libusb_release_interface (uc_libusb (usbcmds w h)) (uc_interface (usbcmds w h)) w else w)"
  define w3 where "w3 = (if uc_libusb (usbcmds w2 h) \<noteq> 0 then put_usbcmd h ((usbcmds w2 h)\<lparr>uc_libusb := 0\<rparr>) (libusb_close (uc_libusb (usbcmds w2 h)) w2) else w2)"
  have w': "w' = (if uc_libusb_context (usbcmds w3 h) \<noteq> 0
    then put_usbcmd h ((usbcmds w3 h)\<lparr>uc_libusb_context := 0\<rparr>) (libusb_exit (uc_libusb_context (usbcmds w3 h)) w3) else w3)"
    by (simp only: w'_def usb_cmd_close_device_def Let_def w3_def w2_def)
  have s2: "usb_step h w w2" "usbcmds w2 = usbcmds w" "balanced hs cs h w2"
    using bal by (auto simp: w2_def libusb_release_interface_def balanced_def)
  have s3: "usb_step h w w3" "open_handles (libusb_calls w3) = hs" "open_contexts (libusb_calls w3) = open_contexts (libusb_calls w2)"
      "uc_libusb_context (usbcmds w3 h) = uc_libusb_context (usbcmds w2 h)" "uc_lock (usbcmds w3 h) = uc_lock (usbcmds w h)"
    using s2 by (auto simp: w3_def libusb_close_def balanced_def)
  show "usb_step h w w'" "open_handles (libusb_calls w') = hs" "open_contexts (libusb_calls w') = cs" "uc_lock (usbcmds w' h) = uc_lock (usbcmds w h)"
    using s3 s2(3) by (auto simp: w' libusb_exit_def balanced_def)
qed

lemma usb_cmd_destroy_run:
  assumes live: "live H_usbcmd w h" and lock: "uc_lock (usbcmds w h) = 0 \<or> locks w (uc_lock (usbcmds w h)) = Some False"
    and idle: "uc_stream_handle (usbcmds w h) = 0" and bal: "balanced hs cs h w"
  shows "\<exists>w'. usb_cmd_destroy thread h w = Some w' \<and> usb_gone h w w' \<and>
     open_handles (libusb_calls w') = hs \<and> open_contexts (libusb_calls w') = cs"
proof -
  let ?l = "uc_lock (usbcmds w h)"
  define w1 where "w1 = put_usbcmd h ((usbcmds w h)\<lparr>uc_stream_going := False\<rparr>) w"
  have w1: "usb_cmd_stream_stop thread h w = Some (ZSA_RESULT_SUCCEEDED, w1)" unfolding w1_def by (rule usb_cmd_stream_stop_idle [OF live lock idle])
  have l1: "uc_lock (usbcmds w1 h) = ?l" "locks w1 = locks w" by (simp_all add: w1_def)
  have wait: "?l \<noteq> 0 \<Longrightarrow> Lock ?l w1 = Some (LOCK_OK, w1\<lparr>locks := (locks w)(?l := Some True)\<rparr>)"
      "?l \<noteq> 0 \<Longrightarrow> Unlock ?l (w1\<lparr>locks := (locks w)(?l := Some True)\<rparr>) = Some (LOCK_OK, w1)"
    using lock by (auto simp: Lock_def Unlock_def l1 w1_def put_usbcmd_def fun_upd_idem)
  have b1: "balanced hs cs h w1" using bal by (simp add: w1_def balanced_def)
  define w4 where "w4 = usb_cmd_close_device h w1"
  note s4 = usb_cmd_close_device_run [OF b1, folded w4_def]
  have "usb_step h w w4" using usb_step_trans [OF _ s4(1)] by (simp add: w1_def)
  then obtain c k where k: "w4 = w\<lparr>usbcmds := (usbcmds w)(h := c), libusb_calls := libusb_calls w @ k\<rparr>" by (rule usb_stepE)
  define w5 where "w5 = (if ?l \<noteq> 0 then put_usbcmd h (c\<lparr>uc_lock := 0\<rparr>) (w4\<lparr>locks := (locks w)(?l := None)\<rparr>) else w4)"
  have c: "usbcmds w4 h = c" "uc_lock c = ?l" "locks w4 = locks w" using k s4(4) l1 by simp_all
  have deinit: "?l \<noteq> 0 \<Longrightarrow> Lock_Deinit ?l w4 = Some (LOCK_OK, w4\<lparr>locks := (locks w)(?l := None)\<rparr>)"
    using lock by (auto simp: Lock_Deinit_def c)
  have "usb_cmd_destroy thread h w = handle_destroy h w5"
    unfolding usb_cmd_destroy_def using live w1 wait deinit c
    by (cases "?l = 0") (simp_all add: l1 w4_def [symmetric] w5_def)
  moreover have "handle_destroy h w5 = Some (w5\<lparr>htype := (htype w)(h := None)\<rparr>)"
    using live by (simp add: handle_destroy_def live_def w5_def k put_usbcmd_def)
  moreover have "usb_gone h w (w5\<lparr>htype := (htype w)(h := None)\<rparr>)"
    unfolding usb_gone_def by (rule exI [of _ "usbcmds w5 h"], rule exI [of _ k]) (simp add: w5_def k put_usbcmd_def)
  ultimately show ?thesis using s4(2,3) by (auto simp: w5_def)
qed

subsection \<open>Creation and destruction\<close>

text \<open>A device that can be used: its lock is free, the device and the library are open, no stream runs.\<close>

definition usb_ready :: "ptr \<Rightarrow> 'a usb_world_scheme \<Rightarrow> bool" where
  "usb_ready h w \<longleftrightarrow> live H_usbcmd w h \<and> uc_lock (usbcmds w h) \<noteq> 0 \<and> locks w (uc_lock (usbcmds w h)) = Some False \<and>
     length (uc_serial_number (usbcmds w h)) = MAX_SERIAL_NUMBER_LENGTH"

text \<open>The contexts, handles and locks of a failed creation are those of before.\<close>

lemma usb_cmd_create_failed:
  fixes w :: "'a usb_world_scheme"
  assumes mem: "mem_ok w" and w1: "usb_step h v w1" and h: "htype w h = None" "h \<noteq> 0"
    and v: "htype v = (htype w)(h := Some H_usbcmd)" "locks v = (if l = 0 then locks w else (locks w)(l := Some False))" "l = 0 \<or> locks w l = None"
      "uc_lock (usbcmds w1 h) = l" "uc_stream_handle (usbcmds w1 h) = 0"
    and bal: "balanced hs cs h w1"
  shows "\<exists>w'. usb_cmd_destroy (\<lambda>w. w) h w1 = Some w' \<and> open_handles (libusb_calls w') = hs \<and> open_contexts (libusb_calls w') = cs \<and>
     htype w' = htype w \<and> locks w' = locks w"
proof -
  have live: "live H_usbcmd w1 h" using usb_stepD(2) [OF w1] v(1) h(2) by (simp add: live_def)
  have lock: "uc_lock (usbcmds w1 h) = 0 \<or> locks w1 (uc_lock (usbcmds w1 h)) = Some False"
    using usb_stepD(1) [OF w1] v(2,4) by auto
  from usb_cmd_destroy_run [OF live lock v(5) bal] obtain w' where
    w': "usb_cmd_destroy (\<lambda>w. w) h w1 = Some w'" "usb_gone h w1 w'" "open_handles (libusb_calls w') = hs" "open_contexts (libusb_calls w') = cs" by blast
  have "htype w' = htype w" "locks w' = locks w"
    using w'(2) usb_stepD(1,2) [OF w1] v h by (auto simp: usb_gone_def fun_upd_idem split: if_splits)
  then show ?thesis using w' by blast
qed

lemma usb_settings_simps [simp]:
  "uc_libusb (usb_device_settings t c) = uc_libusb c" "uc_libusb_context (usb_device_settings t c) = uc_libusb_context c"
  "uc_lock (usb_device_settings t c) = uc_lock c" "uc_stream_handle (usb_device_settings t c) = uc_stream_handle c"
  "uc_serial_number (usb_device_settings t c) = uc_serial_number c"
  by (simp_all add: usb_device_settings_def)

lemma usb_cmd_create_run:
  assumes api: "api_nonnull api" "api_bounded api" and mem: "mem_ok w" and t: "t \<in> {USB_DEVICE_DEPTH_PROCESSOR, USB_DEVICE_COLOR_IMU_PROCESSOR}"
  shows "\<exists>r h w'. usb_cmd_create api t i cid p w = Some (r, h, w') \<and>
     (if r = ZSA_RESULT_SUCCEEDED
      then usb_ready h w' \<and> htype w h = None \<and> balanced (open_handles (libusb_calls w)) (open_contexts (libusb_calls w)) h w' \<and>
        uc_libusb (usbcmds w' h) \<noteq> 0 \<and> uc_libusb_context (usbcmds w' h) \<noteq> 0 \<and> uc_stream_handle (usbcmds w' h) = 0
      else h = 0 \<and> open_handles (libusb_calls w') = open_handles (libusb_calls w) \<and>
        open_contexts (libusb_calls w') = open_contexts (libusb_calls w) \<and> htype w' = htype w \<and> locks w' = locks w)"
proof -
  let ?hs = "open_handles (libusb_calls w)" and ?cs = "open_contexts (libusb_calls w)"
  have pos: "0 < next_addr w" using mem by (simp add: mem_ok_def)
  obtain h w0 where hc: "handle_create H_usbcmd w = (h, w0)" by fastforce
  have def_t: "usb_cmd_create api t i cid p w = (case usbcmd_t_create w of (h, w) \<Rightarrow> do {
           (result, w) \<leftarrow> (if h = 0 then Some (ZSA_RESULT_FAILED, w)
              else do {
                let w = put_usbcmd h ((usbcmds w h)\<lparr>uc_stream_going := False\<rparr>) w;
                let (lock, w) = Lock_Init w;
                let w = put_usbcmd h ((usbcmds w h)\<lparr>uc_lock := lock\<rparr>) w;
                if lock = 0 then Some (ZSA_RESULT_FAILED, w)
                else usb_device_setup api i cid h (put_usbcmd h (usb_device_settings t (usbcmds w h)) w)
              });
           if ZSA_FAILED result then do { w \<leftarrow> usb_cmd_destroy (\<lambda>w. w) h w; Some (result, 0, libusb_free_device_list [] w) }
           else Some (result, h, libusb_free_device_list [] w) })"
    unfolding usb_cmd_create_def using t by (elim insertE emptyE) simp_all
  show ?thesis using pos hc
  proof (cases rule: handle_create_cases)
    case failed
    then have "usb_cmd_create api t i cid p w = Some (ZSA_RESULT_FAILED, 0, libusb_free_device_list [] w0)"
      unfolding def_t using hc by (simp add: usbcmd_t_create_def usb_cmd_destroy_def)
    then show ?thesis using failed by (auto simp: libusb_free_device_list_def)
  next
    case made
    have h: "h \<noteq> 0" "htype w h = None" using made(1) pos mem by (auto simp: mem_ok_def)
    define w1 where "w1 = put_usbcmd h usbcmd_zero w0"
    have w1: "usbcmd_t_create w = (h, w1)" using hc h by (simp add: usbcmd_t_create_def w1_def)
    have f1: "libusb_calls w1 = libusb_calls w" "htype w1 = (htype w)(h := Some H_usbcmd)" "locks w1 = locks w" "usbcmds w1 h = usbcmd_zero"
        "0 < next_addr w1" "\<And>l. next_addr w1 \<le> l \<Longrightarrow> locks w l = None"
      using made mem by (auto simp: w1_def put_usbcmd_def mem_ok_def)
    define w2 where "w2 = put_usbcmd h (usbcmd_zero\<lparr>uc_stream_going := False\<rparr>) w1"
    obtain l w3 where li: "Lock_Init w2 = (l, w3)" by fastforce
    have n2: "0 < next_addr w2" "locks w2 = locks w" "next_addr w2 = next_addr w1" "libusb_calls w2 = libusb_calls w"
        "htype w2 = (htype w)(h := Some H_usbcmd)" "usbcmds w2 h = usbcmd_zero\<lparr>uc_stream_going := False\<rparr>"
      using f1 by (simp_all add: w2_def) (simp_all add: put_usbcmd_def)
    have w3: "libusb_calls w3 = libusb_calls w" "htype w3 = (htype w)(h := Some H_usbcmd)" "usbcmds w3 h = usbcmd_zero\<lparr>uc_stream_going := False\<rparr>"
        "locks w3 = (if l = 0 then locks w else (locks w)(l := Some False))" "l = 0 \<or> locks w l = None"
      by (use n2(1) li in \<open>cases rule: Lock_Init_cases; use n2 f1(5,6) in auto\<close>)+
    let ?w4 = "put_usbcmd h ((usbcmds w3 h)\<lparr>uc_lock := l\<rparr>) w3"
    let ?w5 = "put_usbcmd h (usb_device_settings t ((usbcmds w3 h)\<lparr>uc_lock := l\<rparr>)) w3"
    have b: "balanced ?hs ?cs h ?w4" "balanced ?hs ?cs h ?w5" by (simp_all add: balanced_def w3 usbcmd_zero_def)
    have z: "uc_libusb (usbcmds ?w5 h) = 0" "uc_libusb_context (usbcmds ?w5 h) = 0" by (simp_all add: w3(3) usbcmd_zero_def)
    from usb_device_setup_run [OF api b(2) z, of i cid] obtain r w6 where
      w6: "usb_device_setup api i cid h ?w5 = Some (r, w6)" "searched ?hs ?cs h ?w5 w6"
        "r = ZSA_RESULT_SUCCEEDED \<longrightarrow> uc_libusb (usbcmds w6 h) \<noteq> 0 \<and> uc_libusb_context (usbcmds w6 h) \<noteq> 0" by blast
    have st6: "usb_step h w3 w6" "balanced ?hs ?cs h w6" "uc_lock (usbcmds w6 h) = l" "uc_stream_handle (usbcmds w6 h) = 0"
        "length (uc_serial_number (usbcmds w6 h)) = MAX_SERIAL_NUMBER_LENGTH"
      using w6(2) usb_step_trans [OF usb_step_put [OF usb_step_refl]] by (auto simp: searched_def w3(3) usbcmd_zero_def)
    have body: "usb_cmd_create api t i cid p w = do {
        (result, w) \<leftarrow> (if l = 0 then Some (ZSA_RESULT_FAILED, ?w4) else Some (r, w6));
        if ZSA_FAILED result then do { w \<leftarrow> usb_cmd_destroy (\<lambda>w. w) h w; Some (result, 0, libusb_free_device_list [] w) }
        else Some (result, h, libusb_free_device_list [] w) }"
      unfolding def_t w1 using h(1) li w6(1) w3(3)
      by (simp add: f1(4) w2_def [symmetric] usbcmd_store.put_put Let_def)
    have undo: "\<exists>w'. usb_cmd_destroy (\<lambda>w. w) h v = Some w' \<and> open_handles (libusb_calls w') = ?hs \<and> open_contexts (libusb_calls w') = ?cs \<and>
        htype w' = htype w \<and> locks w' = locks w"
      if "usb_step h w3 v" "uc_lock (usbcmds v h) = l" "uc_stream_handle (usbcmds v h) = 0" "balanced ?hs ?cs h v" for v
      by (rule usb_cmd_create_failed [OF mem that(1) h(2,1) w3(2,4,5) that(2-4)])
    show ?thesis
    proof (cases "l = 0 \<or> r \<noteq> ZSA_RESULT_SUCCEEDED")
      case True
      let ?v = "if l = 0 then ?w4 else w6"
      have v: "usb_step h w3 ?v" "uc_lock (usbcmds ?v h) = l" "uc_stream_handle (usbcmds ?v h) = 0" "balanced ?hs ?cs h ?v"
        using st6(1-4) b(1) by (cases "l = 0"; simp add: w3(3) usbcmd_zero_def)+
      from undo [OF v] obtain w' where w': "usb_cmd_destroy (\<lambda>w. w) h ?v = Some w'" "open_handles (libusb_calls w') = ?hs"
          "open_contexts (libusb_calls w') = ?cs" "htype w' = htype w" "locks w' = locks w" by blast
      have "usb_cmd_create api t i cid p w = Some (ZSA_RESULT_FAILED, 0, libusb_free_device_list [] w')"
        using body w'(1) True by (cases "l = 0"; cases r) simp_all
      then show ?thesis using w'(2-5) by (simp add: libusb_free_device_list_def)
    next
      case False
      then have "usb_cmd_create api t i cid p w = Some (ZSA_RESULT_SUCCEEDED, h, libusb_free_device_list [] w6)" using body by simp
      moreover have "usb_ready h w6" using False st6 usb_stepD(1,2) [OF st6(1)] w3(2,4) h(1) by (simp add: usb_ready_def live_def)
      ultimately show ?thesis using False w6(3) st6 h(2)
        by (simp add: libusb_free_device_list_def usb_ready_def balanced_def)
    qed
  qed
qed

end
