(* ===== verification/Usbstreaming.thy ===== *)
theory Usbstreaming
  imports Usbcommand
begin

section \<open>Streams over USB\<close>

text \<open>
  \<open>src/usbcommand/usbstreaming.c\<close>: the thread of a stream keeps up to eight bulk transfers in flight; each
  completion hands its image to the registered callback and is submitted again with a new image. The
  registered function belongs to the client and is a parameter \<open>cb\<close>, from the result, the image and the
  context to what it does; so are the events the library delivers. A transfer record is known by its
  address, which libusb hands back as the user data of the transfer.
\<close>

datatype libusb_transfer_status =
    LIBUSB_TRANSFER_COMPLETED | LIBUSB_TRANSFER_ERROR | LIBUSB_TRANSFER_TIMED_OUT | LIBUSB_TRANSFER_CANCELLED
  | LIBUSB_TRANSFER_STALL | LIBUSB_TRANSFER_NO_DEVICE | LIBUSB_TRANSFER_OVERFLOW

type_synonym 'w stream_cb = "zsa_result_t \<Rightarrow> ptr \<Rightarrow> ptr \<Rightarrow> 'w \<Rightarrow> 'w option"

text \<open>A completed transfer: its record, its status and its \<open>actual_length\<close>.\<close>

type_synonym completion = "ptr \<times> libusb_transfer_status \<times> u64"

subsection \<open>Calls\<close>

definition libusb_alloc_transfer :: "libusb_api \<Rightarrow> 'a usb_world_scheme \<Rightarrow> ptr \<times> 'a usb_world_scheme" where
  "libusb_alloc_transfer api w = (let b = api_alloc_transfer api (libusb_calls w) in (b, lu_call (LU_alloc_transfer b) w))"

definition libusb_free_transfer :: "ptr \<Rightarrow> 'a usb_world_scheme \<Rightarrow> 'a usb_world_scheme" where
  "libusb_free_transfer b w = lu_call (LU_free_transfer b) w"

definition libusb_submit_transfer :: "libusb_api \<Rightarrow> ptr \<Rightarrow> 'a usb_world_scheme \<Rightarrow> int \<times> 'a usb_world_scheme" where
  "libusb_submit_transfer api b w =
     (let err = api_submit_transfer api (libusb_calls w) b in (err, lu_call (LU_submit_transfer b err) w))"

definition libusb_cancel_transfer :: "ptr \<Rightarrow> 'a usb_world_scheme \<Rightarrow> 'a usb_world_scheme" where
  "libusb_cancel_transfer b w = lu_call (LU_cancel_transfer b) w"

definition stream_callback :: "'a usb_world_scheme stream_cb \<Rightarrow> ptr \<Rightarrow> zsa_result_t \<Rightarrow> ptr \<Rightarrow> 'a usb_world_scheme \<Rightarrow> 'a usb_world_scheme option" where
  "stream_callback cb h result image_handle w =
     cb result image_handle (uc_stream_context (usbcmds w h))
       (lu_call (LU_stream_callback (ZSA_SUCCEEDED result) image_handle (uc_stream_context (usbcmds w h))) w)"

definition put_transfer :: "ptr \<Rightarrow> usb_async_transfer_data_t option \<Rightarrow> 'a usb_world_scheme \<Rightarrow> 'a usb_world_scheme" where
  "put_transfer t x w = w\<lparr>transfers := (transfers w)(t := x)\<rparr>"

definition set_slot :: "ptr \<Rightarrow> nat \<Rightarrow> ptr \<Rightarrow> 'a usb_world_scheme \<Rightarrow> 'a usb_world_scheme" where
  "set_slot h i t w = put_usbcmd h ((usbcmds w h)\<lparr>uc_transfer_list := (uc_transfer_list (usbcmds w h))[i := t]\<rparr>) w"

text \<open>The image a transfer record points to.\<close>

definition set_transfer_image :: "ptr \<Rightarrow> ptr \<Rightarrow> 'a usb_world_scheme \<Rightarrow> 'a usb_world_scheme" where
  "set_transfer_image t i w = put_transfer t (map_option (\<lambda>x. x\<lparr>xfr_image := i\<rparr>) (transfers w t)) w"

text \<open>The raw pointer to a context: a fault when its handle has been destroyed.\<close>

definition the_usbcmd :: "ptr \<Rightarrow> 'a usb_world_scheme \<Rightarrow> usbcmd_context_t option" where
  "the_usbcmd h w = (if live H_usbcmd w h then Some (usbcmds w h) else None)"

subsection \<open>Completions\<close>

definition usb_cmd_release_xfr :: "ptr \<Rightarrow> 'a usb_world_scheme \<Rightarrow> 'a usb_world_scheme option" where
  "usb_cmd_release_xfr t w = do {
     x \<leftarrow> transfers w t;
     c \<leftarrow> the_usbcmd (xfr_usbcmd x) w;
     if length (uc_transfer_list c) \<le> xfr_list_index x then None
     else do {
       let w = (if uc_transfer_list c ! xfr_list_index x = t then set_slot (xfr_usbcmd x) (xfr_list_index x) 0 w else w);
       w \<leftarrow> (if xfr_image x \<noteq> 0 then do { w \<leftarrow> image_dec_ref (xfr_image x) w; Some (set_transfer_image t 0 w) } else Some w);
       let w = libusb_free_transfer (xfr_bulk_transfer x) w;
       Some (put_transfer t None w)
     }
   }"

text \<open>The image is handed over and released; the transfer gets a new one and is submitted again.\<close>

definition stream_next_image ::
  "libusb_api \<Rightarrow> ptr \<Rightarrow> usb_async_transfer_data_t \<Rightarrow> 'a usb_world_scheme \<Rightarrow> (zsa_result_t \<times> 'a usb_world_scheme) option" where
  "stream_next_image api t x w = do {
     c \<leftarrow> the_usbcmd (xfr_usbcmd x) w;
     (result, new_image, w) \<leftarrow> image_create_empty_internal (uc_source c) (uc_stream_size c) (Some 0) w;
     let i = (case new_image of Some i \<Rightarrow> i | None \<Rightarrow> 0);
     let w = set_transfer_image t i w;
     if ZSA_FAILED result then Some (result, w)
     else do {
       _ \<leftarrow> image_get_buffer i w;
       let (err, w) = libusb_submit_transfer api (xfr_bulk_transfer x) w;
       if err \<noteq> LIBUSB_SUCCESS then do { w \<leftarrow> image_dec_ref i w; Some (ZSA_RESULT_FAILED, set_transfer_image t 0 w) }
       else Some (result, w)
     }
   }"

definition stream_deliver ::
  "'a usb_world_scheme stream_cb \<Rightarrow> libusb_api \<Rightarrow> ptr \<Rightarrow> usb_async_transfer_data_t \<Rightarrow> libusb_transfer_status \<Rightarrow> u64 \<Rightarrow>
     'a usb_world_scheme \<Rightarrow> (zsa_result_t \<times> 'a usb_world_scheme) option" where
  "stream_deliver cb api t x status actual_length w = do {
     w \<leftarrow> (if status = LIBUSB_TRANSFER_COMPLETED \<and> uc_callback (usbcmds w (xfr_usbcmd x)) \<noteq> 0
           then do {
             w \<leftarrow> image_set_size (xfr_image x) actual_length w;
             stream_callback cb (xfr_usbcmd x) ZSA_RESULT_SUCCEEDED (xfr_image x) w
           } else Some w);
     w \<leftarrow> image_dec_ref (xfr_image x) w;
     stream_next_image api t x (set_transfer_image t 0 w)
   }"

text \<open>A transfer that is not submitted again: an unexpected error is reported, and everything is released.\<close>

definition stream_give_up ::
  "'a usb_world_scheme stream_cb \<Rightarrow> ptr \<Rightarrow> libusb_transfer_status \<Rightarrow> 'a usb_world_scheme \<Rightarrow> 'a usb_world_scheme option" where
  "stream_give_up cb t status w = do {
     x \<leftarrow> transfers w t;
     c \<leftarrow> the_usbcmd (xfr_usbcmd x) w;
     w \<leftarrow> (if uc_stream_going c \<and> status \<noteq> LIBUSB_TRANSFER_CANCELLED \<and> status \<noteq> LIBUSB_TRANSFER_OVERFLOW \<and> uc_callback c \<noteq> 0
           then do {
             w \<leftarrow> image_set_size (xfr_image x) 0 w;
             stream_callback cb (xfr_usbcmd x) ZSA_RESULT_FAILED (xfr_image x) w
           } else Some w);
     usb_cmd_release_xfr t w
   }"

definition usb_cmd_libusb_cb ::
  "'a usb_world_scheme stream_cb \<Rightarrow> libusb_api \<Rightarrow> ptr \<Rightarrow> libusb_transfer_status \<Rightarrow> u64 \<Rightarrow> 'a usb_world_scheme \<Rightarrow> 'a usb_world_scheme option" where
  "usb_cmd_libusb_cb cb api t status actual_length w = do {
     x \<leftarrow> transfers w t;
     (result, w) \<leftarrow> image_apply_system_timestamp (xfr_image x) w;
     (result, w) \<leftarrow>
       (if ZSA_SUCCEEDED result then do {
          c \<leftarrow> the_usbcmd (xfr_usbcmd x) w;
          if (status = LIBUSB_TRANSFER_COMPLETED \<or> status = LIBUSB_TRANSFER_TIMED_OUT) \<and> uc_stream_going c
          then stream_deliver cb api t x status actual_length w
          else Some (ZSA_RESULT_FAILED, w)
        } else Some (result, w));
     if ZSA_FAILED result then stream_give_up cb t status w else Some w
   }"

fun run_completions :: "'a usb_world_scheme stream_cb \<Rightarrow> libusb_api \<Rightarrow> completion list \<Rightarrow> 'a usb_world_scheme \<Rightarrow> 'a usb_world_scheme option" where
  "run_completions cb api [] w = Some w"
| "run_completions cb api ((t, status, n) # cs) w = do { w \<leftarrow> usb_cmd_libusb_cb cb api t status n w; run_completions cb api cs w }"

subsection \<open>The thread of a stream\<close>

text \<open>One pass of the loop that sets up the transfers, for index \<open>i\<close>: the cleanup of a failed pass, and the pass.\<close>

definition stream_abandon :: "ptr \<Rightarrow> nat \<Rightarrow> ptr \<Rightarrow> 'a usb_world_scheme \<Rightarrow> 'a usb_world_scheme option" where
  "stream_abandon h i t w = do {
     w \<leftarrow> (if t = 0 then Some w
           else do {
             x \<leftarrow> transfers w t;
             w \<leftarrow> (if xfr_image x \<noteq> 0 then image_dec_ref (xfr_image x) w else Some w);
             let w = (if xfr_bulk_transfer x \<noteq> 0 then libusb_free_transfer (xfr_bulk_transfer x) w else w);
             Some (put_transfer t None w)
           });
     Some (set_slot h i 0 w)
   }"

text \<open>\<open>calloc\<close> of \<open>sizeof(usb_async_transfer_data_t)\<close> times \<open>sizeof(int)\<close> bytes.\<close>

abbreviation sizeof_transfer_alloc :: nat where "sizeof_transfer_alloc \<equiv> 32 * 4"

definition stream_fill ::
  "libusb_api \<Rightarrow> ptr \<Rightarrow> nat \<Rightarrow> ptr \<Rightarrow> 'a usb_world_scheme \<Rightarrow> (zsa_result_t \<times> 'a usb_world_scheme) option" where
  "stream_fill api h i t w = do {
     let (bulk, w) = libusb_alloc_transfer api w;
     let w = put_transfer t (map_option (\<lambda>x. x\<lparr>xfr_bulk_transfer := bulk\<rparr>) (transfers w t)) w;
     if bulk = 0 then Some (ZSA_RESULT_FAILED, w)
     else do {
       (result, new_image, w) \<leftarrow> image_create_empty_internal (uc_source (usbcmds w h)) (uc_stream_size (usbcmds w h)) (Some 0) w;
       let w = set_transfer_image t (case new_image of Some i \<Rightarrow> i | None \<Rightarrow> 0) w;
       if ZSA_FAILED result then Some (result, w)
       else do {
         _ \<leftarrow> image_get_buffer (case new_image of Some i \<Rightarrow> i | None \<Rightarrow> 0) w;
         let (err, w) = libusb_submit_transfer api bulk w;
         Some (if err \<noteq> LIBUSB_SUCCESS \<and> i = 0 then ZSA_RESULT_FAILED else ZSA_RESULT_SUCCEEDED, w)
       }
     }
   }"

definition stream_add :: "libusb_api \<Rightarrow> ptr \<Rightarrow> nat \<Rightarrow> 'a usb_world_scheme \<Rightarrow> (zsa_result_t \<times> 'a usb_world_scheme) option" where
  "stream_add api h i w = do {
     let (t, w) = c_malloc sizeof_transfer_alloc w;
     (result, w) \<leftarrow>
       (if t = 0 then Some (ZSA_RESULT_FAILED, w)
        else stream_fill api h i t
               (set_slot h i t (put_transfer t (Some \<lparr>xfr_usbcmd = h, xfr_bulk_transfer = 0, xfr_image = 0, xfr_list_index = i\<rparr>) w)));
     if ZSA_FAILED result then do { w \<leftarrow> stream_abandon h i t w; Some (result, w) } else Some (result, w)
   }"

text \<open>The loop: \<open>xfer_pool\<close> counts the bytes of the transfers, one transfer ahead.\<close>

fun stream_setup ::
  "libusb_api \<Rightarrow> ptr \<Rightarrow> u64 \<Rightarrow> nat list \<Rightarrow> u64 \<Rightarrow> zsa_result_t \<Rightarrow> 'a usb_world_scheme \<Rightarrow> (zsa_result_t \<times> 'a usb_world_scheme) option" where
  "stream_setup api h max_xfr_pool [] xfer_pool result w = Some (result, w)"
| "stream_setup api h max_xfr_pool (i # is) xfer_pool result w =
     (if \<not> xfer_pool < max_xfr_pool then Some (result, w)
      else do {
        (result, w) \<leftarrow> stream_add api h i w;
        if ZSA_FAILED result then Some (result, w)
        else stream_setup api h max_xfr_pool is (xfer_pool + uc_stream_size (usbcmds w h)) result w
      })"

text \<open>
  \<open>libusb_handle_events_timeout_completed\<close>: the library calls back for the transfers that have completed
  and returns an error code. A round of the service loop has, beside these, whether another thread clears
  \<open>stream_going\<close> before it.
\<close>

definition handle_events ::
  "'a usb_world_scheme stream_cb \<Rightarrow> libusb_api \<Rightarrow> ptr \<Rightarrow> completion list \<Rightarrow> 'a usb_world_scheme \<Rightarrow> 'a usb_world_scheme option" where
  "handle_events cb api ctx cs w = run_completions cb api cs (lu_call (LU_handle_events ctx) w)"

type_synonym service_round = "bool \<times> completion list \<times> int"

definition set_going :: "ptr \<Rightarrow> bool \<Rightarrow> 'a usb_world_scheme \<Rightarrow> 'a usb_world_scheme" where
  "set_going h b w = put_usbcmd h ((usbcmds w h)\<lparr>uc_stream_going := b\<rparr>) w"

fun stream_service ::
  "'a usb_world_scheme stream_cb \<Rightarrow> libusb_api \<Rightarrow> ptr \<Rightarrow> ptr \<Rightarrow> service_round list \<Rightarrow> zsa_result_t \<Rightarrow> 'a usb_world_scheme \<Rightarrow>
     (zsa_result_t \<times> 'a usb_world_scheme) option" where
  "stream_service cb api h ctx [] result w = (if uc_stream_going (usbcmds w h) then None else Some (result, w))"
| "stream_service cb api h ctx ((stop, cs, err) # rounds) result w =
     (let w = (if stop then set_going h False w else w) in
      if \<not> uc_stream_going (usbcmds w h) then Some (result, w)
      else do {
        w \<leftarrow> handle_events cb api ctx cs w;
        if err < 0 then stream_service cb api h ctx rounds ZSA_RESULT_FAILED (set_going h False w)
        else stream_service cb api h ctx rounds result w
      })"

text \<open>The transfers that are left are cancelled one by one, and the library is served after each.\<close>

fun stream_cancel ::
  "'a usb_world_scheme stream_cb \<Rightarrow> libusb_api \<Rightarrow> ptr \<Rightarrow> ptr \<Rightarrow> (nat \<Rightarrow> completion list \<times> int) \<Rightarrow> nat list \<Rightarrow> zsa_result_t \<Rightarrow>
     'a usb_world_scheme \<Rightarrow> (zsa_result_t \<times> 'a usb_world_scheme) option" where
  "stream_cancel cb api h ctx drain [] result w = Some (result, w)"
| "stream_cancel cb api h ctx drain (i # is) result w =
     (if uc_transfer_list (usbcmds w h) ! i = 0 then stream_cancel cb api h ctx drain is result w
      else do {
        x \<leftarrow> transfers w (uc_transfer_list (usbcmds w h) ! i);
        w \<leftarrow> handle_events cb api ctx (fst (drain i)) (libusb_cancel_transfer (xfr_bulk_transfer x) w);
        stream_cancel cb api h ctx drain is (if snd (drain i) < 0 then ZSA_RESULT_FAILED else result) w
      })"

text \<open>\<open>env_max_pool\<close> is the number in the environment variable \<open>ZSA_MAX_LIBUSB_POOL\<close>, when it is set.\<close>

definition usb_cmd_lib_usb_thread ::
  "'a usb_world_scheme stream_cb \<Rightarrow> libusb_api \<Rightarrow> int option \<Rightarrow> service_round list \<Rightarrow> (nat \<Rightarrow> completion list \<times> int) \<Rightarrow> ptr \<Rightarrow>
     'a usb_world_scheme \<Rightarrow> (zsa_result_t \<times> 'a usb_world_scheme) option" where
  "usb_cmd_lib_usb_thread cb api env_max_pool rounds drain h w = do {
     c \<leftarrow> the_usbcmd h w;
     let ctx = uc_libusb_context c;
     let max_xfr_pool = (case env_max_pool of None \<Rightarrow> USB_CMD_MAX_XFR_POOL | Some n \<Rightarrow> word_of_int n);
     (result, w) \<leftarrow>
       (if uint (uc_stream_size c) > INT32_MAX then Some (ZSA_RESULT_FAILED, w)
        else stream_setup api h max_xfr_pool [0..<USB_CMD_MAX_XFR_COUNT] (uc_stream_size c) ZSA_RESULT_SUCCEEDED w);
     (result, w) \<leftarrow>
       (if result = ZSA_RESULT_SUCCEEDED then stream_service cb api h ctx rounds result w else Some (result, w));
     stream_cancel cb api h ctx drain [0..<USB_CMD_MAX_XFR_COUNT] result w
   }"

text \<open>\<open>ThreadAPI_Create\<close> of \<open>threadapi_pthreads.c\<close>: memory for the handle, then the thread; null on failure.\<close>

definition ThreadAPI_Create :: "'a mem_scheme \<Rightarrow> ptr \<times> 'a mem_scheme" where
  "ThreadAPI_Create w =
     (case c_malloc 1 w of (t, w) \<Rightarrow> if t = 0 then (0, w) else case os_request w of (ok, w) \<Rightarrow> (if ok then t else 0, w))"

definition usb_cmd_stream_start :: "ptr \<Rightarrow> u64 \<Rightarrow> 'a usb_world_scheme \<Rightarrow> (zsa_result_t \<times> 'a usb_world_scheme) option" where
  "usb_cmd_stream_start h payload_size w = do {
     ctx \<leftarrow> usbcmd_t_get_context h w;
     if ctx = None \<or> payload_size = 0 then Some (ZSA_RESULT_FAILED, w)
     else do {
       (_, w) \<leftarrow> Lock (uc_lock (usbcmds w h)) w;
       let (result, w) =
         (if uc_stream_going (usbcmds w h) then (ZSA_RESULT_FAILED, w)
          else let w = put_usbcmd h ((usbcmds w h)\<lparr>uc_stream_size := payload_size, uc_stream_going := True\<rparr>) w in
            case ThreadAPI_Create w of (thread, w) \<Rightarrow>
              if thread = 0 then (ZSA_RESULT_FAILED, set_going h False w)
              else (ZSA_RESULT_SUCCEEDED, put_usbcmd h ((usbcmds w h)\<lparr>uc_stream_handle := thread\<rparr>) w));
       (_, w) \<leftarrow> Unlock (uc_lock (usbcmds w h)) w;
       Some (result, w)
     }
   }"

subsection \<open>A new image leaves the other components alone\<close>

definition grown :: "'a image_world_scheme \<Rightarrow> 'a image_world_scheme \<Rightarrow> bool" where
  "grown w w' \<longleftrightarrow> image_world.more w' = image_world.more w \<and> next_addr w \<le> next_addr w' \<and>
     (\<forall>k. htype w k \<noteq> None \<longrightarrow> htype w' k = htype w k) \<and> (\<forall>l. locks w l \<noteq> None \<longrightarrow> locks w' l = locks w l)"

lemma grown_refl [simp]: "grown w w"
  by (simp add: grown_def)

lemma grown_trans: "grown w w1 \<Longrightarrow> grown w1 w2 \<Longrightarrow> grown w w2"
  by (auto simp: grown_def)

lemma grown_put_image [simp]: "grown w w' \<Longrightarrow> grown w (put_image h c w')"
  by (simp add: grown_def put_image_def)

lemma grown_image_t_create:
  assumes "image_inv w" and "zsa_image_t_create w = (h, w1)"
  shows "grown w w1"
proof -
  have "htype w (next_addr w) = None" using alloc_invD(1) [OF image_invD(1) [OF assms(1)]] by (auto simp: mem_ok_def)
  then show ?thesis using assms(2)
    by (auto simp: grown_def zsa_image_t_create_def handle_create_def c_malloc_def os_request_def put_image_def split: if_splits)
qed

lemma grown_alloc:
  assumes "image_inv w" and "allocator_alloc s n w = Some (b, w1)"
  shows "grown w w1"
  using assms(2) by (auto simp: allocator_alloc_eq [OF image_invD(1) [OF assms(1)]] grown_def after_alloc_def counted_def split: if_splits)

lemma grown_Lock_Init:
  assumes "image_inv w" and "Lock_Init w = (l, w1)"
  shows "grown w w1"
proof -
  have "locks w (next_addr w) = None" using alloc_invD(1) [OF image_invD(1) [OF assms(1)]] by (auto simp: mem_ok_def)
  then show ?thesis using assms(2)
    by (auto simp: grown_def Lock_Init_def c_malloc_def os_request_def split: if_splits)
qed

lemma grown_unlocked_release:
  assumes "grown w w4" and "htype w h = None"
  shows "grown w (unlocked_release h c w4)"
proof -
  have "image_world.more (unlocked_release h c w4) = image_world.more w4"
    by (simp add: unlocked_release_def drop_buffer_def after_free_def counted_def put_image_def split: option.splits image_destroy_cb_t.splits)
  then show ?thesis using assms by (auto simp: grown_def unlocked_release_def)
qed

lemma image_create_empty_run:
  fixes w :: "'a image_world_scheme"
  assumes inv: "image_inv w" and n: "unat n + 32 < 2 ^ 64"
  shows "\<exists>r out w'. image_create_empty_internal s n (Some 0) w = Some (r, Some out, w') \<and> image_inv w' \<and> grown w w' \<and>
     (if r = ZSA_RESULT_SUCCEEDED then made_image n out w w' else out = 0 \<and> kept_images w w')"
proof (cases "n = 0 \<or> source_out_of_range s \<or> s = ALLOCATION_SOURCE_USER")
  case True
  then have "image_create_empty_internal s n (Some 0) w = Some (ZSA_RESULT_FAILED, Some 0, w)"
    by (auto simp: image_create_empty_internal_def image_create_empty_image_def)
  then show ?thesis using inv by (simp add: kept_images_def)
next
  case False
  then have internal: "image_create_empty_internal s n (Some 0) w = image_create_empty_image s n (Some 0) w"
    by (simp add: image_create_empty_internal_def)
  obtain h w1 where c: "zsa_image_t_create w = (h, w1)" by fastforce
  note g1 = grown_image_t_create [OF inv c]
  show ?thesis
  proof (cases "h = 0")
    case True
    then have "image_create_empty_image s n (Some 0) w = Some (ZSA_RESULT_FAILED, Some 0, w1)"
      using False c by (simp add: image_create_empty_image_def image_dec_ref_def)
    then show ?thesis using zsa_image_t_create_inv [OF inv c] True g1 by (simp add: kept_images_def internal)
  next
    case h: False
    note i1 = zsa_image_t_create_inv [OF inv c]
    have "\<not> required_bytes n < 32" using required_bytes_small [of n] n by linarith
    then obtain b w2 where a: "allocator_alloc s n w1 = Some (b, w2)"
      using allocator_alloc_eq [OF image_invD(1) [OF i1(1)], of s n] by fastforce
    obtain l w4 where l: "Lock_Init (with_buffer h b w2) = (l, w4)" by fastforce
    note b1 = with_buffer_inv [OF inv c h a]
    have g2: "grown w (with_buffer h b w2)" using grown_trans [OF g1 grown_alloc [OF i1(1) a]] by (simp add: with_buffer_def)
    have g4: "grown w w4" using grown_trans [OF g2 grown_Lock_Init [OF b1(1) l]] .
    have run: "image_create_empty_image s n (Some 0) w =
      (if b = 0 then map_option (\<lambda>w'. (ZSA_RESULT_FAILED, Some 0, w')) (image_dec_ref h (with_buffer h b w2))
       else if l = 0 then map_option (\<lambda>w'. (ZSA_RESULT_FAILED, Some 0, w')) (image_dec_ref h (put_image h (fresh_image n b l) w4))
       else Some (ZSA_RESULT_SUCCEEDED, Some h, put_image h (fresh_image n b l) w4))"
      using empty_image_run [OF _ _ c h inv a, of 0] False l by simp
    consider "b = 0" | "b \<noteq> 0" "l = 0" | "b \<noteq> 0" "l \<noteq> 0" by blast
    then show ?thesis
    proof cases
      case 1
      then obtain w' where w': "image_dec_ref h (with_buffer h 0 w2) = Some w'" "image_inv w'" "kept_images w w'"
        using empty_image_no_buffer [OF inv c h] a by blast
      have "grown w w'" using w'(1) g2 1 image_dec_ref_keep [OF b1(4)] b1(6) by (auto simp: image_zero_def)
      then show ?thesis using run 1 w' internal by simp
    next
      case 2
      have l0: "Lock_Init (with_buffer h b w2) = (0, w4)" using l 2 by simp
      obtain w' where w': "image_dec_ref h (put_image h (fresh_image n b 0) w4) = Some w'" "image_inv w'" "kept_images w w'"
        using empty_image_no_lock [OF inv c h a 2(1) l0] by blast
      note l1 = Lock_Init_inv [OF b1(1) l0]
      have "live H_image w4 h" "buffer_ok w4 (fresh_image n b 0)"
        using b1(4) l1(4) b1(10) [OF 2(1)] l1(6) by (auto simp: live_def buffer_ok_def fresh_image_def)
      then have "w' = unlocked_release h (fresh_image n b 0) w4"
        using image_dec_ref_unlocked [OF l1(1), of h "fresh_image n b 0"] w'(1) by (simp add: fresh_image_def)
      then have "grown w w'" using g4 b1(5) grown_unlocked_release by blast
      then show ?thesis using run 2 w' internal by simp
    next
      case 3
      then show ?thesis using run empty_image_made [OF inv c h a _ l] g4 internal by simp
    qed
  qed
qed

subsection \<open>Transfers own their images\<close>

text \<open>
  The transfers of a stream: the slots of the list point to allocated records of the stream that know
  their index; each transfer holds one reference to its image, and no image belongs to two transfers. What
  a client holds is the rest of the references.
\<close>

definition slots_ok :: "ptr \<Rightarrow> ptr list \<Rightarrow> (ptr \<Rightarrow> usb_async_transfer_data_t option) \<Rightarrow> bool" where
  "slots_ok h slots ts \<longleftrightarrow> length slots = USB_CMD_MAX_XFR_COUNT \<and>
     (\<forall>i < USB_CMD_MAX_XFR_COUNT. slots ! i \<noteq> 0 \<longrightarrow> (\<exists>x. ts (slots ! i) = Some x \<and> xfr_usbcmd x = h \<and> xfr_list_index x = i))"

definition transfer_ok :: "ptr \<Rightarrow> nat \<Rightarrow> (ptr \<Rightarrow> int) \<Rightarrow> ptr \<Rightarrow> usb_async_transfer_data_t \<Rightarrow> bool" where
  "transfer_ok h next refs t x \<longleftrightarrow> 0 < t \<and> t < next \<and> (xfr_usbcmd x = h \<longrightarrow> xfr_list_index x < USB_CMD_MAX_XFR_COUNT) \<and>
     (xfr_image x \<noteq> 0 \<longrightarrow> 0 < refs (xfr_image x))"

definition images_apart :: "(ptr \<Rightarrow> usb_async_transfer_data_t option) \<Rightarrow> bool" where
  "images_apart ts \<longleftrightarrow> (\<forall>t u x y. ts t = Some x \<longrightarrow> ts u = Some y \<longrightarrow> xfr_image x = xfr_image y \<longrightarrow> xfr_image x \<noteq> 0 \<longrightarrow> t = u)"

definition transfers_ok :: "ptr \<Rightarrow> ptr list \<Rightarrow> (ptr \<Rightarrow> usb_async_transfer_data_t option) \<Rightarrow> nat \<Rightarrow> (ptr \<Rightarrow> int) \<Rightarrow> bool" where
  "transfers_ok h slots ts next refs \<longleftrightarrow> slots_ok h slots ts \<and> (\<forall>t x. ts t = Some x \<longrightarrow> transfer_ok h next refs t x) \<and> images_apart ts"

definition stream_inv :: "ptr \<Rightarrow> 'a usb_world_scheme \<Rightarrow> bool" where
  "stream_inv h w \<longleftrightarrow> image_inv w \<and> live H_usbcmd w h \<and> uint (uc_stream_size (usbcmds w h)) \<le> INT32_MAX \<and>
     transfers_ok h (uc_transfer_list (usbcmds w h)) (transfers w) (next_addr w) (image_refs w)"

definition transfer_images :: "'a usb_world_scheme \<Rightarrow> ptr set" where
  "transfer_images w = {i. i \<noteq> 0 \<and> (\<exists>t x. transfers w t = Some x \<and> xfr_image x = i)}"

definition client_images :: "'a usb_world_scheme \<Rightarrow> ptr \<Rightarrow> int" where
  "client_images w i = image_refs w i - (if i \<in> transfer_images w then 1 else 0)"

lemma ex_transfer_upd:
  "(\<exists>u z. (ts(t := Some y)) u = Some z \<and> P z) \<longleftrightarrow> P y \<or> (\<exists>u z. u \<noteq> t \<and> ts u = Some z \<and> P z)"
  "(\<exists>u z. (ts(t := None)) u = Some z \<and> P z) \<longleftrightarrow> (\<exists>u z. u \<noteq> t \<and> ts u = Some z \<and> P z)"
  by (auto split: if_splits)

lemma ex_transfer_other:
  "ts t = Some x \<Longrightarrow> (\<exists>u z. ts u = Some z \<and> P z) \<longleftrightarrow> P x \<or> (\<exists>u z. u \<noteq> t \<and> ts u = Some z \<and> P z)"
  by (metis option.inject)

lemma transfers_okD:
  assumes "transfers_ok h slots ts next refs"
  shows "slots_ok h slots ts" "ts t = Some x \<Longrightarrow> transfer_ok h next refs t x" "images_apart ts"
  using assms unfolding transfers_ok_def by blast+

lemma slots_ok_upd:
  assumes "slots_ok h slots ts" and "ts t = Some x" and "xfr_usbcmd y = xfr_usbcmd x" and "xfr_list_index y = xfr_list_index x"
  shows "slots_ok h slots (ts(t := Some y))"
  using assms unfolding slots_ok_def by (metis fun_upd_def option.inject)

lemma transfers_ok_upd:
  assumes ok: "transfers_ok h slots ts next refs" and x: "ts t = Some x"
    and y: "xfr_usbcmd y = xfr_usbcmd x" "xfr_list_index y = xfr_list_index x" "xfr_image y \<noteq> 0 \<longrightarrow> 0 < refs' (xfr_image y)"
    and nx: "next \<le> next'"
    and others: "\<And>u z. u \<noteq> t \<Longrightarrow> ts u = Some z \<Longrightarrow> xfr_image z \<noteq> 0 \<Longrightarrow> 0 < refs' (xfr_image z) \<and> xfr_image z \<noteq> xfr_image y"
  shows "transfers_ok h slots (ts(t := Some y)) next' refs'"
  unfolding transfers_ok_def
proof (intro conjI allI impI)
  show "slots_ok h slots (ts(t := Some y))" by (rule slots_ok_upd [OF transfers_okD(1) [OF ok] x y(1,2)])
  fix u z assume u: "(ts(t := Some y)) u = Some z"
  show "transfer_ok h next' refs' u z"
  proof (cases "u = t")
    case True
    then show ?thesis using u y nx transfers_okD(2) [OF ok x] by (auto simp: transfer_ok_def)
  next
    case False
    then show ?thesis using u nx others [OF False] transfers_okD(2) [OF ok, of u z] by (auto simp: transfer_ok_def)
  qed
next
  show "images_apart (ts(t := Some y))"
    unfolding images_apart_def
  proof (intro allI impI)
    fix u v a b
    assume *: "(ts(t := Some y)) u = Some a" "(ts(t := Some y)) v = Some b" "xfr_image a = xfr_image b" "xfr_image a \<noteq> 0"
    show "u = v"
    proof (cases "u = t \<or> v = t")
      case True
      then show ?thesis using * others [of u a] others [of v b] by (cases "u = t"; cases "v = t") auto
    next
      case False
      then show ?thesis using * transfers_okD(3) [OF ok] by (auto simp: images_apart_def)
    qed
  qed
qed

text \<open>Fields of the USB component and of the images do not meet.\<close>

lemma usb_image_frame:
  fixes w :: "'a usb_world_scheme"
  shows "image_inv (lu_call k w) = image_inv w" "image_inv (put_usbcmd h c w) = image_inv w" "image_inv (put_transfer t x w) = image_inv w"
    "image_refs (lu_call k w) = image_refs w" "image_refs (put_usbcmd h c w) = image_refs w" "image_refs (put_transfer t x w) = image_refs w"
    "next_addr (lu_call k w) = next_addr w" "next_addr (put_usbcmd h c w) = next_addr w" "next_addr (put_transfer t x w) = next_addr w"
    "live T (put_transfer t x w) j = live T w j" "usbcmds (put_transfer t x w) = usbcmds w" "libusb_calls (put_transfer t x w) = libusb_calls w"
    "transfers (put_transfer t x w) = (transfers w)(t := x)"
  by (simp_all add: lu_call_def put_usbcmd_def put_transfer_def image_inv_def alloc_inv_defs mem_ok_def images_ok_def held_def live_def
      image_wf_def buffer_ok_def image_refs_def [abs_def] cong: if_cong)

lemmas usb_image_frame [simp]

lemma stream_inv_call [simp]: "stream_inv h (lu_call k w) = stream_inv h w"
  and client_images_call [simp]: "client_images (lu_call k w) = client_images w"
  by (simp_all add: stream_inv_def client_images_def transfer_images_def fun_eq_iff)

lemma set_transfer_image_call: "set_transfer_image t i (lu_call k w) = lu_call k (set_transfer_image t i w)"
  by (simp add: set_transfer_image_def put_transfer_def lu_call_def)

text \<open>A step on images that keeps all references.\<close>

definition same_refs :: "'a usb_world_scheme \<Rightarrow> 'a usb_world_scheme \<Rightarrow> bool" where
  "same_refs w w' \<longleftrightarrow> image_inv w' \<and> image_refs w' = image_refs w \<and> image_world.more w' = image_world.more w \<and>
     next_addr w' = next_addr w \<and> htype w' = htype w"

lemma more_usb:
  fixes w w' :: "'a usb_world_scheme"
  assumes "image_world.more w' = image_world.more w"
  shows "usbcmds w' = usbcmds w" "transfers w' = transfers w" "libusb_calls w' = libusb_calls w"
  using assms by (cases w; cases w'; simp)+

lemma same_refs_inv:
  assumes "same_refs w w'" and "stream_inv h w"
  shows "stream_inv h w'" and "client_images w' = client_images w" and "usbcmds w' = usbcmds w" and "transfers w' = transfers w"
  using assms more_usb [of w' w]
  by (auto simp: same_refs_def stream_inv_def live_def client_images_def [abs_def] transfer_images_def)

lemma same_refs_put_image:
  assumes "image_inv w" and "h \<in> held w" and "same_resources c (images w h)" and "img_buffer_size c \<le> img_buffer_size (images w h)"
    and "img_ref_count c = img_ref_count (images w h)"
  shows "same_refs w (put_image h c w)"
proof -
  have "held (put_image h c w) = held w" using assms(2,5) by (auto simp: held_put_image held_def)
  then have "image_refs (put_image h c w) = image_refs w" using assms(5) by (auto simp: image_refs_def fun_eq_iff)
  moreover have "image_inv (put_image h c w)" using assms(1-4) by (rule image_inv_put)
  ultimately show ?thesis by (simp add: same_refs_def put_image_def)
qed

lemma set_size_run:
  assumes "image_inv w" and "h \<in> held w" and "n \<le> img_buffer_size (images w h)"
  shows "\<exists>w'. image_set_size h n w = Some w' \<and> same_refs w w'"
proof -
  have "same_refs w (put_image h ((images w h)\<lparr>img_buffer_size := n\<rparr>) w)"
    by (rule same_refs_put_image) (use assms in \<open>simp_all add: same_resources_def\<close>)
  then show ?thesis using held_live [OF assms(2)] assms(3) by (simp add: image_set_size_def)
qed

lemma set_size_null: "image_set_size 0 n w = Some w"
  by (simp add: image_set_size_def)

lemma timestamp_run:
  assumes inv: "image_inv w" and h: "h = 0 \<or> h \<in> held w"
  shows "\<exists>r w'. image_apply_system_timestamp h w = Some (r, w') \<and> same_refs w w' \<and> (h = 0 \<longrightarrow> r = ZSA_RESULT_FAILED) \<and>
    img_buffer_size (images w' h) = img_buffer_size (images w h)"
proof (cases "h = 0")
  case True
  then show ?thesis using inv by (simp add: image_apply_system_timestamp_def same_refs_def)
next
  case False
  let ?w = "w\<lparr>clock_reads := Suc (clock_reads w)\<rparr>"
  have h: "h \<in> held w" using h False by simp
  have same: "same_refs w ?w" using inv by (simp add: same_refs_def image_inv_clock image_refs_def [abs_def] held_def live_def cong: if_cong)
  have hw: "image_inv ?w" "h \<in> held ?w" using same h by (simp_all add: same_refs_def held_def live_def)
  have "same_refs ?w (put_image h ((images ?w h)\<lparr>img_sys_timestamp_nsec := t\<rparr>) ?w)" for t
    by (rule same_refs_put_image [OF hw]) (simp_all add: same_resources_def)
  then have "same_refs w (put_image h ((images ?w h)\<lparr>img_sys_timestamp_nsec := t\<rparr>) ?w)" for t
    using same unfolding same_refs_def by metis
  then show ?thesis using same held_live [OF h] False
    by (auto simp: image_apply_system_timestamp_def Let_def split: option.splits)
qed

text \<open>The stream gives the image of a transfer back, and takes a new one.\<close>

lemma client_images_drop:
  assumes ok: "transfers_ok h slots (transfers w) next refs" and x: "transfers w t = Some x"
  shows "transfer_images (set_transfer_image t 0 w) = transfer_images w - {xfr_image x}"
proof -
  have "xfr_image y \<noteq> xfr_image x" if "transfers w u = Some y" "u \<noteq> t" "xfr_image y \<noteq> 0" for u y
    using transfers_okD(3) [OF ok] that x by (auto simp: images_apart_def)
  then show ?thesis using x unfolding transfer_images_def set_transfer_image_def
    by (fastforce split: if_splits)
qed

lemma transfers_ok_drop:
  assumes ok: "transfers_ok h slots ts next refs" and x: "ts t = Some x" "xfr_image x \<noteq> 0"
  shows "transfers_ok h slots (ts(t := Some (x\<lparr>xfr_image := 0\<rparr>))) next (refs(xfr_image x := k))"
proof (rule transfers_ok_upd [OF ok x(1)])
  fix u z assume u: "u \<noteq> t" "ts u = Some z" "xfr_image z \<noteq> 0"
  then have "xfr_image z \<noteq> xfr_image x" using transfers_okD(3) [OF ok] x by (auto simp: images_apart_def)
  then show "0 < (refs(xfr_image x := k)) (xfr_image z) \<and> xfr_image z \<noteq> xfr_image (x\<lparr>xfr_image := 0\<rparr>)"
    using transfers_okD(2) [OF ok u(2)] u(3) by (simp add: transfer_ok_def)
qed simp_all

lemma transfers_ok_take:
  assumes ok: "transfers_ok h slots ts next refs" and x: "ts t = Some x" and i: "refs i = 0" and k: "0 < k" and n: "next \<le> next'"
  shows "transfers_ok h slots (ts(t := Some (x\<lparr>xfr_image := i\<rparr>))) next' (refs(i := k))"
proof (rule transfers_ok_upd [OF ok x])
  fix u z assume u: "u \<noteq> t" "ts u = Some z" "xfr_image z \<noteq> 0"
  then have "0 < refs (xfr_image z)" using transfers_okD(2) [OF ok u(2)] by (simp add: transfer_ok_def)
  then show "0 < (refs(i := k)) (xfr_image z) \<and> xfr_image z \<noteq> xfr_image (x\<lparr>xfr_image := i\<rparr>)"
    using i by auto
qed (use k n in simp_all)

lemma stream_drop_image:
  assumes inv: "stream_inv h w" and x: "transfers w t = Some x" "xfr_image x \<noteq> 0"
  shows "\<exists>w'. image_dec_ref (xfr_image x) w = Some w' \<and> stream_inv h (set_transfer_image t 0 w') \<and>
     client_images (set_transfer_image t 0 w') = client_images w \<and> usbcmds w' = usbcmds w \<and> transfers w' = transfers w \<and> libusb_calls w' = libusb_calls w"
proof -
  have i: "image_inv w" and ok: "transfers_ok h (uc_transfer_list (usbcmds w h)) (transfers w) (next_addr w) (image_refs w)"
    using inv by (simp_all add: stream_inv_def)
  have pos: "0 < image_refs w (xfr_image x)" using transfers_okD(2) [OF ok x(1)] x(2) by (simp add: transfer_ok_def)
  from image_rc.dec_held [OF i pos] obtain w' where
    w': "image_dec_ref (xfr_image x) w = Some w'" "image_inv w'" "image_refs w' = (image_refs w)(xfr_image x := image_refs w (xfr_image x) - 1)"
      "image_rest w' = image_rest w" by blast
  have m: "image_world.more w' = image_world.more w" "next_addr w' = next_addr w" "other_handles {H_image} w' = other_handles {H_image} w"
    using w'(4) by (simp_all add: image_rest_def)
  note u = more_usb [OF m(1)]
  have "live H_usbcmd w' h" using inv fun_cong [OF m(3), of h] by (auto simp: stream_inv_def live_def other_handles_def split: option.splits if_splits)
  then have "stream_inv h (set_transfer_image t 0 w')"
    using inv transfers_ok_drop [OF ok x] x w'(2,3) m(2) u by (simp add: stream_inv_def set_transfer_image_def)
  moreover have "client_images (set_transfer_image t 0 w') = client_images w"
  proof
    fix i
    have "transfer_images (set_transfer_image t 0 w') = transfer_images w - {xfr_image x}"
      using client_images_drop [OF ok x(1)] u(2) by (simp add: transfer_images_def set_transfer_image_def)
    moreover have "xfr_image x \<in> transfer_images w" using x by (auto simp: transfer_images_def)
    ultimately show "client_images (set_transfer_image t 0 w') i = client_images w i"
      using w'(3) by (simp add: client_images_def set_transfer_image_def)
  qed
  ultimately show ?thesis using w'(1) u by blast
qed

lemma made_image_refs: "made_image n i w w' \<Longrightarrow> i \<noteq> 0 \<and> image_refs w i = 0 \<and> image_refs w' = (image_refs w)(i := 1)"
  by (auto simp: made_image_def image_refs_def held_def live_def fresh_image_def fun_eq_iff)

lemma kept_images_refs: "kept_images w w' \<Longrightarrow> image_refs w' = image_refs w"
  by (auto simp: kept_images_def image_refs_def fun_eq_iff)

lemma stream_take_image:
  assumes inv: "stream_inv h w" and x: "transfers w t = Some x" "xfr_image x = 0" and n: "uint n \<le> INT32_MAX"
  shows "\<exists>r i w'. image_create_empty_internal s n (Some 0) w = Some (r, Some i, w') \<and> stream_inv h (set_transfer_image t i w') \<and>
     client_images (set_transfer_image t i w') = client_images w \<and> usbcmds w' = usbcmds w \<and> transfers w' = transfers w \<and>
     libusb_calls w' = libusb_calls w \<and> (if r = ZSA_RESULT_SUCCEEDED then i \<noteq> 0 \<and> image_refs w i = 0 else i = 0)"
proof -
  have iw: "image_inv w" and ok: "transfers_ok h (uc_transfer_list (usbcmds w h)) (transfers w) (next_addr w) (image_refs w)"
    using inv by (simp_all add: stream_inv_def)
  have "unat n \<le> 2147483647" using n by (simp only: unat_eq_nat_uint)
  then have "unat n + 32 < 2 ^ 64" by simp
  from image_create_empty_run [OF iw this, of s] obtain r i w' where
    w': "image_create_empty_internal s n (Some 0) w = Some (r, Some i, w')" "image_inv w'" "grown w w'"
      "if r = ZSA_RESULT_SUCCEEDED then made_image n i w w' else i = 0 \<and> kept_images w w'" by blast
  note u = more_usb [of w' w]
  have m: "usbcmds w' = usbcmds w" "transfers w' = transfers w" "libusb_calls w' = libusb_calls w" "next_addr w \<le> next_addr w'" "live H_usbcmd w' h"
    using w'(3) u inv by (auto simp: grown_def stream_inv_def live_def)
  have fresh: "i \<noteq> 0 \<Longrightarrow> image_refs w i = 0" and made: "(r = ZSA_RESULT_SUCCEEDED) = (i \<noteq> 0)"
    and refs: "image_refs w' = (if i = 0 then image_refs w else (image_refs w)(i := 1))"
    using w'(4) made_image_refs [of n i w w'] kept_images_refs [of w w'] by (auto split: if_splits)
  have null: "image_refs w 0 = 0" by (simp add: image_refs_def held_def live_def)
  have id: "x\<lparr>xfr_image := 0\<rparr> = x" using x(2) by simp
  have "transfers_ok h (uc_transfer_list (usbcmds w h)) ((transfers w)(t := Some (x\<lparr>xfr_image := i\<rparr>))) (next_addr w') (image_refs w')"
  proof (cases "i = 0")
    case True
    have "transfers_ok h (uc_transfer_list (usbcmds w h)) ((transfers w)(t := Some x)) (next_addr w') (image_refs w)"
      by (rule transfers_ok_upd [OF ok x(1) refl refl _ m(4)]) (use x(2) transfers_okD(2) [OF ok] in \<open>auto simp: transfer_ok_def\<close>)
    then show ?thesis using True refs id by simp
  next
    case False
    then show ?thesis using transfers_ok_take [OF ok x(1) fresh [OF False], of 1 "next_addr w'"] m(4) refs by simp
  qed
  then have "stream_inv h (set_transfer_image t i w')"
    using inv w'(2) m x(1) by (simp add: stream_inv_def set_transfer_image_def)
  moreover have "client_images (set_transfer_image t i w') = client_images w"
  proof
    fix j
    have img: "transfer_images (set_transfer_image t i w') = (if i = 0 then transfer_images w else insert i (transfer_images w))"
      using x(2) m(2) by (auto simp: transfer_images_def set_transfer_image_def x(1) ex_transfer_upd ex_transfer_other [where ts = "transfers w", OF x(1)])
    have "i \<noteq> 0 \<Longrightarrow> i \<notin> transfer_images w"
      using fresh transfers_okD(2) [OF ok] by (fastforce simp: transfer_images_def transfer_ok_def)
    then show "client_images (set_transfer_image t i w') j = client_images w j"
      using refs fresh img by (simp add: client_images_def set_transfer_image_def)
  qed
  ultimately show ?thesis using w'(1) m(1-3) made fresh by auto
qed

text \<open>A transfer whose image is gone is released: its slot is emptied and its record freed.\<close>

lemma transfers_ok_remove:
  assumes ok: "transfers_ok h slots ts next refs" and t: "\<And>i. i < USB_CMD_MAX_XFR_COUNT \<Longrightarrow> slots ! i \<noteq> t"
  shows "transfers_ok h slots (ts(t := None)) next refs"
  using assms unfolding transfers_ok_def slots_ok_def images_apart_def by (auto split: if_splits)

lemma slots_clear:
  assumes ok: "transfers_ok h slots ts next refs" and x: "ts t = Some x" "xfr_usbcmd x = h"
  defines "slots' \<equiv> (if slots ! xfr_list_index x = t then slots[xfr_list_index x := 0] else slots)"
  shows "transfers_ok h slots' ts next refs" and "\<And>i. i < USB_CMD_MAX_XFR_COUNT \<Longrightarrow> slots' ! i \<noteq> t"
proof -
  have s: "slots_ok h slots ts" and i: "xfr_list_index x < USB_CMD_MAX_XFR_COUNT" "t \<noteq> 0" "length slots = USB_CMD_MAX_XFR_COUNT"
    using transfers_okD(1) [OF ok] transfers_okD(2) [OF ok x(1)] x(2) by (auto simp: transfer_ok_def slots_ok_def)
  have "slots_ok h slots' ts" using s i by (auto simp: slots'_def slots_ok_def nth_list_update)
  then show "transfers_ok h slots' ts next refs" using ok by (simp add: transfers_ok_def)
  fix j assume j: "j < USB_CMD_MAX_XFR_COUNT"
  show "slots' ! j \<noteq> t"
  proof
    assume "slots' ! j = t"
    then have "slots ! j = t" "j \<noteq> xfr_list_index x" using i j by (auto simp: slots'_def nth_list_update split: if_splits)
    then show False using s j x i by (auto simp: slots_ok_def)
  qed
qed

definition slots_cleared :: "ptr \<Rightarrow> ptr \<Rightarrow> 'a usb_world_scheme \<Rightarrow> 'a usb_world_scheme \<Rightarrow> bool" where
  "slots_cleared h t w w' \<longleftrightarrow> (\<exists>slots. usbcmds w' = (usbcmds w)(h := (usbcmds w h)\<lparr>uc_transfer_list := slots\<rparr>) \<and> t \<notin> set slots \<and>
     (\<forall>i. slots ! i = uc_transfer_list (usbcmds w h) ! i \<or> slots ! i = 0))"

lemma release_xfr_run:
  assumes inv: "stream_inv h w" and x: "transfers w t = Some x" "xfr_usbcmd x = h"
  shows "\<exists>w'. usb_cmd_release_xfr t w = Some w' \<and> stream_inv h w' \<and> client_images w' = client_images w \<and>
     transfers w' = (transfers w)(t := None) \<and> slots_cleared h t w w'"
proof -
  let ?l = "uc_transfer_list (usbcmds w h)" and ?i = "xfr_list_index x"
  let ?l' = "if ?l ! ?i = t then ?l[?i := 0] else ?l"
  let ?c = "(usbcmds w h)\<lparr>uc_transfer_list := ?l'\<rparr>"
  have ok: "transfers_ok h ?l (transfers w) (next_addr w) (image_refs w)" and live: "live H_usbcmd w h" using inv by (simp_all add: stream_inv_def)
  have len: "length ?l = USB_CMD_MAX_XFR_COUNT" "?i < USB_CMD_MAX_XFR_COUNT"
    using transfers_okD(1) [OF ok] transfers_okD(2) [OF ok x(1)] x(2) by (auto simp: transfer_ok_def slots_ok_def)
  define w1 where "w1 = put_usbcmd h ?c w"
  have w1: "(if ?l ! ?i = t then set_slot (xfr_usbcmd x) ?i 0 w else w) = w1" using x(2) by (simp add: w1_def set_slot_def put_usbcmd_def)
  have ok1: "transfers_ok h ?l' (transfers w) (next_addr w) (image_refs w)" "\<And>i. i < USB_CMD_MAX_XFR_COUNT \<Longrightarrow> ?l' ! i \<noteq> t"
    using slots_clear [OF ok x] by simp_all
  have u1: "transfers w1 = transfers w" "usbcmds w1 = (usbcmds w)(h := ?c)" by (simp_all add: w1_def)
  have inv1: "stream_inv h w1" using inv ok1(1) by (simp add: stream_inv_def w1_def)
  have refs1: "client_images w1 = client_images w" by (simp add: client_images_def [abs_def] w1_def transfer_images_def)
  have "\<exists>w2. (if xfr_image x \<noteq> 0 then do { w \<leftarrow> image_dec_ref (xfr_image x) w1; Some (set_transfer_image t 0 w) } else Some w1) = Some w2 \<and>
      stream_inv h w2 \<and> client_images w2 = client_images w \<and> usbcmds w2 = usbcmds w1 \<and> transfers w2 = (transfers w)(t := Some (x\<lparr>xfr_image := 0\<rparr>))"
  proof (cases "xfr_image x = 0")
    case True
    then have "transfers w1 = (transfers w)(t := Some (x\<lparr>xfr_image := 0\<rparr>))" using x(1) u1(1) by (simp add: fun_upd_idem)
    then show ?thesis using True inv1 refs1 by simp
  next
    case False
    from stream_drop_image [OF inv1, unfolded u1(1), OF x(1) False] obtain w2 where
      "image_dec_ref (xfr_image x) w1 = Some w2" "stream_inv h (set_transfer_image t 0 w2)" "client_images (set_transfer_image t 0 w2) = client_images w1"
      "usbcmds w2 = usbcmds w1" "transfers w2 = transfers w" by blast
    then show ?thesis using False x(1) refs1 by (simp add: set_transfer_image_def)
  qed
  then obtain w2 where w2: "(if xfr_image x \<noteq> 0 then do { w \<leftarrow> image_dec_ref (xfr_image x) w1; Some (set_transfer_image t 0 w) } else Some w1) = Some w2"
      "stream_inv h w2" "client_images w2 = client_images w" "usbcmds w2 = usbcmds w1" "transfers w2 = (transfers w)(t := Some (x\<lparr>xfr_image := 0\<rparr>))" by blast
  let ?w3 = "put_transfer t None (lu_call (LU_free_transfer (xfr_bulk_transfer x)) w2)"
  have "usb_cmd_release_xfr t w = Some ?w3"
    unfolding usb_cmd_release_xfr_def using x live len w2(1)
    by (simp add: the_usbcmd_def w1 Let_def libusb_free_transfer_def split del: if_split)
  moreover have "stream_inv h ?w3"
    using w2(2) transfers_ok_remove [of h ?l' "transfers w2" "next_addr w2" "image_refs w2" t] ok1(2) u1(2) w2(4)
    by (simp add: stream_inv_def)
  moreover have "transfer_images ?w3 = transfer_images w2"
    using w2(5) unfolding transfer_images_def by (fastforce split: if_splits)
  then have "client_images ?w3 = client_images w" using w2(3) by (simp add: client_images_def [abs_def])
  moreover have "slots_cleared h t w ?w3"
  proof -
    have "length ?l' = USB_CMD_MAX_XFR_COUNT" using len(1) by simp
    then have "t \<notin> set ?l'" using ok1(2) by (metis in_set_conv_nth)
    moreover have "?l' ! j = ?l ! j \<or> ?l' ! j = 0" for j using len by (cases "j = ?i") simp_all
    ultimately show ?thesis unfolding slots_cleared_def using w2(4) u1(2) by (intro exI [of _ ?l']) simp
  qed
  moreover have "transfers ?w3 = (transfers w)(t := None)" using w2(5) by simp
  ultimately show ?thesis by blast
qed

text \<open>The transfer is given a new image and submitted; when that fails, it is left without one.\<close>

lemma next_image_run:
  assumes inv: "stream_inv h w" and y: "transfers w t = Some y" "xfr_image y = 0" and x: "xfr_usbcmd x = h"
  shows "\<exists>r w' i. stream_next_image api t x w = Some (r, w') \<and> stream_inv h w' \<and> client_images w' = client_images w \<and> usbcmds w' = usbcmds w \<and>
     transfers w' = (transfers w)(t := Some (y\<lparr>xfr_image := i\<rparr>)) \<and>
     (r = ZSA_RESULT_SUCCEEDED \<longrightarrow> i \<noteq> 0 \<and> image_refs w i = 0 \<and> last (libusb_calls w') = LU_submit_transfer (xfr_bulk_transfer x) LIBUSB_SUCCESS)"
proof -
  let ?c = "usbcmds w h"
  have live: "live H_usbcmd w h" "uint (uc_stream_size ?c) \<le> INT32_MAX" using inv by (simp_all add: stream_inv_def)
  from stream_take_image [OF inv y live(2), of "uc_source ?c"] obtain r i w1 where
    w1: "image_create_empty_internal (uc_source ?c) (uc_stream_size ?c) (Some 0) w = Some (r, Some i, w1)"
      "stream_inv h (set_transfer_image t i w1)" "client_images (set_transfer_image t i w1) = client_images w" "usbcmds w1 = usbcmds w"
      "transfers w1 = transfers w" "if r = ZSA_RESULT_SUCCEEDED then i \<noteq> 0 \<and> image_refs w i = 0 else i = 0" by blast
  define w2 where "w2 = set_transfer_image t i w1"
  have w2: "transfers w2 = (transfers w)(t := Some (y\<lparr>xfr_image := i\<rparr>))" "usbcmds w2 = usbcmds w" "stream_inv h w2" "client_images w2 = client_images w"
    using w1 y(1) by (simp_all add: w2_def set_transfer_image_def)
  show ?thesis
  proof (cases "r = ZSA_RESULT_SUCCEEDED")
    case False
    then have "stream_next_image api t x w = Some (r, w2)"
      using w1(1) x live(1) by (cases r) (simp_all add: stream_next_image_def the_usbcmd_def w2_def Let_def)
    then show ?thesis using w2 False by blast
  next
    case True
    then have i: "i \<noteq> 0" "image_refs w i = 0" using w1(6) by simp_all
    have t2: "transfers w2 t = Some (y\<lparr>xfr_image := i\<rparr>)" "xfr_image (y\<lparr>xfr_image := i\<rparr>) \<noteq> 0" using w2(1) i by simp_all
    have "0 < image_refs w2 i"
      using w2(3) transfers_okD(2) [of h _ "transfers w2" _ _ t] t2 i(1) by (force simp: stream_inv_def transfer_ok_def)
    then have "live H_image w2 i" using image_refs_pos held_live by blast
    then obtain b where b: "image_get_buffer i w2 = Some b" by (simp add: image_get_buffer_def image_read_def)
    define err where "err = api_submit_transfer api (libusb_calls w2) (xfr_bulk_transfer x)"
    define w3 where "w3 = lu_call (LU_submit_transfer (xfr_bulk_transfer x) err) w2"
    have run: "stream_next_image api t x w =
        (if err \<noteq> LIBUSB_SUCCESS then do { w \<leftarrow> image_dec_ref i w3; Some (ZSA_RESULT_FAILED, set_transfer_image t 0 w) } else Some (r, w3))"
      using w1(1) x live(1) True b
      by (simp add: stream_next_image_def the_usbcmd_def w2_def [symmetric] Let_def libusb_submit_transfer_def err_def [symmetric] w3_def)
    have w3: "stream_inv h w3" "client_images w3 = client_images w" "usbcmds w3 = usbcmds w" "transfers w3 = transfers w2" using w2 by (simp_all add: w3_def)
    show ?thesis
    proof (cases "err = LIBUSB_SUCCESS")
      case True
      then show ?thesis using run w3 w2(1) i by (intro exI [of _ r] exI [of _ w3] exI [of _ i]) (simp add: w3_def)
    next
      case False
      from stream_drop_image [OF w3(1), unfolded w3(4), OF t2] obtain w4 where
        w4: "image_dec_ref i w3 = Some w4" "stream_inv h (set_transfer_image t 0 w4)" "client_images (set_transfer_image t 0 w4) = client_images w3"
          "usbcmds w4 = usbcmds w3" "transfers w4 = transfers w2" by auto
      have "transfers (set_transfer_image t 0 w4) = (transfers w)(t := Some (y\<lparr>xfr_image := 0\<rparr>))"
        using w4(5) w2(1) by (simp add: set_transfer_image_def)
      moreover have "usbcmds (set_transfer_image t 0 w4) = usbcmds w" using w4(4) w3(3) by (simp add: set_transfer_image_def)
      ultimately show ?thesis using run False w4 w3(2)
        by (intro exI [of _ ZSA_RESULT_FAILED] exI [of _ "set_transfer_image t 0 w4"] exI [of _ 0]) simp
    qed
  qed
qed

subsection \<open>Completions\<close>

text \<open>
  What the stream relies on of the registered function: it returns, keeps the stream and uses images by
  their references; \<open>rel\<close> bounds how it changes the references of the clients.
\<close>

definition client_ok :: "'a usb_world_scheme stream_cb \<Rightarrow> ptr \<Rightarrow> ((ptr \<Rightarrow> int) \<Rightarrow> (ptr \<Rightarrow> int) \<Rightarrow> bool) \<Rightarrow> bool" where
  "client_ok cb h rel \<longleftrightarrow> reflp rel \<and> transp rel \<and>
     (\<forall>r i ctx w. stream_inv h w \<longrightarrow> (\<exists>w'. cb r i ctx w = Some w' \<and> stream_inv h w' \<and> usbcmds w' = usbcmds w \<and> transfers w' = transfers w \<and>
        rel (client_images w) (client_images w')))"

lemma client_okD:
  assumes "client_ok cb h rel"
  shows "rel f f" "rel f g \<Longrightarrow> rel g k \<Longrightarrow> rel f k"
  using assms by (auto simp: client_ok_def reflp_def transp_def)

lemma stream_callback_run:
  assumes "client_ok cb h rel" and "stream_inv h w"
  shows "\<exists>w'. stream_callback cb h r i w = Some w' \<and> stream_inv h w' \<and> usbcmds w' = usbcmds w \<and> transfers w' = transfers w \<and>
     rel (client_images w) (client_images w')"
proof -
  let ?w = "lu_call (LU_stream_callback (ZSA_SUCCEEDED r) i (uc_stream_context (usbcmds w h))) w"
  have "stream_inv h ?w" using assms(2) by simp
  with assms(1) obtain w' where "cb r i (uc_stream_context (usbcmds w h)) ?w = Some w'" "stream_inv h w'" "usbcmds w' = usbcmds ?w"
      "transfers w' = transfers ?w" "rel (client_images ?w) (client_images w')" unfolding client_ok_def by blast
  then show ?thesis by (simp add: stream_callback_def)
qed

text \<open>A report to the client: the size of the image is set, if there is one, and the function is called.\<close>

lemma stream_report_run:
  assumes cl: "client_ok cb h rel" and inv: "stream_inv h w" and i: "i = 0 \<or> i \<in> held w \<and> n \<le> img_buffer_size (images w i)"
  shows "\<exists>w'. do { w \<leftarrow> image_set_size i n w; stream_callback cb h r i w } = Some w' \<and> stream_inv h w' \<and> usbcmds w' = usbcmds w \<and>
     transfers w' = transfers w \<and> rel (client_images w) (client_images w')"
proof -
  have iw: "image_inv w" using inv by (simp add: stream_inv_def)
  have "\<exists>w1. image_set_size i n w = Some w1 \<and> same_refs w w1"
    using i set_size_null [of n w] set_size_run [OF iw, of i n] iw by (auto simp: same_refs_def)
  then obtain w1 where w1: "image_set_size i n w = Some w1" "same_refs w w1" by blast
  note s = same_refs_inv [OF w1(2) inv]
  from stream_callback_run [OF cl s(1), of r i] show ?thesis using w1(1) s(2-4) by auto
qed

lemma transfer_image_held:
  assumes "stream_inv h w" and "transfers w t = Some x"
  shows "xfr_image x = 0 \<or> xfr_image x \<in> held w"
proof -
  have "transfer_ok h (next_addr w) (image_refs w) t x" using assms by (auto simp: stream_inv_def dest: transfers_okD(2))
  then show ?thesis by (auto simp: transfer_ok_def image_refs_pos)
qed

lemma stream_deliver_run:
  assumes cl: "client_ok cb h rel" and inv: "stream_inv h w" and x: "transfers w t = Some x" "xfr_usbcmd x = h" "xfr_image x \<noteq> 0"
    and n: "n \<le> img_buffer_size (images w (xfr_image x))"
  shows "\<exists>r w' i. stream_deliver cb api t x status n w = Some (r, w') \<and> stream_inv h w' \<and> rel (client_images w) (client_images w') \<and>
     usbcmds w' = usbcmds w \<and> transfers w' = (transfers w)(t := Some (x\<lparr>xfr_image := i\<rparr>)) \<and>
     (r = ZSA_RESULT_SUCCEEDED \<longrightarrow> i \<noteq> 0 \<and> last (libusb_calls w') = LU_submit_transfer (xfr_bulk_transfer x) LIBUSB_SUCCESS)"
proof -
  have i: "xfr_image x = 0 \<or> xfr_image x \<in> held w \<and> n \<le> img_buffer_size (images w (xfr_image x))"
    using transfer_image_held [OF inv x(1)] x(3) n by simp
  have "\<exists>w1. (if status = LIBUSB_TRANSFER_COMPLETED \<and> uc_callback (usbcmds w h) \<noteq> 0
      then do { w \<leftarrow> image_set_size (xfr_image x) n w; stream_callback cb h ZSA_RESULT_SUCCEEDED (xfr_image x) w } else Some w) = Some w1 \<and>
      stream_inv h w1 \<and> usbcmds w1 = usbcmds w \<and> transfers w1 = transfers w \<and> rel (client_images w) (client_images w1)"
    using stream_report_run [OF cl inv i, of ZSA_RESULT_SUCCEEDED] inv client_okD(1) [OF cl] by auto
  then obtain w1 where w1: "(if status = LIBUSB_TRANSFER_COMPLETED \<and> uc_callback (usbcmds w h) \<noteq> 0
      then do { w \<leftarrow> image_set_size (xfr_image x) n w; stream_callback cb h ZSA_RESULT_SUCCEEDED (xfr_image x) w } else Some w) = Some w1"
      "stream_inv h w1" "usbcmds w1 = usbcmds w" "transfers w1 = transfers w" "rel (client_images w) (client_images w1)" by blast
  from stream_drop_image [OF w1(2), unfolded w1(4), OF x(1,3)] obtain w2 where
    w2: "image_dec_ref (xfr_image x) w1 = Some w2" "stream_inv h (set_transfer_image t 0 w2)" "client_images (set_transfer_image t 0 w2) = client_images w1"
      "usbcmds w2 = usbcmds w1" "transfers w2 = transfers w" by blast
  have t2: "transfers (set_transfer_image t 0 w2) t = Some (x\<lparr>xfr_image := 0\<rparr>)"
      "transfers (set_transfer_image t 0 w2) = (transfers w)(t := Some (x\<lparr>xfr_image := 0\<rparr>))" "usbcmds (set_transfer_image t 0 w2) = usbcmds w"
    using w2(4,5) w1(3) x(1) by (simp_all add: set_transfer_image_def)
  from next_image_run [OF w2(2) t2(1) _ x(2), of api] obtain r w' i where
    w': "stream_next_image api t x (set_transfer_image t 0 w2) = Some (r, w')" "stream_inv h w'" "client_images w' = client_images w1" "usbcmds w' = usbcmds w"
      "transfers w' = (transfers w)(t := Some (x\<lparr>xfr_image := i\<rparr>))"
      "r = ZSA_RESULT_SUCCEEDED \<longrightarrow> i \<noteq> 0 \<and> last (libusb_calls w') = LU_submit_transfer (xfr_bulk_transfer x) LIBUSB_SUCCESS"
    using t2(2,3) w2(3) by auto
  have "stream_deliver cb api t x status n w = Some (r, w')"
    unfolding stream_deliver_def x(2) w1(1) using w2(1) w'(1) by simp
  then show ?thesis using w' w1(5) by metis
qed

lemma stream_give_up_run:
  assumes cl: "client_ok cb h rel" and inv: "stream_inv h w" and x: "transfers w t = Some x" "xfr_usbcmd x = h"
  shows "\<exists>w'. stream_give_up cb t status w = Some w' \<and> stream_inv h w' \<and> rel (client_images w) (client_images w') \<and>
     transfers w' = (transfers w)(t := None) \<and> slots_cleared h t w w'"
proof -
  let ?c = "usbcmds w h"
  let ?report = "uc_stream_going ?c \<and> status \<noteq> LIBUSB_TRANSFER_CANCELLED \<and> status \<noteq> LIBUSB_TRANSFER_OVERFLOW \<and> uc_callback ?c \<noteq> 0"
  have i: "xfr_image x = 0 \<or> xfr_image x \<in> held w \<and> 0 \<le> img_buffer_size (images w (xfr_image x))" using transfer_image_held [OF inv x(1)] by simp
  have "\<exists>w1. (if ?report then do { w \<leftarrow> image_set_size (xfr_image x) 0 w; stream_callback cb h ZSA_RESULT_FAILED (xfr_image x) w } else Some w) = Some w1 \<and>
      stream_inv h w1 \<and> usbcmds w1 = usbcmds w \<and> transfers w1 = transfers w \<and> rel (client_images w) (client_images w1)"
    using stream_report_run [OF cl inv i, of ZSA_RESULT_FAILED] inv client_okD(1) [OF cl] by auto
  then obtain w1 where w1: "(if ?report then do { w \<leftarrow> image_set_size (xfr_image x) 0 w; stream_callback cb h ZSA_RESULT_FAILED (xfr_image x) w } else Some w) = Some w1"
      "stream_inv h w1" "usbcmds w1 = usbcmds w" "transfers w1 = transfers w" "rel (client_images w) (client_images w1)" by blast
  from release_xfr_run [OF w1(2), unfolded w1(4), OF x] obtain w' where
    w': "usb_cmd_release_xfr t w1 = Some w'" "stream_inv h w'" "client_images w' = client_images w1" "transfers w' = (transfers w)(t := None)"
      "slots_cleared h t w1 w'" by blast
  have "the_usbcmd h w = Some ?c" using inv by (simp add: the_usbcmd_def stream_inv_def)
  then have "stream_give_up cb t status w = Some w'"
    using x w1(1) w'(1) by (simp add: stream_give_up_def split del: if_split cong: if_cong)
  moreover have "slots_cleared h t w w'" using w'(5) w1(3) by (simp add: slots_cleared_def)
  ultimately show ?thesis using w' w1(5) by auto
qed

lemma usb_cmd_libusb_cb_run:
  assumes cl: "client_ok cb h rel" and inv: "stream_inv h w" and x: "transfers w t = Some x" "xfr_usbcmd x = h"
    and n: "xfr_image x \<noteq> 0 \<longrightarrow> n \<le> img_buffer_size (images w (xfr_image x))"
  shows "\<exists>w'. usb_cmd_libusb_cb cb api t status n w = Some w' \<and> stream_inv h w' \<and> rel (client_images w) (client_images w') \<and>
     (transfers w' = (transfers w)(t := None) \<and> slots_cleared h t w w' \<or>
      uc_stream_going (usbcmds w h) \<and> usbcmds w' = usbcmds w \<and> last (libusb_calls w') = LU_submit_transfer (xfr_bulk_transfer x) LIBUSB_SUCCESS \<and>
        (\<exists>i. i \<noteq> 0 \<and> transfers w' = (transfers w)(t := Some (x\<lparr>xfr_image := i\<rparr>))))"
proof -
  have iw: "image_inv w" using inv by (simp add: stream_inv_def)
  from timestamp_run [OF iw transfer_image_held [OF inv x(1)]] obtain r1 w1 where
    w1: "image_apply_system_timestamp (xfr_image x) w = Some (r1, w1)" "same_refs w w1" "xfr_image x = 0 \<longrightarrow> r1 = ZSA_RESULT_FAILED"
      "img_buffer_size (images w1 (xfr_image x)) = img_buffer_size (images w (xfr_image x))" by (elim exE conjE)
  note s = same_refs_inv [OF w1(2) inv]
  have x1: "transfers w1 t = Some x" using x(1) s(4) by simp
  have c: "the_usbcmd h w1 = Some (usbcmds w h)" using s(1,3) by (simp add: the_usbcmd_def stream_inv_def)
  let ?go = "r1 = ZSA_RESULT_SUCCEEDED \<and> (status = LIBUSB_TRANSFER_COMPLETED \<or> status = LIBUSB_TRANSFER_TIMED_OUT) \<and> uc_stream_going (usbcmds w h)"
  have give: "usb_cmd_libusb_cb cb api t status n w = (if ?go then do {
        (r, w) \<leftarrow> stream_deliver cb api t x status n w1;
        if ZSA_FAILED r then stream_give_up cb t status w else Some w } else stream_give_up cb t status w1)"
    using x w1(1) c by (cases r1) (simp_all add: usb_cmd_libusb_cb_def)
  show ?thesis
  proof (cases ?go)
    case False
    have "slots_cleared h t w1 w' \<Longrightarrow> slots_cleared h t w w'" for w' using s(3) by (simp add: slots_cleared_def)
    then show ?thesis using give False stream_give_up_run [OF cl s(1) x1 x(2), of status] s(2,4) by (simp only: if_False) metis
  next
    case True
    then have img: "xfr_image x \<noteq> 0" "n \<le> img_buffer_size (images w1 (xfr_image x))" using w1(3,4) n by auto
    from stream_deliver_run [OF cl s(1) x1 x(2) img, of api status] obtain r w2 i where
      w2: "stream_deliver cb api t x status n w1 = Some (r, w2)" "stream_inv h w2" "rel (client_images w) (client_images w2)" "usbcmds w2 = usbcmds w"
        "transfers w2 = (transfers w)(t := Some (x\<lparr>xfr_image := i\<rparr>))"
        "r = ZSA_RESULT_SUCCEEDED \<longrightarrow> i \<noteq> 0 \<and> last (libusb_calls w2) = LU_submit_transfer (xfr_bulk_transfer x) LIBUSB_SUCCESS"
      using s(2-4) by auto
    show ?thesis
    proof (cases "r = ZSA_RESULT_SUCCEEDED")
      case ok: True
      then have "usb_cmd_libusb_cb cb api t status n w = Some w2" using give True w2(1) by simp
      then show ?thesis using w2 ok True by blast
    next
      case failed: False
      then have run: "usb_cmd_libusb_cb cb api t status n w = stream_give_up cb t status w2" using give True w2(1) by (cases r) simp_all
      have x2: "transfers w2 t = Some (x\<lparr>xfr_image := i\<rparr>)" "xfr_usbcmd (x\<lparr>xfr_image := i\<rparr>) = h" using w2(5) x(2) by simp_all
      from stream_give_up_run [OF cl w2(2) x2, of status] obtain w3 where
        w3: "stream_give_up cb t status w2 = Some w3" "stream_inv h w3" "rel (client_images w2) (client_images w3)" "transfers w3 = (transfers w2)(t := None)"
          "slots_cleared h t w2 w3" by blast
      have "rel (client_images w) (client_images w3)" "slots_cleared h t w w3" "transfers w3 = (transfers w)(t := None)"
        using client_okD(2) [OF cl w2(3) w3(3)] w3(4,5) w2(4,5) by (simp_all add: slots_cleared_def)
      then show ?thesis using run w3(1,2) by auto
    qed
  qed
qed

subsection \<open>Setting up the transfers\<close>

lemma malloc_stream:
  assumes inv: "stream_inv h w" and m: "c_malloc k w = (t, w1)"
  shows "stream_inv h w1" and "client_images w1 = client_images w" and "usbcmds w1 = usbcmds w" and "transfers w1 = transfers w"
    and "t \<noteq> 0 \<Longrightarrow> transfers w t = None \<and> t < next_addr w1"
proof -
  have iw: "image_inv w" and ok: "transfers_ok h (uc_transfer_list (usbcmds w h)) (transfers w) (next_addr w) (image_refs w)"
    using inv by (simp_all add: stream_inv_def)
  note a = image_invD(1) [OF iw]
  have "w1 = w\<lparr>next_addr := next_addr w1, os_requests := os_requests w1\<rparr> \<and> next_addr w \<le> next_addr w1 \<and>
      (t \<noteq> 0 \<longrightarrow> t = next_addr w \<and> t < next_addr w1)"
    using m by (cases "os_grants w (os_requests w)") (auto simp: c_malloc_def os_request_def)
  then obtain n r where w1: "w1 = w\<lparr>next_addr := n, os_requests := r\<rparr>" "next_addr w \<le> n" "t \<noteq> 0 \<longrightarrow> t = next_addr w \<and> t < n" by metis
  have "alloc_inv w1" by (rule alloc_inv_other [OF a]) (use w1 a in \<open>auto simp: alloc_inv_def mem_ok_def\<close>)
  then have f: "image_inv w1" "image_refs w1 = image_refs w"
    using image_inv_frame [OF iw, of w1] w1(1) by (simp_all add: live_def)
  have u: "usbcmds w1 = usbcmds w" "transfers w1 = transfers w" using w1(1) by simp_all
  have "transfers_ok h (uc_transfer_list (usbcmds w h)) (transfers w) (next_addr w1) (image_refs w)"
    using ok w1(1,2) unfolding transfers_ok_def transfer_ok_def by fastforce
  then show "stream_inv h w1" using inv f u w1(1) by (simp add: stream_inv_def live_def)
  show "client_images w1 = client_images w" using f(2) u(2) by (simp add: client_images_def [abs_def] transfer_images_def)
  show "usbcmds w1 = usbcmds w" "transfers w1 = transfers w" by (fact u)+
  assume "t \<noteq> 0"
  then show "transfers w t = None \<and> t < next_addr w1" using w1 transfers_okD(2) [OF ok, of t] by (force simp: transfer_ok_def)
qed

text \<open>A new record in slot \<open>i\<close>, the rest of its setup, and its removal.\<close>

lemma transfers_ok_new:
  assumes ok: "transfers_ok h slots ts next refs" and t: "ts t = None" "0 < t" "t < next" and i: "i < USB_CMD_MAX_XFR_COUNT"
  shows "transfers_ok h (slots[i := t]) (ts(t := Some \<lparr>xfr_usbcmd = h, xfr_bulk_transfer = b, xfr_image = 0, xfr_list_index = i\<rparr>)) next refs"
  using assms unfolding transfers_ok_def slots_ok_def transfer_ok_def images_apart_def by (auto simp: nth_list_update split: if_splits)

lemma stream_new_transfer:
  assumes inv: "stream_inv h w" and t: "transfers w t = None" "t \<noteq> 0" "t < next_addr w" and i: "i < USB_CMD_MAX_XFR_COUNT"
  defines "w' \<equiv> set_slot h i t (put_transfer t (Some \<lparr>xfr_usbcmd = h, xfr_bulk_transfer = 0, xfr_image = 0, xfr_list_index = i\<rparr>) w)"
  shows "stream_inv h w'" and "client_images w' = client_images w"
    and "usbcmds w' = (usbcmds w)(h := (usbcmds w h)\<lparr>uc_transfer_list := (uc_transfer_list (usbcmds w h))[i := t]\<rparr>)"
    and "transfers w' = (transfers w)(t := Some \<lparr>xfr_usbcmd = h, xfr_bulk_transfer = 0, xfr_image = 0, xfr_list_index = i\<rparr>)"
proof -
  show u: "usbcmds w' = (usbcmds w)(h := (usbcmds w h)\<lparr>uc_transfer_list := (uc_transfer_list (usbcmds w h))[i := t]\<rparr>)"
    "transfers w' = (transfers w)(t := Some \<lparr>xfr_usbcmd = h, xfr_bulk_transfer = 0, xfr_image = 0, xfr_list_index = i\<rparr>)"
    by (simp_all add: w'_def set_slot_def)
  show "stream_inv h w'" using inv transfers_ok_new [of h _ "transfers w" "next_addr w" "image_refs w" t i 0] t i
    by (simp add: stream_inv_def w'_def set_slot_def)
  have "transfer_images w' = transfer_images w"
    unfolding transfer_images_def u(2) ex_transfer_upd using t(1) by (auto; metis option.distinct(1))
  then show "client_images w' = client_images w" by (simp add: client_images_def [abs_def] w'_def set_slot_def)
qed

definition filled :: "ptr \<Rightarrow> nat \<Rightarrow> ptr \<Rightarrow> 'a usb_world_scheme \<Rightarrow> 'a usb_world_scheme \<Rightarrow> bool" where
  "filled h i t w w' \<longleftrightarrow> stream_inv h w' \<and> client_images w' = client_images w \<and> usbcmds w' = usbcmds w \<and>
     (\<exists>b m. transfers w' = (transfers w)(t := Some \<lparr>xfr_usbcmd = h, xfr_bulk_transfer = b, xfr_image = m, xfr_list_index = i\<rparr>))"

lemma stream_fill_run:
  assumes inv: "stream_inv h w" and t: "transfers w t = Some \<lparr>xfr_usbcmd = h, xfr_bulk_transfer = 0, xfr_image = 0, xfr_list_index = i\<rparr>"
  shows "\<exists>r w'. stream_fill api h i t w = Some (r, w') \<and> filled h i t w w'"
proof -
  define b where "b = api_alloc_transfer api (libusb_calls w)"
  define y where "y = \<lparr>xfr_usbcmd = h, xfr_bulk_transfer = b, xfr_image = 0 :: ptr, xfr_list_index = i\<rparr>"
  define w1 where "w1 = put_transfer t (Some y) (lu_call (LU_alloc_transfer b) w)"
  have ok: "transfers_ok h (uc_transfer_list (usbcmds w h)) (transfers w) (next_addr w) (image_refs w)" using inv by (simp add: stream_inv_def)
  have "transfers_ok h (uc_transfer_list (usbcmds w h)) ((transfers w)(t := Some y)) (next_addr w) (image_refs w)"
    by (rule transfers_ok_upd [OF ok t]) (use transfers_okD(2) [OF ok] in \<open>auto simp: y_def transfer_ok_def\<close>)
  then have inv1: "stream_inv h w1" using inv by (simp add: stream_inv_def w1_def)
  have u1: "transfers w1 = (transfers w)(t := Some y)" "usbcmds w1 = usbcmds w" by (simp_all add: w1_def)
  have "transfer_images w1 = transfer_images w"
    unfolding transfer_images_def u1(1) ex_transfer_upd ex_transfer_other [where ts = "transfers w", OF t] by (auto simp: y_def)
  then have refs1: "client_images w1 = client_images w" by (simp add: client_images_def [abs_def] w1_def)
  have rec: "map_option (\<lambda>x. x\<lparr>xfr_bulk_transfer := b\<rparr>) (transfers w t) = Some y" using t by (simp add: y_def)
  show ?thesis
  proof (cases "b = 0")
    case True
    have "stream_fill api h i t w = Some (ZSA_RESULT_FAILED, w1)"
      using True rec by (auto simp: stream_fill_def libusb_alloc_transfer_def b_def [symmetric] w1_def)
    then show ?thesis using inv1 refs1 u1 by (auto simp: filled_def y_def)
  next
    case False
    have n: "uint (uc_stream_size (usbcmds w h)) \<le> INT32_MAX" using inv by (simp add: stream_inv_def)
    have y1: "transfers w1 t = Some y" "xfr_image y = 0" by (simp_all add: u1 y_def)
    from stream_take_image [OF inv1 y1 n, of "uc_source (usbcmds w h)"] obtain r m w2 where
      w2: "image_create_empty_internal (uc_source (usbcmds w h)) (uc_stream_size (usbcmds w h)) (Some 0) w1 = Some (r, Some m, w2)"
        "stream_inv h (set_transfer_image t m w2)" "client_images (set_transfer_image t m w2) = client_images w1" "usbcmds w2 = usbcmds w1"
        "transfers w2 = transfers w1" "if r = ZSA_RESULT_SUCCEEDED then m \<noteq> 0 \<and> image_refs w1 m = 0 else m = 0" by blast
    define w3 where "w3 = set_transfer_image t m w2"
    have w3: "stream_inv h w3" "client_images w3 = client_images w" "usbcmds w3 = usbcmds w" "transfers w3 = (transfers w)(t := Some (y\<lparr>xfr_image := m\<rparr>))"
      using w2(2-5) refs1 u1 by (simp_all add: w3_def set_transfer_image_def)
    then have f3: "filled h i t w w3" by (auto simp: filled_def y_def)
    have run: "stream_fill api h i t w = (if ZSA_FAILED r then Some (r, w3) else do {
        _ \<leftarrow> image_get_buffer m w3;
        let (err, w) = libusb_submit_transfer api b w3;
        Some (if err \<noteq> LIBUSB_SUCCESS \<and> i = 0 then ZSA_RESULT_FAILED else ZSA_RESULT_SUCCEEDED, w) })"
      using False w2(1) u1(2)
      by (simp add: stream_fill_def libusb_alloc_transfer_def b_def [symmetric] rec w1_def [symmetric] w3_def [symmetric])
    show ?thesis
    proof (cases "ZSA_FAILED r")
      case True
      then show ?thesis using run f3 by simp
    next
      case ok: False
      then have "m \<noteq> 0" using w2(6) by (cases r) simp_all
      then have "m \<in> held w3" using transfer_image_held [OF w3(1), of t] w3(4) by fastforce
      then obtain buf where "image_get_buffer m w3 = Some buf" using held_live by (fastforce simp: image_get_buffer_def image_read_def)
      then show ?thesis using run ok f3 by (auto simp: libusb_submit_transfer_def Let_def filled_def)
    qed
  qed
qed

lemma stream_abandon_run:
  assumes inv: "stream_inv h w" and x: "transfers w t = Some x" "xfr_usbcmd x = h" "xfr_list_index x = i" and slot: "uc_transfer_list (usbcmds w h) ! i = t"
  shows "\<exists>w'. stream_abandon h i t w = Some w' \<and> stream_inv h w' \<and> client_images w' = client_images w \<and>
     usbcmds w' = (usbcmds w)(h := (usbcmds w h)\<lparr>uc_transfer_list := (uc_transfer_list (usbcmds w h))[i := 0]\<rparr>)"
proof -
  let ?l = "uc_transfer_list (usbcmds w h)"
  have ok: "transfers_ok h ?l (transfers w) (next_addr w) (image_refs w)" using inv by (simp add: stream_inv_def)
  have t0: "t \<noteq> 0" using transfers_okD(2) [OF ok x(1)] by (simp add: transfer_ok_def)
  have "\<exists>w1. (if xfr_image x \<noteq> 0 then image_dec_ref (xfr_image x) w else Some w) = Some w1 \<and> stream_inv h (set_transfer_image t 0 w1) \<and>
      client_images (set_transfer_image t 0 w1) = client_images w \<and> usbcmds w1 = usbcmds w \<and> transfers w1 = transfers w"
  proof (cases "xfr_image x = 0")
    case True
    then have "set_transfer_image t 0 w = w" using x(1) by (simp add: set_transfer_image_def put_transfer_def fun_upd_idem)
    then show ?thesis using True inv by simp
  next
    case False
    then show ?thesis using stream_drop_image [OF inv x(1) False] by auto
  qed
  then obtain w1 where w1: "(if xfr_image x \<noteq> 0 then image_dec_ref (xfr_image x) w else Some w) = Some w1" "stream_inv h (set_transfer_image t 0 w1)"
      "client_images (set_transfer_image t 0 w1) = client_images w" "usbcmds w1 = usbcmds w" "transfers w1 = transfers w" by blast
  define w2 where "w2 = (if xfr_bulk_transfer x \<noteq> 0 then libusb_free_transfer (xfr_bulk_transfer x) w1 else w1)"
  have w2: "stream_inv h (set_transfer_image t 0 w2)" "client_images (set_transfer_image t 0 w2) = client_images w" "usbcmds w2 = usbcmds w" "transfers w2 = transfers w"
    using w1(2-5) by (auto simp: w2_def libusb_free_transfer_def set_transfer_image_call)
  let ?w3 = "set_slot h i 0 (put_transfer t None w2)"
  have run: "stream_abandon h i t w = Some ?w3"
    using x(1) w1(1) t0 by (simp add: stream_abandon_def w2_def split del: if_split)
  let ?x = "x\<lparr>xfr_image := 0\<rparr>" and ?v = "set_transfer_image t 0 w2"
  have v: "transfers ?v = (transfers w)(t := Some ?x)" "usbcmds ?v = usbcmds w" using w2(3,4) x(1) by (simp_all add: set_transfer_image_def)
  have okv: "transfers_ok h ?l ((transfers w)(t := Some ?x)) (next_addr ?v) (image_refs ?v)" using w2(1) v by (simp add: stream_inv_def)
  have "transfers_ok h (?l[i := 0]) ((transfers w)(t := Some ?x)) (next_addr ?v) (image_refs ?v)" "\<And>j. j < USB_CMD_MAX_XFR_COUNT \<Longrightarrow> ?l[i := 0] ! j \<noteq> t"
    using slots_clear [OF okv, of t ?x] x slot by simp_all
  from transfers_ok_remove [OF this] have "transfers_ok h (?l[i := 0]) ((transfers w)(t := None)) (next_addr ?v) (image_refs ?v)" by simp
  then have "stream_inv h ?w3" using w2 by (simp add: stream_inv_def set_slot_def set_transfer_image_def)
  moreover have "transfer_images ?w3 = transfer_images ?v"
    unfolding transfer_images_def v(1) ex_transfer_upd using w2(4) by (auto simp: set_slot_def split: if_splits)
  then have "client_images ?w3 = client_images w" using w2(2) by (simp add: client_images_def [abs_def] set_slot_def set_transfer_image_def)
  moreover have "usbcmds ?w3 = (usbcmds w)(h := (usbcmds w h)\<lparr>uc_transfer_list := ?l[i := 0]\<rparr>)" using w2(3) by (simp add: set_slot_def)
  ultimately show ?thesis using run by blast
qed

lemma stream_add_run:
  assumes inv: "stream_inv h w" and i: "i < USB_CMD_MAX_XFR_COUNT"
  shows "\<exists>r w' t. stream_add api h i w = Some (r, w') \<and> stream_inv h w' \<and> client_images w' = client_images w \<and>
     usbcmds w' = (usbcmds w)(h := (usbcmds w h)\<lparr>uc_transfer_list := (uc_transfer_list (usbcmds w h))[i := t]\<rparr>) \<and> (r = ZSA_RESULT_SUCCEEDED \<longleftrightarrow> t \<noteq> 0)"
proof -
  let ?l = "uc_transfer_list (usbcmds w h)"
  obtain t w1 where m: "c_malloc sizeof_transfer_alloc w = (t, w1)" by fastforce
  note m1 = malloc_stream [OF inv m]
  show ?thesis
  proof (cases "t = 0")
    case True
    let ?w2 = "set_slot h i 0 w1"
    have "stream_add api h i w = Some (ZSA_RESULT_FAILED, ?w2)" using m True by (simp add: stream_add_def stream_abandon_def)
    moreover have "slots_ok h (?l[i := 0]) (transfers w)" if "slots_ok h ?l (transfers w)"
      using that i by (auto simp: slots_ok_def nth_list_update)
    then have "stream_inv h ?w2" using m1(1,3,4) by (auto simp: stream_inv_def set_slot_def transfers_ok_def)
    moreover have "client_images ?w2 = client_images w" using m1(2) by (simp add: client_images_def [abs_def] set_slot_def transfer_images_def)
    ultimately show ?thesis using m1(3) by (intro exI [of _ ZSA_RESULT_FAILED] exI [of _ ?w2] exI [of _ 0]) (simp add: set_slot_def)
  next
    case False
    define w2 where "w2 = set_slot h i t (put_transfer t (Some \<lparr>xfr_usbcmd = h, xfr_bulk_transfer = 0, xfr_image = 0, xfr_list_index = i\<rparr>) w1)"
    have t: "transfers w1 t = None" "t < next_addr w1" using m1(4,5) False by simp_all
    note n = stream_new_transfer [OF m1(1) t(1) False t(2) i, folded w2_def, unfolded m1(2-4)]
    have x2: "transfers w2 t = Some \<lparr>xfr_usbcmd = h, xfr_bulk_transfer = 0, xfr_image = 0, xfr_list_index = i\<rparr>" using n(4) by simp
    from stream_fill_run [OF n(1) x2, of api] obtain r w3 where f: "stream_fill api h i t w2 = Some (r, w3)" "filled h i t w2 w3" by blast
    then obtain b k where w3: "stream_inv h w3" "client_images w3 = client_images w" "usbcmds w3 = usbcmds w2"
        "transfers w3 t = Some \<lparr>xfr_usbcmd = h, xfr_bulk_transfer = b, xfr_image = k, xfr_list_index = i\<rparr>" using n(2) by (auto simp: filled_def)
    have add: "stream_add api h i w = (if ZSA_FAILED r then do { w \<leftarrow> stream_abandon h i t w3; Some (r, w) } else Some (r, w3))"
      using m False f(1) by (simp add: stream_add_def w2_def)
    have len: "i < length ?l" using inv i by (simp add: stream_inv_def transfers_ok_def slots_ok_def)
    show ?thesis
    proof (cases "r = ZSA_RESULT_SUCCEEDED")
      case True
      then show ?thesis using add w3 n(3) False by (intro exI [of _ r] exI [of _ w3] exI [of _ t]) simp
    next
      case failed: False
      have slot: "uc_transfer_list (usbcmds w3 h) ! i = t" using w3(3) n(3) len by simp
      from stream_abandon_run [OF w3(1,4) _ _ slot] obtain w4 where
        w4: "stream_abandon h i t w3 = Some w4" "stream_inv h w4" "client_images w4 = client_images w3"
          "usbcmds w4 = (usbcmds w3)(h := (usbcmds w3 h)\<lparr>uc_transfer_list := (uc_transfer_list (usbcmds w3 h))[i := 0]\<rparr>)" by auto
      have "stream_add api h i w = Some (r, w4)" using add failed w4(1) by (cases r) simp_all
      then show ?thesis using w4 w3(2,3) n(3) failed by (intro exI [of _ r] exI [of _ w4] exI [of _ 0]) simp
    qed
  qed
qed

text \<open>
  The loop fills the slots from the front while the bytes of all transfers, counted one ahead, stay below the
  limit of the pool.
\<close>

definition slots_filled :: "nat \<Rightarrow> ptr \<Rightarrow> 'a usb_world_scheme \<Rightarrow> bool" where
  "slots_filled m h w \<longleftrightarrow> (\<forall>i < USB_CMD_MAX_XFR_COUNT. uc_transfer_list (usbcmds w h) ! i \<noteq> 0 \<longleftrightarrow> i < m)"

lemma pool_add:
  assumes "unat pool = (k + 1) * unat n" and "k < USB_CMD_MAX_XFR_COUNT" and "unat n \<le> 2147483647"
  shows "unat (pool + n :: u64) = (Suc k + 1) * unat n"
proof -
  have "unat pool \<le> 8 * 2147483647" unfolding assms(1) by (rule mult_le_mono) (use assms(2,3) in simp_all)
  then have "unat pool + unat n < 2 ^ 64" using assms(3) by simp
  then have "unat (pool + n) = unat pool + unat n" by (simp add: unat_word_ariths)
  then show ?thesis using assms(1) by simp
qed

lemma stream_setup_run:
  fixes w :: "'a usb_world_scheme"
  assumes "stream_inv h w" and "k \<le> USB_CMD_MAX_XFR_COUNT" and "slots_filled k h w" and "unat pool = (k + 1) * unat (uc_stream_size (usbcmds w h))"
    and "k = 0 \<or> k * unat (uc_stream_size (usbcmds w h)) < unat max_pool"
  shows "\<exists>r w' m. stream_setup api h max_pool [k..<USB_CMD_MAX_XFR_COUNT] pool ZSA_RESULT_SUCCEEDED w = Some (r, w') \<and> stream_inv h w' \<and>
     client_images w' = client_images w \<and> slots_filled m h w' \<and> m \<le> USB_CMD_MAX_XFR_COUNT \<and> (m = 0 \<or> m * unat (uc_stream_size (usbcmds w h)) < unat max_pool) \<and>
     (r = ZSA_RESULT_SUCCEEDED \<longrightarrow> m = USB_CMD_MAX_XFR_COUNT \<or> unat max_pool \<le> (m + 1) * unat (uc_stream_size (usbcmds w h)))"
  using assms
proof (induction "USB_CMD_MAX_XFR_COUNT - k" arbitrary: k pool w)
  case 0
  then have "[k..<USB_CMD_MAX_XFR_COUNT] = []" "k = USB_CMD_MAX_XFR_COUNT" by simp_all
  then show ?case using 0 by auto
next
  case (Suc d)
  let ?n = "uc_stream_size (usbcmds w h)"
  have k: "k < USB_CMD_MAX_XFR_COUNT" using Suc.hyps(2) by simp
  then have up: "[k..<USB_CMD_MAX_XFR_COUNT] = k # [Suc k..<USB_CMD_MAX_XFR_COUNT]" by (rule upt_conv_Cons)
  have "uint ?n \<le> INT32_MAX" using Suc.prems(1) by (simp add: stream_inv_def)
  then have "unat ?n \<le> 2147483647" by (simp only: unat_eq_nat_uint)
  note pool = pool_add [OF Suc.prems(4) k this]
  show ?case
  proof (cases "pool < max_pool")
    case False
    then have "unat max_pool \<le> (k + 1) * unat ?n" using Suc.prems(4) by (simp add: word_less_nat_alt)
    then show ?thesis using False up Suc.prems by (intro exI [of _ ZSA_RESULT_SUCCEEDED] exI [of _ w] exI [of _ k]) simp
  next
    case True
    then have lt: "(k + 1) * unat ?n < unat max_pool" using Suc.prems(4) by (simp add: word_less_nat_alt)
    from stream_add_run [OF Suc.prems(1) k, of api] obtain r w1 t where
      a: "stream_add api h k w = Some (r, w1)" "stream_inv h w1" "client_images w1 = client_images w"
        "usbcmds w1 = (usbcmds w)(h := (usbcmds w h)\<lparr>uc_transfer_list := (uc_transfer_list (usbcmds w h))[k := t]\<rparr>)" "r = ZSA_RESULT_SUCCEEDED \<longleftrightarrow> t \<noteq> 0" by blast
    have len: "length (uc_transfer_list (usbcmds w h)) = USB_CMD_MAX_XFR_COUNT" using Suc.prems(1) by (simp add: stream_inv_def transfers_ok_def slots_ok_def)
    have n1: "uc_stream_size (usbcmds w1 h) = ?n" using a(4) by simp
    have fill: "slots_filled (if t = 0 then k else Suc k) h w1"
      using Suc.prems(3) len a(4) k unfolding slots_filled_def by (auto simp: nth_list_update less_Suc_eq)
    show ?thesis
    proof (cases "r = ZSA_RESULT_SUCCEEDED")
      case False
      then have "stream_setup api h max_pool [k..<USB_CMD_MAX_XFR_COUNT] pool ZSA_RESULT_SUCCEEDED w = Some (r, w1)"
        using up True a(1) by (cases r) simp_all
      then show ?thesis using a False fill Suc.prems(2,5) by (intro exI [of _ r] exI [of _ w1] exI [of _ k]) simp
    next
      case True': True
      then have run: "stream_setup api h max_pool [k..<USB_CMD_MAX_XFR_COUNT] pool ZSA_RESULT_SUCCEEDED w =
          stream_setup api h max_pool [Suc k..<USB_CMD_MAX_XFR_COUNT] (pool + ?n) ZSA_RESULT_SUCCEEDED w1"
        using up True a(1) n1 by simp
      have "d = USB_CMD_MAX_XFR_COUNT - Suc k" using Suc.hyps(2) by simp
      from Suc.hyps(1) [OF this a(2), of "pool + ?n"] show ?thesis
        unfolding run n1 using k fill True' a(5) pool lt by (simp add: a(3))
    qed
  qed
qed

subsection \<open>The end of a stream\<close>

text \<open>
  Once the stream is stopped, the cancellation loop releases all transfers when the library completes each
  of them after its cancellation.
\<close>

lemma stream_cancel_run:
  fixes w :: "'a usb_world_scheme"
  assumes cl: "client_ok cb h rel"
    and "stream_inv h w" and "\<not> uc_stream_going (usbcmds w h)" and "k \<le> USB_CMD_MAX_XFR_COUNT" and "\<forall>i < k. uc_transfer_list (usbcmds w h) ! i = 0"
    and drain: "\<forall>i < USB_CMD_MAX_XFR_COUNT. uc_transfer_list (usbcmds w h) ! i \<noteq> 0 \<longrightarrow>
        drain i = ([(uc_transfer_list (usbcmds w h) ! i, LIBUSB_TRANSFER_CANCELLED, 0)], LIBUSB_SUCCESS)"
  shows "\<exists>w'. stream_cancel cb api h ctx drain [k..<USB_CMD_MAX_XFR_COUNT] r w = Some (r, w') \<and> stream_inv h w' \<and> rel (client_images w) (client_images w') \<and>
     slots_filled 0 h w'"
  using assms(2-)
proof (induction "USB_CMD_MAX_XFR_COUNT - k" arbitrary: k w)
  case 0
  then have "[k..<USB_CMD_MAX_XFR_COUNT] = []" "k = USB_CMD_MAX_XFR_COUNT" by simp_all
  then show ?case using 0 client_okD(1) [OF cl] by (auto simp: slots_filled_def)
next
  case (Suc d)
  let ?l = "uc_transfer_list (usbcmds w h)"
  have k: "k < USB_CMD_MAX_XFR_COUNT" "d = USB_CMD_MAX_XFR_COUNT - Suc k" using Suc.hyps(2) by simp_all
  then have up: "[k..<USB_CMD_MAX_XFR_COUNT] = k # [Suc k..<USB_CMD_MAX_XFR_COUNT]" by (intro upt_conv_Cons)
  show ?case
  proof (cases "?l ! k = 0")
    case True
    then have "\<forall>i < Suc k. ?l ! i = 0" using Suc.prems(4) by (auto simp: less_Suc_eq)
    from Suc.hyps(1) [OF k(2) Suc.prems(1,2) _ this Suc.prems(5)] k(1) True show ?thesis unfolding up by simp
  next
    case False
    have ok: "transfers_ok h ?l (transfers w) (next_addr w) (image_refs w)" using Suc.prems(1) by (simp add: stream_inv_def)
    then obtain x where x: "transfers w (?l ! k) = Some x" "xfr_usbcmd x = h" using False k(1) by (auto simp: transfers_ok_def slots_ok_def)
    define w1 where "w1 = lu_call (LU_handle_events ctx) (libusb_cancel_transfer (xfr_bulk_transfer x) w)"
    have w1: "stream_inv h w1" "client_images w1 = client_images w" "usbcmds w1 = usbcmds w" "transfers w1 = transfers w"
      using Suc.prems(1) by (simp_all add: w1_def libusb_cancel_transfer_def)
    have "xfr_image x \<noteq> 0 \<longrightarrow> 0 \<le> img_buffer_size (images w1 (xfr_image x))" by simp
    from usb_cmd_libusb_cb_run [OF cl w1(1), unfolded w1(4), OF x this, of api LIBUSB_TRANSFER_CANCELLED] obtain w2 where
      w2: "usb_cmd_libusb_cb cb api (?l ! k) LIBUSB_TRANSFER_CANCELLED 0 w1 = Some w2" "stream_inv h w2" "rel (client_images w) (client_images w2)"
        "slots_cleared h (?l ! k) w1 w2" using Suc.prems(2) w1(2,3) by auto
    have d: "drain k = ([(?l ! k, LIBUSB_TRANSFER_CANCELLED, 0)], LIBUSB_SUCCESS)" using Suc.prems(5) k(1) False by blast
    have run: "stream_cancel cb api h ctx drain [k..<USB_CMD_MAX_XFR_COUNT] r w = stream_cancel cb api h ctx drain [Suc k..<USB_CMD_MAX_XFR_COUNT] r w2"
      unfolding up using False x(1) d w2(1) by (simp add: handle_events_def w1_def)
    from w2(4) obtain s where s: "usbcmds w2 = (usbcmds w)(h := (usbcmds w h)\<lparr>uc_transfer_list := s\<rparr>)" "?l ! k \<notin> set s" "\<forall>i. s ! i = ?l ! i \<or> s ! i = 0"
      using w1(3) by (auto simp: slots_cleared_def)
    have "length s = USB_CMD_MAX_XFR_COUNT" using w2(2) s(1) by (simp add: stream_inv_def transfers_ok_def slots_ok_def)
    then have "s ! k = 0" using s(2,3) k(1) nth_mem [of k s] by metis
    then have "\<forall>i < Suc k. uc_transfer_list (usbcmds w2 h) ! i = 0" using s(1,3) Suc.prems(4) by (simp add: less_Suc_eq) metis
    moreover have "\<forall>i < USB_CMD_MAX_XFR_COUNT. uc_transfer_list (usbcmds w2 h) ! i \<noteq> 0 \<longrightarrow>
        drain i = ([(uc_transfer_list (usbcmds w2 h) ! i, LIBUSB_TRANSFER_CANCELLED, 0)], LIBUSB_SUCCESS)"
    proof (intro allI impI)
      fix i assume i: "i < USB_CMD_MAX_XFR_COUNT" "uc_transfer_list (usbcmds w2 h) ! i \<noteq> 0"
      then have "uc_transfer_list (usbcmds w2 h) ! i = ?l ! i" using s(1) spec [OF s(3), of i] by auto
      then show "drain i = ([(uc_transfer_list (usbcmds w2 h) ! i, LIBUSB_TRANSFER_CANCELLED, 0)], LIBUSB_SUCCESS)" using i Suc.prems(5) by simp
    qed
    moreover have "\<not> uc_stream_going (usbcmds w2 h)" using s(1) Suc.prems(2) by simp
    ultimately obtain w' where "stream_cancel cb api h ctx drain [Suc k..<USB_CMD_MAX_XFR_COUNT] r w2 = Some (r, w')" "stream_inv h w'"
        "rel (client_images w2) (client_images w')" "slots_filled 0 h w'"
      using Suc.hyps(1) [OF k(2) w2(2)] k(1) by (metis Suc_leI)
    then show ?thesis using run client_okD(2) [OF cl w2(3)] by auto
  qed
qed

end
