(* ===== verification/Color_mcu.thy ===== *)
theory Color_mcu
  imports Usbstreaming
begin

section \<open>The color and IMU processor\<close>

text \<open>
  \<open>src/color_mcu/color_mcu.c\<close>: the commands of the processor of the color camera and of the IMU, over the USB
  component. A context holds the handle of the USB device.
\<close>

record colormcu_context_t =
  mcu_usb_cmd :: ptr

record colormcu_world = usb_world +
  colormcus :: "ptr \<Rightarrow> colormcu_context_t"

definition put_colormcu :: "ptr \<Rightarrow> colormcu_context_t \<Rightarrow> 'a colormcu_world_scheme \<Rightarrow> 'a colormcu_world_scheme" where
  "put_colormcu h c w = w\<lparr>colormcus := (colormcus w)(h := c)\<rparr>"

definition colormcu_t_create :: "'a colormcu_world_scheme \<Rightarrow> ptr \<times> 'a colormcu_world_scheme" where
  "colormcu_t_create w =
     (case handle_create H_colormcu w of (h, w) \<Rightarrow> (h, if h = 0 then w else put_colormcu h \<lparr>mcu_usb_cmd = 0\<rparr> w))"

abbreviation colormcu_t_get_context :: "ptr \<Rightarrow> 'a colormcu_world_scheme \<Rightarrow> colormcu_context_t option option" where
  "colormcu_t_get_context h w \<equiv> handle_get_context H_colormcu colormcus h w"

interpretation colormcu_store: context_store H_colormcu colormcus put_colormcu
  by unfold_locales (simp_all add: put_colormcu_def)

abbreviation DEV_CMD_RESET :: u32 where "DEV_CMD_RESET \<equiv> 0x80000000"
abbreviation DEV_CMD_SET_SYS_CFG :: u32 where "DEV_CMD_SET_SYS_CFG \<equiv> 0x80000001"
abbreviation DEV_CMD_IMU_STREAM_START :: u32 where "DEV_CMD_IMU_STREAM_START \<equiv> 0x80000003"
abbreviation DEV_CMD_IMU_STREAM_STOP :: u32 where "DEV_CMD_IMU_STREAM_STOP \<equiv> 0x80000004"
abbreviation DEV_CMD_GET_JACK_STATE :: u32 where "DEV_CMD_GET_JACK_STATE \<equiv> 0x80000006"
abbreviation NULL_INDEX :: u32 where "NULL_INDEX \<equiv> 0xFF"

text \<open>The sizes of the packed structures of \<open>color_mcu.h\<close>.\<close>

definition sizeof_xyz_vector_t :: u64 where
  "sizeof_xyz_vector_t = 8 + 2 + 2 + 2"

definition sizeof_imu_payload_metadata_t :: u64 where
  "sizeof_imu_payload_metadata_t = (4 + 2 + 2) + (2 + 4 + 4) + (2 + 4 + 4)"

definition IMU_MAX_PAYLOAD_SIZE :: u64 where
  "IMU_MAX_PAYLOAD_SIZE = sizeof_imu_payload_metadata_t + sizeof_xyz_vector_t * 8 + sizeof_xyz_vector_t * 8"

subsection \<open>Creation and destruction\<close>

definition colormcu_destroy ::
  "('a colormcu_world_scheme \<Rightarrow> 'a colormcu_world_scheme) \<Rightarrow> ptr \<Rightarrow> 'a colormcu_world_scheme \<Rightarrow> 'a colormcu_world_scheme option" where
  "colormcu_destroy thread h w = do {
     ctx \<leftarrow> colormcu_t_get_context h w;
     case ctx of
       None \<Rightarrow> Some w
     | Some c \<Rightarrow> do {
         w \<leftarrow> (if mcu_usb_cmd c \<noteq> 0 then do {
                 w \<leftarrow> usb_cmd_destroy thread (mcu_usb_cmd c) w;
                 Some (put_colormcu h ((colormcus w h)\<lparr>mcu_usb_cmd := 0\<rparr>) w)
               } else Some w);
         handle_destroy h w
       }
   }"

text \<open>\<open>colormcu_create\<close> and \<open>colormcu_create_by_index\<close> differ in how the USB device is chosen.\<close>

definition colormcu_create_with ::
  "libusb_api \<Rightarrow> u32 \<Rightarrow> guid_t option \<Rightarrow> ptr option \<Rightarrow> 'a colormcu_world_scheme \<Rightarrow>
     (zsa_result_t \<times> ptr option \<times> 'a colormcu_world_scheme) option" where
  "colormcu_create_with api device_index container_id colormcu_handle w =
     (if colormcu_handle = None then Some (ZSA_RESULT_FAILED, None, w)
      else case colormcu_t_create w of (h, w) \<Rightarrow> do {
        (result, w) \<leftarrow>
          (if h = 0 then Some (ZSA_RESULT_FAILED, w)
           else do {
             (result, usb, w) \<leftarrow> usb_cmd_create api USB_DEVICE_COLOR_IMU_PROCESSOR device_index container_id (mcu_usb_cmd (colormcus w h)) w;
             Some (result, put_colormcu h ((colormcus w h)\<lparr>mcu_usb_cmd := usb\<rparr>) w)
           });
        if ZSA_FAILED result then do { w \<leftarrow> colormcu_destroy (\<lambda>w. w) h w; Some (result, Some 0, w) }
        else Some (result, Some h, w)
      })"

definition colormcu_create ::
  "libusb_api \<Rightarrow> guid_t option \<Rightarrow> ptr option \<Rightarrow> 'a colormcu_world_scheme \<Rightarrow> (zsa_result_t \<times> ptr option \<times> 'a colormcu_world_scheme) option" where
  "colormcu_create api container_id = colormcu_create_with api NULL_INDEX container_id"

definition colormcu_create_by_index ::
  "libusb_api \<Rightarrow> u32 \<Rightarrow> ptr option \<Rightarrow> 'a colormcu_world_scheme \<Rightarrow> (zsa_result_t \<times> ptr option \<times> 'a colormcu_world_scheme) option" where
  "colormcu_create_by_index api device_index = colormcu_create_with api device_index None"

subsection \<open>Commands\<close>

definition colormcu_get_usb_serialnum ::
  "ptr \<Rightarrow> bytes option \<Rightarrow> u64 option \<Rightarrow> 'a colormcu_world_scheme \<Rightarrow> (zsa_buffer_result_t \<times> bytes option \<times> u64 option) option" where
  "colormcu_get_usb_serialnum h serial_number serial_number_size w = do {
     ctx \<leftarrow> colormcu_t_get_context h w;
     case ctx of
       None \<Rightarrow> Some (ZSA_BUFFER_RESULT_FAILED, serial_number, serial_number_size)
     | Some c \<Rightarrow>
         if serial_number_size = None then Some (ZSA_BUFFER_RESULT_FAILED, serial_number, None)
         else usb_cmd_get_serial_number (mcu_usb_cmd c) serial_number serial_number_size w
   }"

definition colormcu_imu_start_streaming :: "libusb_api \<Rightarrow> ptr \<Rightarrow> 'a colormcu_world_scheme \<Rightarrow> (zsa_result_t \<times> 'a colormcu_world_scheme) option" where
  "colormcu_imu_start_streaming api h w = do {
     ctx \<leftarrow> colormcu_t_get_context h w;
     case ctx of
       None \<Rightarrow> Some (ZSA_RESULT_FAILED, w)
     | Some c \<Rightarrow> do {
         (result, w) \<leftarrow> usb_cmd_write api (mcu_usb_cmd c) DEV_CMD_IMU_STREAM_START None 0 None 0 w;
         if ZSA_SUCCEEDED result then usb_cmd_stream_start (mcu_usb_cmd c) IMU_MAX_PAYLOAD_SIZE w else Some (result, w)
       }
   }"

definition colormcu_imu_stop_streaming ::
  "libusb_api \<Rightarrow> ('a colormcu_world_scheme \<Rightarrow> 'a colormcu_world_scheme) \<Rightarrow> ptr \<Rightarrow> 'a colormcu_world_scheme \<Rightarrow> 'a colormcu_world_scheme option" where
  "colormcu_imu_stop_streaming api thread h w = do {
     ctx \<leftarrow> colormcu_t_get_context h w;
     case ctx of
       None \<Rightarrow> Some w
     | Some c \<Rightarrow> do {
         (_, w) \<leftarrow> usb_cmd_stream_stop thread (mcu_usb_cmd c) w;
         (_, w) \<leftarrow> usb_cmd_write api (mcu_usb_cmd c) DEV_CMD_IMU_STREAM_STOP None 0 None 0 w;
         Some w
       }
   }"

definition colormcu_imu_register_stream_cb ::
  "ptr \<Rightarrow> ptr \<Rightarrow> ptr \<Rightarrow> 'a colormcu_world_scheme \<Rightarrow> (zsa_result_t \<times> 'a colormcu_world_scheme) option" where
  "colormcu_imu_register_stream_cb h frame_ready_cb context w = do {
     ctx \<leftarrow> colormcu_t_get_context h w;
     case ctx of
       None \<Rightarrow> Some (ZSA_RESULT_FAILED, w)
     | Some c \<Rightarrow> usb_cmd_stream_register_cb (mcu_usb_cmd c) frame_ready_cb context w
   }"

text \<open>
  The jack state is read into one byte, whose first value is arbitrary; \<open>bytes_read\<close> likewise. The results
  are the values of the optional out parameters.
\<close>

definition colormcu_get_external_sync_jack_state ::
  "libusb_api \<Rightarrow> u8 \<Rightarrow> u64 \<Rightarrow> ptr \<Rightarrow> bool option \<Rightarrow> bool option \<Rightarrow> 'a colormcu_world_scheme \<Rightarrow>
     (zsa_result_t \<times> bool option \<times> bool option \<times> 'a colormcu_world_scheme) option" where
  "colormcu_get_external_sync_jack_state api junk count_junk h sync_in sync_out w = do {
     ctx \<leftarrow> colormcu_t_get_context h w;
     case ctx of
       None \<Rightarrow> Some (ZSA_RESULT_FAILED, sync_in, sync_out, w)
     | Some c \<Rightarrow>
         if sync_in = None \<and> sync_out = None then Some (ZSA_RESULT_FAILED, sync_in, sync_out, w)
         else do {
           (result, data, bytes_read, w) \<leftarrow>
             usb_cmd_read api (mcu_usb_cmd c) DEV_CMD_GET_JACK_STATE None 0 (Some [junk]) 1 (Some count_junk) w;
           if ZSA_FAILED result \<or> bytes_read \<noteq> Some 1 then Some (ZSA_RESULT_FAILED, sync_in, sync_out, w)
           else let state = hd (the data) in
             Some (ZSA_RESULT_SUCCEEDED, map_option (\<lambda>_. state AND 1 \<noteq> 0) sync_in, map_option (\<lambda>_. state AND 2 \<noteq> 0) sync_out, w)
         }
   }"

datatype external_sync_mode_t =
    EXTERNAL_SYNC_MODE_STANDALONE | EXTERNAL_SYNC_MODE_MASTER | EXTERNAL_SYNC_MODE_SUBORDINATE

fun sync_mode_value :: "external_sync_mode_t \<Rightarrow> u32" where
  "sync_mode_value EXTERNAL_SYNC_MODE_STANDALONE = 0"
| "sync_mode_value EXTERNAL_SYNC_MODE_MASTER = 1"
| "sync_mode_value EXTERNAL_SYNC_MODE_SUBORDINATE = 2"

record synchronization_config_t =
  sc_mode :: u32
  sc_subordinate_delay_off_master_pts :: u32
  sc_depth_delay_off_color_pts :: int
  sc_enable_privacy_led :: u8

text \<open>The bytes of the packed structure.\<close>

definition sync_config_bytes :: "synchronization_config_t \<Rightarrow> bytes" where
  "sync_config_bytes s = le32 (sc_mode s) @ le32 (sc_subordinate_delay_off_master_pts s) @
     le32 (word_of_int (sc_depth_delay_off_color_pts s)) @ [sc_enable_privacy_led s]"

fun external_sync_mode :: "zsa_wired_sync_mode_t \<Rightarrow> external_sync_mode_t option" where
  "external_sync_mode ZSA_WIRED_SYNC_MODE_STANDALONE = Some EXTERNAL_SYNC_MODE_STANDALONE"
| "external_sync_mode ZSA_WIRED_SYNC_MODE_MASTER = Some EXTERNAL_SYNC_MODE_MASTER"
| "external_sync_mode ZSA_WIRED_SYNC_MODE_SUBORDINATE = Some EXTERNAL_SYNC_MODE_SUBORDINATE"
| "external_sync_mode _ = None"

definition colormcu_set_multi_device_mode ::
  "libusb_api \<Rightarrow> ptr \<Rightarrow> zsa_device_configuration_t \<Rightarrow> 'a colormcu_world_scheme \<Rightarrow> (zsa_result_t \<times> 'a colormcu_world_scheme) option" where
  "colormcu_set_multi_device_mode api h config w = do {
     ctx \<leftarrow> colormcu_t_get_context h w;
     case ctx of
       None \<Rightarrow> Some (ZSA_RESULT_FAILED, w)
     | Some c \<Rightarrow>
         (case external_sync_mode (cfg_wired_sync_mode config) of
            None \<Rightarrow> Some (ZSA_RESULT_FAILED, w)
          | Some mode \<Rightarrow> do {
              depth_delay \<leftarrow> ZSA_USEC_TO_90K_HZ_TICK_i32 (cfg_depth_delay_off_color_usec config);
              let sync_config = \<lparr>sc_mode = sync_mode_value mode,
                    sc_subordinate_delay_off_master_pts = ZSA_USEC_TO_90K_HZ_TICK_u32 (cfg_subordinate_delay_off_master_usec config),
                    sc_depth_delay_off_color_pts = depth_delay,
                    sc_enable_privacy_led = (if cfg_disable_streaming_indicator config then 0 else 1)\<rparr>;
              usb_cmd_write api (mcu_usb_cmd c) DEV_CMD_SET_SYS_CFG (Some (sync_config_bytes sync_config)) 13 None 0 w
            })
   }"

definition colormcu_reset_device :: "libusb_api \<Rightarrow> ptr \<Rightarrow> 'a colormcu_world_scheme \<Rightarrow> (zsa_result_t \<times> 'a colormcu_world_scheme) option" where
  "colormcu_reset_device api h w = do {
     ctx \<leftarrow> colormcu_t_get_context h w;
     case ctx of
       None \<Rightarrow> Some (ZSA_RESULT_FAILED, w)
     | Some c \<Rightarrow> usb_cmd_write api (mcu_usb_cmd c) DEV_CMD_RESET None 0 None 0 w
   }"

end
