(* ===== verification/Color.thy ===== *)
theory Color
  imports Color_mcu
begin

section \<open>The color camera\<close>

text \<open>
  \<open>src/color/color.cpp\<close> as it is built on Linux, with the tick counter of
  \<open>extern/azure_c_shared/src/adapters/tickcounter_linux.c\<close>. The camera reader, a C++ class over the video
  class library, is a parameter: it answers each call depending on the calls made before it, and the state
  records the calls in order. The time of the system clock is an argument of the functions that read it.
\<close>

subsection \<open>Tick counters\<close>

record TICK_COUNTER_INSTANCE =
  init_time_value :: int
  current_ms :: u64

abbreviation INVALID_TIME_VALUE :: int where "INVALID_TIME_VALUE \<equiv> - 1"

text \<open>
  Controls of the camera, \<open>zsatypes.h\<close>, and their capabilities, \<open>color_priv.h\<close>.
\<close>

datatype zsa_color_control_command_t =
    ZSA_COLOR_CONTROL_EXPOSURE_TIME_ABSOLUTE
  | ZSA_COLOR_CONTROL_AUTO_EXPOSURE_PRIORITY
  | ZSA_COLOR_CONTROL_BRIGHTNESS
  | ZSA_COLOR_CONTROL_CONTRAST
  | ZSA_COLOR_CONTROL_SATURATION
  | ZSA_COLOR_CONTROL_SHARPNESS
  | ZSA_COLOR_CONTROL_WHITEBALANCE
  | ZSA_COLOR_CONTROL_BACKLIGHT_COMPENSATION
  | ZSA_COLOR_CONTROL_GAIN
  | ZSA_COLOR_CONTROL_POWERLINE_FREQUENCY
  | ZSA_COLOR_CONTROL_OTHER int

datatype zsa_color_control_mode_t = ZSA_COLOR_CONTROL_MODE_AUTO | ZSA_COLOR_CONTROL_MODE_MANUAL | ZSA_COLOR_CONTROL_MODE_OTHER int

text \<open>The guard \<open>command < ZSA_COLOR_CONTROL_EXPOSURE_TIME_ABSOLUTE || command > ZSA_COLOR_CONTROL_POWERLINE_FREQUENCY\<close>.\<close>

fun command_out_of_range :: "zsa_color_control_command_t \<Rightarrow> bool" where
  "command_out_of_range (ZSA_COLOR_CONTROL_OTHER _) = True"
| "command_out_of_range _ = False"

record color_control_cap_t =
  minValue :: int
  maxValue :: int
  stepValue :: int
  defaultValue :: int
  defaultMode :: zsa_color_control_mode_t
  supportAuto :: bool
  cap_valid :: bool

definition color_control_cap_zero :: color_control_cap_t where
  "color_control_cap_zero = \<lparr>minValue = 0, maxValue = 0, stepValue = 0, defaultValue = 0, defaultMode = ZSA_COLOR_CONTROL_MODE_AUTO,
     supportAuto = False, cap_valid = False\<rparr>"

subsection \<open>The camera reader\<close>

datatype camera_call =
    CAM_new bool
  | CAM_Init bytes
  | CAM_Start u32 u32 nat zsa_image_format_t
  | CAM_Stop
  | CAM_Shutdown
  | CAM_GetCapabilities zsa_color_control_command_t
  | CAM_GetControl zsa_color_control_command_t
  | CAM_SetControl zsa_color_control_command_t zsa_color_control_mode_t int

text \<open>The calls, each with the camera it goes to.\<close>

type_synonym camera_history = "(ptr \<times> camera_call) list"

record camera_reader =
  reader_new :: "camera_history \<Rightarrow> bool"
  reader_Init :: "camera_history \<Rightarrow> bytes \<Rightarrow> zsa_result_t"
  reader_Start :: "camera_history \<Rightarrow> u32 \<Rightarrow> u32 \<Rightarrow> nat \<Rightarrow> zsa_image_format_t \<Rightarrow> zsa_result_t"
  reader_GetCameraControlCapabilities :: "camera_history \<Rightarrow> zsa_color_control_command_t \<Rightarrow> color_control_cap_t \<Rightarrow> zsa_result_t \<times> color_control_cap_t"
  reader_GetCameraControl :: "camera_history \<Rightarrow> zsa_color_control_command_t \<Rightarrow> zsa_color_control_mode_t \<times> int \<Rightarrow> zsa_result_t \<times> zsa_color_control_mode_t \<times> int"
  reader_SetCameraControl :: "camera_history \<Rightarrow> zsa_color_control_command_t \<Rightarrow> zsa_color_control_mode_t \<Rightarrow> int \<Rightarrow> zsa_result_t"

subsection \<open>State\<close>

record color_context_t =
  col_tick :: ptr
  col_capture_ready_cb :: ptr
  col_capture_ready_cb_context :: ptr
  col_sensor_start_time_tick :: u64
  col_control_cap :: "zsa_color_control_command_t \<Rightarrow> color_control_cap_t"
  col_camera_reader :: bool

definition color_zero :: color_context_t where
  "color_zero = \<lparr>col_tick = 0, col_capture_ready_cb = 0, col_capture_ready_cb_context = 0, col_sensor_start_time_tick = 0,
     col_control_cap = (\<lambda>_. color_control_cap_zero), col_camera_reader = False\<rparr>"

record color_world = colormcu_world +
  ticks :: "ptr \<Rightarrow> TICK_COUNTER_INSTANCE option"
  colors :: "ptr \<Rightarrow> color_context_t"
  camera_calls :: camera_history

definition put_color :: "ptr \<Rightarrow> color_context_t \<Rightarrow> 'a color_world_scheme \<Rightarrow> 'a color_world_scheme" where
  "put_color h c w = w\<lparr>colors := (colors w)(h := c)\<rparr>"

definition camera_call_of :: "ptr \<Rightarrow> camera_call \<Rightarrow> 'a color_world_scheme \<Rightarrow> 'a color_world_scheme" where
  "camera_call_of h c w = w\<lparr>camera_calls := camera_calls w @ [(h, c)]\<rparr>"

definition color_t_create :: "'a color_world_scheme \<Rightarrow> ptr \<times> 'a color_world_scheme" where
  "color_t_create w = (case handle_create H_color w of (h, w) \<Rightarrow> (h, if h = 0 then w else put_color h color_zero w))"

abbreviation color_t_get_context :: "ptr \<Rightarrow> 'a color_world_scheme \<Rightarrow> color_context_t option option" where
  "color_t_get_context h w \<equiv> handle_get_context H_color colors h w"

interpretation color_store: context_store H_color colors put_color
  by unfold_locales (simp_all add: put_color_def)

subsection \<open>Operations of the tick counter\<close>

definition tickcounter_create :: "int \<Rightarrow> 'a color_world_scheme \<Rightarrow> ptr \<times> 'a color_world_scheme" where
  "tickcounter_create get_time_s w =
     (case c_malloc 1 w of (result, w) \<Rightarrow>
        if result = 0 \<or> get_time_s = INVALID_TIME_VALUE then (0, w)
        else (result, w\<lparr>ticks := (ticks w)(result \<mapsto> \<lparr>init_time_value = get_time_s, current_ms = 0\<rparr>)\<rparr>))"

definition tickcounter_destroy :: "ptr \<Rightarrow> 'a color_world_scheme \<Rightarrow> 'a color_world_scheme option" where
  "tickcounter_destroy tick_counter w =
     (if tick_counter = 0 then Some w
      else if ticks w tick_counter = None then None
      else Some (w\<lparr>ticks := (ticks w)(tick_counter := None)\<rparr>))"

text \<open>
  The milliseconds are computed in \<open>double\<close>, which is exact below \<open>2 ^ 53\<close>; the conversion of a negative
  value to the unsigned type is not defined, and larger values are not considered. \<open>None\<close> as the first
  result is a failure, which leaves the out parameter as it is.
\<close>

definition tickcounter_get_current_ms ::
  "int \<Rightarrow> ptr \<Rightarrow> 'a color_world_scheme \<Rightarrow> (u64 option \<times> 'a color_world_scheme) option" where
  "tickcounter_get_current_ms get_time_s tick_counter w =
     (if tick_counter = 0 \<or> get_time_s = INVALID_TIME_VALUE then Some (None, w)
      else case ticks w tick_counter of
        None \<Rightarrow> None
      | Some t \<Rightarrow>
          let ms = (get_time_s - init_time_value t) * 1000 in
          if ms < 0 \<or> ms \<ge> 2 ^ 53 then None
          else Some (Some (word_of_int ms), w\<lparr>ticks := (ticks w)(tick_counter \<mapsto> t\<lparr>current_ms := word_of_int ms\<rparr>)\<rparr>))"

subsection \<open>Start and stop\<close>

definition color_stop :: "ptr \<Rightarrow> 'a color_world_scheme \<Rightarrow> 'a color_world_scheme option" where
  "color_stop h w = do {
     ctx \<leftarrow> color_t_get_context h w;
     case ctx of
       None \<Rightarrow> Some w
     | Some _ \<Rightarrow>
         let w = put_color h ((colors w h)\<lparr>col_sensor_start_time_tick := 0\<rparr>) w in
         Some (if col_camera_reader (colors w h) then camera_call_of h CAM_Stop w else w)
   }"

fun color_resolution_size :: "zsa_color_resolution_t \<Rightarrow> (u32 \<times> u32) option" where
  "color_resolution_size ZSA_COLOR_RESOLUTION_720P = Some (1280, 720)"
| "color_resolution_size ZSA_COLOR_RESOLUTION_2160P = Some (3840, 2160)"
| "color_resolution_size ZSA_COLOR_RESOLUTION_1440P = Some (2560, 1440)"
| "color_resolution_size ZSA_COLOR_RESOLUTION_1080P = Some (1920, 1080)"
| "color_resolution_size ZSA_COLOR_RESOLUTION_3072P = Some (4096, 3072)"
| "color_resolution_size ZSA_COLOR_RESOLUTION_1536P = Some (2048, 1536)"
| "color_resolution_size _ = None"

fun color_fps :: "zsa_fps_t \<Rightarrow> nat option" where
  "color_fps ZSA_FRAMES_PER_SECOND_30 = Some 30"
| "color_fps ZSA_FRAMES_PER_SECOND_15 = Some 15"
| "color_fps ZSA_FRAMES_PER_SECOND_5 = Some 5"
| "color_fps _ = None"

text \<open>A start without a reader would dereference a null pointer.\<close>

definition color_start ::
  "camera_reader \<Rightarrow> int \<Rightarrow> ptr \<Rightarrow> zsa_device_configuration_t option \<Rightarrow> 'a color_world_scheme \<Rightarrow>
     (zsa_result_t \<times> 'a color_world_scheme) option" where
  "color_start reader get_time_s h config w = do {
     ctx \<leftarrow> color_t_get_context h w;
     case (ctx, config) of
       (Some color, Some cfg) \<Rightarrow>
         (case (color_resolution_size (cfg_color_resolution cfg), color_fps (cfg_camera_fps cfg)) of
            (Some (width, height), Some fps) \<Rightarrow> do {
              (ms, w) \<leftarrow> tickcounter_get_current_ms get_time_s (col_tick color) w;
              (result, w) \<leftarrow>
                (case ms of
                   None \<Rightarrow> Some (ZSA_RESULT_FAILED, w)
                 | Some ms \<Rightarrow>
                     let w = put_color h ((colors w h)\<lparr>col_sensor_start_time_tick := ms\<rparr>) w in
                     if \<not> col_camera_reader (colors w h) then None
                     else Some (reader_Start reader (camera_calls w) width height fps (cfg_color_format cfg),
                                camera_call_of h (CAM_Start width height fps (cfg_color_format cfg)) w));
              w \<leftarrow> (if ZSA_FAILED result then color_stop h w else Some w);
              Some (result, w)
            }
          | _ \<Rightarrow> Some (ZSA_RESULT_FAILED, w))
     | _ \<Rightarrow> Some (ZSA_RESULT_FAILED, w)
   }"

subsection \<open>Creation and destruction\<close>

definition color_destroy :: "ptr \<Rightarrow> 'a color_world_scheme \<Rightarrow> 'a color_world_scheme option" where
  "color_destroy h w = do {
     ctx \<leftarrow> color_t_get_context h w;
     case ctx of
       None \<Rightarrow> Some w
     | Some _ \<Rightarrow> do {
         w \<leftarrow> color_stop h w;
         let w = (if col_camera_reader (colors w h)
                  then put_color h ((colors w h)\<lparr>col_camera_reader := False\<rparr>) (camera_call_of h CAM_Shutdown w) else w);
         handle_destroy h w
       }
   }"

definition color_create ::
  "camera_reader \<Rightarrow> ptr \<Rightarrow> guid_t option \<Rightarrow> bytes option \<Rightarrow> ptr \<Rightarrow> ptr \<Rightarrow> ptr option \<Rightarrow> 'a color_world_scheme \<Rightarrow>
     (zsa_result_t \<times> ptr option \<times> 'a color_world_scheme) option" where
  "color_create reader tick_handle container_id serial_number capture_ready capture_ready_context color_handle w =
     (if tick_handle = 0 then Some (ZSA_RESULT_FAILED, color_handle, w)
      else if color_handle = None then Some (ZSA_RESULT_FAILED, color_handle, w)
      else if container_id = None then Some (ZSA_RESULT_FAILED, color_handle, w)
      else case serial_number of
        None \<Rightarrow> Some (ZSA_RESULT_FAILED, color_handle, w)
      | Some serial \<Rightarrow> (case color_t_create w of (h, w) \<Rightarrow> do {
          let (result, w) =
            (if h = 0 then (ZSA_RESULT_FAILED, w)
             else
               let w = put_color h ((colors w h)\<lparr>col_capture_ready_cb := capture_ready, col_capture_ready_cb_context := capture_ready_context,
                         col_sensor_start_time_tick := 0, col_tick := tick_handle\<rparr>) w;
                   made = reader_new reader (camera_calls w);
                   w = put_color h ((colors w h)\<lparr>col_camera_reader := made\<rparr>) (camera_call_of h (CAM_new made) w) in
               if \<not> made then (ZSA_RESULT_FAILED, w)
               else (reader_Init reader (camera_calls w) serial, camera_call_of h (CAM_Init serial) w));
          if ZSA_FAILED result then do {
            w \<leftarrow> color_destroy h w;
            Some (result, Some 0, w)
          } else Some (result, Some h, w)
        }))"

subsection \<open>Captures and controls\<close>

text \<open>
  The callback of the reader gets the context itself, not its handle. \<open>call_cb\<close> is the registered
  callback.
\<close>

definition color_capture_available ::
  "(zsa_result_t \<Rightarrow> ptr \<Rightarrow> ptr \<Rightarrow> 'a color_world_scheme \<Rightarrow> 'a color_world_scheme option) \<Rightarrow> zsa_result_t \<Rightarrow> ptr \<Rightarrow> ptr \<Rightarrow>
     'a color_world_scheme \<Rightarrow> 'a color_world_scheme option" where
  "color_capture_available call_cb result capture_handle h w = do {
     w \<leftarrow> (if col_capture_ready_cb (colors w h) \<noteq> 0
           then call_cb result capture_handle (col_capture_ready_cb_context (colors w h)) w else Some w);
     if result \<noteq> ZSA_RESULT_SUCCEEDED \<and> capture_handle \<noteq> 0 then None else Some w
   }"

definition color_get_sensor_start_time_tick :: "ptr \<Rightarrow> 'a color_world_scheme \<Rightarrow> u64 option" where
  "color_get_sensor_start_time_tick h w = do {
     ctx \<leftarrow> color_t_get_context h w;
     Some (case ctx of None \<Rightarrow> 0 | Some color \<Rightarrow> col_sensor_start_time_tick color)
   }"

text \<open>The six out parameters of the capabilities, all of them required.\<close>

type_synonym control_cap_out = "bool option \<times> int option \<times> int option \<times> int option \<times> int option \<times> zsa_color_control_mode_t option"

fun control_cap_out_complete :: "control_cap_out \<Rightarrow> bool" where
  "control_cap_out_complete (supports_auto, min_value, max_value, step_value, default_value, default_mode) \<longleftrightarrow>
     supports_auto \<noteq> None \<and> min_value \<noteq> None \<and> max_value \<noteq> None \<and> step_value \<noteq> None \<and> default_value \<noteq> None \<and> default_mode \<noteq> None"

definition color_get_control_capabilities ::
  "camera_reader \<Rightarrow> ptr \<Rightarrow> zsa_color_control_command_t \<Rightarrow> control_cap_out \<Rightarrow> 'a color_world_scheme \<Rightarrow>
     (zsa_result_t \<times> control_cap_out \<times> 'a color_world_scheme) option" where
  "color_get_control_capabilities reader h command out w = do {
     ctx \<leftarrow> color_t_get_context h w;
     if ctx = None \<or> command_out_of_range command \<or> \<not> control_cap_out_complete out then Some (ZSA_RESULT_FAILED, out, w)
     else do {
       (result, w) \<leftarrow>
         (if \<not> cap_valid (col_control_cap (colors w h) command) then
            (if \<not> col_camera_reader (colors w h) then None
             else case reader_GetCameraControlCapabilities reader (camera_calls w) command (col_control_cap (colors w h) command) of (result, cap) \<Rightarrow>
               Some (result, put_color h ((colors w h)\<lparr>col_control_cap := (col_control_cap (colors w h))(command := cap)\<rparr>)
                               (camera_call_of h (CAM_GetCapabilities command) w)))
          else Some (ZSA_RESULT_SUCCEEDED, w));
       let cap = col_control_cap (colors w h) command;
       Some (result, if ZSA_SUCCEEDED result
                     then (Some (supportAuto cap), Some (minValue cap), Some (maxValue cap), Some (stepValue cap), Some (defaultValue cap), Some (defaultMode cap))
                     else out, w)
     }
   }"

definition color_get_control ::
  "camera_reader \<Rightarrow> ptr \<Rightarrow> zsa_color_control_command_t \<Rightarrow> zsa_color_control_mode_t option \<Rightarrow> int option \<Rightarrow> 'a color_world_scheme \<Rightarrow>
     (zsa_result_t \<times> zsa_color_control_mode_t option \<times> int option \<times> 'a color_world_scheme) option" where
  "color_get_control reader h command mode val w = do {
     ctx \<leftarrow> color_t_get_context h w;
     case (ctx, mode, val) of
       (Some color, Some m, Some v) \<Rightarrow>
         if command_out_of_range command then Some (ZSA_RESULT_FAILED, mode, val, w)
         else if \<not> col_camera_reader color then None
         else case reader_GetCameraControl reader (camera_calls w) command (m, v) of (result, m, v) \<Rightarrow>
           Some (result, Some m, Some v, camera_call_of h (CAM_GetControl command) w)
     | _ \<Rightarrow> Some (ZSA_RESULT_FAILED, mode, val, w)
   }"

definition color_set_control ::
  "camera_reader \<Rightarrow> ptr \<Rightarrow> zsa_color_control_command_t \<Rightarrow> zsa_color_control_mode_t \<Rightarrow> int \<Rightarrow> 'a color_world_scheme \<Rightarrow>
     (zsa_result_t \<times> 'a color_world_scheme) option" where
  "color_set_control reader h command mode val w = do {
     ctx \<leftarrow> color_t_get_context h w;
     case ctx of
       None \<Rightarrow> Some (ZSA_RESULT_FAILED, w)
     | Some color \<Rightarrow>
         if command_out_of_range command \<or> (mode \<noteq> ZSA_COLOR_CONTROL_MODE_AUTO \<and> mode \<noteq> ZSA_COLOR_CONTROL_MODE_MANUAL)
         then Some (ZSA_RESULT_FAILED, w)
         else if \<not> col_camera_reader color then None
         else Some (reader_SetCameraControl reader (camera_calls w) command mode val, camera_call_of h (CAM_SetControl command mode val) w)
   }"

end
