(* ===== verification/Zsa_Device.thy ===== *)
theory Zsa_Device
  imports Color
begin

section \<open>The device\<close>

text \<open>
  \<open>src/sdk/zsa.c\<close>: a device owns a tick counter, the color and IMU processor, the capture synchroniser and
  the color camera. The state adds the contexts of the devices; it is the whole state of the SDK.
\<close>

record zsa_context_t =
  dev_tick_handle :: ptr
  dev_colormcu :: ptr
  dev_capturesync :: ptr
  dev_color :: ptr
  dev_color_started :: bool

definition zsa_context_zero :: zsa_context_t where
  "zsa_context_zero = \<lparr>dev_tick_handle = 0, dev_colormcu = 0, dev_capturesync = 0, dev_color = 0, dev_color_started = False\<rparr>"

record zsa_world = color_world +
  devices :: "ptr \<Rightarrow> zsa_context_t"

definition put_device :: "ptr \<Rightarrow> zsa_context_t \<Rightarrow> 'a zsa_world_scheme \<Rightarrow> 'a zsa_world_scheme" where
  "put_device h d w = w\<lparr>devices := (devices w)(h := d)\<rparr>"

definition zsa_device_t_create :: "'a zsa_world_scheme \<Rightarrow> ptr \<times> 'a zsa_world_scheme" where
  "zsa_device_t_create w = (case handle_create H_device w of (h, w) \<Rightarrow> (h, if h = 0 then w else put_device h zsa_context_zero w))"

abbreviation zsa_device_t_get_context :: "ptr \<Rightarrow> 'a zsa_world_scheme \<Rightarrow> zsa_context_t option option" where
  "zsa_device_t_get_context h w \<equiv> handle_get_context H_device devices h w"

interpretation device_store: context_store H_device devices put_device
  by unfold_locales (simp_all add: put_device_def)

definition zsa_device_get_installed_count :: u32 where
  "zsa_device_get_installed_count = 9"

subsection \<open>Captures\<close>

text \<open>The callback of the color camera, with the handle of the device as its context.\<close>

definition color_capture_ready ::
  "(ptr \<Rightarrow> nat \<Rightarrow> 'a zsa_world_scheme \<Rightarrow> 'a zsa_world_scheme) \<Rightarrow> zsa_result_t \<Rightarrow> ptr \<Rightarrow> ptr \<Rightarrow> 'a zsa_world_scheme \<Rightarrow> 'a zsa_world_scheme option" where
  "color_capture_ready others result capture_handle callback_context w = do {
     ctx \<leftarrow> zsa_device_t_get_context callback_context w;
     case ctx of
       None \<Rightarrow> Some w
     | Some device \<Rightarrow> capturesync_add_capture others (dev_capturesync device) result capture_handle COLOR_CAPTURE w
   }"

subsection \<open>Closing and opening\<close>

definition zsa_device_close ::
  "(ptr \<Rightarrow> nat \<Rightarrow> 'a zsa_world_scheme \<Rightarrow> 'a zsa_world_scheme) \<Rightarrow> ('a zsa_world_scheme \<Rightarrow> 'a zsa_world_scheme) \<Rightarrow> ptr \<Rightarrow>
     'a zsa_world_scheme \<Rightarrow> 'a zsa_world_scheme option" where
  "zsa_device_close others thread h w = do {
     ctx \<leftarrow> zsa_device_t_get_context h w;
     case ctx of
       None \<Rightarrow> Some w
     | Some _ \<Rightarrow> do {
         w \<leftarrow> (if dev_capturesync (devices w h) \<noteq> 0 then capturesync_stop others (dev_capturesync (devices w h)) w else Some w);
         w \<leftarrow> (if dev_color (devices w h) \<noteq> 0 then do {
                 w \<leftarrow> color_destroy (dev_color (devices w h)) w;
                 Some (put_device h ((devices w h)\<lparr>dev_color := 0\<rparr>) w)
               } else Some w);
         w \<leftarrow> (if dev_capturesync (devices w h) \<noteq> 0 then do {
                 w \<leftarrow> capturesync_destroy others (dev_capturesync (devices w h)) w;
                 Some (put_device h ((devices w h)\<lparr>dev_capturesync := 0\<rparr>) w)
               } else Some w);
         w \<leftarrow> (if dev_colormcu (devices w h) \<noteq> 0 then do {
                 w \<leftarrow> colormcu_destroy thread (dev_colormcu (devices w h)) w;
                 Some (put_device h ((devices w h)\<lparr>dev_colormcu := 0\<rparr>) w)
               } else Some w);
         w \<leftarrow> (if dev_tick_handle (devices w h) \<noteq> 0 then do {
                 w \<leftarrow> tickcounter_destroy (dev_tick_handle (devices w h)) w;
                 Some (put_device h ((devices w h)\<lparr>dev_tick_handle := 0\<rparr>) w)
               } else Some w);
         w \<leftarrow> handle_destroy h w;
         Some (allocator_deinitialize w)
       }
   }"

text \<open>
  The parameters are the USB library, the camera reader, the environment, the clock and what the
  uninitialised buffer of the serial number holds; \<open>ready\<close> is the address of \<open>color_capture_ready\<close>. Nothing
  of a device that is being opened runs yet, so that its closing after a failure waits for nobody.
\<close>

definition zsa_device_open ::
  "libusb_api \<Rightarrow> camera_reader \<Rightarrow> (string \<Rightarrow> string option) \<Rightarrow> int \<Rightarrow> bytes \<Rightarrow> ptr \<Rightarrow> u32 \<Rightarrow> ptr option \<Rightarrow> 'a zsa_world_scheme \<Rightarrow>
     (zsa_result_t \<times> ptr option \<times> 'a zsa_world_scheme) option" where
  "zsa_device_open api reader getenv get_time_s serial_number ready index device_handle w =
     (if device_handle = None then Some (ZSA_RESULT_FAILED, None, w)
      else
        let container_id = None in
        case zsa_device_t_create (allocator_initialize w) of (h, w) \<Rightarrow> do {
          let result = ZSA_RESULT_FROM_BOOL (h \<noteq> 0);
          let (result, w) =
            (if ZSA_SUCCEEDED result then
               (case tickcounter_create get_time_s w of (t, w) \<Rightarrow>
                  (ZSA_RESULT_FROM_BOOL (t \<noteq> 0), put_device h ((devices w h)\<lparr>dev_tick_handle := t\<rparr>) w))
             else (result, w));
          (result, w) \<leftarrow>
            (if ZSA_SUCCEEDED result then do {
               (result, out, w) \<leftarrow> colormcu_create api container_id (Some (dev_colormcu (devices w h))) w;
               Some (result, put_device h ((devices w h)\<lparr>dev_colormcu := the out\<rparr>) w)
             } else Some (result, w));
          (result, w) \<leftarrow>
            (if ZSA_SUCCEEDED result then do {
               (result, out, w) \<leftarrow> capturesync_create getenv (Some (dev_capturesync (devices w h))) w;
               Some (result, put_device h ((devices w h)\<lparr>dev_capturesync := the out\<rparr>) w)
             } else Some (result, w));
          (result, w) \<leftarrow>
            (if ZSA_SUCCEEDED result then do {
               (result, out, w) \<leftarrow> color_create reader (dev_tick_handle (devices w h)) container_id (Some serial_number) ready h
                                     (Some (dev_color (devices w h))) w;
               Some (result, put_device h ((devices w h)\<lparr>dev_color := the out\<rparr>) w)
             } else Some (result, w));
          if ZSA_FAILED result then do {
            w \<leftarrow> zsa_device_close (\<lambda>_ _ w. w) (\<lambda>w. w) h w;
            Some (result, device_handle, w)
          } else Some (result, Some h, w)
        })"

subsection \<open>Cameras\<close>

definition validate_configuration :: "zsa_context_t option \<Rightarrow> zsa_device_configuration_t option \<Rightarrow> zsa_result_t" where
  "validate_configuration device config =
     (if config = None then ZSA_RESULT_FAILED else if device = None then ZSA_RESULT_FAILED else ZSA_RESULT_SUCCEEDED)"

definition zsa_device_stop_cameras ::
  "(ptr \<Rightarrow> nat \<Rightarrow> 'a zsa_world_scheme \<Rightarrow> 'a zsa_world_scheme) \<Rightarrow> ptr \<Rightarrow> 'a zsa_world_scheme \<Rightarrow> 'a zsa_world_scheme option" where
  "zsa_device_stop_cameras others h w = do {
     ctx \<leftarrow> zsa_device_t_get_context h w;
     case ctx of
       None \<Rightarrow> Some w
     | Some _ \<Rightarrow> do {
         w \<leftarrow> (if dev_capturesync (devices w h) \<noteq> 0 then capturesync_stop others (dev_capturesync (devices w h)) w else Some w);
         if dev_color (devices w h) \<noteq> 0 then do {
           w \<leftarrow> color_stop (dev_color (devices w h)) w;
           Some (put_device h ((devices w h)\<lparr>dev_color_started := False\<rparr>) w)
         } else Some w
       }
   }"

definition zsa_device_start_cameras ::
  "libusb_api \<Rightarrow> camera_reader \<Rightarrow> int \<Rightarrow> (ptr \<Rightarrow> nat \<Rightarrow> 'a zsa_world_scheme \<Rightarrow> 'a zsa_world_scheme) \<Rightarrow> ptr \<Rightarrow>
     zsa_device_configuration_t option \<Rightarrow> 'a zsa_world_scheme \<Rightarrow> (zsa_result_t \<times> 'a zsa_world_scheme) option" where
  "zsa_device_start_cameras api reader get_time_s others h config w =
     (case config of
        None \<Rightarrow> Some (ZSA_RESULT_FAILED, w)
      | Some cfg \<Rightarrow> do {
          ctx \<leftarrow> zsa_device_t_get_context h w;
          case ctx of
            None \<Rightarrow> Some (ZSA_RESULT_FAILED, w)
          | Some device \<Rightarrow> do {
              let result = (if dev_color_started device then ZSA_RESULT_FAILED else ZSA_RESULT_SUCCEEDED);
              let result = (if ZSA_SUCCEEDED result then validate_configuration (Some device) config else result);
              (result, w) \<leftarrow> (if ZSA_SUCCEEDED result then colormcu_set_multi_device_mode api (dev_colormcu (devices w h)) cfg w
                              else Some (result, w));
              (result, w) \<leftarrow> (if ZSA_SUCCEEDED result then capturesync_start (dev_capturesync (devices w h)) config w
                              else Some (result, w));
              (result, w) \<leftarrow>
                (if ZSA_SUCCEEDED result then do {
                   (result, w) \<leftarrow> (if cfg_color_resolution cfg \<noteq> ZSA_COLOR_RESOLUTION_OFF
                                   then color_start reader get_time_s (dev_color (devices w h)) config w
                                   else Some (ZSA_RESULT_SUCCEEDED, w));
                   Some (result, if ZSA_SUCCEEDED result then put_device h ((devices w h)\<lparr>dev_color_started := True\<rparr>) w else w)
                 } else Some (result, w));
              w \<leftarrow> (if ZSA_FAILED result then zsa_device_stop_cameras others h w else Some w);
              Some (result, w)
            }
        })"

end
