(* ===== verification/Capturesync_Spec.thy ===== *)
theory Capturesync_Spec
  imports Capturesync
begin

section \<open>What the synchroniser promises\<close>

text \<open>
  An abstract specification of \<open>capturesync.c\<close>: two streams of captures, in the order of their arrival,
  from which \<open>pair_up\<close> takes pairs that belong together and single captures that have no partner. The loop of
  \<open>capturesync_add_capture\<close> refines it. The rest of the theory states the properties of the synchroniser.
\<close>

subsection \<open>Streams\<close>

text \<open>A capture that leaves alone, with its sensor, or a color and a depth capture.\<close>

datatype sync_output = Single bool ptr | Pair ptr ptr

fun pair_up :: "(ptr \<Rightarrow> ptr \<Rightarrow> sync_decision) \<Rightarrow> ptr list \<Rightarrow> ptr list \<Rightarrow> ptr list \<times> ptr list \<times> sync_output list" where
  "pair_up decide (c # cs) (d # ds) =
     (case decide c d of
        Drop_depth \<Rightarrow> (case pair_up decide (c # cs) ds of (cs', ds', out) \<Rightarrow> (cs', ds', Single DEPTH_CAPTURE d # out))
      | Drop_color \<Rightarrow> (case pair_up decide cs (d # ds) of (cs', ds', out) \<Rightarrow> (cs', ds', Single COLOR_CAPTURE c # out))
      | Link \<Rightarrow> (case pair_up decide cs ds of (cs', ds', out) \<Rightarrow> (cs', ds', Pair c d # out)))"
| "pair_up decide cs ds = (cs, ds, [])"

text \<open>What is put in the output queue, and what becomes of the images of the captures.\<close>

fun outgoing :: "bool \<Rightarrow> sync_output \<Rightarrow> ptr list" where
  "outgoing only_pairs (Single b c) = (if only_pairs then [] else [c])"
| "outgoing only_pairs (Pair c d) = [d]"

type_synonym slots = "ptr \<Rightarrow> image_type_index_t \<Rightarrow> ptr"

fun link_images :: "slots \<Rightarrow> sync_output \<Rightarrow> slots" where
  "link_images sl (Single b c) = sl"
| "link_images sl (Pair c d) = sl(d := (sl d)(IMAGE_TYPE_COLOR := sl c IMAGE_TYPE_COLOR))"

text \<open>The stream of a sensor: the capture in its frame and those in its queue.\<close>

definition sensor_stream :: "bool \<Rightarrow> ptr \<Rightarrow> 'a capturesync_world_scheme \<Rightarrow> ptr list" where
  "sensor_stream b h w = (if fi_capture (frame b h w) = 0 then [] else [fi_capture (frame b h w)]) @ contents (queues w (fi_queue (frame b h w)))"

definition stamp :: "bool \<Rightarrow> 'a capturesync_world_scheme \<Rightarrow> ptr \<Rightarrow> u64" where
  "stamp b w c = image_stamps w (capture_slots w c (sensor_slot b))"

definition stream_ok :: "bool \<Rightarrow> ptr \<Rightarrow> 'a capturesync_world_scheme \<Rightarrow> bool" where
  "stream_ok b h w \<longleftrightarrow> q_enabled (queues w (fi_queue (frame b h w))) \<and>
     (fi_capture (frame b h w) = 0 \<longrightarrow> contents (queues w (fi_queue (frame b h w))) = []) \<and>
     (fi_capture (frame b h w) \<noteq> 0 \<longrightarrow> fi_ts (frame b h w) = stamp b w (fi_capture (frame b h w))) \<and>
     (\<forall>c \<in> set (sensor_stream b h w). capture_slots w c (sensor_slot b) \<noteq> 0)"

lemma stream_Cons:
  assumes "stream_ok b h w" and "sensor_stream b h w = c # cs"
  shows "fi_capture (frame b h w) = c" "c \<noteq> 0" "contents (queues w (fi_queue (frame b h w))) = cs" "fi_ts (frame b h w) = stamp b w c"
  using assms by (auto simp: stream_ok_def sensor_stream_def split: if_splits)

lemma stream_Nil:
  assumes "stream_ok b h w"
  shows "sensor_stream b h w = [] \<longleftrightarrow> fi_capture (frame b h w) = 0"
  using assms by (auto simp: stream_ok_def sensor_stream_def)

text \<open>A step that leaves a sensor alone.\<close>

lemma stream_same:
  assumes "frame b h w' = frame b h w" and "queues w' (fi_queue (frame b h w)) = queues w (fi_queue (frame b h w))"
    and "image_stamps w' = image_stamps w"
    and "\<And>c. c \<in> set (sensor_stream b h w) \<Longrightarrow> capture_slots w' c (sensor_slot b) = capture_slots w c (sensor_slot b)"
  shows "sensor_stream b h w' = sensor_stream b h w" and "stream_ok b h w' = stream_ok b h w"
proof -
  show s: "sensor_stream b h w' = sensor_stream b h w" by (simp add: sensor_stream_def assms(1,2))
  have "fi_capture (frame b h w) \<noteq> 0 \<Longrightarrow> stamp b w' (fi_capture (frame b h w)) = stamp b w (fi_capture (frame b h w))"
    using assms(4) [of "fi_capture (frame b h w)"] by (simp add: stamp_def assms(3) sensor_stream_def)
  then show "stream_ok b h w' = stream_ok b h w"
    using assms(4) by (auto simp: stream_ok_def s assms(1,2))
qed

lemma contents_nonzero:
  assumes "sync_core h w" and "contents (queues w (fi_queue (frame b h w))) = c # cs"
  shows "c \<noteq> 0"
proof -
  have "ring_ok (queues w (fi_queue (frame b h w)))" using queue_invD(4) [OF sync_coreD(1,4) [OF assms(1)]] by (simp add: queue_ok_def)
  from ring_pop(4) [OF this] show ?thesis by (simp add: assms(2))
qed

text \<open>\<open>drop_sample\<close> takes the first capture from the stream of a sensor.\<close>

lemma drop_sample_stream:
  assumes core: "sync_core h w" and ok: "stream_ok b h w" and s: "sensor_stream b h w = c # cs" and r: "r \<noteq> ZSA_WAIT_RESULT_FAILED"
    and st: "stamps_bounded w" "stamped h w"
  defines "sq \<equiv> cs_sync_queue (syncs w h)"
  shows "\<exists>r' w'. drop_sample h r b d w = Some (r', w') \<and> stable h w w' \<and> stamped h w' \<and> capture_slots w' = capture_slots w \<and>
     stream_ok b h w' \<and> sensor_stream b h w' = cs \<and>
     stream_ok (\<not> b) h w' = stream_ok (\<not> b) h w \<and> sensor_stream (\<not> b) h w' = sensor_stream (\<not> b) h w \<and>
     contents (queues w' sq) = published (d \<and> \<not> cs_synchronized_images_only (syncs w h)) (queues w sq) c \<and>
     r' \<noteq> ZSA_WAIT_RESULT_FAILED \<and> (r' = ZSA_WAIT_RESULT_SUCCEEDED \<longleftrightarrow> cs \<noteq> [])"
proof -
  let ?f = "frame b h w" and ?q = "fi_queue (frame b h w)"
  note f = stream_Cons [OF ok s]
  have c0: "fi_capture ?f \<noteq> 0" using f by simp
  have en: "q_enabled (queues w ?q)" using ok by (simp add: stream_ok_def)
  have sl: "\<forall>x \<in> set cs. capture_slots w x (sensor_slot b) \<noteq> 0" using ok s by (simp add: stream_ok_def)
  from drop_sample_run [OF core c0, of r d, unfolded f(1,3) sq_def [symmetric]] obtain r' w' g where
    w': "drop_sample h r b d w = Some (r', w')" "moved b h g w w'" "frame_ok b g" "fi_queue g = ?q"
     "\<forall>k. k \<noteq> ?q \<longrightarrow> k \<noteq> sq \<longrightarrow> queues w' k = queues w k"
     "contents (queues w' sq) = published (d \<and> \<not> cs_synchronized_images_only (syncs w h)) (queues w sq) c"
     "contents (queues w' ?q) = (if r \<noteq> ZSA_WAIT_RESULT_FAILED \<and> q_enabled (queues w ?q) then tl cs else cs)"
     "if r' = ZSA_WAIT_RESULT_SUCCEEDED
      then r \<noteq> ZSA_WAIT_RESULT_FAILED \<and> q_enabled (queues w ?q) \<and> cs \<noteq> [] \<and> fi_capture g = hd cs \<and>
        fi_capture g \<noteq> 0 \<and> fi_image g \<noteq> 0 \<and> fi_image g = capture_slots w (fi_capture g) (sensor_slot b) \<and> fi_ts g = image_stamps w (fi_image g)
      else g = ?f\<lparr>fi_capture := 0, fi_image := 0, fi_ts := 0\<rparr>"
     "r \<noteq> ZSA_WAIT_RESULT_FAILED \<longrightarrow> q_enabled (queues w ?q) \<longrightarrow> cs = [] \<and> r' = ZSA_WAIT_RESULT_TIMEOUT \<or>
        cs \<noteq> [] \<and> (capture_slots w (hd cs) (sensor_slot b) \<noteq> 0 \<longrightarrow> r' = ZSA_WAIT_RESULT_SUCCEEDED)" by blast
  note m = moved_stable [OF core w'(2-4)]
  have sl': "capture_slots w' = capture_slots w" using w'(2) by (simp add: moved_def)
  have stamps: "image_stamps w' = image_stamps w" by (rule levelD(4) [OF stableD(2) [OF m(1)]])
  have r': "r' = (if cs = [] then ZSA_WAIT_RESULT_TIMEOUT else ZSA_WAIT_RESULT_SUCCEEDED)"
    using w'(9) r en sl by (cases cs) auto
  have en': "q_enabled (queues w' ?q)" using levelD(5) [OF stableD(2) [OF m(1)], of ?q] en by (simp add: same_setup_def)
  have co': "contents (queues w' ?q) = tl cs" using w'(7) r en by simp
  have mine: "sensor_stream b h w' = cs" "stream_ok b h w'"
  proof -
    show "sensor_stream b h w' = cs"
      using w'(8) r' co' by (cases cs) (simp_all add: sensor_stream_def m(2) w'(4))
    then show "stream_ok b h w'"
      using w'(8) r' co' sl en' by (cases cs) (simp_all add: stream_ok_def m(2) w'(4) sl' stamp_def stamps)
  qed
  have "fi_queue (frame (\<not> b) h w) \<noteq> ?q" "fi_queue (frame (\<not> b) h w) \<noteq> sq"
    using sync_coreD(5,6) [OF core, of "\<not> b"] by (auto simp: sq_def)
  then have other: "queues w' (fi_queue (frame (\<not> b) h w)) = queues w (fi_queue (frame (\<not> b) h w))" using w'(5) by simp
  note o = stream_same [OF m(3) other stamps]
  have "stamped h w'"
    by (rule stamped_cases [OF st(2) m(3)]) (use w'(8) st(1) in \<open>auto simp: m(2) stamps_bounded_def split: if_splits\<close>)
  then show ?thesis using w'(1,6) m(1) mine sl' o r' by auto
qed

subsection \<open>Refinement of the loop\<close>

text \<open>The decision of the specification, on the timestamps of two captures.\<close>

definition decide_of :: "ptr \<Rightarrow> 'a capturesync_world_scheme \<Rightarrow> ptr \<Rightarrow> ptr \<Rightarrow> sync_decision" where
  "decide_of h w c d = ideal_decide (cs_depth_delay_off_color_usec (syncs w h)) (uint (cs_fps_period (syncs w h)))
     (uint (cs_fps_1_quarter_period (syncs w h))) (uint (stamp True w c)) (uint (stamp False w d))"

text \<open>
  A synchroniser in step: the images its captures are known by are there, no capture is in both streams
  and the queues are enabled.
\<close>

definition in_step :: "ptr \<Rightarrow> 'a capturesync_world_scheme \<Rightarrow> bool" where
  "in_step h w \<longleftrightarrow> sync_core h w \<and> sync_settings_ok (syncs w h) \<and> stamps_bounded w \<and> stamped h w \<and>
     stream_ok True h w \<and> stream_ok False h w \<and> set (sensor_stream True h w) \<inter> set (sensor_stream False h w) = {} \<and>
     q_enabled (queues w (cs_sync_queue (syncs w h)))"

lemma in_stepD:
  assumes "in_step h w"
  shows "sync_core h w" "stamps_bounded w" "stamped h w" "stream_ok b h w" "q_enabled (queues w (cs_sync_queue (syncs w h)))"
    "sync_settings_ok (syncs w h)"
  using assms by (cases b; simp add: in_step_def)+

lemma in_step_next:
  assumes i: "in_step h w" and st: "stable h w w'" "stamped h w'" "stream_ok True h w'" "stream_ok False h w'"
    and sub: "set (sensor_stream True h w') \<subseteq> set (sensor_stream True h w)" "set (sensor_stream False h w') \<subseteq> set (sensor_stream False h w)"
  shows "in_step h w'"
proof -
  note set = refilled_settings [OF stableD(5) [OF st(1)]]
  have "sync_settings_ok (syncs w' h)" using i by (simp add: in_step_def sync_settings_ok_def set)
  moreover have "q_enabled (queues w' (cs_sync_queue (syncs w' h)))"
    using i levelD(5) [OF stableD(2) [OF st(1)], of "cs_sync_queue (syncs w h)"] by (simp add: in_step_def set(1) same_setup_def)
  ultimately show ?thesis using i st stableD(1) [OF st(1)] stable_bounded [OF st(1)] sub unfolding in_step_def by blast
qed

lemma decide_in_step:
  assumes i: "in_step h w" and s: "sensor_stream True h w = c # cs" "sensor_stream False h w = d # ds"
  shows "sync_decide (syncs w h) = Some (decide_of h w c d)"
proof -
  note c = stream_Cons [OF in_stepD(4) [OF i] s(1)] and d = stream_Cons [OF in_stepD(4) [OF i] s(2)]
  have "uint (fi_ts (cs_color (syncs w h))) < 2 ^ 62" "uint (fi_ts (cs_depth_ir (syncs w h))) < 2 ^ 62"
    using in_stepD(3) [OF i] c(1,2) d(1,2) unfolding stamped_def by (metis frame_def get_frame_def)+
  from sync_decide_exact [OF in_stepD(6) [OF i] this] show ?thesis
    using c(4) d(4) by (simp add: decide_of_def frame_def frame_sensors)
qed

text \<open>One round takes one step of \<open>pair_up\<close>.\<close>

definition round_output :: "bool \<Rightarrow> ptr \<Rightarrow> sync_output \<Rightarrow> 'a capturesync_world_scheme \<Rightarrow> 'a capturesync_world_scheme \<Rightarrow> bool" where
  "round_output only h x w w' \<longleftrightarrow>
     contents (queues w' (cs_sync_queue (syncs w h))) =
       foldl (push_newest (capacity (queues w (cs_sync_queue (syncs w h))))) (contents (queues w (cs_sync_queue (syncs w h)))) (outgoing only x) \<and>
     capture_slots w' = link_images (capture_slots w) x"

lemma drop_round:
  assumes i: "in_step h w" and s: "sensor_stream b h w = c # cs"
  shows "\<exists>r' w'. drop_sample h ZSA_WAIT_RESULT_SUCCEEDED b True w = Some (r', w') \<and> stable h w w' \<and> in_step h w' \<and>
     sensor_stream b h w' = cs \<and> sensor_stream (\<not> b) h w' = sensor_stream (\<not> b) h w \<and>
     round_output (cs_synchronized_images_only (syncs w h)) h (Single b c) w w' \<and>
     (r' = ZSA_WAIT_RESULT_SUCCEEDED \<or> cs = [])"
proof -
  have r: "ZSA_WAIT_RESULT_SUCCEEDED \<noteq> ZSA_WAIT_RESULT_FAILED" by simp
  from drop_sample_stream [OF in_stepD(1,4) [OF i] s r in_stepD(2,3) [OF i], of True] obtain r' w' where
    w': "drop_sample h ZSA_WAIT_RESULT_SUCCEEDED b True w = Some (r', w')" "stable h w w'" "stamped h w'"
      "capture_slots w' = capture_slots w" "stream_ok b h w'" "sensor_stream b h w' = cs"
      "stream_ok (\<not> b) h w' = stream_ok (\<not> b) h w" "sensor_stream (\<not> b) h w' = sensor_stream (\<not> b) h w"
      "contents (queues w' (cs_sync_queue (syncs w h))) =
        published (True \<and> \<not> cs_synchronized_images_only (syncs w h)) (queues w (cs_sync_queue (syncs w h))) c"
      "r' = ZSA_WAIT_RESULT_SUCCEEDED \<longleftrightarrow> cs \<noteq> []" by blast
  have both: "stream_ok True h w'" "stream_ok False h w'" using w'(5,7) in_stepD(4) [OF i, of "\<not> b"] by (cases b; simp)+
  have "set (sensor_stream x h w') \<subseteq> set (sensor_stream x h w)" for x
    using w'(6,8) s by (cases "x = b") auto
  then have "in_step h w'" by (intro in_step_next [OF i w'(2,3) both])
  then show ?thesis using w' in_stepD(5) [OF i] by (auto simp: round_output_def published_def)
qed

lemma merge_streams:
  assumes i: "in_step h w" and s: "sensor_stream True h w = c # cs" "sensor_stream False h w = d # ds"
    and m: "stable h w w'" "syncs w' = syncs w" "queues w' = queues w"
      "capture_slots w' = link_images (capture_slots w) (Pair c d)"
  shows "in_step h w'" and "sensor_stream b h w' = sensor_stream b h w"
proof -
  have fr: "frame x h w' = frame x h w" for x by (simp add: frame_def m(2))
  have "d \<notin> set (sensor_stream True h w)" using i s by (auto simp: in_step_def)
  then have sl: "capture_slots w' x (sensor_slot y) = capture_slots w x (sensor_slot y)" if "x \<in> set (sensor_stream y h w)" for x y
    using that by (cases y) (auto simp: m(4) sensor_slot_def)
  note same = stream_same [OF fr _ levelD(4) [OF stableD(2) [OF m(1)]] sl]
  show str: "sensor_stream b h w' = sensor_stream b h w" for b by (rule same(1)) (simp_all add: m(3))
  have ok: "stream_ok b h w' = stream_ok b h w" for b by (rule same(2)) (simp_all add: m(3))
  have "stamped h w'" using in_stepD(3) [OF i] by (simp add: stamped_def fr)
  then show "in_step h w'" using in_step_next [OF i m(1)] ok str in_stepD(4) [OF i] by simp
qed

lemma publish_in_step:
  assumes i: "in_step h w" and c: "fi_capture (frame b h w) \<noteq> 0"
  defines "sq \<equiv> cs_sync_queue (syncs w h)"
  shows "\<exists>w'. queue_push sq (fi_capture (frame b h w)) w = Some w' \<and> in_step h w' \<and> stable h w w' \<and> syncs w' = syncs w \<and>
     capture_slots w' = capture_slots w \<and> (\<forall>x. sensor_stream x h w' = sensor_stream x h w) \<and>
     contents (queues w' sq) = push_newest (capacity (queues w sq)) (contents (queues w sq)) (fi_capture (frame b h w))"
proof -
  note core = in_stepD(1) [OF i]
  from publish_run [OF core c, of True, folded sq_def] obtain w' where
    w': "queue_push sq (fi_capture (frame b h w)) w = Some w'" "calm w w'" "client_refs w' = client_refs w" "outside w' = outside w"
      "\<forall>k. k \<noteq> sq \<longrightarrow> queues w' k = queues w k"
      "contents (queues w' sq) = published True (queues w sq) (fi_capture (frame b h w))" by auto
  note st = calm_stable [OF core calmD(1,2) [OF w'(2)] w'(3,4)]
  have q: "queues w' (fi_queue (frame x h w)) = queues w (fi_queue (frame x h w))" for x
    using w'(5) sync_coreD(5) [OF core, of x] by (simp add: sq_def)
  have sl: "capture_slots w' k y = capture_slots w k y" for k y using calmD(4) [OF w'(2)] by simp
  note same = stream_same [OF frame_calm [OF w'(2)] q levelD(4) [OF calmD(1) [OF w'(2)]] sl]
  have "stamped h w'" using in_stepD(3) [OF i] by (simp add: stamped_def frame_calm [OF w'(2)])
  then have "in_step h w'" using in_step_next [OF i st] same in_stepD(4) [OF i] by simp
  then show ?thesis using w'(1,6) st same calmD(2,4) [OF w'(2)] in_stepD(5) [OF i] by (auto simp: published_def sq_def)
qed

lemma link_round:
  assumes i: "in_step h w" and s: "sensor_stream True h w = c # cs" "sensor_stream False h w = d # ds"
    and e: "decide_of h w c d = Link"
  shows "\<exists>r' w'. sync_round h ZSA_WAIT_RESULT_SUCCEEDED w = Some (r', w') \<and> stable h w w' \<and> in_step h w' \<and>
     sensor_stream True h w' = cs \<and> sensor_stream False h w' = ds \<and>
     round_output (cs_synchronized_images_only (syncs w h)) h (Pair c d) w w' \<and> (r' = ZSA_WAIT_RESULT_SUCCEEDED \<or> ds = [])"
proof -
  let ?sq = "cs_sync_queue (syncs w h)"
  note core = in_stepD(1) [OF i]
  note fc = stream_Cons [OF in_stepD(4) [OF i] s(1)] and fd = stream_Cons [OF in_stepD(4) [OF i] s(2)]
  have nz: "fi_capture (frame False h w) \<noteq> 0" "fi_capture (frame True h w) \<noteq> 0" using fc fd by simp_all
  from merge_captures_run [OF core nz, unfolded fc(1) fd(1)] obtain w1 where
    w1: "merge_captures d c w = Some (d, w1)" "stable h w w1" "syncs w1 = syncs w" "queues w1 = queues w"
      "capture_slots w1 = link_images (capture_slots w) (Pair c d)" by auto
  note m1 = merge_streams [OF i s w1(2-5)]
  have fr1: "frame x h w1 = frame x h w" for x by (simp add: frame_def w1(3))
  have d1: "fi_capture (frame False h w1) \<noteq> 0" using nz by (simp add: fr1)
  from publish_in_step [OF m1(1) d1] obtain w2 where
    w2: "queue_push ?sq d w1 = Some w2" "in_step h w2" "stable h w1 w2" "syncs w2 = syncs w1" "capture_slots w2 = capture_slots w1"
      "\<forall>x. sensor_stream x h w2 = sensor_stream x h w1"
      "contents (queues w2 ?sq) = push_newest (capacity (queues w ?sq)) (contents (queues w ?sq)) d"
    by (auto simp: w1(3,4) fr1 fd(1))
  have s2: "sensor_stream True h w2 = c # cs" "sensor_stream False h w2 = d # ds" using w2(6) m1(2) s by simp_all
  have sy2: "syncs w2 = syncs w" using w1(3) w2(4) by simp
  from drop_sample_stream [OF in_stepD(1,4) [OF w2(2)] s2(1) _ in_stepD(2,3) [OF w2(2)], of ZSA_WAIT_RESULT_SUCCEEDED False] obtain r3 w3 where
    w3: "drop_sample h ZSA_WAIT_RESULT_SUCCEEDED True False w2 = Some (r3, w3)" "stable h w2 w3" "stamped h w3"
      "capture_slots w3 = capture_slots w2" "stream_ok True h w3" "sensor_stream True h w3 = cs"
      "stream_ok False h w3" "sensor_stream False h w3 = d # ds"
      "contents (queues w3 ?sq) = contents (queues w2 ?sq)" "r3 \<noteq> ZSA_WAIT_RESULT_FAILED"
    using in_stepD(4) [OF w2(2), of False] by (auto simp: s2 sy2 published_def)
  have sq3: "cs_sync_queue (syncs w3 h) = ?sq" using refilled_settings(1) [OF stableD(5) [OF w3(2)]] by (simp add: sy2)
  from drop_sample_stream [OF stableD(1) [OF w3(2)] w3(7,8,10) stable_bounded [OF w3(2) in_stepD(2) [OF w2(2)]] w3(3), of False] obtain r4 w4 where
    w4: "drop_sample h r3 False False w3 = Some (r4, w4)" "stable h w3 w4" "stamped h w4"
      "capture_slots w4 = capture_slots w3" "stream_ok False h w4" "sensor_stream False h w4 = ds"
      "stream_ok True h w4" "sensor_stream True h w4 = cs"
      "contents (queues w4 ?sq) = contents (queues w3 ?sq)" "r4 = ZSA_WAIT_RESULT_SUCCEEDED \<longleftrightarrow> ds \<noteq> []"
    using w3(5,6) by (auto simp: published_def sq3)
  have st: "stable h w2 w4" "stable h w w4" using stable_trans [OF w3(2) w4(2)] stable_trans [OF w1(2) stable_trans [OF w2(3)]] by blast+
  have "in_step h w4" by (rule in_step_next [OF w2(2) st(1) w4(3,7,5)]) (auto simp: w4(6,8) s2)
  moreover have "sync_round h ZSA_WAIT_RESULT_SUCCEEDED w = Some (r4, w4)"
    using decide_in_step [OF i s] e nz fc(1) fd(1) w1(1,3) w2(1) w3(1) w4(1) by (simp add: sync_round_def frame_def frame_sensors)
  moreover have "round_output (cs_synchronized_images_only (syncs w h)) h (Pair c d) w w4"
    using w4(4,9) w3(4,9) w2(5,7) w1(5) by (simp add: round_output_def)
  ultimately show ?thesis using st(2) w4(6,8,10) by auto
qed

lemma pair_up_cong:
  assumes "\<And>c d. c \<in> set cs \<Longrightarrow> d \<in> set ds \<Longrightarrow> f c d = g c d"
  shows "pair_up f cs ds = pair_up g cs ds"
  using assms
proof (induction f cs ds rule: pair_up.induct)
  case (1 f c cs d ds)
  have "f c d = g c d" using 1(4) by simp
  then show ?case using 1 by (cases "f c d") simp_all
qed simp_all

lemma stable_decide:
  assumes "stable h w w'" and "capture_slots w' = link_images (capture_slots w) x"
    and "\<And>c d. x = Pair c d \<Longrightarrow> d \<notin> C" and "c \<in> C"
  shows "decide_of h w' c d = decide_of h w c d"
proof -
  have "capture_slots w' c (sensor_slot True) = capture_slots w c (sensor_slot True)"
    "capture_slots w' d (sensor_slot False) = capture_slots w d (sensor_slot False)"
    using assms(3,4) by (cases x; auto simp: assms(2) sensor_slot_def)+
  then show ?thesis
    using refilled_settings [OF stableD(5) [OF assms(1)]] levelD(4) [OF stableD(2) [OF assms(1)]]
    by (simp add: decide_of_def stamp_def)
qed

lemma round_refines:
  assumes i: "in_step h w" and s: "sensor_stream True h w = c # cs" "sensor_stream False h w = d # ds"
  shows "\<exists>r' w' x. sync_round h ZSA_WAIT_RESULT_SUCCEEDED w = Some (r', w') \<and> stable h w w' \<and> in_step h w' \<and>
     round_output (cs_synchronized_images_only (syncs w h)) h x w w' \<and> (\<forall>e f. x = Pair e f \<longrightarrow> f \<notin> set (c # cs)) \<and>
     set (sensor_stream True h w') \<subseteq> set (c # cs) \<and>
     length (sensor_stream True h w') + length (sensor_stream False h w') < length (c # cs) + length (d # ds) \<and>
     (r' = ZSA_WAIT_RESULT_SUCCEEDED \<or> sensor_stream True h w' = [] \<or> sensor_stream False h w' = []) \<and>
     pair_up (decide_of h w) (c # cs) (d # ds) =
       (case pair_up (decide_of h w) (sensor_stream True h w') (sensor_stream False h w') of (cs', ds', out) \<Rightarrow> (cs', ds', x # out))"
proof (cases "decide_of h w c d")
  case Drop_depth
  from drop_round [OF i s(2)] obtain r' w' where
    w': "drop_sample h ZSA_WAIT_RESULT_SUCCEEDED False True w = Some (r', w')" "stable h w w'" "in_step h w'"
      "sensor_stream False h w' = ds" "sensor_stream True h w' = c # cs"
      "round_output (cs_synchronized_images_only (syncs w h)) h (Single False d) w w'" "r' = ZSA_WAIT_RESULT_SUCCEEDED \<or> ds = []"
    using s(1) by auto
  have "sync_round h ZSA_WAIT_RESULT_SUCCEEDED w = Some (r', w')"
    using decide_in_step [OF i s] w'(1) by (simp add: sync_round_def Drop_depth)
  then show ?thesis using w'(2-7) Drop_depth by (intro exI [of _ r'] exI [of _ w'] exI [of _ "Single False d"]) auto
next
  case Drop_color
  from drop_round [OF i s(1)] obtain r' w' where
    w': "drop_sample h ZSA_WAIT_RESULT_SUCCEEDED True True w = Some (r', w')" "stable h w w'" "in_step h w'"
      "sensor_stream True h w' = cs" "sensor_stream False h w' = d # ds"
      "round_output (cs_synchronized_images_only (syncs w h)) h (Single True c) w w'" "r' = ZSA_WAIT_RESULT_SUCCEEDED \<or> cs = []"
    using s(2) by auto
  have "sync_round h ZSA_WAIT_RESULT_SUCCEEDED w = Some (r', w')"
    using decide_in_step [OF i s] w'(1) by (simp add: sync_round_def Drop_color)
  then show ?thesis using w'(2-7) Drop_color by (intro exI [of _ r'] exI [of _ w'] exI [of _ "Single True c"]) auto
next
  case Link
  have "d \<notin> set (c # cs)" using i s by (auto simp: in_step_def)
  moreover from link_round [OF i s Link] obtain r' w' where
    w': "sync_round h ZSA_WAIT_RESULT_SUCCEEDED w = Some (r', w')" "stable h w w'" "in_step h w'"
      "sensor_stream True h w' = cs" "sensor_stream False h w' = ds"
      "round_output (cs_synchronized_images_only (syncs w h)) h (Pair c d) w w'" "r' = ZSA_WAIT_RESULT_SUCCEEDED \<or> ds = []" by blast
  ultimately show ?thesis using Link by (intro exI [of _ r'] exI [of _ w'] exI [of _ "Pair c d"]) auto
qed

definition loop_output :: "bool \<Rightarrow> ptr \<Rightarrow> sync_output list \<Rightarrow> 'a capturesync_world_scheme \<Rightarrow> 'a capturesync_world_scheme \<Rightarrow> bool" where
  "loop_output only h out w w' \<longleftrightarrow>
     contents (queues w' (cs_sync_queue (syncs w h))) =
       foldl (push_newest (capacity (queues w (cs_sync_queue (syncs w h))))) (contents (queues w (cs_sync_queue (syncs w h))))
         (concat (map (outgoing only) out)) \<and>
     capture_slots w' = foldl link_images (capture_slots w) out"

lemma loop_refines:
  assumes "in_step h w" and "r = ZSA_WAIT_RESULT_SUCCEEDED \<or> sensor_stream True h w = [] \<or> sensor_stream False h w = []"
  shows "\<exists>w' out. sync_loop h r w = Some w' \<and> stable h w w' \<and> in_step h w' \<and>
     loop_output (cs_synchronized_images_only (syncs w h)) h out w w' \<and>
     pair_up (decide_of h w) (sensor_stream True h w) (sensor_stream False h w) = (sensor_stream True h w', sensor_stream False h w', out)"
  using assms
proof (induction "length (sensor_stream True h w) + length (sensor_stream False h w)" arbitrary: w r rule: less_induct)
  case less
  note i = less.prems(1)
  let ?sq = "cs_sync_queue (syncs w h)" and ?only = "cs_synchronized_images_only (syncs w h)"
  have cap: "fi_capture (cs_color (syncs w h)) = 0 \<longleftrightarrow> sensor_stream True h w = []" "fi_capture (cs_depth_ir (syncs w h)) = 0 \<longleftrightarrow> sensor_stream False h w = []"
    using stream_Nil [OF in_stepD(4) [OF i], of True] stream_Nil [OF in_stepD(4) [OF i], of False] by (simp_all add: frame_def frame_sensors)
  show ?case
  proof (cases "sensor_stream True h w = [] \<or> sensor_stream False h w = []")
    case True
    then have "sync_loop h r w = Some w" using cap by (subst sync_loop.simps) (auto simp: sync_active_def)
    moreover have "pair_up (decide_of h w) (sensor_stream True h w) (sensor_stream False h w) = (sensor_stream True h w, sensor_stream False h w, [])"
      using True by (cases "sensor_stream True h w"; cases "sensor_stream False h w") simp_all
    ultimately show ?thesis using i stable_refl [OF in_stepD(1) [OF i]]
      by (intro exI [of _ w] exI [of _ "[]"]) (simp add: loop_output_def)
  next
    case False
    then obtain c cs d ds where s: "sensor_stream True h w = c # cs" "sensor_stream False h w = d # ds" by (meson neq_Nil_conv)
    have r: "r = ZSA_WAIT_RESULT_SUCCEEDED" using less.prems(2) False by simp
    from round_refines [OF i s] obtain r' w1 x where
      w1: "sync_round h r w = Some (r', w1)" "stable h w w1" "in_step h w1" "round_output ?only h x w w1"
        "\<forall>e f. x = Pair e f \<longrightarrow> f \<notin> set (c # cs)" "set (sensor_stream True h w1) \<subseteq> set (c # cs)"
        "length (sensor_stream True h w1) + length (sensor_stream False h w1) < length (c # cs) + length (d # ds)"
        "r' = ZSA_WAIT_RESULT_SUCCEEDED \<or> sensor_stream True h w1 = [] \<or> sensor_stream False h w1 = []"
        "pair_up (decide_of h w) (c # cs) (d # ds) =
          (case pair_up (decide_of h w) (sensor_stream True h w1) (sensor_stream False h w1) of (cs', ds', out) \<Rightarrow> (cs', ds', x # out))"
      unfolding r by blast
    have "length (sensor_stream True h w1) + length (sensor_stream False h w1) < length (sensor_stream True h w) + length (sensor_stream False h w)"
      using w1(7) by (simp only: s)
    from less.hyps [OF this w1(3,8)] obtain w' out where
      w': "sync_loop h r' w1 = Some w'" "stable h w1 w'" "in_step h w'" "loop_output (cs_synchronized_images_only (syncs w1 h)) h out w1 w'"
        "pair_up (decide_of h w1) (sensor_stream True h w1) (sensor_stream False h w1) = (sensor_stream True h w', sensor_stream False h w', out)" by blast
    have "decide_of h w1 e f = decide_of h w e f" if "e \<in> set (sensor_stream True h w1)" for e f
      using stable_decide [OF w1(2), of x "set (c # cs)" e f] w1(4,5,6) that by (auto simp: round_output_def)
    then have same: "pair_up (decide_of h w1) (sensor_stream True h w1) (sensor_stream False h w1) =
        pair_up (decide_of h w) (sensor_stream True h w1) (sensor_stream False h w1)" by (intro pair_up_cong)
    note set = refilled_settings [OF stableD(5) [OF w1(2)]]
    have k: "capacity (queues w1 ?sq) = capacity (queues w ?sq)"
      by (rule same_setup_capacity [OF levelD(5) [OF stableD(2) [OF w1(2)]]])
    have "sync_loop h r w = Some w'" using w1(1) w'(1) False cap by (subst sync_loop.simps) (simp add: sync_active_def r)
    moreover have "loop_output ?only h (x # out) w w'"
      using w'(4) w1(4) by (simp add: loop_output_def round_output_def set(1,4) k)
    ultimately show ?thesis using w'(3,5) stable_trans [OF w1(2) w'(2)] w1(9)
      by (intro exI [of _ w'] exI [of _ "x # out"]) (simp add: s same)
  qed
qed

subsection \<open>Refinement of a whole call\<close>

text \<open>
  The arrival of a capture in a stream of at most \<open>k + 1\<close> captures: when it is full, the oldest one leaves
  alone.
\<close>

definition arrive :: "bool \<Rightarrow> nat \<Rightarrow> ptr list \<Rightarrow> ptr \<Rightarrow> sync_output list \<times> ptr list" where
  "arrive b k cs n = (if length cs = k + 1 then ([Single b (hd cs)], tl cs @ [n]) else ([], cs @ [n]))"

definition sensor_capacity :: "bool \<Rightarrow> ptr \<Rightarrow> 'a capturesync_world_scheme \<Rightarrow> nat" where
  "sensor_capacity b h w = capacity (queues w (fi_queue (frame b h w)))"

text \<open>What a step that takes a capture into the stream of a sensor has to establish.\<close>

lemma arrive_in_step:
  assumes i: "in_step h w" and n: "capture_slots w n (sensor_slot b) \<noteq> 0" "n \<notin> set (sensor_stream (\<not> b) h w)"
    and st: "stable h w w'" "frame (\<not> b) h w' = frame (\<not> b) h w"
    and q: "\<forall>k. k \<noteq> fi_queue (frame b h w) \<longrightarrow> k \<noteq> cs_sync_queue (syncs w h) \<longrightarrow> queues w' k = queues w k"
    and sl: "capture_slots w' = capture_slots w"
    and mine: "fi_capture (frame b h w') \<noteq> 0" "fi_ts (frame b h w') = stamp b w (fi_capture (frame b h w'))"
    and sub: "set (sensor_stream b h w') \<subseteq> insert n (set (sensor_stream b h w))"
  shows "in_step h w'" and "sensor_stream (\<not> b) h w' = sensor_stream (\<not> b) h w"
proof -
  let ?q = "fi_queue (frame b h w)" and ?sq = "cs_sync_queue (syncs w h)"
  note core = in_stepD(1) [OF i] and ok = in_stepD(4) [OF i, of b] and lev = stableD(2) [OF st(1)]
  have oq: "fi_queue (frame (\<not> b) h w) \<noteq> ?q" "fi_queue (frame (\<not> b) h w) \<noteq> ?sq"
    using sync_coreD(5,6) [OF core, of "\<not> b"] by auto
  have "stamp b w' = stamp b w" using levelD(4) [OF lev] sl by (simp add: stamp_def fun_eq_iff)
  then have "stream_ok b h w'"
    using mine sub ok n(1) sl levelD(5) [OF lev, of ?q] stableD(6) [OF st(1), of b] by (auto simp: stream_ok_def same_setup_def)
  moreover have "queues w' (fi_queue (frame (\<not> b) h w)) = queues w (fi_queue (frame (\<not> b) h w))" using q oq by simp
  note o = stream_same [OF st(2) this levelD(4) [OF lev]]
  ultimately have both: "stream_ok True h w'" "stream_ok False h w'" using o sl in_stepD(4) [OF i, of "\<not> b"] by (cases b; simp)+
  have "stamped h w'"
    by (rule stamped_cases [OF in_stepD(3) [OF i] st(2)]) (use mine(2) in_stepD(2) [OF i] in \<open>simp add: stamp_def stamps_bounded_def\<close>)
  moreover have "set (sensor_stream True h w') \<inter> set (sensor_stream False h w') = {}"
    using i sub o(1) sl n(2) by (cases b) (auto simp: in_step_def)
  moreover have "sync_settings_ok (syncs w' h)" "q_enabled (queues w' (cs_sync_queue (syncs w' h)))"
    using in_stepD(5,6) [OF i] refilled_settings [OF stableD(5) [OF st(1)]] levelD(5) [OF lev, of ?sq]
    by (simp_all add: sync_settings_ok_def same_setup_def)
  ultimately show "in_step h w'"
    using both stable_bounded [OF st(1) in_stepD(2) [OF i]] stableD(1) [OF st(1)] by (simp add: in_step_def)
  show "sensor_stream (\<not> b) h w' = sensor_stream (\<not> b) h w" using o(1) sl by simp
qed

lemma store_stream:
  assumes i: "in_step h w" and n: "n \<noteq> 0" "0 < client_refs w n" "capture_slots w n (sensor_slot b) \<noteq> 0"
    "n \<notin> set (sensor_stream (\<not> b) h w)"
  defines "a \<equiv> arrive b (sensor_capacity b h w) (sensor_stream b h w) n"
  shows "\<exists>w'. store_capture h b n w = Some w' \<and> stable h w w' \<and> in_step h w' \<and> sensor_stream b h w' = snd a \<and>
     sensor_stream (\<not> b) h w' = sensor_stream (\<not> b) h w \<and>
     loop_output (cs_synchronized_images_only (syncs w h)) h (fst a) w w'"
proof -
  let ?f = "frame b h w" and ?q = "fi_queue (frame b h w)" and ?sq = "cs_sync_queue (syncs w h)"
  note core = in_stepD(1) [OF i] and ok = in_stepD(4) [OF i, of b]
  have en: "q_enabled (queues w ?q)" using ok by (simp add: stream_ok_def)
  have ring: "ring_ok (queues w ?q)" using queue_invD(4) [OF sync_coreD(1,4) [OF core]] by (simp add: queue_ok_def)
  have pfn: "fi_get_typed_image ?f = sensor_pfn b" by (rule sync_coreD(7) [OF core])
  have fin: ?thesis
    if "store_capture h b n w = Some w'" and "stable h w w'" "frame (\<not> b) h w' = frame (\<not> b) h w"
      and "\<forall>k. k \<noteq> ?q \<longrightarrow> k \<noteq> ?sq \<longrightarrow> queues w' k = queues w k" and "capture_slots w' = capture_slots w"
      and "sensor_stream b h w' = snd a" "fi_capture (frame b h w') \<noteq> 0" "fi_ts (frame b h w') = stamp b w (fi_capture (frame b h w'))"
      and "set (snd a) \<subseteq> insert n (set (sensor_stream b h w))"
      and "loop_output (cs_synchronized_images_only (syncs w h)) h (fst a) w w'" for w'
    using arrive_in_step [OF i n(3,4) that(2-5,7,8)] that(1,2,6,9,10) by auto
  show ?thesis
  proof (cases "fi_capture ?f = 0")
    case True
    then have e: "sensor_stream b h w = []" "contents (queues w ?q) = []" using ok stream_Nil [OF ok] by (simp_all add: stream_ok_def)
    then have a: "a = ([], [n])" by (simp add: a_def arrive_def)
    let ?i = "capture_slots w n (sensor_slot b)"
    from store_capture_fill [OF core True n(1,2)] n(3) obtain w' where
      w': "store_capture h b n w = Some w'" "queues w' = queues w" "moved b h (?f\<lparr>fi_capture := n, fi_image := ?i, fi_ts := image_stamps w ?i\<rparr>) w w'" by auto
    have g: "frame_ok b (?f\<lparr>fi_capture := n, fi_image := ?i, fi_ts := image_stamps w ?i\<rparr>)" using pfn n(1) by (simp add: frame_ok_def)
    note m = moved_stable [OF core w'(3) g]
    have sl: "capture_slots w' = capture_slots w" using w'(3) by (simp add: moved_def)
    show ?thesis
      by (rule fin [OF w'(1)]) (use m w'(2) sl e n(1) in \<open>simp_all add: a sensor_stream_def stamp_def loop_output_def\<close>)
  next
    case False
    then have s: "sensor_stream b h w = fi_capture ?f # contents (queues w ?q)" by (simp add: sensor_stream_def)
    have ts: "fi_ts ?f = stamp b w (fi_capture ?f)" using ok False by (simp add: stream_ok_def)
    show ?thesis
    proof (cases "length (contents (queues w ?q)) = capacity (queues w ?q)")
      case full: True
      let ?old = "hd (contents (queues w ?q))"
      let ?i = "capture_slots w ?old (sensor_slot b)"
      have ne: "contents (queues w ?q) \<noteq> []" using full ring.cap_pos [OF ring] by (auto simp del: length_contents)
      then have i0: "?i \<noteq> 0" using ok s by (simp add: stream_ok_def)
      have a: "a = ([Single b (fi_capture ?f)], contents (queues w ?q) @ [n])"
        using full by (simp add: a_def arrive_def sensor_capacity_def s)
      from store_capture_full [OF core False n(1,2) en full] i0 obtain w' where
        w': "store_capture h b n w = Some w'" "?old \<noteq> 0" "moved b h (?f\<lparr>fi_capture := ?old, fi_image := ?i, fi_ts := image_stamps w ?i\<rparr>) w w'"
          "\<forall>k. k \<noteq> ?q \<longrightarrow> k \<noteq> ?sq \<longrightarrow> queues w' k = queues w k" "contents (queues w' ?q) = tl (contents (queues w ?q)) @ [n]"
          "contents (queues w' ?sq) = published (\<not> cs_synchronized_images_only (syncs w h)) (queues w ?sq) (fi_capture ?f)" by auto
      have g: "frame_ok b (?f\<lparr>fi_capture := ?old, fi_image := ?i, fi_ts := image_stamps w ?i\<rparr>)" using pfn w'(2) by (simp add: frame_ok_def)
      note m = moved_stable [OF core w'(3) g]
      have sl: "capture_slots w' = capture_slots w" using w'(3) by (simp add: moved_def)
      have hd: "?old # tl (contents (queues w ?q)) @ [n] = contents (queues w ?q) @ [n]" using ne by (cases "contents (queues w ?q)") simp_all
      show ?thesis
        by (rule fin [OF w'(1)])
          (use m w'(2,4-6) sl s hd in_stepD(5) [OF i] in \<open>auto simp: a sensor_stream_def stamp_def loop_output_def published_def\<close>)
    next
      case room: False
      have a: "a = ([], sensor_stream b h w @ [n])"
        using room s by (simp add: a_def arrive_def sensor_capacity_def del: length_contents)
      from store_capture_wait [OF core False n(1,2) en room] obtain w' where
        w': "store_capture h b n w = Some w'" "calm w w'" "client_refs w' = client_refs w" "outside w' = outside w"
          "\<forall>k. k \<noteq> ?q \<longrightarrow> queues w' k = queues w k" "contents (queues w' ?q) = contents (queues w ?q) @ [n]" by blast
      have "?sq \<noteq> ?q" using sync_coreD(5) [OF core, of b] by simp
      then show ?thesis
        by (intro fin [OF w'(1) calm_stable [OF core calmD(1,2) [OF w'(2)] w'(3,4)]])
          (use w'(5,6) s False ts calmD(4) [OF w'(2)] in \<open>auto simp: a frame_calm [OF w'(2)] sensor_stream_def stamp_def loop_output_def\<close>)
    qed
  qed
qed

text \<open>A step that moves no capture and no reference.\<close>

lemma in_step_same:
  assumes i: "in_step h w" and core: "sync_core h w'" and k: "kept (syncs w h) (syncs w' h)" "\<And>b. frame b h w' = frame b h w"
    and same: "queues w' = queues w" "image_stamps w' = image_stamps w" "capture_slots w' = capture_slots w"
  shows "in_step h w'" and "sensor_stream b h w' = sensor_stream b h w" and "decide_of h w' = decide_of h w"
    and "sensor_capacity b h w' = sensor_capacity b h w"
    and "loop_output only h out w w2 \<longleftrightarrow> loop_output only h out w' w2"
proof -
  have sl: "\<And>c x. capture_slots w' c x = capture_slots w c x" and q: "\<And>x. queues w' x = queues w x" using same by simp_all
  note s = stream_same [OF k(2) q same(2) sl]
  show "sensor_stream b h w' = sensor_stream b h w" for b by (rule s(1))
  show "sensor_capacity b h w' = sensor_capacity b h w" by (simp add: sensor_capacity_def k(2) same(1))
  show "decide_of h w' = decide_of h w" using k(1) by (simp add: decide_of_def fun_eq_iff stamp_def same kept_def)
  show "loop_output only h out w w2 \<longleftrightarrow> loop_output only h out w' w2" using k(1) by (simp add: loop_output_def kept_def same)
  have "sync_settings_ok (syncs w' h)" using i k(1) by (simp add: in_step_def sync_settings_ok_def kept_def)
  then show "in_step h w'"
    using i core k(1) by (simp add: in_step_def s stamps_bounded_def stamped_def k(2) same kept_def)
qed

lemma loop_output_append:
  assumes "loop_output only h out w w1" and "stable h w w1" and "loop_output only h out' w1 w2"
  shows "loop_output only h (out @ out') w w2"
  using assms same_setup_capacity [OF levelD(5) [OF stableD(2) [OF assms(2)]], of "cs_sync_queue (syncs w h)"]
    refilled_settings(1) [OF stableD(5) [OF assms(2)]]
  by (simp add: loop_output_def)

lemma loop_output_end:
  assumes "loop_output only h out w w1" and "queues w2 = queues w1" and "capture_slots w2 = capture_slots w1"
  shows "loop_output only h out w w2"
  using assms by (simp add: loop_output_def)

text \<open>The stream of each sensor after the arrival of a capture.\<close>

definition arrived :: "bool \<Rightarrow> ptr list \<Rightarrow> bool \<Rightarrow> ptr \<Rightarrow> 'a capturesync_world_scheme \<Rightarrow> ptr list" where
  "arrived b cs x h w = (if x = b then cs else sensor_stream x h w)"

lemma sync_gate_passes:
  assumes core: "sync_core h w" and i: "in_step h w" and "cs_sync_captures (syncs w h)" and "\<not> cs_disable_sync (syncs w h)"
    and g: "b \<or> \<not> cs_waiting_for_clean_depth_ts (syncs w h) \<or> ts div cs_fps_period (syncs w h) \<le> 10" and p: "cs_fps_period (syncs w h) \<noteq> 0"
  shows "\<exists>w'. sync_gate h b n ts w = Some (ZSA_RESULT_SUCCEEDED, w') \<and> sync_core h w' \<and> kept (syncs w h) (syncs w' h) \<and> level w w' \<and>
     (\<forall>x. frame x h w' = frame x h w) \<and> queues w' = queues w \<and> image_stamps w' = image_stamps w \<and> capture_slots w' = capture_slots w \<and>
     client_refs w' = client_refs w \<and> cs_synchronized_images_only (syncs w' h) = cs_synchronized_images_only (syncs w h)"
proof (cases "\<not> b \<and> cs_waiting_for_clean_depth_ts (syncs w h)")
  case True
  let ?s = "(syncs w h)\<lparr>cs_waiting_for_clean_depth_ts := False\<rparr>"
  have k: "kept (syncs w h) ?s" by (simp add: kept_def get_frame_def)
  note u = put_sync_steady [OF core k]
  have "\<not> 10 < ts div cs_fps_period (syncs w h)" using True g by (simp add: not_less)
  then have "sync_gate h b n ts w = Some (ZSA_RESULT_SUCCEEDED, put_sync h ?s w)" using True assms(3,4) p by (simp add: sync_gate_def Let_def)
  then show ?thesis using u(1,2) k by (auto simp: steady_def)
next
  case False
  then show ?thesis using assms(3,4) core sync_coreD(1) [OF core] by (auto simp: sync_gate_def Let_def kept_def)
qed

lemma add_locked_refines:
  assumes inv: "sync_inv h w" and i: "in_step h w" and run: "cs_running (syncs w h)"
    and on: "cs_sync_captures (syncs w h)" "\<not> cs_disable_sync (syncs w h)"
    and g: "b \<or> \<not> cs_waiting_for_clean_depth_ts (syncs w h) \<or> ts div cs_fps_period (syncs w h) \<le> 10"
    and n: "n \<noteq> 0" "0 < user_refs h w n" "capture_slots w n (sensor_slot b) \<noteq> 0" "n \<notin> set (sensor_stream (\<not> b) h w)"
    and a: "arrive b (sensor_capacity b h w) (sensor_stream b h w) n = (early, cs)"
  shows "\<exists>w' out. add_locked h b n ts w = Some w' \<and> in_step h w' \<and>
     pair_up (decide_of h w) (arrived b cs True h w) (arrived b cs False h w) = (sensor_stream True h w', sensor_stream False h w', out) \<and>
     loop_output (cs_synchronized_images_only (syncs w h)) h (early @ out) w w'"
proof -
  let ?l = "cs_lock (syncs w h)" and ?only = "cs_synchronized_images_only (syncs w h)"
  have core: "sync_core h w" and own: "own_lock False h w" and p: "cs_fps_period (syncs w h) \<noteq> 0"
    using inv run by (simp_all add: sync_inv_def)
  define w1 where "w1 = w\<lparr>locks := (locks w)(?l := Some True)\<rparr>"
  note s1 = set_own_lock [OF core own, of True, folded w1_def]
  have lk: "Lock ?l w = Some (LOCK_OK, w1)" using own own_lock_held [OF core own] by (simp add: Lock_free own_lock_def w1_def)
  have k1: "kept (syncs w h) (syncs w1 h)" "frame x h w1 = frame x h w" for x by (simp_all add: kept_def frame_def s1(3))
  note i1 = in_step_same [OF i s1(1) k1 s1(7,6,9)]
  from sync_gate_passes [OF s1(1) i1(1), of b ts n] run on g p obtain w2 where
    w2: "sync_gate h b n ts w1 = Some (ZSA_RESULT_SUCCEEDED, w2)" "sync_core h w2" "kept (syncs w1 h) (syncs w2 h)"
      "\<forall>x. frame x h w2 = frame x h w1" "queues w2 = queues w1" "image_stamps w2 = image_stamps w1" "capture_slots w2 = capture_slots w1"
      "client_refs w2 = client_refs w1" "cs_synchronized_images_only (syncs w2 h) = ?only" "level w1 w2" by (auto simp: s1(3))
  note i2 = in_step_same [OF i1(1) w2(2,3) w2(4) [rule_format] w2(5-7)]
  have "0 < client_refs w n"
    using n(2) popped_nonneg [of "fi_capture (frame True h w)" n] popped_nonneg [of "fi_capture (frame False h w)" n] by (simp add: user_refs_def)
  then have n2: "0 < client_refs w2 n" "capture_slots w2 n (sensor_slot b) \<noteq> 0" "n \<notin> set (sensor_stream (\<not> b) h w2)"
    using n(3,4) by (simp_all add: w2(7,8) s1(9,10) i2(2) i1(2))
  from store_stream [OF i2(1) n(1) n2] a obtain w3 where
    w3: "store_capture h b n w2 = Some w3" "stable h w2 w3" "in_step h w3" "sensor_stream b h w3 = cs"
      "sensor_stream (\<not> b) h w3 = sensor_stream (\<not> b) h w" "loop_output ?only h early w2 w3"
    by (auto simp: i2(2,4) i1(2,4) w2(9))
  from loop_refines [OF w3(3)] obtain w4 out where
    w4: "sync_loop h ZSA_WAIT_RESULT_SUCCEEDED w3 = Some w4" "stable h w3 w4" "in_step h w4"
      "loop_output (cs_synchronized_images_only (syncs w3 h)) h out w3 w4"
      "pair_up (decide_of h w3) (sensor_stream True h w3) (sensor_stream False h w3) = (sensor_stream True h w4, sensor_stream False h w4, out)" by blast
  note st24 = stable_trans [OF w3(2) w4(2)]
  have only3: "cs_synchronized_images_only (syncs w3 h) = ?only" using refilled_settings(4) [OF stableD(5) [OF w3(2)]] w2(9) by simp
  have o4: "loop_output ?only h (early @ out) w2 w4" using loop_output_append [OF w3(6,2)] w4(4) only3 by simp
  have "decide_of h w3 = decide_of h w2"
  proof -
    have e: "early = [] \<or> (\<exists>x. early = [Single b x])" using a by (auto simp: arrive_def split: if_splits)
    then have "capture_slots w3 = link_images (capture_slots w2) (Single b 0)" using w3(6) by (auto simp: loop_output_def)
    from stable_decide [OF w3(2) this, of UNIV] show ?thesis by (simp add: fun_eq_iff)
  qed
  moreover have "sensor_stream x h w3 = arrived b cs x h w" for x using w3(4,5) by (cases x; cases b) (simp_all add: arrived_def)
  ultimately have pu: "pair_up (decide_of h w) (arrived b cs True h w) (arrived b cs False h w) = (sensor_stream True h w4, sensor_stream False h w4, out)"
    using w4(5) by (simp add: i2(3) i1(3))
  have l4: "cs_lock (syncs w4 h) = ?l" using refilled_settings(7) [OF stableD(5) [OF st24]] w2(3) k1(1) by (simp add: kept_def)
  have "own_lock True h w2" using s1(2) own_lock_level [OF w2(10), of h True] w2(3) by (simp add: kept_def)
  then have own4: "own_lock True h w4" using own_lock_level [OF stableD(2) [OF st24], of h True] l4 w2(3) k1(1) by (simp add: kept_def)
  note core4 = in_stepD(1) [OF w4(3)]
  define w5 where "w5 = w4\<lparr>locks := (locks w4)(cs_lock (syncs w4 h) := Some False)\<rparr>"
  note s5 = set_own_lock [OF core4 own4, of False, folded w5_def]
  have ul: "Unlock ?l w4 = Some (LOCK_OK, w5)" using own_lock_held [OF core4 own4] own4 by (simp add: Unlock_held own_lock_def w5_def l4)
  have k5: "kept (syncs w4 h) (syncs w5 h)" "frame x h w5 = frame x h w4" for x by (simp_all add: kept_def frame_def s5(3))
  note i5 = in_step_same [OF w4(3) s5(1) k5 s5(7,6,9)]
  have "add_locked h b n ts w = Some w5"
    unfolding add_locked_def using lk w2(1) w3(1) w4(1) ul run by (simp add: s1(3) l4)
  moreover have "loop_output ?only h (early @ out) w w5"
    using loop_output_end [OF o4 s5(7,9)] i1(5) i2(5) by blast
  ultimately show ?thesis using i5(1,2) pu by auto
qed

lemma add_capture_refines:
  assumes inv: "sync_inv h w" and i: "in_step h w" and run: "cs_running (syncs w h)"
    and on: "cs_sync_captures (syncs w h)" "\<not> cs_disable_sync (syncs w h)"
    and g: "b \<or> \<not> cs_waiting_for_clean_depth_ts (syncs w h) \<or> stamp b w n div cs_fps_period (syncs w h) \<le> 10"
    and n: "n \<noteq> 0" "0 < user_refs h w n" "capture_slots w n (sensor_slot b) \<noteq> 0" "n \<notin> set (sensor_stream (\<not> b) h w)"
    and a: "arrive b (sensor_capacity b h w) (sensor_stream b h w) n = (early, cs)"
  shows "\<exists>w' out. capturesync_add_capture others h ZSA_RESULT_SUCCEEDED n b w = Some w' \<and> sync_inv h w' \<and> in_step h w' \<and>
     pair_up (decide_of h w) (arrived b cs True h w) (arrived b cs False h w) = (sensor_stream True h w', sensor_stream False h w', out) \<and>
     loop_output (cs_synchronized_images_only (syncs w h)) h (early @ out) w w'"
proof -
  from add_capture_read [OF inv n(1,2), of others b] n(3) obtain w1 where
    w1: "capturesync_add_capture others h ZSA_RESULT_SUCCEEDED n b w = add_locked h b n (stamp b w n) w1"
      "stable h w w1" "sync_inv h w1" "syncs w1 = syncs w" "queues w1 = queues w" "capture_slots w1 = capture_slots w"
    by (auto simp: stamp_def)
  have k: "kept (syncs w h) (syncs w1 h)" "\<And>x. frame x h w1 = frame x h w" by (simp_all add: kept_def frame_def w1(4))
  note same = in_step_same [OF i stableD(1) [OF w1(2)] k w1(5) levelD(4) [OF stableD(2) [OF w1(2)]] w1(6)]
  have n1: "0 < user_refs h w1 n" "capture_slots w1 n (sensor_slot b) \<noteq> 0" "n \<notin> set (sensor_stream (\<not> b) h w1)"
    "arrive b (sensor_capacity b h w1) (sensor_stream b h w1) n = (early, cs)"
    using n a stableD(3) [OF w1(2)] by (simp_all add: w1(6) same(2,4))
  have f1: "cs_running (syncs w1 h)" "cs_sync_captures (syncs w1 h)" "\<not> cs_disable_sync (syncs w1 h)"
    "b \<or> \<not> cs_waiting_for_clean_depth_ts (syncs w1 h) \<or> stamp b w n div cs_fps_period (syncs w1 h) \<le> 10"
    using run on g by (simp_all add: w1(4))
  from add_locked_refines [OF w1(3) same(1) f1 n(1) n1] obtain w' out where
    w': "add_locked h b n (stamp b w n) w1 = Some w'" "in_step h w'"
      "pair_up (decide_of h w1) (arrived b cs True h w1) (arrived b cs False h w1) = (sensor_stream True h w', sensor_stream False h w', out)"
      "loop_output (cs_synchronized_images_only (syncs w1 h)) h (early @ out) w1 w'" by blast
  have "sync_inv h w'"
    using add_locked_run [OF w1(3) in_stepD(2) [OF same(1)] n(1) n1(1), of b "stamp b w n"] w'(1) by auto
  moreover have "arrived b cs x h w1 = arrived b cs x h w" for x by (simp add: arrived_def same(2))
  ultimately show ?thesis using w1(1) w' same(3) same(5) [of "cs_synchronized_images_only (syncs w h)" "early @ out" w']
    by (intro exI [of _ w'] exI [of _ out]) (simp add: w1(4))
qed

text \<open>No capture is lost or changes its place; a pair is one the decision links.\<close>

fun of_sensor :: "bool \<Rightarrow> sync_output \<Rightarrow> ptr list" where
  "of_sensor b (Single x c) = (if x = b then [c] else [])"
| "of_sensor b (Pair c d) = [if b then c else d]"

lemma pair_up_sound:
  assumes "pair_up decide cs ds = (cs', ds', out)"
  shows "concat (map (of_sensor True) out) @ cs' = cs" and "concat (map (of_sensor False) out) @ ds' = ds"
    and "Pair c d \<in> set out \<Longrightarrow> decide c d = Link" and "cs' = [] \<or> ds' = []"
proof -
  have "concat (map (of_sensor True) out) @ cs' = cs \<and> concat (map (of_sensor False) out) @ ds' = ds \<and>
      (\<forall>c d. Pair c d \<in> set out \<longrightarrow> decide c d = Link) \<and> (cs' = [] \<or> ds' = [])"
    using assms
  proof (induction decide cs ds arbitrary: cs' ds' out rule: pair_up.induct)
    case (1 decide c cs d ds)
    show ?case
    proof (cases "decide c d")
      case Drop_depth
      obtain a b e where r: "pair_up decide (c # cs) ds = (a, b, e)" by (rule prod_cases3)
      then have "cs' = a" "ds' = b" "out = Single False d # e" using 1(4) Drop_depth by simp_all
      then show ?thesis using 1(1) [OF Drop_depth r] by simp
    next
      case Drop_color
      obtain a b e where r: "pair_up decide cs (d # ds) = (a, b, e)" by (rule prod_cases3)
      then have "cs' = a" "ds' = b" "out = Single True c # e" using 1(4) Drop_color by simp_all
      then show ?thesis using 1(2) [OF Drop_color r] by simp
    next
      case Link
      obtain a b e where r: "pair_up decide cs ds = (a, b, e)" by (rule prod_cases3)
      then have "cs' = a" "ds' = b" "out = Pair c d # e" using 1(4) Link by simp_all
      then show ?thesis using 1(3) [OF Link r] Link by simp
    qed
  qed auto
  then show "concat (map (of_sensor True) out) @ cs' = cs" "concat (map (of_sensor False) out) @ ds' = ds"
    "Pair c d \<in> set out \<Longrightarrow> decide c d = Link" "cs' = [] \<or> ds' = []" by blast+
qed

text \<open>When two captures belong together: the timestamps are in one window of a frame period.\<close>

definition in_window :: "int \<Rightarrow> int \<Rightarrow> int \<Rightarrow> int \<Rightarrow> int \<Rightarrow> bool" where
  "in_window delay period quarter color depth \<longleftrightarrow>
     (if delay < 0 then max 0 (depth - quarter) - delay \<le> color \<and> color \<le> max 0 (depth - quarter) - delay + period
      else max 0 (color - quarter) + delay \<le> depth \<and> depth \<le> max 0 (color - quarter) + delay + period)"

lemma ideal_link: "ideal_decide delay period quarter color depth = Link \<longleftrightarrow> in_window delay period quarter color depth"
  by (auto simp: ideal_decide_def in_window_def Let_def)

subsection \<open>Properties\<close>

text \<open>
  A running synchroniser (handle 41) whose color frame holds capture 9 with image 5; its queues 11, 21 and
  31 are empty. The user holds a reference to capture 9 and one to capture 19, a depth capture with the
  infrared image 3. The timestamps of the two images are 100 microseconds apart.
\<close>

definition one_sync :: capturesync_world where
  "one_sync =
     \<lparr>next_addr = 200, os_grants = (\<lambda>_. True), os_requests = 0,
      htype = [5 \<mapsto> H_image, 3 \<mapsto> H_image, 9 \<mapsto> H_capture, 19 \<mapsto> H_capture, 11 \<mapsto> H_queue, 21 \<mapsto> H_queue, 31 \<mapsto> H_queue,
               41 \<mapsto> H_capturesync],
      locks = [2 \<mapsto> False, 4 \<mapsto> False, 13 \<mapsto> False, 23 \<mapsto> False, 33 \<mapsto> False, 51 \<mapsto> False], conds = (\<lambda>c. c \<in> {15, 25, 35}),
      g_init_once = True, g_lock = RW_READERS 0, g_alloc = CB_default_alloc, g_free = CB_default_free,
      image_count = (\<lambda>_. 0), g_allocator_sessions = 0, blocks = (\<lambda>_. None), user_contexts = (\<lambda>_. 0), callbacks = [],
      images = (\<lambda>_. image_zero)(5 := image_zero\<lparr>img_ref_count := 2, img_lock := 2, img_dev_timestamp_usec := 1000000\<rparr>,
                                 3 := image_zero\<lparr>img_ref_count := 1, img_lock := 4, img_dev_timestamp_usec := 1000100\<rparr>),
      clock_gettime = (\<lambda>_. None), clock_reads = 0,
      captures = (\<lambda>_. capture_zero)
        (9 := \<lparr>cap_ref_count = 2, cap_lock = RW_READERS 0, cap_image = (\<lambda>_. 0)(IMAGE_TYPE_COLOR := 5), cap_temperature_c = NAN\<rparr>,
         19 := \<lparr>cap_ref_count = 1, cap_lock = RW_READERS 0, cap_image = (\<lambda>_. 0)(IMAGE_TYPE_IR := 3), cap_temperature_c = NAN\<rparr>),
      queues = (\<lambda>_. queue_zero)
        (11 := (queue_ready 2 None 13 15)\<lparr>q_enabled := True\<rparr>, 21 := (queue_ready 2 None 23 25)\<lparr>q_enabled := True\<rparr>,
         31 := (queue_ready 2 None 33 35)\<lparr>q_enabled := True\<rparr>),
      syncs = (\<lambda>_. capturesync_zero)
        (41 := \<lparr>cs_sync_queue = 11,
           cs_color = \<lparr>fi_get_typed_image = PFN_capture_get_color_image, fi_color_capture = True, fi_queue = 21, fi_capture = 9,
             fi_image = 5, fi_ts = 1000000\<rparr>,
           cs_depth_ir = \<lparr>fi_get_typed_image = PFN_capture_get_ir_image, fi_color_capture = False, fi_queue = 31, fi_capture = 0,
             fi_image = 0, fi_ts = 0\<rparr>,
           cs_fps_period = 33333, cs_fps_1_quarter_period = 8333, cs_sync_captures = True, cs_synchronized_images_only = False,
           cs_waiting_for_clean_depth_ts = False, cs_depth_captures_dropped = 0, cs_disable_sync = False,
           cs_enable_ts_logging = False, cs_depth_delay_off_color_usec = 0, cs_running = True, cs_lock = 51\<rparr>)\<rparr>"

lemma one_sync_held: "held one_sync = {5, 3}" "cheld one_sync = {9, 19}" "qheld one_sync = {11, 21, 31}"
  by (auto simp: held_def cheld_def qheld_def live_def one_sync_def image_zero_def capture_zero_def split: if_splits)

lemma one_sync_context:
  "captures one_sync 9 = \<lparr>cap_ref_count = 2, cap_lock = RW_READERS 0, cap_image = (\<lambda>_. 0)(IMAGE_TYPE_COLOR := 5), cap_temperature_c = NAN\<rparr>"
  "captures one_sync 19 = \<lparr>cap_ref_count = 1, cap_lock = RW_READERS 0, cap_image = (\<lambda>_. 0)(IMAGE_TYPE_IR := 3), cap_temperature_c = NAN\<rparr>"
  "images one_sync 5 = image_zero\<lparr>img_ref_count := 2, img_lock := 2, img_dev_timestamp_usec := 1000000\<rparr>"
  "images one_sync 3 = image_zero\<lparr>img_ref_count := 1, img_lock := 4, img_dev_timestamp_usec := 1000100\<rparr>"
  "queues one_sync 11 = (queue_ready 2 None 13 15)\<lparr>q_enabled := True\<rparr>"
  "queues one_sync 21 = (queue_ready 2 None 23 25)\<lparr>q_enabled := True\<rparr>"
  "queues one_sync 31 = (queue_ready 2 None 33 35)\<lparr>q_enabled := True\<rparr>"
  by (simp_all add: one_sync_def)

lemma ready_ring:
  assumes "q = (queue_ready 2 None l c)\<lparr>q_enabled := True\<rparr>"
  shows "ring_ok q" "contents q = []" "capacity q = 2" "q_enabled q" "q_lock q = l" "q_condition q = c" "queue_pop_blocked q = 0"
  using ring_ok_ready [of 2] by (simp_all add: assms capacity_def) (simp_all add: queue_ready_def queue_named_def queue_zero_def)

lemmas one_sync_rings = ready_ring [OF one_sync_context(5)] ready_ring [OF one_sync_context(6)] ready_ring [OF one_sync_context(7)]

lemma one_sync_refs: "client_refs one_sync c = (if c = 9 then 2 else if c = 19 then 1 else 0)"
  by (auto simp: client_refs_def one_sync_held capture_refs_def one_sync_context(1,2) one_sync_rings queued_def)

lemma one_sync_outside: "outside one_sync i = (if i = 5 then 1 else 0)"
  by (auto simp: outside_def image_refs_def slot_count_def one_sync_held one_sync_context image_zero_def uses_def image_types_def)

lemma one_sync_queue_inv: "queue_inv one_sync"
proof -
  have "alloc_inv one_sync"
    by (auto simp: one_sync_def alloc_inv_defs mem_ok_def split: if_splits)
  moreover have "images_ok one_sync"
    unfolding images_ok_def one_sync_held
    by (auto simp: one_sync_def image_wf_def apart_def owns_buffer_def image_zero_def)
  ultimately have "capture_inv one_sync"
    by (simp add: capture_inv_def image_inv_def one_sync_held one_sync_context one_sync_outside)
  moreover have "other_locks one_sync l = Some False" if "l \<in> {13, 23, 33, 51}" for l
    using that by (auto simp: other_locks_def one_sync_held one_sync_context image_zero_def) (auto simp: one_sync_def)
  moreover have "conds one_sync 15" "conds one_sync 25" "conds one_sync 35" by (simp_all add: one_sync_def)
  ultimately show ?thesis by (simp add: queue_inv_def one_sync_held queue_ok_def one_sync_rings one_sync_refs queues_apart_def)
qed

lemma one_sync_frames:
  "frame True 41 one_sync = \<lparr>fi_get_typed_image = PFN_capture_get_color_image, fi_color_capture = True, fi_queue = 21, fi_capture = 9,
     fi_image = 5, fi_ts = 1000000\<rparr>"
  "frame False 41 one_sync = \<lparr>fi_get_typed_image = PFN_capture_get_ir_image, fi_color_capture = False, fi_queue = 31, fi_capture = 0,
     fi_image = 0, fi_ts = 0\<rparr>"
  "sync_queues (syncs one_sync 41) = [11, 21, 31]" "cs_running (syncs one_sync 41)" "cs_sync_queue (syncs one_sync 41) = 11"
  "cs_sync_captures (syncs one_sync 41)" "\<not> cs_disable_sync (syncs one_sync 41)" "\<not> cs_waiting_for_clean_depth_ts (syncs one_sync 41)"
  "cs_depth_delay_off_color_usec (syncs one_sync 41) = 0" "cs_fps_period (syncs one_sync 41) = 33333"
  "cs_fps_1_quarter_period (syncs one_sync 41) = 8333" "cs_lock (syncs one_sync 41) = 51" "\<not> cs_synchronized_images_only (syncs one_sync 41)"
  by (simp_all add: frame_def get_frame_def one_sync_def sync_queues_def)

lemma one_sync_slots:
  "capture_slots one_sync 9 = (\<lambda>_. 0)(IMAGE_TYPE_COLOR := 5)" "capture_slots one_sync 19 = (\<lambda>_. 0)(IMAGE_TYPE_IR := 3)"
  "image_stamps one_sync 5 = 1000000" "image_stamps one_sync 3 = 1000100" "uint (image_stamps one_sync i) < 2 ^ 62"
  by (simp_all add: capture_slots_def image_stamps_def one_sync_context) (simp add: one_sync_def image_zero_def)

lemma one_sync_core: "sync_core 41 one_sync"
proof -
  have "0 \<le> user_refs 41 one_sync c" "0 \<le> user_images 41 one_sync c" for c
    by (simp_all add: user_refs_def user_images_def one_sync_refs one_sync_outside one_sync_frames popped_def)
  moreover have "frame_ok b (frame b 41 one_sync)" for b
    by (cases b) (simp_all add: frame_ok_def one_sync_frames sensor_pfn_def)
  moreover have "live H_capturesync one_sync 41" by (simp add: live_def one_sync_def)
  ultimately show ?thesis using one_sync_queue_inv by (simp add: sync_core_def one_sync_frames one_sync_held)
qed

lemma one_sync_stamped: "stamped 41 one_sync" "stamps_bounded one_sync" "sync_settings_ok (syncs one_sync 41)"
proof -
  show "stamped 41 one_sync" unfolding stamped_def
  proof
    fix b show "fi_capture (frame b 41 one_sync) \<noteq> 0 \<longrightarrow> uint (fi_ts (frame b 41 one_sync)) < 2 ^ 62"
      by (cases b) (simp_all add: one_sync_frames)
  qed
  show "stamps_bounded one_sync" using one_sync_slots(5) by (simp add: stamps_bounded_def)
  show "sync_settings_ok (syncs one_sync 41)"
    by (simp add: sync_settings_ok_def is_int32_def one_sync_frames)
qed

lemma one_sync_inv: "sync_inv 41 one_sync"
proof -
  have "other_locks one_sync 51 = Some False"
    by (simp add: other_locks_def one_sync_held one_sync_context image_zero_def) (simp add: one_sync_def)
  then have "own_lock False 41 one_sync" by (simp add: own_lock_def one_sync_frames one_sync_held one_sync_rings)
  then show ?thesis using one_sync_core one_sync_stamped by (simp add: sync_inv_def one_sync_frames)
qed

lemma one_sync_streams: "sensor_stream True 41 one_sync = [9]" "sensor_stream False 41 one_sync = []"
  by (simp_all add: sensor_stream_def one_sync_frames one_sync_rings)

lemma one_sync_in_step: "in_step 41 one_sync"
proof -
  have "stream_ok True 41 one_sync" "stream_ok False 41 one_sync"
    by (simp_all add: stream_ok_def one_sync_frames one_sync_streams one_sync_rings stamp_def sensor_slot_def one_sync_slots)
  then show ?thesis using one_sync_core one_sync_stamped by (simp add: in_step_def one_sync_streams one_sync_frames one_sync_rings)
qed

lemma one_sync_user: "user_refs 41 one_sync 19 = 1" "user_refs 41 one_sync 9 = 1"
  by (simp_all add: user_refs_def one_sync_refs one_sync_frames popped_def)

lemma one_sync_idle: "idle 41 one_sync"
  by (simp add: idle_def one_sync_frames one_sync_rings)

text \<open>
  (C1) The synchroniser implements the pairing of two streams. While it runs, a capture whose image is
  there joins the stream of its sensor, or when that stream is full takes the place of the oldest capture,
  which is published alone. The call returns, and the streams it leaves and what it adds to the output
  queue are those of \<open>pair_up\<close> with the decision on the exact timestamps: single captures are published
  unless only pairs are wanted, and a published pair is the depth capture with the color image of its
  partner in it.
\<close>

theorem add_capture_pairs_streams:
  assumes "sync_inv h w" and "in_step h w" and "cs_running (syncs w h)"
    and "cs_sync_captures (syncs w h)" "\<not> cs_disable_sync (syncs w h)"
    and "b \<or> \<not> cs_waiting_for_clean_depth_ts (syncs w h) \<or> stamp b w n div cs_fps_period (syncs w h) \<le> 10"
    and "n \<noteq> 0" "0 < user_refs h w n" "capture_slots w n (sensor_slot b) \<noteq> 0" "n \<notin> set (sensor_stream (\<not> b) h w)"
    and "arrive b (sensor_capacity b h w) (sensor_stream b h w) n = (early, cs)"
  shows "\<exists>w' out. capturesync_add_capture others h ZSA_RESULT_SUCCEEDED n b w = Some w' \<and> sync_inv h w' \<and> in_step h w' \<and>
     pair_up (decide_of h w) (arrived b cs True h w) (arrived b cs False h w) = (sensor_stream True h w', sensor_stream False h w', out) \<and>
     loop_output (cs_synchronized_images_only (syncs w h)) h (early @ out) w w'"
  by (rule add_capture_refines [OF assms])

theorem add_capture_pairs_streams_witness:
  "\<exists>w'. capturesync_add_capture (\<lambda>_ _ w. w) 41 ZSA_RESULT_SUCCEEDED 19 False one_sync = Some w' \<and>
     sensor_stream True 41 w' = [] \<and> sensor_stream False 41 w' = [] \<and> contents (queues w' 11) = [19] \<and>
     capture_slots w' 19 IMAGE_TYPE_COLOR = 5 \<and> capture_slots w' 19 IMAGE_TYPE_IR = 3"
proof -
  have a: "arrive False (sensor_capacity False 41 one_sync) (sensor_stream False 41 one_sync) 19 = ([], [19])"
    by (simp add: arrive_def one_sync_streams)
  have d: "decide_of 41 one_sync 9 19 = Link"
    by (simp add: decide_of_def one_sync_frames stamp_def sensor_slot_def one_sync_slots ideal_decide_def)
  from add_capture_pairs_streams [OF one_sync_inv one_sync_in_step one_sync_frames(4,6,7) _ _ _ _ _ a, of "\<lambda>_ _ w. w"] obtain w' out where
    w': "capturesync_add_capture (\<lambda>_ _ w. w) 41 ZSA_RESULT_SUCCEEDED 19 False one_sync = Some w'"
      "pair_up (decide_of 41 one_sync) [9] [19] = (sensor_stream True 41 w', sensor_stream False 41 w', out)"
      "loop_output False 41 out one_sync w'"
    by (auto simp: one_sync_frames one_sync_user one_sync_slots sensor_slot_def one_sync_streams arrived_def)
  then have e: "sensor_stream True 41 w' = []" "sensor_stream False 41 w' = []" "out = [Pair 9 19]" using d by simp_all
  have "contents (queues w' 11) = [19]" "capture_slots w' 19 IMAGE_TYPE_COLOR = 5" "capture_slots w' 19 IMAGE_TYPE_IR = 3"
    using w'(3) by (simp_all add: loop_output_def e(3) one_sync_frames one_sync_rings push_newest_def one_sync_slots)
  then show ?thesis using w'(1) e(1,2) by blast
qed

text \<open>
  (C17) The loop of the synchroniser takes the captures of each sensor in the order of their arrival, loses
  and repeats none, ends with one of the streams empty, and publishes as pairs only captures whose
  timestamps lie in one window: of the length of a frame period, from a quarter of a period before the
  reference timestamp, moved by the configured delay.
\<close>

theorem pairs_lie_in_window:
  assumes "in_step h w"
  shows "\<exists>w' out. sync_loop h ZSA_WAIT_RESULT_SUCCEEDED w = Some w' \<and>
     loop_output (cs_synchronized_images_only (syncs w h)) h out w w' \<and>
     (\<forall>b. concat (map (of_sensor b) out) @ sensor_stream b h w' = sensor_stream b h w) \<and>
     (sensor_stream True h w' = [] \<or> sensor_stream False h w' = []) \<and>
     (\<forall>c d. Pair c d \<in> set out \<longrightarrow>
        in_window (cs_depth_delay_off_color_usec (syncs w h)) (uint (cs_fps_period (syncs w h)))
          (uint (cs_fps_1_quarter_period (syncs w h))) (uint (stamp True w c)) (uint (stamp False w d)))"
proof -
  from loop_refines [OF assms, of ZSA_WAIT_RESULT_SUCCEEDED] obtain w' out where
    w': "sync_loop h ZSA_WAIT_RESULT_SUCCEEDED w = Some w'" "loop_output (cs_synchronized_images_only (syncs w h)) h out w w'"
      "pair_up (decide_of h w) (sensor_stream True h w) (sensor_stream False h w) = (sensor_stream True h w', sensor_stream False h w', out)" by blast
  note p = pair_up_sound [OF w'(3)]
  have "concat (map (of_sensor b) out) @ sensor_stream b h w' = sensor_stream b h w" for b using p(1,2) by (cases b) simp_all
  moreover have "in_window (cs_depth_delay_off_color_usec (syncs w h)) (uint (cs_fps_period (syncs w h)))
      (uint (cs_fps_1_quarter_period (syncs w h))) (uint (stamp True w c)) (uint (stamp False w d))" if "Pair c d \<in> set out" for c d
    using p(3) [OF that] by (simp add: decide_of_def ideal_link)
  ultimately show ?thesis using w'(1,2) p(4) by blast
qed

theorem pairs_lie_in_window_witness:
  "\<exists>w'. sync_loop 41 ZSA_WAIT_RESULT_SUCCEEDED one_sync = Some w' \<and> (sensor_stream True 41 w' = [] \<or> sensor_stream False 41 w' = [])"
  using pairs_lie_in_window [OF one_sync_in_step] by blast

text \<open>
  (C18) A call of \<open>capturesync_add_capture\<close> with a capture the caller holds always returns: the loop ends
  whatever captures wait. It keeps the invariant, gives and takes no reference of the users to captures or
  images, and never changes \<open>running\<close>.
\<close>

theorem add_capture_returns:
  assumes "sync_inv h w" and "stamps_bounded w" and "n = 0 \<or> 0 < user_refs h w n"
  shows "\<exists>w'. capturesync_add_capture others h ZSA_RESULT_SUCCEEDED n b w = Some w' \<and> sync_inv h w' \<and>
     user_refs h w' = user_refs h w \<and> user_images h w' = user_images h w \<and> cs_running (syncs w' h) = cs_running (syncs w h)"
  using add_capture_run [OF assms] by blast

theorem add_capture_returns_witness:
  "\<exists>w'. capturesync_add_capture (\<lambda>_ _ w. w) 41 ZSA_RESULT_SUCCEEDED 9 True one_sync = Some w' \<and> cs_running (syncs w' 41) \<and>
     user_refs 41 w' 9 = 1"
  using add_capture_returns [OF one_sync_inv one_sync_stamped(2), of 9 "\<lambda>_ _ w. w" True] by (auto simp: one_sync_user one_sync_frames)

text \<open>
  (C29) For frame periods and delays of 32 bits and timestamps below \<open>2 ^ 62\<close> the arithmetic on \<open>uint64_t\<close>
  and \<open>int64_t\<close> is exact: the code takes the decision of the window in the integers.
\<close>

theorem sync_window_exact:
  assumes "sync_settings_ok s" and "uint (fi_ts (cs_color s)) < 2 ^ 62" and "uint (fi_ts (cs_depth_ir s)) < 2 ^ 62"
  shows "sync_decide s = Some (ideal_decide (cs_depth_delay_off_color_usec s) (uint (cs_fps_period s))
     (uint (cs_fps_1_quarter_period s)) (uint (fi_ts (cs_color s))) (uint (fi_ts (cs_depth_ir s))))"
  by (rule sync_decide_exact [OF assms])

theorem sync_window_exact_witness:
  "sync_decide ((syncs one_sync 41)\<lparr>cs_depth_ir := frame_zero\<lparr>fi_ts := 1100000\<rparr>\<rparr>) = Some Drop_color"
proof -
  let ?s = "(syncs one_sync 41)\<lparr>cs_depth_ir := frame_zero\<lparr>fi_ts := 1100000\<rparr>\<rparr>"
  have "sync_settings_ok ?s" "fi_ts (cs_color ?s) = 1000000" using one_sync_stamped(3) one_sync_frames(1)
    by (simp_all add: sync_settings_ok_def frame_def get_frame_def)
  from sync_window_exact [OF this(1)] this(2) show ?thesis by (simp add: one_sync_frames ideal_decide_def)
qed

text \<open>
  (C30) \<open>capturesync_stop\<close> returns while no consumer waits; afterwards the synchroniser does not run, its
  frames and its queues are empty, the queues are disabled, and the references of the users are what they
  were: everything the synchroniser held has been released.
\<close>

theorem capturesync_stop_releases:
  assumes "sync_inv h w" and "idle h w"
  shows "\<exists>w'. capturesync_stop others h w = Some w' \<and> sync_inv h w' \<and> \<not> cs_running (syncs w' h) \<and>
     (\<forall>b. fi_capture (frame b h w') = 0 \<and> fi_image (frame b h w') = 0) \<and>
     sync_queues (syncs w' h) = sync_queues (syncs w h) \<and>
     (\<forall>q \<in> set (sync_queues (syncs w h)). \<not> q_enabled (queues w' q) \<and> contents (queues w' q) = []) \<and>
     user_refs h w' = user_refs h w \<and> user_images h w' = user_images h w"
  using capturesync_stop_run [OF assms] by blast

theorem capturesync_stop_releases_witness:
  "\<exists>w'. capturesync_stop (\<lambda>_ _ w. w) 41 one_sync = Some w' \<and> fi_capture (frame True 41 w') = 0 \<and> user_refs 41 w' 9 = 1"
  using capturesync_stop_releases [OF one_sync_inv one_sync_idle, of "\<lambda>_ _ w. w"] by (auto simp: one_sync_user)



text \<open>
  An error reported without a synchroniser is fatal: the failed check of the handle is ignored on the
  error path and the null context is used. Without an error the call returns and does nothing.
\<close>

lemma capture_error_without_sync_faults:
  "capturesync_add_capture others 0 ZSA_RESULT_FAILED n b w = None \<and>
   capturesync_add_capture others 0 ZSA_RESULT_SUCCEEDED n b w = Some w"
  by (simp add: capturesync_add_capture_def)

text \<open>
  \<open>capturesync_start\<close> of an idle synchroniser succeeds for the frame rates of the interface: it runs
  with enabled queues, a period of a million microseconds divided by the frame rate (never 0, so that the
  division by the period is safe) and synchronises when both sensors are on. It keeps the invariant, the
  frames and the references of the users.
\<close>

lemma capturesync_start_settings:
  assumes "sync_inv h w" and "idle h w" and "zsa_convert_fps_to_uint (cfg_camera_fps cfg) = Some fps"
    and "is_int32 (cfg_depth_delay_off_color_usec cfg)"
  shows "\<exists>w'. capturesync_start h (Some cfg) w = Some (ZSA_RESULT_SUCCEEDED, w') \<and> sync_inv h w' \<and>
     started_with cfg fps (syncs w h) (syncs w' h) \<and> (\<forall>q \<in> set (sync_queues (syncs w h)). q_enabled (queues w' q)) \<and>
     user_refs h w' = user_refs h w \<and> user_images h w' = user_images h w"
  using capturesync_start_run [OF assms] by blast

lemma capturesync_start_settings_witness:
  "\<exists>w'. capturesync_start 41 (Some (ZSA_DEVICE_CONFIG_INIT_DISABLE_ALL\<lparr>cfg_camera_fps := ZSA_FRAMES_PER_SECOND_15\<rparr>)) one_sync =
       Some (ZSA_RESULT_SUCCEEDED, w') \<and> uint (cs_fps_period (syncs w' 41)) = 66666 \<and> \<not> cs_sync_captures (syncs w' 41)"
proof -
  let ?c = "ZSA_DEVICE_CONFIG_INIT_DISABLE_ALL\<lparr>cfg_camera_fps := ZSA_FRAMES_PER_SECOND_15\<rparr>"
  have "zsa_convert_fps_to_uint (cfg_camera_fps ?c) = Some 15" "is_int32 (cfg_depth_delay_off_color_usec ?c)"
    by (simp_all add: is_int32_def ZSA_DEVICE_CONFIG_INIT_DISABLE_ALL_def)
  from capturesync_start_settings [OF one_sync_inv one_sync_idle this] show ?thesis
    by (auto simp: started_with_def ZSA_DEVICE_CONFIG_INIT_DISABLE_ALL_def)
qed

end
