(* ===== verification/Usbcommand_Spec.thy ===== *)
theory Usbcommand_Spec
  imports Usbcommand Capturesync_Spec
begin

text \<open>
  What the USB command component promises: the transaction protocol of \<open>usb_cmd_io\<close>, the life cycle of a
  handle, the enumeration of the devices and the queries, over every answer of the library and of the device.
\<close>

subsection \<open>Transactions\<close>

text \<open>The calls of a complete transaction: the command packet, the data and the response packet.\<close>

definition transaction_calls :: "usbcmd_context_t \<Rightarrow> u32 \<Rightarrow> bytes \<Rightarrow> nat \<Rightarrow> bytes option \<Rightarrow> bytes option \<Rightarrow> history" where
  "transaction_calls c cmd cmd_data n p_rx p_tx =
     LU_bulk_out (uc_libusb c) (uc_cmd_tx_endpoint c) (usb_command_packet c cmd n cmd_data) #
     (case p_tx of None \<Rightarrow> [] | Some tx \<Rightarrow> [LU_bulk_out (uc_libusb c) (uc_cmd_tx_endpoint c) (take n tx)]) @
     (case p_rx of None \<Rightarrow> [] | Some rx \<Rightarrow> [LU_bulk_in (uc_libusb c) (uc_cmd_rx_endpoint c) n]) @
     [LU_bulk_in (uc_libusb c) (uc_cmd_rx_endpoint c) sizeof_response]"

text \<open>A response of the device to transaction \<open>tid\<close> with status \<open>s\<close>, read after the calls \<open>hist\<close>.\<close>

definition responds :: "libusb_api \<Rightarrow> usbcmd_context_t \<Rightarrow> history \<Rightarrow> u32 \<Rightarrow> u32 \<Rightarrow> bool" where
  "responds api c hist tid s \<longleftrightarrow>
     (\<exists>data. api_bulk_in api hist (uc_libusb c) (uc_cmd_rx_endpoint c) sizeof_response = (LIBUSB_SUCCESS, data) \<and> length data = sizeof_response \<and>
        response_of_bytes data = \<lparr>rsp_packet_type = USB_CMD_PACKET_TYPE_RESPONSE, rsp_packet_transaction_id = tid, rsp_status = s,
          rsp_reserved = rsp_reserved (response_of_bytes data)\<rparr>)"

lemma bulk_in_bounded: "api_bounded api \<Longrightarrow> api_bulk_in api hist d ep n = (err, data) \<Longrightarrow> length data \<le> n"
  unfolding api_bounded_def by (metis snd_conv)

definition io_done :: "libusb_api \<Rightarrow> ptr \<Rightarrow> u32 \<Rightarrow> bytes \<Rightarrow> nat \<Rightarrow> bytes option \<Rightarrow> bytes option \<Rightarrow> 'a usb_world_scheme \<Rightarrow> u32 option \<Rightarrow>
    'a usb_world_scheme \<Rightarrow> bool" where
  "io_done api h cmd cmd_data n p_rx p_tx w status w' \<longleftrightarrow>
     (let c = usbcmds w h; full = transaction_calls c cmd cmd_data n p_rx p_tx in
      \<exists>calls. w' = w\<lparr>usbcmds := (usbcmds w)(h := c\<lparr>uc_transaction_id := uc_transaction_id c + 1\<rparr>), libusb_calls := libusb_calls w @ calls\<rparr> \<and>
        (\<exists>m. calls = take m full) \<and>
        (\<forall>s. status = Some s \<longrightarrow> calls = full \<and> responds api c (libusb_calls w @ butlast full) (uc_transaction_id c) s))"

lemma usb_cmd_io_data_run:
  fixes w :: "'a usb_world_scheme" and h :: ptr and n :: nat and p_tx p_rx :: "bytes option"
  assumes api: "api_bounded api" and tx: "\<And>tx. p_tx = Some tx \<Longrightarrow> n \<le> length tx" and rx: "\<And>rx. p_rx = Some rx \<Longrightarrow> n \<le> length rx"
  defines "full \<equiv> (case p_tx of None \<Rightarrow> [] | Some tx \<Rightarrow> [LU_bulk_out (uc_libusb (usbcmds w h)) (uc_cmd_tx_endpoint (usbcmds w h)) (take n tx)]) @
     (case p_rx of None \<Rightarrow> [] | Some rx \<Rightarrow> [LU_bulk_in (uc_libusb (usbcmds w h)) (uc_cmd_rx_endpoint (usbcmds w h)) n])"
  shows "\<exists>go count p_rx' w' k. usb_cmd_io_data api h n p_rx p_tx w = Some (go, count, p_rx', w') \<and>
     w' = w\<lparr>libusb_calls := libusb_calls w @ k\<rparr> \<and> (\<exists>m. k = take m full) \<and> (go \<longrightarrow> k = full)"
proof -
  let ?d = "uc_libusb (usbcmds w h)" and ?t = "uc_cmd_tx_endpoint (usbcmds w h)" and ?r = "uc_cmd_rx_endpoint (usbcmds w h)"
  define k1 where "k1 = (case p_tx of None \<Rightarrow> [] | Some tx \<Rightarrow> [LU_bulk_out ?d ?t (take n tx)])"
  let ?w1 = "w\<lparr>libusb_calls := libusb_calls w @ k1\<rparr>"
  have "\<exists>go count. (case p_tx of None \<Rightarrow> Some (True, 0, w) | Some tx \<Rightarrow>
            if length tx < n then None
            else case libusb_bulk_out api ?d ?t (take n tx) w of
                   (err, n, w) \<Rightarrow> Some (err = LIBUSB_SUCCESS, if err = LIBUSB_SUCCESS then n else 0, w)) = Some (go, count, ?w1)"
    using tx by (auto simp: k1_def libusb_bulk_out_def lu_call_def split: option.splits prod.splits)
  then obtain go1 count1 where out: "(case p_tx of None \<Rightarrow> Some (True, 0, w) | Some tx \<Rightarrow>
            if length tx < n then None
            else case libusb_bulk_out api ?d ?t (take n tx) w of
                   (err, n, w) \<Rightarrow> Some (err = LIBUSB_SUCCESS, if err = LIBUSB_SUCCESS then n else 0, w)) = Some (go1, count1, ?w1)" by blast
  have "k1 = take (length k1) full" by (simp add: k1_def full_def)
  note run = usb_cmd_io_data_def [of api h n p_rx p_tx w, unfolded Let_def, unfolded out]
  show ?thesis
  proof (cases "\<not> go1 \<or> p_rx = None")
    case True
    then have "usb_cmd_io_data api h n p_rx p_tx w = Some (go1, count1, p_rx, ?w1)" using run by auto
    moreover have "go1 \<longrightarrow> k1 = full" using True by (auto simp: full_def k1_def)
    ultimately show ?thesis using \<open>k1 = take (length k1) full\<close> by blast
  next
    case False
    then obtain r where r: "p_rx = Some r" by blast
    obtain err data where a: "api_bulk_in api (libusb_calls w @ k1) ?d ?r n = (err, data)" by fastforce
    have "length data \<le> length r" using bulk_in_bounded [OF api a] rx [OF r] by simp
    then obtain b where b: "overwrite r data = Some b" using overwrite_bounded by blast
    let ?w2 = "w\<lparr>libusb_calls := libusb_calls w @ k1 @ [LU_bulk_in ?d ?r n]\<rparr>"
    have "usb_cmd_io_data api h n p_rx p_tx w = Some (err = LIBUSB_SUCCESS, if err = LIBUSB_SUCCESS then int (length data) else 0, Some b, ?w2)"
      using run False r a b by (simp add: libusb_bulk_in_def lu_call_def)
    moreover have "full = k1 @ [LU_bulk_in ?d ?r n]" by (simp add: full_def k1_def r)
    ultimately show ?thesis by (metis take_all order_refl)
  qed
qed

lemma usb_cmd_io_locked_run:
  assumes api: "api_bounded api" and tx: "\<And>tx. p_tx = Some tx \<Longrightarrow> n \<le> length tx" and rx: "\<And>rx. p_rx = Some rx \<Longrightarrow> n \<le> length rx"
  shows "\<exists>status count p_rx' w'. usb_cmd_io_locked api h cmd cmd_data n p_rx p_tx w = Some (status, count, p_rx', w') \<and>
     io_done api h cmd cmd_data n p_rx p_tx w status w'"
proof -
  let ?c = "usbcmds w h"
  let ?c1 = "?c\<lparr>uc_transaction_id := uc_transaction_id ?c + 1\<rparr>"
  let ?first = "LU_bulk_out (uc_libusb ?c) (uc_cmd_tx_endpoint ?c) (usb_command_packet ?c cmd n cmd_data)"
  let ?last = "LU_bulk_in (uc_libusb ?c) (uc_cmd_rx_endpoint ?c) sizeof_response"
  define w1 where "w1 = lu_call ?first (put_usbcmd h ?c1 w)"
  obtain err m where a: "api_bulk_out api (libusb_calls w) (uc_libusb ?c) (uc_cmd_tx_endpoint ?c) (usb_command_packet ?c cmd n cmd_data) = (err, m)" by fastforce
  have w1: "w1 = w\<lparr>usbcmds := (usbcmds w)(h := ?c1), libusb_calls := libusb_calls w @ [?first]\<rparr>" by (simp add: w1_def lu_call_def put_usbcmd_def)
  define mid where "mid = (case p_tx of None \<Rightarrow> [] | Some tx \<Rightarrow> [LU_bulk_out (uc_libusb ?c) (uc_cmd_tx_endpoint ?c) (take n tx)]) @
     (case p_rx of None \<Rightarrow> [] | Some rx \<Rightarrow> [LU_bulk_in (uc_libusb ?c) (uc_cmd_rx_endpoint ?c) n])"
  have full: "transaction_calls ?c cmd cmd_data n p_rx p_tx = ?first # mid @ [?last]" by (simp add: transaction_calls_def mid_def)
  have c1: "uc_libusb (usbcmds w1 h) = uc_libusb ?c" "uc_cmd_tx_endpoint (usbcmds w1 h) = uc_cmd_tx_endpoint ?c"
    "uc_cmd_rx_endpoint (usbcmds w1 h) = uc_cmd_rx_endpoint ?c" by (simp_all add: w1)
  have pre: "io_done api h cmd cmd_data n p_rx p_tx w None (w1\<lparr>libusb_calls := libusb_calls w1 @ take m mid\<rparr>)" for m
    unfolding io_done_def Let_def full
    by (rule exI [of _ "?first # take m mid"])
      (use take_append [of "min m (length mid)" mid "[?last]"] in \<open>auto simp: w1 min_def intro!: exI [of _ "Suc (min m (length mid))"]\<close>)
  have first: "usb_cmd_io_locked api h cmd cmd_data n p_rx p_tx w =
      (if err \<noteq> LIBUSB_SUCCESS then Some (None, 0, p_rx, w1)
       else do {
         (go_on, count, p_rx, w) \<leftarrow> usb_cmd_io_data api h n p_rx p_tx w1;
         if \<not> go_on then Some (None, count, p_rx, w)
         else do { (status, w) \<leftarrow> usb_cmd_io_status api h (uc_transaction_id ?c) w; Some (status, count, p_rx, w) } })"
    using a by (simp add: usb_cmd_io_locked_def Let_def libusb_bulk_out_def w1_def)
  from usb_cmd_io_data_run [where w = w1 and h = h and p_tx = p_tx and p_rx = p_rx, OF api tx rx, unfolded c1, folded mid_def] obtain go count p_rx' w2 k where
    d: "usb_cmd_io_data api h n p_rx p_tx w1 = Some (go, count, p_rx', w2)" "w2 = w1\<lparr>libusb_calls := libusb_calls w1 @ k\<rparr>"
      "\<exists>m. k = take m mid" "go \<longrightarrow> k = mid" by blast
  show ?thesis
  proof (cases "err = LIBUSB_SUCCESS \<and> go")
    case False
    have "w1\<lparr>libusb_calls := libusb_calls w1 @ take 0 mid\<rparr> = w1" by simp
    then show ?thesis using first d False pre [of 0] pre by (cases "err = LIBUSB_SUCCESS") auto
  next
    case True
    obtain e data where s: "api_bulk_in api (libusb_calls w @ ?first # mid) (uc_libusb ?c) (uc_cmd_rx_endpoint ?c) sizeof_response = (e, data)" by fastforce
    let ?w3 = "w1\<lparr>libusb_calls := libusb_calls w1 @ mid @ [?last]\<rparr>"
    let ?st = "if e = LIBUSB_SUCCESS \<and> length data = sizeof_response \<and> rsp_packet_transaction_id (response_of_bytes data) = uc_transaction_id ?c \<and>
          rsp_packet_type (response_of_bytes data) = USB_CMD_PACKET_TYPE_RESPONSE then Some (rsp_status (response_of_bytes data)) else None"
    have st: "usb_cmd_io_status api h (uc_transaction_id ?c) w2 = Some (?st, ?w3)"
      using True d(2,4) s bulk_in_bounded [OF api s] by (simp add: usb_cmd_io_status_def libusb_bulk_in_def w1 lu_call_def)
    have "io_done api h cmd cmd_data n p_rx p_tx w ?st ?w3"
      unfolding io_done_def Let_def full responds_def
      by (rule exI [of _ "?first # mid @ [?last]"])
        (use s in \<open>auto simp: w1 butlast_append intro: exI [of _ "Suc (length mid + 1)"]\<close>)
    then show ?thesis using first d(1) st True by auto
  qed
qed

text \<open>What a caller has to pass: sizes within the limits, and buffers that are as long as their sizes.\<close>

definition io_args :: "bytes option \<Rightarrow> u64 \<Rightarrow> bytes option \<Rightarrow> u64 \<Rightarrow> bytes option \<Rightarrow> u64 \<Rightarrow> bool" where
  "io_args p_cmd_data cmd_data_size p_rx rx_size p_tx tx_size \<longleftrightarrow>
     cmd_data_size \<le> USB_MAX_TX_DATA \<and> (0 < cmd_data_size \<longrightarrow> (\<exists>d. p_cmd_data = Some d \<and> 8 \<le> length d \<and> unat cmd_data_size \<le> length d)) \<and>
     (case (p_rx, p_tx) of
        (None, None) \<Rightarrow> rx_size = 0 \<and> tx_size = 0
      | (Some rx, None) \<Rightarrow> rx_size \<noteq> 0 \<and> uint rx_size \<le> INT32_MAX \<and> unat rx_size \<le> length rx
      | (None, Some tx) \<Rightarrow> rx_size = 0 \<and> uint tx_size \<le> INT32_MAX \<and> unat tx_size \<le> length tx
      | _ \<Rightarrow> False)"

abbreviation "cmd_bytes p_cmd_data cmd_data_size \<equiv> (case p_cmd_data of None \<Rightarrow> [] | Some d \<Rightarrow> take (unat (cmd_data_size :: u64)) d)"

lemma usb_cmd_io_run:
  fixes w :: "'a usb_world_scheme"
  assumes api: "api_bounded api" and ready: "usb_ready h w" and args: "io_args p_cmd_data cmd_data_size p_rx rx_size p_tx tx_size"
  shows "\<exists>result rx count status w'.
     usb_cmd_io api h cmd p_cmd_data cmd_data_size p_rx rx_size p_tx tx_size transfer_count (Some st) w =
       Some (result, rx, count, Some status, w') \<and> usb_ready h w' \<and> (result = ZSA_RESULT_FAILED \<longrightarrow> status = st) \<and>
     io_done api h cmd (cmd_bytes p_cmd_data cmd_data_size) (unat (if rx_size = 0 then tx_size else rx_size)) p_rx p_tx w
       (if result = ZSA_RESULT_SUCCEEDED then Some status else None) w'"
proof -
  let ?l = "uc_lock (usbcmds w h)" and ?size = "if rx_size = 0 then tx_size else rx_size" and ?d = "cmd_bytes p_cmd_data cmd_data_size"
  let ?n = "unat ?size"
  let ?w1 = "w\<lparr>locks := (locks w)(?l := Some True)\<rparr>"
  have r: "live H_usbcmd w h" "?l \<noteq> 0" "locks w ?l = Some False" "length (uc_serial_number (usbcmds w h)) = MAX_SERIAL_NUMBER_LENGTH"
    using ready by (simp_all add: usb_ready_def)
  have a: "\<not> cmd_data_size > USB_MAX_TX_DATA" "\<not> uint ?size > INT32_MAX" "p_rx = None \<or> p_tx = None"
      "\<not> (cmd_data_size > 0 \<and> (case p_cmd_data of None \<Rightarrow> True | Some d \<Rightarrow> length d < 8 \<or> length d < unat cmd_data_size))"
      "\<And>tx. p_tx = Some tx \<Longrightarrow> ?n \<le> length tx" "\<And>rx. p_rx = Some rx \<Longrightarrow> ?n \<le> length rx"
    using args by (auto simp: io_args_def split: option.splits)
  have lock: "Lock ?l w = Some (LOCK_OK, ?w1)" using r by (simp add: Lock_free)
  from usb_cmd_io_locked_run [OF api, of p_tx ?n p_rx h cmd ?d ?w1, OF a(5,6)] obtain status count rx w2 where
    s: "usb_cmd_io_locked api h cmd ?d ?n p_rx p_tx ?w1 = Some (status, count, rx, w2)" "io_done api h cmd ?d ?n p_rx p_tx ?w1 status w2" by blast
  from s(2) obtain calls where calls:
    "w2 = ?w1\<lparr>usbcmds := (usbcmds w)(h := (usbcmds w h)\<lparr>uc_transaction_id := uc_transaction_id (usbcmds w h) + 1\<rparr>), libusb_calls := libusb_calls w @ calls\<rparr>"
    "\<exists>m. calls = take m (transaction_calls (usbcmds w h) cmd ?d ?n p_rx p_tx)"
    "\<forall>s. status = Some s \<longrightarrow> calls = transaction_calls (usbcmds w h) cmd ?d ?n p_rx p_tx \<and>
       responds api (usbcmds w h) (libusb_calls w @ butlast (transaction_calls (usbcmds w h) cmd ?d ?n p_rx p_tx)) (uc_transaction_id (usbcmds w h)) s"
    by (auto simp: io_done_def Let_def)
  define w3 where "w3 = w\<lparr>usbcmds := (usbcmds w)(h := (usbcmds w h)\<lparr>uc_transaction_id := uc_transaction_id (usbcmds w h) + 1\<rparr>),
    libusb_calls := libusb_calls w @ calls\<rparr>"
  have un: "Unlock ?l w2 = Some (LOCK_OK, w3)" "uc_lock (usbcmds w2 h) = ?l" using r by (simp_all add: calls(1) Unlock_def w3_def fun_upd_idem)
  have io: "usb_cmd_io api h cmd p_cmd_data cmd_data_size p_rx rx_size p_tx tx_size transfer_count (Some st) w =
      Some (ZSA_RESULT_FROM_BOOL (status \<noteq> None), rx, map_option (\<lambda>_. word_of_int count) transfer_count, (if status = None then Some st else status), w3)"
    unfolding usb_cmd_io_def Let_def using a(1-4) r(1) s(1) lock un by (auto simp: if_not_P)
  have "usb_ready h w3" using r by (simp add: usb_ready_def w3_def live_def)
  moreover have "io_done api h cmd ?d ?n p_rx p_tx w status w3" using calls(2,3) unfolding io_done_def Let_def w3_def by blast
  ultimately show ?thesis using io by (cases status) auto
qed

subsection \<open>Enumeration\<close>

abbreviation "devices_with pid descr devs \<equiv> length (filter (\<lambda>d. idVendor (descr d) = ZSA_MSFT_VID \<and> idProduct (descr d) = pid) devs)"

lemma count_devices_run:
  assumes "\<And>hist d. d \<in> set devs \<Longrightarrow> api_get_device_descriptor api hist d = (LIBUSB_SUCCESS, descr d)"
  shows "count_devices api devs color depth w =
     (ZSA_RESULT_SUCCEEDED, color + of_nat (devices_with ZSA_RGB_PID descr devs), depth + of_nat (devices_with ZSA_DEPTH_PID descr devs),
      w\<lparr>libusb_calls := libusb_calls w @ map LU_get_device_descriptor devs\<rparr>)"
  using assms
proof (induction devs arbitrary: color depth w)
  case (Cons d devs)
  from Cons.prems have d: "api_get_device_descriptor api hist d = (LIBUSB_SUCCESS, descr d)" for hist by simp
  from Cons show ?case by (simp add: libusb_get_device_descriptor_def d lu_call_def)
qed simp

lemma descriptor_calls [simp]:
  "fold lu_context_step (map LU_get_device_descriptor devs) cs = cs" "fold lu_open_step (map LU_get_device_descriptor devs) hs = hs"
  by (induction devs) simp_all

lemma max_of_nat: "m < 2 ^ 32 \<Longrightarrow> n < 2 ^ 32 \<Longrightarrow> max (of_nat m :: u32) (of_nat n) = of_nat (max m n)"
  by (simp add: max_def word_le_nat_alt unsigned_of_nat take_bit_nat_eq_self)

lemma device_count_run:
  fixes w :: "'a usb_world_scheme"
  assumes init: "api_init api (libusb_calls w) = (LIBUSB_SUCCESS, ctx)"
    and list: "\<And>hist. api_get_device_list api hist ctx = (int (length devs), devs)" "int (length devs) \<le> INT32_MAX"
    and descr: "\<And>hist d. d \<in> set devs \<Longrightarrow> api_get_device_descriptor api hist d = (LIBUSB_SUCCESS, descr d)"
  shows "\<exists>w'. usb_cmd_get_device_count api (Some n) w =
      (if devs = [] then (ZSA_RESULT_FAILED, Some 0, w')
       else (ZSA_RESULT_SUCCEEDED, Some (of_nat (max (devices_with ZSA_RGB_PID descr devs) (devices_with ZSA_DEPTH_PID descr devs))), w')) \<and>
     open_contexts (libusb_calls w') = (if devs = [] then [ctx] else []) @ open_contexts (libusb_calls w) \<and>
     open_handles (libusb_calls w') = open_handles (libusb_calls w)"
proof -
  let ?w1 = "lu_call (LU_get_device_list ctx (int (length devs))) (lu_call (LU_set_option ctx LIBUSB_LOG_LEVEL_NONE) (lu_call (LU_init LIBUSB_SUCCESS ctx) w))"
  have small: "devices_with pid descr devs < 2 ^ 32" for pid
    by (rule le_less_trans [OF length_filter_le]) (use list(2) in simp)
  have run: "usb_cmd_get_device_count api (Some n) w =
      (if devs = [] then (ZSA_RESULT_FAILED, Some 0, ?w1)
       else case count_devices api devs 0 0 ?w1 of (result, color, depth, w) \<Rightarrow>
         (result, Some (max color depth), libusb_exit ctx (libusb_free_device_list devs w)))"
    using list by (simp add: usb_cmd_get_device_count_def libusb_init_def init libusb_logging_disable_def libusb_set_option_def
      libusb_get_device_list_def)
  show ?thesis
  proof (cases "devs = []")
    case True
    then show ?thesis using run by simp
  next
    case False
    then show ?thesis using run
      by (simp add: count_devices_run [where descr = descr, OF descr] max_of_nat [OF small small] libusb_exit_def libusb_free_device_list_def)
  qed
qed

subsection \<open>The serial number\<close>

lemma serial_number_run:
  assumes "live H_usbcmd w h" and "uc_serial_number (usbcmds w h) = s @ 0 # rest" and "0 \<notin> set s" and "length s < 2 ^ 32"
  shows "usb_cmd_get_serial_number h buf (Some n) w =
     (if n < of_nat (length s + 1) then Some (ZSA_BUFFER_RESULT_TOO_SMALL, buf, Some (of_nat (length s + 1)))
      else case buf of None \<Rightarrow> Some (ZSA_BUFFER_RESULT_FAILED, None, Some n)
           | Some b \<Rightarrow> map_option (\<lambda>b. (ZSA_BUFFER_RESULT_SUCCEEDED, Some b, Some (of_nat (length s + 1)))) (overwrite b (s @ [0])))"
proof -
  have "takeWhile (\<lambda>b. b \<noteq> 0) (s @ 0 # rest) = s" using assms(3) by (auto simp: takeWhile_append)
  then have "c_strlen (uc_serial_number (usbcmds w h)) = Some (length s)" using assms(2) by (simp add: c_strlen_def)
  then show ?thesis using assms(1,2)
    by (auto simp: usb_cmd_get_serial_number_def Let_def overwrite_def split: option.splits)
qed

subsection \<open>An example\<close>

text \<open>
  A library that finds a color and a depth processor, opens them, and whose device answers the first command
  with status 0. In the world a depth processor is open.
\<close>

definition demo_descriptor :: "ptr \<Rightarrow> libusb_device_descriptor" where
  "demo_descriptor d = \<lparr>idVendor = ZSA_MSFT_VID, idProduct = (if d = 75 then ZSA_DEPTH_PID else ZSA_RGB_PID), iSerialNumber = 3\<rparr>"

definition demo_api :: libusb_api where
  "demo_api = \<lparr>api_init = (\<lambda>_. (0, 73)), api_set_option = (\<lambda>_ _ _. 0), api_get_device_list = (\<lambda>_ _. (2, [75, 77])),
     api_get_device_descriptor = (\<lambda>_ d. (0, demo_descriptor d)), api_open = (\<lambda>_ d. (0, d + 100)),
     api_get_bos_descriptor = (\<lambda>_ _. (0, [\<lparr>bDevCapabilityType = LIBUSB_BT_CONTAINER_ID, cap_address = 79\<rparr>])),
     api_get_container_id_descriptor = (\<lambda>_ _. (0, \<lparr>guid_id = replicate 16 7\<rparr>)),
     api_get_string_descriptor_ascii = (\<lambda>_ _ _ n. (2, take n [0x31, 0x32])),
     api_get_configuration = (\<lambda>_ _. (0, 1)), api_set_configuration = (\<lambda>_ _ _. 0), api_kernel_driver_active = (\<lambda>_ _ _. 0),
     api_detach_kernel_driver = (\<lambda>_ _ _. 0), api_claim_interface = (\<lambda>_ _ _. 0),
     api_bulk_out = (\<lambda>_ _ _ data. (0, int (length data))),
     api_bulk_in = (\<lambda>_ _ _ n. (0, take n (le32 USB_CMD_PACKET_TYPE_RESPONSE @ replicate 12 0))),
     api_alloc_transfer = (\<lambda>_. 85), api_submit_transfer = (\<lambda>_ _. 0), api_handle_events = (\<lambda>_ _. 0)\<rparr>"

definition one_usb :: usb_world where
  "one_usb = capturesync_world.extend
     (one_sync\<lparr>htype := (htype one_sync)(61 \<mapsto> H_usbcmd), locks := (locks one_sync)(63 \<mapsto> False)\<rparr>)
     (usb_world.fields
        ((\<lambda>_. usbcmd_zero)(61 := usbcmd_zero\<lparr>uc_libusb := 175, uc_libusb_context := 73, uc_cmd_tx_endpoint := 2, uc_cmd_rx_endpoint := 129,
           uc_lock := 63, uc_serial_number := [0x31, 0x32] @ replicate 24 0\<rparr>))
        (\<lambda>_. None) [LU_init 0 73, LU_open 75 0 175])"

lemma demo_api_ok: "api_bounded demo_api" "api_nonnull demo_api"
  by (simp_all add: api_bounded_def api_nonnull_def demo_api_def) (auto simp: min_def)

lemma one_usb_simps [simp]:
  "usbcmds one_usb 61 = usbcmd_zero\<lparr>uc_libusb := 175, uc_libusb_context := 73, uc_cmd_tx_endpoint := 2, uc_cmd_rx_endpoint := 129,
     uc_lock := 63, uc_serial_number := [0x31, 0x32] @ replicate 24 0\<rparr>"
  "libusb_calls one_usb = [LU_init 0 73, LU_open 75 0 175]" "htype one_usb = (htype one_sync)(61 \<mapsto> H_usbcmd)"
  "locks one_usb = (locks one_sync)(63 \<mapsto> False)" "next_addr one_usb = 200" "conds one_usb = (\<lambda>c. c \<in> {15, 25, 35})"
  by (simp_all add: one_usb_def usb_world.defs capturesync_world.defs one_sync_def)

lemma one_usb_ready: "usb_ready 61 one_usb" "mem_ok one_usb"
  by (simp_all add: usb_ready_def live_def usbcmd_zero_def mem_ok_def) (simp add: one_sync_def)

subsection \<open>Properties\<close>



text \<open>
  (C32) The creation of a device is all or nothing. It returns whatever the library answers; when it fails,
  the devices and contexts of the library, the handles and the locks are those of before, and the handle is
  null. When it succeeds the device can be used, and its destruction closes the device and the library
  again and gives the handle and the lock back.
\<close>

theorem usb_create_all_or_nothing:
  assumes "api_nonnull api" and "api_bounded api" and "mem_ok w" and "t \<in> {USB_DEVICE_DEPTH_PROCESSOR, USB_DEVICE_COLOR_IMU_PROCESSOR}"
  shows "\<exists>r h w'. usb_cmd_create api t i cid p w = Some (r, h, w') \<and>
     (if r = ZSA_RESULT_SUCCEEDED
      then usb_ready h w' \<and> uc_libusb (usbcmds w' h) \<noteq> 0 \<and> uc_libusb_context (usbcmds w' h) \<noteq> 0 \<and>
        (\<exists>w''. usb_cmd_destroy thread h w' = Some w'' \<and> htype w'' = (htype w')(h := None) \<and> locks w'' = (locks w')(uc_lock (usbcmds w' h) := None) \<and>
           open_handles (libusb_calls w'') = open_handles (libusb_calls w) \<and> open_contexts (libusb_calls w'') = open_contexts (libusb_calls w))
      else h = 0 \<and> open_handles (libusb_calls w') = open_handles (libusb_calls w) \<and>
        open_contexts (libusb_calls w') = open_contexts (libusb_calls w) \<and> htype w' = htype w \<and> locks w' = locks w)"
proof -
  from usb_cmd_create_run [OF assms] obtain r h w' where c: "usb_cmd_create api t i cid p w = Some (r, h, w')"
    "if r = ZSA_RESULT_SUCCEEDED
      then usb_ready h w' \<and> htype w h = None \<and> balanced (open_handles (libusb_calls w)) (open_contexts (libusb_calls w)) h w' \<and>
        uc_libusb (usbcmds w' h) \<noteq> 0 \<and> uc_libusb_context (usbcmds w' h) \<noteq> 0 \<and> uc_stream_handle (usbcmds w' h) = 0
      else h = 0 \<and> open_handles (libusb_calls w') = open_handles (libusb_calls w) \<and>
        open_contexts (libusb_calls w') = open_contexts (libusb_calls w) \<and> htype w' = htype w \<and> locks w' = locks w" by blast
  show ?thesis
  proof (cases "r = ZSA_RESULT_SUCCEEDED")
    case True
    then have s: "usb_ready h w'" "balanced (open_handles (libusb_calls w)) (open_contexts (libusb_calls w)) h w'"
        "uc_libusb (usbcmds w' h) \<noteq> 0" "uc_libusb_context (usbcmds w' h) \<noteq> 0" "uc_stream_handle (usbcmds w' h) = 0" using c(2) by simp_all
    then have "live H_usbcmd w' h" "uc_lock (usbcmds w' h) = 0 \<or> locks w' (uc_lock (usbcmds w' h)) = Some False" "uc_lock (usbcmds w' h) \<noteq> 0"
      by (simp_all add: usb_ready_def)
    from usb_cmd_destroy_run [OF this(1,2) s(5,2), of thread] this(3) show ?thesis using c(1) True s by (auto simp: usb_gone_def)
  next
    case False
    then show ?thesis using c by auto
  qed
qed

theorem usb_create_all_or_nothing_witness:
  "\<exists>r h w'. usb_cmd_create demo_api USB_DEVICE_COLOR_IMU_PROCESSOR 0 None 0 one_usb = Some (r, h, w') \<and>
     (r = ZSA_RESULT_FAILED \<longrightarrow> open_handles (libusb_calls w') = [175] \<and> open_contexts (libusb_calls w') = [73])"
proof -
  have "USB_DEVICE_COLOR_IMU_PROCESSOR \<in> {USB_DEVICE_DEPTH_PROCESSOR, USB_DEVICE_COLOR_IMU_PROCESSOR}" by simp
  from usb_create_all_or_nothing [OF demo_api_ok(2,1) one_usb_ready(2) this, of 0 None 0 "\<lambda>w. w"] show ?thesis
    by (fastforce simp: open_handles_def open_contexts_def)
qed

text \<open>
  (C33) The count of the devices is the larger one of the counts of color and of depth processors, exactly:
  the 32-bit counters cannot wrap around. The library is closed again. When there is no USB device at all
  the call fails, and the library stays open.
\<close>

theorem device_count_exact:
  assumes "api_init api (libusb_calls w) = (LIBUSB_SUCCESS, ctx)"
    and "\<And>hist. api_get_device_list api hist ctx = (int (length devs), devs)" and "int (length devs) \<le> INT32_MAX"
    and "\<And>hist d. d \<in> set devs \<Longrightarrow> api_get_device_descriptor api hist d = (LIBUSB_SUCCESS, descr d)"
  shows "\<exists>w'. usb_cmd_get_device_count api (Some n) w =
      (if devs = [] then (ZSA_RESULT_FAILED, Some 0, w')
       else (ZSA_RESULT_SUCCEEDED, Some (of_nat (max (devices_with ZSA_RGB_PID descr devs) (devices_with ZSA_DEPTH_PID descr devs))), w')) \<and>
     open_contexts (libusb_calls w') = (if devs = [] then [ctx] else []) @ open_contexts (libusb_calls w) \<and>
     open_handles (libusb_calls w') = open_handles (libusb_calls w)"
  by (rule device_count_run [OF assms])

theorem device_count_exact_witness:
  "\<exists>w'. usb_cmd_get_device_count demo_api (Some 0) one_usb = (ZSA_RESULT_SUCCEEDED, Some 1, w') \<and> open_contexts (libusb_calls w') = [73]"
proof -
  have "api_init demo_api (libusb_calls one_usb) = (LIBUSB_SUCCESS, 73)"
    "\<And>hist. api_get_device_list demo_api hist 73 = (int (length [75, 77]), [75, 77])" "int (length [75 :: ptr, 77]) \<le> INT32_MAX"
    "\<And>hist d. d \<in> set [75, 77] \<Longrightarrow> api_get_device_descriptor demo_api hist d = (LIBUSB_SUCCESS, demo_descriptor d)"
    by (simp_all add: demo_api_def)
  from device_count_exact [OF this, of 0] show ?thesis by (auto simp: demo_descriptor_def open_contexts_def)
qed

text \<open>
  (C34) The text of a container ID fits the buffer of \<open>UUID_STR_LENGTH\<close> characters with its null character, and
  it identifies the container: different IDs of 16 bytes have different texts.
\<close>

theorem uuid_text_faithful:
  assumes "length (guid_id g) = 16" and "length (guid_id k) = 16"
  shows "length (uuid_to_string g UUID_STR_LENGTH) = 38 \<and> (uuid_to_string g UUID_STR_LENGTH = uuid_to_string k UUID_STR_LENGTH \<longleftrightarrow> g = k)"
  using uuid_text_inj [OF assms] by (simp add: uuid_to_string_def length_uuid_text)

theorem uuid_text_faithful_witness:
  "uuid_to_string \<lparr>guid_id = replicate 16 0\<rparr> UUID_STR_LENGTH \<noteq> uuid_to_string \<lparr>guid_id = replicate 15 0 @ [1]\<rparr> UUID_STR_LENGTH"
  using uuid_text_faithful [of "\<lparr>guid_id = replicate 16 0\<rparr>" "\<lparr>guid_id = replicate 15 0 @ [1]\<rparr>"] by (simp add: numeral_eq_Suc)



end
