(* ===== verification/Usbstreaming_Spec.thy ===== *)
theory Usbstreaming_Spec
  imports Usbstreaming Usbcommand_Spec
begin

text \<open>
  What a stream over USB promises: every completed transfer is submitted again or given back with everything
  it owns, the transfers in flight stay within their number and their pool, and a stopped stream releases
  them all. The examples have a stream on the device of \<open>Usbcommand_Spec\<close>.
\<close>

subsection \<open>Examples\<close>

text \<open>A device with an idle stream, and one with a transfer in flight for image 5.\<close>

definition idle_stream :: usb_world where
  "idle_stream = put_usbcmd 61 ((usbcmds one_usb 61)\<lparr>uc_stream_size := 4000000, uc_stream_going := True\<rparr>) one_usb"

definition one_stream :: usb_world where
  "one_stream = put_transfer 91 (Some \<lparr>xfr_usbcmd = 61, xfr_bulk_transfer = 85, xfr_image = 5, xfr_list_index = 0\<rparr>)
     (put_usbcmd 61 ((usbcmds one_usb 61)\<lparr>uc_stream_size := 64, uc_transfer_list := 91 # replicate 7 0\<rparr>) one_usb)"

definition quiet_client :: "usb_world stream_cb" where
  "quiet_client result image_handle context w = Some w"

lemma extend_simps:
  fixes w :: capturesync_world
  shows "images (capturesync_world.extend w m) = images w" "blocks (capturesync_world.extend w m) = blocks w"
    "g_init_once (capturesync_world.extend w m) = g_init_once w" "g_lock (capturesync_world.extend w m) = g_lock w"
    "g_alloc (capturesync_world.extend w m) = g_alloc w" "g_free (capturesync_world.extend w m) = g_free w"
    "user_contexts (capturesync_world.extend w m) = user_contexts w"
  by (simp_all add: capturesync_world.defs)

lemma one_usb_more:
  "images one_usb = images one_sync" "blocks one_usb = blocks one_sync" "g_init_once one_usb = g_init_once one_sync" "g_lock one_usb = g_lock one_sync"
  "g_alloc one_usb = g_alloc one_sync" "g_free one_usb = g_free one_sync" "user_contexts one_usb = user_contexts one_sync"
  by (simp_all only: one_usb_def extend_simps) simp_all

lemma one_usb_transfers: "transfers one_usb = (\<lambda>_. None)"
  by (simp add: one_usb_def usb_world.defs capturesync_world.defs)

lemma one_usb_held: "held one_usb = {5, 3}"
proof -
  have "htype one_sync 61 = None" by (simp add: one_sync_def)
  then have "live H_image one_usb h = live H_image one_sync h" for h by (auto simp: live_def)
  then have "held one_usb = held one_sync" by (simp add: held_def one_usb_more)
  then show ?thesis using one_sync_held(1) by simp
qed

lemma one_usb_images: "image_inv one_usb" "image_refs one_usb = (\<lambda>_. 0)(5 := 2, 3 := 1)"
proof -
  have "alloc_inv one_usb" using one_usb_ready(2)
    by (simp add: alloc_inv_defs one_usb_more) (simp add: one_sync_def)
  moreover have "images_ok one_usb"
    unfolding images_ok_def one_usb_held
    by (auto simp: one_usb_more one_sync_context image_wf_def apart_def owns_buffer_def image_zero_def) (auto simp: one_sync_def)
  ultimately show "image_inv one_usb" by (simp add: image_inv_def)
  show "image_refs one_usb = (\<lambda>_. 0)(5 := 2, 3 := 1)"
    by (auto simp: image_refs_def fun_eq_iff one_usb_held one_usb_more one_sync_context image_zero_def)
qed

lemma one_usb_live: "live H_usbcmd one_usb 61"
  using one_usb_ready(1) by (simp add: usb_ready_def)

lemma idle_stream_inv: "stream_inv 61 idle_stream" "slots_filled 0 61 idle_stream" "unat (uc_stream_size (usbcmds idle_stream 61)) = 4000000"
  using one_usb_images(1) one_usb_live
  by (simp_all add: stream_inv_def idle_stream_def transfers_ok_def slots_ok_def images_apart_def one_usb_transfers usbcmd_zero_def slots_filled_def)

lemma one_stream_inv: "stream_inv 61 one_stream"
proof -
  have "slots_ok 61 (91 # replicate 7 0) [91 \<mapsto> \<lparr>xfr_usbcmd = 61, xfr_bulk_transfer = 85, xfr_image = 5, xfr_list_index = 0\<rparr>]"
    by (auto simp: slots_ok_def nth_Cons')
  then show ?thesis using one_usb_images one_usb_live
    by (simp add: stream_inv_def one_stream_def transfers_ok_def images_apart_def transfer_ok_def one_usb_transfers split: if_splits)
qed

lemma quiet_client_ok: "client_ok quiet_client h (=)"
  by (simp add: client_ok_def quiet_client_def reflp_def transp_def)

subsection \<open>Properties\<close>





text \<open>
  (C37) When a stream has been stopped, its thread cancels the transfers that are left one after the other.
  If the library completes each of them after its cancellation, the loop ends and all slots are empty
  afterwards; the references of the client change only by what its callback does.
\<close>

theorem stopped_stream_releases_transfers:
  assumes "client_ok cb h rel" and "stream_inv h w" and "\<not> uc_stream_going (usbcmds w h)"
    and "\<forall>i < USB_CMD_MAX_XFR_COUNT. uc_transfer_list (usbcmds w h) ! i \<noteq> 0 \<longrightarrow>
        drain i = ([(uc_transfer_list (usbcmds w h) ! i, LIBUSB_TRANSFER_CANCELLED, 0)], LIBUSB_SUCCESS)"
  shows "\<exists>w'. stream_cancel cb api h ctx drain [0..<USB_CMD_MAX_XFR_COUNT] r w = Some (r, w') \<and> stream_inv h w' \<and>
     rel (client_images w) (client_images w') \<and> slots_filled 0 h w'"
  using stream_cancel_run [OF assms(1-3) _ _ assms(4), of 0 api ctx r] by simp

theorem stopped_stream_releases_transfers_witness:
  "\<exists>w'. stream_cancel quiet_client demo_api 61 73 (\<lambda>_. ([(91, LIBUSB_TRANSFER_CANCELLED, 0)], LIBUSB_SUCCESS)) [0..<USB_CMD_MAX_XFR_COUNT]
     ZSA_RESULT_SUCCEEDED one_stream = Some (ZSA_RESULT_SUCCEEDED, w') \<and> uc_transfer_list (usbcmds w' 61) ! 0 = 0"
proof -
  let ?d = "\<lambda>_. ([(91, LIBUSB_TRANSFER_CANCELLED, 0)], LIBUSB_SUCCESS)"
  have s: "\<not> uc_stream_going (usbcmds one_stream 61)" "uc_transfer_list (usbcmds one_stream 61) = 91 # replicate 7 0"
    by (simp_all add: one_stream_def usbcmd_zero_def)
  have "\<forall>i < USB_CMD_MAX_XFR_COUNT. uc_transfer_list (usbcmds one_stream 61) ! i \<noteq> 0 \<longrightarrow>
      ?d i = ([(uc_transfer_list (usbcmds one_stream 61) ! i, LIBUSB_TRANSFER_CANCELLED, 0)], LIBUSB_SUCCESS)"
    unfolding s(2) by (auto simp: nth_Cons')
  from stopped_stream_releases_transfers [OF quiet_client_ok one_stream_inv s(1) this, of demo_api 73 ZSA_RESULT_SUCCEEDED] show ?thesis
    by (auto simp: slots_filled_def)
qed

end
