(* ===== verification/Color_mcu_Spec.thy ===== *)
theory Color_mcu_Spec
  imports Color_mcu Usbstreaming_Spec
begin

text \<open>
  What the color and IMU processor is told: the configuration of the synchronisation between devices arrives
  at the device as the bytes of a packed structure with exact delays in ticks of 90 kHz.
\<close>

subsection \<open>Ticks and bytes\<close>

lemma ticks_u32_exact:
  assumes "unat x * 9 < 2 ^ 32"
  shows "unat (ZSA_USEC_TO_90K_HZ_TICK_u32 x) = unat x * 9 div 100"
  using assms by (simp add: ZSA_USEC_TO_90K_HZ_TICK_u32_def unat_div unat_word_ariths)

lemma ticks_i32_exact:
  "is_int32 (x * 9) \<Longrightarrow> ZSA_USEC_TO_90K_HZ_TICK_i32 x = Some (c_div (x * 9) 100) \<and> is_int32 (c_div (x * 9) 100)"
proof -
  assume x: "is_int32 (x * 9)"
  have "\<bar>c_div (x * 9) 100\<bar> \<le> \<bar>x * 9\<bar> div 100" by (simp add: c_div_def abs_mult abs_sgn_eq)
  also have "\<dots> \<le> 2147483648 div 100" using x by (intro zdiv_mono1) (auto simp: is_int32_def)
  finally show ?thesis using x by (auto simp: ZSA_USEC_TO_90K_HZ_TICK_i32_def is_int32_def)
qed

text \<open>How the device reads the structure.\<close>

definition sync_config_of_bytes :: "bytes \<Rightarrow> synchronization_config_t" where
  "sync_config_of_bytes bs = \<lparr>sc_mode = of_le32 (take 4 bs), sc_subordinate_delay_off_master_pts = of_le32 (take 4 (drop 4 bs)),
     sc_depth_delay_off_color_pts = sint (of_le32 (take 4 (drop 8 bs))), sc_enable_privacy_led = bs ! 12\<rparr>"

lemma length_le32 [simp]: "length (le32 x) = 4"
  by (simp add: le32_def)

lemma sint_of_int32: "is_int32 x \<Longrightarrow> sint (word_of_int x :: u32) = x"
  by (simp add: is_int32_def signed_of_int signed_take_bit_int_eq_self)

lemma sync_config_roundtrip:
  assumes "is_int32 (sc_depth_delay_off_color_pts s)"
  shows "sync_config_of_bytes (sync_config_bytes s) = s" and "length (sync_config_bytes s) = 13"
  using assms by (simp_all add: sync_config_of_bytes_def sync_config_bytes_def of_le32_le32 sint_of_int32 nth_append)

subsection \<open>The configuration command\<close>

text \<open>A command without data in either direction.\<close>

lemma usb_cmd_write_command:
  fixes w :: "'a usb_world_scheme"
  assumes api: "api_bounded api" and ready: "usb_ready u w" and d: "unat n = length d" "8 \<le> length d" "n \<le> USB_MAX_TX_DATA"
  shows "\<exists>r w'. usb_cmd_write api u cmd (Some d) n None 0 w = Some (r, w') \<and> usb_ready u w' \<and> usb_step u w w' \<and> uc_lock (usbcmds w' u) = uc_lock (usbcmds w u) \<and>
     (r = ZSA_RESULT_SUCCEEDED \<longrightarrow> libusb_calls w' = libusb_calls w @
        [LU_bulk_out (uc_libusb (usbcmds w u)) (uc_cmd_tx_endpoint (usbcmds w u)) (usb_command_packet (usbcmds w u) cmd 0 d),
         LU_bulk_in (uc_libusb (usbcmds w u)) (uc_cmd_rx_endpoint (usbcmds w u)) sizeof_response])"
proof -
  have args: "io_args (Some d) n None 0 None 0" using d by (auto simp: io_args_def)
  from usb_cmd_io_run [OF api ready args, of cmd None 0] obtain r rx count status w' where
    w': "usb_cmd_io api u cmd (Some d) n None 0 None 0 None (Some 0) w = Some (r, rx, count, Some status, w')" "usb_ready u w'"
      "io_done api u cmd (take (unat n) d) 0 None None w (if r = ZSA_RESULT_SUCCEEDED then Some status else None) w'" by auto
  have "r = ZSA_RESULT_SUCCEEDED \<longrightarrow> libusb_calls w' = libusb_calls w @ transaction_calls (usbcmds w u) cmd d 0 None None"
    using w'(3) d(1) by (auto simp: io_done_def Let_def)
  moreover have "usb_step u w w'" "uc_lock (usbcmds w' u) = uc_lock (usbcmds w u)"
    using w'(3) by (auto simp: io_done_def Let_def intro: usb_stepI)
  ultimately show ?thesis using w'(1,2) by (cases r) (auto simp: usb_cmd_write_def transaction_calls_def)
qed

text \<open>The calls that send configuration \<open>cfg\<close>: one command with the bytes \<open>d\<close> of the structure, and its response.\<close>

definition config_sent :: "usbcmd_context_t \<Rightarrow> zsa_device_configuration_t \<Rightarrow> external_sync_mode_t \<Rightarrow> history \<Rightarrow> bool" where
  "config_sent c cfg mode calls \<longleftrightarrow>
     (\<exists>d. calls = [LU_bulk_out (uc_libusb c) (uc_cmd_tx_endpoint c) (usb_command_packet c DEV_CMD_SET_SYS_CFG 0 d),
            LU_bulk_in (uc_libusb c) (uc_cmd_rx_endpoint c) sizeof_response] \<and> length d = 13 \<and>
        sc_mode (sync_config_of_bytes d) = sync_mode_value mode \<and>
        unat (sc_subordinate_delay_off_master_pts (sync_config_of_bytes d)) = unat (cfg_subordinate_delay_off_master_usec cfg) * 9 div 100 \<and>
        sc_depth_delay_off_color_pts (sync_config_of_bytes d) = c_div (cfg_depth_delay_off_color_usec cfg * 9) 100 \<and>
        (sc_enable_privacy_led (sync_config_of_bytes d) = 0) = cfg_disable_streaming_indicator cfg)"

lemma multi_device_mode_run:
  assumes "api_bounded api" and live: "live H_colormcu w h" and "usb_ready (mcu_usb_cmd (colormcus w h)) w"
    and "unat (cfg_subordinate_delay_off_master_usec cfg) * 9 < 2 ^ 32" and "is_int32 (cfg_depth_delay_off_color_usec cfg * 9)"
  shows "\<exists>r w'. colormcu_set_multi_device_mode api h cfg w = Some (r, w') \<and> usb_ready (mcu_usb_cmd (colormcus w h)) w' \<and>
     usb_step (mcu_usb_cmd (colormcus w h)) w w' \<and>
     uc_lock (usbcmds w' (mcu_usb_cmd (colormcus w h))) = uc_lock (usbcmds w (mcu_usb_cmd (colormcus w h))) \<and> (external_sync_mode (cfg_wired_sync_mode cfg) = None \<longrightarrow> r = ZSA_RESULT_FAILED \<and> w' = w) \<and>
     (r = ZSA_RESULT_SUCCEEDED \<longrightarrow> (\<exists>mode calls. external_sync_mode (cfg_wired_sync_mode cfg) = Some mode \<and>
        libusb_calls w' = libusb_calls w @ calls \<and> config_sent (usbcmds w (mcu_usb_cmd (colormcus w h))) cfg mode calls))"
proof (cases "external_sync_mode (cfg_wired_sync_mode cfg)")
  case None
  then show ?thesis using assms(2,3) by (simp add: colormcu_set_multi_device_mode_def)
next
  case (Some mode)
  let ?u = "mcu_usb_cmd (colormcus w h)"
  note t = ticks_i32_exact [OF assms(5)]
  define s where "s = \<lparr>sc_mode = sync_mode_value mode,
    sc_subordinate_delay_off_master_pts = ZSA_USEC_TO_90K_HZ_TICK_u32 (cfg_subordinate_delay_off_master_usec cfg),
    sc_depth_delay_off_color_pts = c_div (cfg_depth_delay_off_color_usec cfg * 9) 100,
    sc_enable_privacy_led = (if cfg_disable_streaming_indicator cfg then 0 else 1)\<rparr>"
  have s: "sync_config_of_bytes (sync_config_bytes s) = s" "length (sync_config_bytes s) = 13"
    using sync_config_roundtrip [of s] t by (simp_all add: s_def)
  have run: "colormcu_set_multi_device_mode api h cfg w = usb_cmd_write api ?u DEV_CMD_SET_SYS_CFG (Some (sync_config_bytes s)) 13 None 0 w"
    using live Some t by (simp add: colormcu_set_multi_device_mode_def s_def)
  from usb_cmd_write_command [OF assms(1,3), of 13 "sync_config_bytes s" DEV_CMD_SET_SYS_CFG] s(2)
  obtain r w' where w': "usb_cmd_write api ?u DEV_CMD_SET_SYS_CFG (Some (sync_config_bytes s)) 13 None 0 w = Some (r, w')"
      "usb_ready ?u w'" "usb_step ?u w w'" "uc_lock (usbcmds w' ?u) = uc_lock (usbcmds w ?u)"
      "r = ZSA_RESULT_SUCCEEDED \<longrightarrow> libusb_calls w' = libusb_calls w @
        [LU_bulk_out (uc_libusb (usbcmds w ?u)) (uc_cmd_tx_endpoint (usbcmds w ?u)) (usb_command_packet (usbcmds w ?u) DEV_CMD_SET_SYS_CFG 0 (sync_config_bytes s)),
         LU_bulk_in (uc_libusb (usbcmds w ?u)) (uc_cmd_rx_endpoint (usbcmds w ?u)) sizeof_response]"
    by auto
  have "config_sent (usbcmds w ?u) cfg mode
        [LU_bulk_out (uc_libusb (usbcmds w ?u)) (uc_cmd_tx_endpoint (usbcmds w ?u)) (usb_command_packet (usbcmds w ?u) DEV_CMD_SET_SYS_CFG 0 (sync_config_bytes s)),
         LU_bulk_in (uc_libusb (usbcmds w ?u)) (uc_cmd_rx_endpoint (usbcmds w ?u)) sizeof_response]"
    using s ticks_u32_exact [OF assms(4)] by (auto simp: config_sent_def s_def intro!: exI [of _ "sync_config_bytes s"])
  then show ?thesis using w' run Some by auto
qed

text \<open>A processor on the USB device of the examples.\<close>

definition one_mcu :: colormcu_world where
  "one_mcu = usb_world.extend (one_usb\<lparr>htype := (htype one_usb)(65 \<mapsto> H_colormcu)\<rparr>) (colormcu_world.fields (\<lambda>_. \<lparr>mcu_usb_cmd = 61\<rparr>))"

lemma extend_mcu:
  fixes w :: usb_world
  shows "htype (usb_world.extend w m) = htype w" "locks (usb_world.extend w m) = locks w" "usbcmds (usb_world.extend w m) = usbcmds w"
    "libusb_calls (usb_world.extend w m) = libusb_calls w"
  by (simp_all add: usb_world.defs)

lemma one_mcu_simps:
  "htype one_mcu = (htype one_usb)(65 \<mapsto> H_colormcu)" "locks one_mcu = locks one_usb" "usbcmds one_mcu = usbcmds one_usb" "libusb_calls one_mcu = libusb_calls one_usb"
  by (simp_all only: one_mcu_def extend_mcu) simp_all

lemma one_mcu_context: "colormcus one_mcu h = \<lparr>mcu_usb_cmd = 61\<rparr>"
  by (simp add: one_mcu_def usb_world.defs colormcu_world.defs)

lemma one_mcu_ready: "live H_colormcu one_mcu 65" "usb_ready (mcu_usb_cmd (colormcus one_mcu 65)) one_mcu"
  using one_usb_ready(1) by (simp_all add: usb_ready_def live_def one_mcu_simps one_mcu_context)



end
