(* ===== verification/Capturesync_Life.thy ===== *)
theory Capturesync_Life
  imports Capturesync_Spec
begin

section \<open>The life of a synchroniser\<close>

text \<open>
  A created synchroniser satisfies the invariant its other operations keep, and a failed creation leaves
  nothing behind. The facts on fresh handles and locks also serve the components above.
\<close>

subsection \<open>Fresh handles and locks\<close>

lemma queue_inv_new_handle:
  assumes inv: "queue_inv w" and x: "htype w x = None" "0 < x" "x < next_addr w" and T: "T \<notin> {H_image, H_capture, H_queue}"
  defines "v \<equiv> w\<lparr>htype := (htype w)(x \<mapsto> T)\<rparr>"
  shows "queue_inv v" "\<And>S y. S \<noteq> T \<Longrightarrow> live S v y = live S w y" "client_refs v = client_refs w" "outside v = outside w" "other_locks v = other_locks w" "qheld v = qheld w"
proof -
  show live: "live S v y = live S w y" if "S \<noteq> T" for S y using that x by (auto simp: live_def v_def)
  have h: "held v = held w" "cheld v = cheld w" "qheld v = qheld w" using T live by (auto simp: held_def cheld_def qheld_def v_def)
  then show "qheld v = qheld w" by simp
  have f: "images v = images w" "captures v = captures w" "queues v = queues w" by (simp_all add: v_def)
  show r: "outside v = outside w" "client_refs v = client_refs w" "other_locks v = other_locks w"
    by (simp_all add: image_refs_def [abs_def] capture_refs_def [abs_def] outside_def [abs_def] client_refs_def [abs_def] slot_count_def
      other_locks_def [abs_def] h f cong: if_cong) (simp_all add: v_def cong: if_cong)
  have "image_inv w" using inv by (simp add: queue_inv_def capture_inv_def)
  then have "image_inv v" using x h by (simp add: image_inv_def alloc_inv_defs mem_ok_def images_ok_def image_wf_def buffer_ok_def v_def)
  then show "queue_inv v" using inv by (simp add: queue_inv_def capture_inv_def queue_ok_def h r) (simp add: v_def)
qed

lemma sync_inv_new_handle:
  assumes inv: "sync_inv h w" and x: "htype w x = None" "0 < x" "x < next_addr w" and T: "T \<notin> {H_image, H_capture, H_queue, H_capturesync}"
  shows "sync_inv h (w\<lparr>htype := (htype w)(x \<mapsto> T)\<rparr>)" "idle h (w\<lparr>htype := (htype w)(x \<mapsto> T)\<rparr>) = idle h w"
proof -
  have q: "queue_inv w" and T': "T \<notin> {H_image, H_capture, H_queue}" using inv T by (simp_all add: sync_inv_def sync_core_def)
  note f = queue_inv_new_handle [OF q x T']
  show "sync_inv h (w\<lparr>htype := (htype w)(x \<mapsto> T)\<rparr>)" "idle h (w\<lparr>htype := (htype w)(x \<mapsto> T)\<rparr>) = idle h w"
    using inv T f(1,3-6) f(2) [of H_capturesync h, OF not_sym] by (simp_all add: sync_inv_def sync_core_def own_lock_def user_refs_def user_images_def frame_def stamped_def idle_def)
qed

lemma queue_inv_new_lock:
  assumes inv: "queue_inv w" and l: "locks w l = None" "0 < l" "l < next_addr w"
  defines "v \<equiv> w\<lparr>locks := (locks w)(l \<mapsto> False)\<rparr>"
  shows "queue_inv v" "live S v y = live S w y" "client_refs v = client_refs w" "outside v = outside w" "other_locks v = (other_locks w)(l \<mapsto> False)" "qheld v = qheld w"
    "\<forall>q \<in> qheld w. q_lock (queues w q) \<noteq> l"
proof -
  show live: "live S v y = live S w y" for S y by (simp add: live_def v_def)
  have h: "held v = held w" "cheld v = cheld w" "qheld v = qheld w" by (simp_all add: held_def cheld_def qheld_def live v_def live_def)
  then show "qheld v = qheld w" by simp
  have i: "image_inv w" using inv by (simp add: queue_inv_def capture_inv_def)
  then have il: "img_lock (images w k) \<noteq> l" if "k \<in> held w" for k using that l(1) by (auto simp: image_inv_def images_ok_def image_wf_def)
  have f: "images v = images w" "captures v = captures w" "queues v = queues w" by (simp_all add: v_def)
  show r: "outside v = outside w" "client_refs v = client_refs w"
    by (simp_all add: image_refs_def [abs_def] capture_refs_def [abs_def] outside_def [abs_def] client_refs_def [abs_def] slot_count_def
       h f cong: if_cong)
  show ol: "other_locks v = (other_locks w)(l \<mapsto> False)"
    using il unfolding other_locks_def [abs_def] h f by (auto simp: v_def fun_eq_iff)
  show ql: "\<forall>q \<in> qheld w. q_lock (queues w q) \<noteq> l"
    using inv l(1) by (auto simp: queue_inv_def queue_ok_def other_locks_def split: if_splits)
  have "image_inv v" using i l h il by (auto simp: image_inv_def alloc_inv_defs mem_ok_def images_ok_def image_wf_def buffer_ok_def v_def split: if_splits)
  moreover have "conds v = conds w" by (simp add: v_def)
  ultimately show "queue_inv v" using inv ql by (auto simp: queue_inv_def capture_inv_def queue_ok_def h r ol f)
qed

lemma sync_inv_new_lock:
  assumes inv: "sync_inv h w" and l: "locks w l = None" "0 < l" "l < next_addr w"
  shows "sync_inv h (w\<lparr>locks := (locks w)(l \<mapsto> False)\<rparr>)" "idle h (w\<lparr>locks := (locks w)(l \<mapsto> False)\<rparr>) = idle h w"
proof -
  have q: "queue_inv w" and own: "own_lock False h w" using inv by (simp_all add: sync_inv_def sync_core_def)
  note f = queue_inv_new_lock [OF q l]
  have "cs_lock (syncs w h) \<noteq> l" using own l(1) by (auto simp: own_lock_def other_locks_def split: if_splits)
  then show "sync_inv h (w\<lparr>locks := (locks w)(l \<mapsto> False)\<rparr>)" "idle h (w\<lparr>locks := (locks w)(l \<mapsto> False)\<rparr>) = idle h w"
    using inv f by (simp_all add: sync_inv_def sync_core_def own_lock_def user_refs_def user_images_def frame_def stamped_def idle_def)
qed
subsection \<open>Creation\<close>

lemma queue_sizes: "QUEUE_DEFAULT_SIZE = 15"
  by (simp add: QUEUE_DEFAULT_SIZE_def QUEUE_CALC_DEPTH_def)

text \<open>What was there before is still there: handles, locks and the state of the components above.\<close>

definition preserved :: "'a capturesync_world_scheme \<Rightarrow> 'a capturesync_world_scheme \<Rightarrow> bool" where
  "preserved w w' \<longleftrightarrow> (\<forall>T x. T \<notin> {H_image, H_capture} \<longrightarrow> live T w x \<longrightarrow> live T w' x) \<and> (\<forall>l. other_locks w l \<noteq> None \<longrightarrow> other_locks w' l = other_locks w l) \<and>
     (\<forall>q \<in> qheld w. queues w' q = queues w q) \<and> client_refs w' = client_refs w \<and> outside w' = outside w \<and>
     capturesync_world.more w' = capturesync_world.more w"

lemma preserved_refl [simp]: "preserved w w"
  by (simp add: preserved_def)

lemma preserved_trans: "preserved w w1 \<Longrightarrow> preserved w1 w2 \<Longrightarrow> preserved w w2"
  by (auto simp: preserved_def qheld_def)

lemma preserved_put_sync [simp]: "preserved w (put_sync h s w') = preserved w w'"
  by (simp add: preserved_def)

lemma preserved_live: "preserved w w' \<Longrightarrow> live T w x \<Longrightarrow> T \<notin> {H_image, H_capture} \<Longrightarrow> live T w' x"
  by (auto simp: preserved_def)

text \<open>A synchroniser under construction: its lock \<open>l\<close> is made, and the queues \<open>Q\<close>, which are empty.\<close>

definition building :: "ptr \<Rightarrow> ptr \<Rightarrow> ptr list \<Rightarrow> 'a capturesync_world_scheme \<Rightarrow> bool" where
  "building h l Q w \<longleftrightarrow> queue_inv w \<and> live H_capturesync w h \<and> os_grants w = (\<lambda>_. True) \<and> l \<noteq> 0 \<and> other_locks w l = Some False \<and>
     (\<forall>q \<in> qheld w. q_lock (queues w q) \<noteq> l) \<and> set Q \<subseteq> qheld w \<and> distinct Q \<and>
     (\<forall>q \<in> set Q. contents (queues w q) = [] \<and> queue_pop_blocked (queues w q) = 0)"

lemma building_put_sync [simp]: "building h l Q (put_sync k s w) = building h l Q w"
  by (simp add: building_def) (simp add: put_sync_def)

lemma queue_inv_next_addr: "queue_inv w \<Longrightarrow> 0 < next_addr w"
  by (simp add: queue_inv_def capture_inv_def image_inv_def alloc_inv_def mem_ok_def)

lemma create_queue_step:
  assumes b: "building h l Q w" and d: "d \<noteq> 0" "\<not> d > 10000"
  shows "\<exists>q w'. create_queue_in upd d name h ZSA_RESULT_SUCCEEDED w = Some (ZSA_RESULT_SUCCEEDED, put_sync h (upd q (syncs w h)) w') \<and>
     building h l (q # Q) w' \<and> preserved w w' \<and> q \<notin> qheld w \<and> qheld w' = insert q (qheld w) \<and> other_locks w (q_lock (queues w' q)) = None \<and> syncs w' = syncs w \<and> capacity (queues w' q) = unat d"
proof -
  have w: "queue_inv w" "os_grants w = (\<lambda>_. True)" using b by (simp_all add: building_def)
  from queue_create_granted [OF w(2) queue_inv_next_addr [OF w(1)] d, of "Some name"] obtain q w' where
    c: "queue_create d (Some name) w = Some (ZSA_RESULT_SUCCEEDED, q, w')" "os_grants w' = (\<lambda>_. True)" by blast
  from queue_create_inv [OF w(1) d c(1)] obtain m k where
    v: "queue_inv w'" "client_refs w' = client_refs w" "queue_added q w w'" "qheld w' = insert q (qheld w)" "queues w' q = queue_ready d (Some name) m k"
    by auto
  have a: "htype w q = None" "htype w' = (htype w)(q \<mapsto> H_queue)" "\<And>x. x \<noteq> q \<Longrightarrow> queues w' x = queues w x" "other_locks w (q_lock (queues w' q)) = None"
      "\<And>x. other_locks w x \<noteq> None \<Longrightarrow> other_locks w' x = other_locks w x" "outside w' = outside w" "queue_world.more w' = queue_world.more w"
    using v(3) by (simp_all add: queue_added_def)
  note sy = more_syncs [OF a(7)]
  have q: "q \<notin> qheld w" using a(1) by (simp add: qheld_def live_def)
  then have old: "\<And>x. x \<in> qheld w \<Longrightarrow> queues w' x = queues w x" using a(3) by metis
  have ring: "contents (queues w' q) = []" "queue_pop_blocked (queues w' q) = 0" "capacity (queues w' q) = unat d"
    using ring_ok_ready [OF d] by (simp_all add: v(5)) (simp add: queue_ready_def queue_named_def queue_zero_def)
  have "live H_capturesync w' h" using b a(1,2) by (auto simp: building_def live_def)
  then have "building h l (q # Q) w'"
    using b v(1,4) c(2) a(4) a(5) [of l] q ring old by (auto simp: building_def)
  moreover have "preserved w w'" using a v(2) old sy by (auto simp: preserved_def live_def)
  ultimately show ?thesis using c(1) sy ring(3) q v(4) a(4) by (auto simp: create_queue_in_def)
qed

text \<open>States that differ in fresh handles and locks only.\<close>

lemma queue_inv_fresh:
  assumes inv: "queue_inv w" and a: "alloc_inv w'"
    and same: "images w' = images w" "blocks w' = blocks w" "captures w' = captures w" "queues w' = queues w" "conds w' = conds w"
    and t: "htype w' = (htype w)(h := X)" "htype w h = None" "X = None \<or> X = Some H_capturesync"
    and l: "\<And>l. locks w l \<noteq> None \<Longrightarrow> locks w' l = locks w l" and more: "capturesync_world.more w' = capturesync_world.more w"
  shows "queue_inv w'" and "qheld w' = qheld w" and "preserved w w'" and "\<And>l. locks w l = None \<Longrightarrow> other_locks w' l = locks w' l"
proof -
  have T: "H_capturesync \<noteq> H_image" "H_capturesync \<noteq> H_capture" by simp_all
  note f = fresh_resources [OF queue_invD(1) [OF inv] a same(1-3) t T l]
  show qh: "qheld w' = qheld w" using t by (auto simp: qheld_def live_def)
  have "queue_inv w' \<and> client_refs w' = client_refs w"
    by (rule queue_inv_same [OF inv f(1,2) qh]) (use same f(4) in auto)
  then show "queue_inv w'" "preserved w w'" using same(4) t f(3,4) more by (auto simp: preserved_def live_def)
  show "other_locks w' l = locks w' l" if "locks w l = None" for l using that f(6) by auto
qed

lemma alloc_inv_put_sync [simp]: "alloc_inv (put_sync h s w) = alloc_inv w"
  by (simp add: put_sync_def alloc_inv_defs mem_ok_def)

lemma Lock_Init_put_sync: "Lock_Init (put_sync h s w) = (fst (Lock_Init w), put_sync h s (snd (Lock_Init w)))"
  by (cases w) (simp add: Lock_Init_def c_malloc_def os_request_def put_sync_def)

lemma building_start:
  assumes inv: "queue_inv w" and g: "os_grants w = (\<lambda>_. True)"
  shows "\<exists>h w0 l w1. handle_create H_capturesync w = (h, w0) \<and> h \<noteq> 0 \<and> htype w h = None \<and> Lock_Init w0 = (l, w1) \<and> l \<noteq> 0 \<and>
     building h l [] w1 \<and> preserved w w1 \<and> syncs w1 = syncs w \<and> other_locks w l = None \<and> qheld w1 = qheld w"
proof -
  obtain h w0 where h: "handle_create H_capturesync w = (h, w0)" by fastforce
  obtain l w1 where l: "Lock_Init w0 = (l, w1)" by fastforce
  note a = image_invD(1) [OF capture_invD(1) [OF queue_invD(1) [OF inv]]]
  have a0: "alloc_inv w0" using a h by (rule alloc_inv_handle_create)
  have a1: "alloc_inv w1" using a0 l by (rule alloc_inv_Lock_Init)
  note n = queue_inv_next_addr [OF inv]
  have w0: "h = next_addr w" "w0 = w\<lparr>next_addr := next_addr w + 2, os_requests := Suc (os_requests w), htype := (htype w)(h := Some H_capturesync)\<rparr>"
    using h g n by (auto simp: handle_create_def c_malloc_def os_request_def split: if_splits)
  have w1: "l = next_addr w0" "w1 = w0\<lparr>next_addr := next_addr w0 + 2, os_requests := Suc (Suc (os_requests w0)), locks := (locks w0)(l := Some False)\<rparr>"
    using l g by (auto simp: w0(2) Lock_Init_def c_malloc_def os_request_def split: if_splits)
  have hn: "htype w h = None" "locks w l = None" using alloc_invD(1) [OF a] w0(1) by (auto simp: mem_ok_def w1(1) w0(2))
  have f: "images w1 = images w" "blocks w1 = blocks w" "captures w1 = captures w" "queues w1 = queues w" "conds w1 = conds w"
      "htype w1 = (htype w)(h := Some H_capturesync)" "\<And>x. locks w x \<noteq> None \<Longrightarrow> locks w1 x = locks w x" "capturesync_world.more w1 = capturesync_world.more w"
    using hn(2) by (auto simp: w1(2) w0(2))
  note q = queue_inv_fresh [OF inv a1 f(1-6) hn(1) _ f(7,8)]
  have "other_locks w1 l = Some False" using q(4) [of l] hn(2) by (simp add: w1(2))
  moreover have "q_lock (queues w x) \<noteq> l" if "x \<in> qheld w" for x
    using queue_invD(4) [OF inv that] hn(2) by (auto simp: queue_ok_def other_locks_def split: if_splits)
  moreover have "l \<noteq> 0" by (simp add: w1(1) w0(2))
  ultimately have "building h l [] w1"
    using q n g w0(1) f(4) by (auto simp: building_def live_def f(6) w1(2) w0(2))
  moreover have "other_locks w l = None" using hn(2) by (simp add: other_locks_def)
  ultimately show ?thesis using h l hn(1) n w0 w1 q(2,3) by auto
qed

text \<open>A new synchroniser: the invariant holds, it does not run, its queues are empty and disabled, its frames are empty.\<close>

definition new_sync :: "ptr \<Rightarrow> 'a capturesync_world_scheme \<Rightarrow> bool" where
  "new_sync h w \<longleftrightarrow> sync_inv h w \<and> idle h w \<and> \<not> cs_running (syncs w h) \<and>
     (\<forall>q \<in> set (sync_queues (syncs w h)). \<not> q_enabled (queues w q) \<and> contents (queues w q) = []) \<and>
     (\<forall>b. fi_capture (frame b h w) = 0 \<and> fi_image (frame b h w) = 0)"

lemma building_done:
  assumes b: "building h l [c, r, d] w" and s: "syncs w h = s" "cs_lock s = l" "sync_queues s = [c, r, d]" "\<not> cs_running s"
    and f: "cs_color s = frame_zero\<lparr>fi_color_capture := True, fi_get_typed_image := PFN_capture_get_color_image, fi_queue := r\<rparr>"
      "cs_depth_ir s = frame_zero\<lparr>fi_color_capture := False, fi_get_typed_image := PFN_capture_get_ir_image, fi_queue := d\<rparr>"
  shows "sync_inv h w" and "idle h w" and "\<forall>b. fi_capture (frame b h w) = 0 \<and> fi_image (frame b h w) = 0"
proof -
  have inv: "queue_inv w" using b by (simp add: building_def)
  show fr: "\<forall>b. fi_capture (frame b h w) = 0 \<and> fi_image (frame b h w) = 0"
    using f by (simp add: frame_def get_frame_def s(1) frame_zero_def)
  have ok: "frame_ok x (frame x h w)" for x
    using f by (cases x) (simp_all add: frame_ok_def frame_def get_frame_def s(1) frame_zero_def sensor_pfn_def)
  have "0 \<le> user_refs h w x" "0 \<le> user_images h w x" for x
    using inv fr by (simp_all add: user_refs_def user_images_def popped_def queue_inv_def capture_inv_def)
  then have "sync_core h w" using b ok inv by (simp add: sync_core_def s building_def)
  then show "sync_inv h w" using b fr s by (simp add: sync_inv_def own_lock_def building_def stamped_def)
  show "idle h w" using b by (simp add: idle_def s building_def)
qed

lemma preserved_touched:
  assumes "preserved w w1" and "touched P Q w1 w2" and "Q \<inter> qheld w = {}"
  shows "preserved w w2"
proof -
  have "live T w2 x = live T w1 x" if "T \<notin> {H_image, H_capture}" for T x
    using assms(2) that live_other [of "{H_image, H_capture}" w2 w1 T x] by (simp add: touched_def)
  then show ?thesis using assms by (auto simp: preserved_def touched_def)
qed

text \<open>Disabling the new queues and setting the flags of the environment.\<close>

lemma new_sync_disabled:
  assumes b: "building h l [c, r, d] w" and s: "syncs w h = s" "cs_lock s = l" "sync_queues s = [c, r, d]" "\<not> cs_running s"
    and f: "cs_color s = frame_zero\<lparr>fi_color_capture := True, fi_get_typed_image := PFN_capture_get_color_image, fi_queue := r\<rparr>"
      "cs_depth_ir s = frame_zero\<lparr>fi_color_capture := False, fi_get_typed_image := PFN_capture_get_ir_image, fi_queue := d\<rparr>"
  shows "\<exists>w1 w2 w3. queue_disable others r w = Some w1 \<and> queue_disable others d w1 = Some w2 \<and> queue_disable others c w2 = Some w3 \<and>
     syncs w1 = syncs w \<and> syncs w2 = syncs w \<and> syncs w3 = syncs w \<and> touched (\<lambda>q. \<not> q_enabled q \<and> contents q = []) {r, d, c} w w3 \<and> new_sync h w3"
proof -
  note inv = building_done [OF assms]
  have core: "sync_core h w" using inv(1) by (simp add: sync_inv_def)
  have Q: "\<forall>q \<in> {r, d, c}. q \<in> qheld w \<and> queue_pop_blocked (queues w q) = 0" using b by (auto simp: building_def)
  from touched_three [where f = "queue_disable others", OF queue_disable_shut sync_coreD(1) [OF core] Q] obtain w1 w2 w3 where
    w: "queue_disable others r w = Some w1" "queue_disable others d w1 = Some w2" "queue_disable others c w2 = Some w3"
      "syncs w1 = syncs w" "syncs w2 = syncs w" "shut {r, d, c} w w3" by blast
  note t = touched_core [OF w(6) core]
  have sy: "syncs w3 = syncs w" using w(6) by (simp add: touched_def)
  have "sync_inv h w3" using inv(1) t by (simp add: sync_inv_def sy)
  moreover have "idle h w3" using inv(2) t(7) by simp
  moreover have "\<forall>q \<in> set (sync_queues (syncs w3 h)). \<not> q_enabled (queues w3 q) \<and> contents (queues w3 q) = []"
    using w(6) by (auto simp: touched_def sy s)
  ultimately have "new_sync h w3" using inv(3) s(1,4) t(4) by (simp add: new_sync_def sy)
  then show ?thesis using w sy by blast
qed

lemma new_sync_flags:
  assumes n: "new_sync h w"
  shows "new_sync h (put_sync h ((syncs w h)\<lparr>cs_disable_sync := b\<rparr>) w)" and "new_sync h (put_sync h ((syncs w h)\<lparr>cs_enable_ts_logging := b\<rparr>) w)"
proof -
  have core: "sync_core h w" using n by (simp add: new_sync_def sync_inv_def)
  have "new_sync h (put_sync h s w)" if s: "sync_queues s = sync_queues (syncs w h)" "cs_color s = cs_color (syncs w h)" "cs_depth_ir s = cs_depth_ir (syncs w h)"
    "cs_lock s = cs_lock (syncs w h)" "cs_running s = cs_running (syncs w h)" for s
  proof -
    note p = put_sync_settings [OF core s(1-4)]
    show ?thesis using n p s(1,5) by (simp add: new_sync_def sync_inv_def)
  qed
  then show "new_sync h (put_sync h ((syncs w h)\<lparr>cs_disable_sync := b\<rparr>) w)" "new_sync h (put_sync h ((syncs w h)\<lparr>cs_enable_ts_logging := b\<rparr>) w)"
    by (simp_all add: sync_queues_def)
qed

text \<open>The three queues of a synchroniser, in the order of their creation.\<close>

abbreviation "depth_queue_in q s \<equiv> s\<lparr>cs_depth_ir := (cs_depth_ir s)\<lparr>fi_queue := q\<rparr>\<rparr>"
abbreviation "color_queue_in q s \<equiv> s\<lparr>cs_color := (cs_color s)\<lparr>fi_queue := q\<rparr>\<rparr>"
abbreviation "sync_queue_in q s \<equiv> s\<lparr>cs_sync_queue := q\<rparr>"

lemma preserved_qheld: "preserved w w' \<Longrightarrow> q \<in> qheld w \<Longrightarrow> q \<in> qheld w' \<and> queues w' q = queues w q"
  by (auto simp: preserved_def qheld_def)

lemma three_queues:
  fixes w :: "'a capturesync_world_scheme"
  assumes b: "building h l [] w"
  shows "\<exists>d r c v2 v3 v4. create_queue_in depth_queue_in QUEUE_DEFAULT_SIZE ''Queue_depth'' h ZSA_RESULT_SUCCEEDED w = Some (ZSA_RESULT_SUCCEEDED, v2) \<and>
     create_queue_in color_queue_in QUEUE_DEFAULT_SIZE ''Queue_color'' h ZSA_RESULT_SUCCEEDED v2 = Some (ZSA_RESULT_SUCCEEDED, v3) \<and>
     create_queue_in sync_queue_in (QUEUE_DEFAULT_SIZE div 2) ''Queue_capture'' h ZSA_RESULT_SUCCEEDED v3 = Some (ZSA_RESULT_SUCCEEDED, v4) \<and>
     building h l [c, r, d] v4 \<and> preserved w v4 \<and> {r, d, c} \<inter> qheld w = {} \<and>
     syncs v4 = (syncs w)(h := sync_queue_in c (color_queue_in r (depth_queue_in d (syncs w h)))) \<and>
     capacity (queues v4 c) = 7 \<and> capacity (queues v4 r) = 15 \<and> capacity (queues v4 d) = 15 \<and> (\<forall>q \<in> {r, d, c}. other_locks w (q_lock (queues v4 q)) = None) \<and>
     qheld v4 = {r, d, c} \<union> qheld w"
proof -
  have sz: "QUEUE_DEFAULT_SIZE \<noteq> 0" "\<not> QUEUE_DEFAULT_SIZE > 10000" "QUEUE_DEFAULT_SIZE div 2 \<noteq> 0" "\<not> QUEUE_DEFAULT_SIZE div 2 > 10000"
    by (simp_all add: queue_sizes)
  have step: "\<exists>q w'. create_queue_in upd n name h ZSA_RESULT_SUCCEEDED v = Some (ZSA_RESULT_SUCCEEDED, w') \<and>
      building h l (q # Q) w' \<and> preserved v w' \<and> q \<notin> qheld v \<and> qheld w' = insert q (qheld v) \<and> other_locks v (q_lock (queues w' q)) = None \<and> syncs w' = (syncs v)(h := upd q (syncs v h)) \<and> capacity (queues w' q) = unat n"
    if "building h l Q v" "n \<noteq> 0" "\<not> n > 10000" for Q n name upd and v :: "'a capturesync_world_scheme"
    using create_queue_step [OF that, of upd name] by force
  from step [OF b sz(1,2), of depth_queue_in "''Queue_depth''"] obtain d v2 where
    v2: "create_queue_in depth_queue_in QUEUE_DEFAULT_SIZE ''Queue_depth'' h ZSA_RESULT_SUCCEEDED w = Some (ZSA_RESULT_SUCCEEDED, v2)"
      "building h l [d] v2" "preserved w v2" "d \<notin> qheld w" "other_locks w (q_lock (queues v2 d)) = None" "syncs v2 = (syncs w)(h := depth_queue_in d (syncs w h))" "capacity (queues v2 d) = 15" "qheld v2 = insert d (qheld w)"
    by (auto simp: queue_sizes)
  from step [OF v2(2) sz(1,2), of color_queue_in "''Queue_color''"] obtain r v3 where
    v3: "create_queue_in color_queue_in QUEUE_DEFAULT_SIZE ''Queue_color'' h ZSA_RESULT_SUCCEEDED v2 = Some (ZSA_RESULT_SUCCEEDED, v3)"
      "building h l [r, d] v3" "preserved v2 v3" "r \<notin> qheld v2" "other_locks v2 (q_lock (queues v3 r)) = None" "syncs v3 = (syncs v2)(h := color_queue_in r (syncs v2 h))" "capacity (queues v3 r) = 15" "qheld v3 = insert r (qheld v2)"
    by (auto simp: queue_sizes)
  from step [OF v3(2) sz(3,4), of sync_queue_in "''Queue_capture''"] obtain c v4 where
    v4: "create_queue_in sync_queue_in (QUEUE_DEFAULT_SIZE div 2) ''Queue_capture'' h ZSA_RESULT_SUCCEEDED v3 = Some (ZSA_RESULT_SUCCEEDED, v4)"
      "building h l [c, r, d] v4" "preserved v3 v4" "c \<notin> qheld v3" "other_locks v3 (q_lock (queues v4 c)) = None" "syncs v4 = (syncs v3)(h := sync_queue_in c (syncs v3 h))" "capacity (queues v4 c) = 7" "qheld v4 = insert c (qheld v3)"
    by (auto simp: queue_sizes)
  have "d \<in> qheld v2" "d \<in> qheld v3" "r \<in> qheld v3" using v2(2) v3(2) by (simp_all add: building_def)
  then have "capacity (queues v4 r) = 15" "capacity (queues v4 d) = 15"
    using v3(7) v2(7) preserved_qheld [OF v3(3)] preserved_qheld [OF v4(3)] by metis+
  moreover have old: "other_locks v3 x = None \<Longrightarrow> other_locks v2 x = None" "other_locks v2 x = None \<Longrightarrow> other_locks w x = None" for x
    using v2(3) v3(3) by (metis preserved_def)+
  have "\<forall>q \<in> {r, d, c}. other_locks w (q_lock (queues v4 q)) = None"
    using old v2(5) v3(5) v4(5) preserved_qheld [OF v3(3)] preserved_qheld [OF v4(3)] \<open>d \<in> qheld v2\<close> \<open>d \<in> qheld v3\<close> \<open>r \<in> qheld v3\<close> by auto
  moreover have "{r, d, c} \<inter> qheld w = {}"
    using v2(4) v3(4) v4(4) preserved_qheld [OF v2(3)] preserved_qheld [OF v3(3)] by blast
  moreover have "preserved w v4" by (rule preserved_trans [OF preserved_trans [OF v2(3) v3(3)] v4(3)])
  moreover have "syncs v4 = (syncs w)(h := sync_queue_in c (color_queue_in r (depth_queue_in d (syncs w h))))"
    by (simp add: v4(6) v3(6) v2(6))
  moreover have "qheld v4 = {r, d, c} \<union> qheld w" by (auto simp: v4(8) v3(8) v2(8))
  ultimately show ?thesis using v2(1) v3(1) v4(1,2,7)
    by (intro exI [of _ d] exI [of _ r] exI [of _ c] exI [of _ v2] exI [of _ v3] exI [of _ v4]) simp
qed

text \<open>The rest of the creation, once the handle and the lock are there.\<close>

definition create_rest ::
  "(string \<Rightarrow> string option) \<Rightarrow> ptr \<Rightarrow> zsa_result_t \<Rightarrow> 'a capturesync_world_scheme \<Rightarrow> (zsa_result_t \<times> ptr option \<times> 'a capturesync_world_scheme) option" where
  "create_rest getenv h result w = do {
     (result, w) \<leftarrow> create_queue_in depth_queue_in QUEUE_DEFAULT_SIZE ''Queue_depth'' h result w;
     (result, w) \<leftarrow> create_queue_in color_queue_in QUEUE_DEFAULT_SIZE ''Queue_color'' h result w;
     (result, w) \<leftarrow> create_queue_in sync_queue_in (QUEUE_DEFAULT_SIZE div 2) ''Queue_capture'' h result w;
     w \<leftarrow> (if ZSA_SUCCEEDED result then do {
             w \<leftarrow> queue_disable (\<lambda>_ w. w) (fi_queue (cs_color (syncs w h))) w;
             w \<leftarrow> queue_disable (\<lambda>_ w. w) (fi_queue (cs_depth_ir (syncs w h))) w;
             queue_disable (\<lambda>_ w. w) (cs_sync_queue (syncs w h)) w
           } else Some w);
     let w = (if env_flag (getenv ''ZSA_DISABLE_SYNCHRONIZATION'') then put_sync h ((syncs w h)\<lparr>cs_disable_sync := True\<rparr>) w else w);
     let w = (if env_flag (getenv ''ZSA_ENABLE_TS_LOGGING'') then put_sync h ((syncs w h)\<lparr>cs_enable_ts_logging := True\<rparr>) w else w);
     if ZSA_FAILED result then do {
       w \<leftarrow> capturesync_destroy (\<lambda>_ _ w. w) h w;
       Some (result, Some 0, w)
     } else Some (result, Some h, w)
   }"

lemma capturesync_create_eq:
  assumes "handle_create H_capturesync w = (h, w0)" and "h \<noteq> 0" and "Lock_Init w0 = (l, w1)"
  shows "capturesync_create getenv (Some p) w = create_rest getenv h (ZSA_RESULT_FROM_BOOL (l \<noteq> 0)) (put_sync h (capturesync_zero
    \<lparr>cs_color := frame_zero\<lparr>fi_color_capture := True, fi_get_typed_image := PFN_capture_get_color_image\<rparr>,
     cs_depth_ir := frame_zero\<lparr>fi_color_capture := False, fi_get_typed_image := PFN_capture_get_ir_image\<rparr>, cs_lock := l\<rparr>) w1)"
proof -
  have "cs_color capturesync_zero = frame_zero" "cs_depth_ir capturesync_zero = frame_zero" by (simp_all add: capturesync_zero_def)
  then show ?thesis unfolding capturesync_create_def capturesync_t_create_def create_rest_def
    using assms by (simp add: Lock_Init_put_sync sync_store.put_put split del: if_split)
qed

lemma capturesync_create_run:
  assumes inv: "queue_inv w" and g: "os_grants w = (\<lambda>_. True)"
  shows "\<exists>h w'. capturesync_create getenv (Some p) w = Some (ZSA_RESULT_SUCCEEDED, Some h, w') \<and> new_sync h w' \<and> preserved w w' \<and> htype w h = None \<and>
     (cs_disable_sync (syncs w' h) \<longleftrightarrow> env_flag (getenv ''ZSA_DISABLE_SYNCHRONIZATION'')) \<and>
     map (\<lambda>q. capacity (queues w' q)) (sync_queues (syncs w' h)) = [7, 15, 15] \<and> qheld w' = set (sync_queues (syncs w' h)) \<union> qheld w \<and> set (sync_queues (syncs w' h)) \<inter> qheld w = {} \<and>
     (\<forall>l \<in> insert (cs_lock (syncs w' h)) ((\<lambda>q. q_lock (queues w' q)) ` set (sync_queues (syncs w' h))). other_locks w l = None) \<and> (\<forall>k. k \<noteq> h \<longrightarrow> syncs w' k = syncs w k)"
proof -
  from building_start [OF inv g] obtain h w0 l w1 where
    w1: "handle_create H_capturesync w = (h, w0)" "h \<noteq> 0" "htype w h = None" "Lock_Init w0 = (l, w1)" "l \<noteq> 0" "building h l [] w1" "preserved w w1"
      "syncs w1 = syncs w" "other_locks w l = None" "qheld w1 = qheld w" by blast
  define s1 where "s1 = capturesync_zero\<lparr>cs_color := frame_zero\<lparr>fi_color_capture := True, fi_get_typed_image := PFN_capture_get_color_image\<rparr>,
    cs_depth_ir := frame_zero\<lparr>fi_color_capture := False, fi_get_typed_image := PFN_capture_get_ir_image\<rparr>, cs_lock := l\<rparr>"
  let ?v1 = "put_sync h s1 w1"
  have b1: "building h l [] ?v1" using w1(6) by simp
  from three_queues [OF b1] obtain d r c v2 v3 v4 where
    v: "create_queue_in depth_queue_in QUEUE_DEFAULT_SIZE ''Queue_depth'' h ZSA_RESULT_SUCCEEDED ?v1 = Some (ZSA_RESULT_SUCCEEDED, v2)"
      "create_queue_in color_queue_in QUEUE_DEFAULT_SIZE ''Queue_color'' h ZSA_RESULT_SUCCEEDED v2 = Some (ZSA_RESULT_SUCCEEDED, v3)"
      "create_queue_in sync_queue_in (QUEUE_DEFAULT_SIZE div 2) ''Queue_capture'' h ZSA_RESULT_SUCCEEDED v3 = Some (ZSA_RESULT_SUCCEEDED, v4)"
      "building h l [c, r, d] v4" "preserved ?v1 v4" "{r, d, c} \<inter> qheld ?v1 = {}"
      "syncs v4 = (syncs ?v1)(h := sync_queue_in c (color_queue_in r (depth_queue_in d (syncs ?v1 h))))"
      "capacity (queues v4 c) = 7" "capacity (queues v4 r) = 15" "capacity (queues v4 d) = 15"
      "\<forall>q \<in> {r, d, c}. other_locks ?v1 (q_lock (queues v4 q)) = None" "qheld v4 = {r, d, c} \<union> qheld ?v1" by (elim exE conjE)
  define s4 where "s4 = sync_queue_in c (color_queue_in r (depth_queue_in d s1))"
  have s4: "syncs v4 = (syncs w)(h := s4)" using v(7) by (simp add: s4_def w1(8))
  have q4: "fi_queue (cs_color s4) = r" "fi_queue (cs_depth_ir s4) = d" "cs_sync_queue s4 = c" "sync_queues s4 = [c, r, d]" "cs_lock s4 = l" "\<not> cs_running s4"
      "\<not> cs_disable_sync s4"
    by (simp_all add: s4_def sync_queues_def s1_def capturesync_zero_def)
  have f4: "cs_color s4 = frame_zero\<lparr>fi_color_capture := True, fi_get_typed_image := PFN_capture_get_color_image, fi_queue := r\<rparr>"
      "cs_depth_ir s4 = frame_zero\<lparr>fi_color_capture := False, fi_get_typed_image := PFN_capture_get_ir_image, fi_queue := d\<rparr>"
    by (simp_all add: s4_def s1_def)
  have "syncs v4 h = s4" by (simp add: s4)
  from new_sync_disabled [OF v(4) this q4(5,4,6) f4, of "\<lambda>_ w. w"] obtain x1 x2 x3 where
    x: "queue_disable (\<lambda>_ w. w) r v4 = Some x1" "queue_disable (\<lambda>_ w. w) d x1 = Some x2" "queue_disable (\<lambda>_ w. w) c x2 = Some x3"
      "syncs x1 = syncs v4" "syncs x2 = syncs v4" "syncs x3 = syncs v4" "shut {r, d, c} v4 x3" "new_sync h x3" by blast
  define y where "y = (if env_flag (getenv ''ZSA_DISABLE_SYNCHRONIZATION'') then put_sync h ((syncs x3 h)\<lparr>cs_disable_sync := True\<rparr>) x3 else x3)"
  define z where "z = (if env_flag (getenv ''ZSA_ENABLE_TS_LOGGING'') then put_sync h ((syncs y h)\<lparr>cs_enable_ts_logging := True\<rparr>) y else y)"
  have "new_sync h y" using x(8) new_sync_flags(1) [OF x(8), of True] by (simp add: y_def)
  then have nz: "new_sync h z" using new_sync_flags(2) [of h y True] by (simp add: z_def)
  have zf: "queues z = queues x3" "preserved u z = preserved u x3" "cs_disable_sync (syncs z h) = env_flag (getenv ''ZSA_DISABLE_SYNCHRONIZATION'')"
      "sync_queues (syncs z h) = [c, r, d]" "cs_lock (syncs z h) = l" "k \<noteq> h \<longrightarrow> syncs z k = syncs w k" "qheld z = qheld x3" for u k
    using q4(4,5,7) by (simp_all add: z_def y_def x(6) s4 sync_queues_def)
  have "create_rest getenv h ZSA_RESULT_SUCCEEDED ?v1 = Some (ZSA_RESULT_SUCCEEDED, Some h, z)"
    unfolding create_rest_def using v(1-3) x(1-3)
    by (simp add: x(4-6) s4 q4 z_def y_def Let_def split del: if_split cong: if_cong)
  then have "capturesync_create getenv (Some p) w = Some (ZSA_RESULT_SUCCEEDED, Some h, z)"
    using w1(5) by (simp add: capturesync_create_eq [OF w1(1,2,4)] s1_def)
  moreover have "preserved w z"
  proof -
    have "preserved w v4" using preserved_trans [of w ?v1 v4] w1(7) v(5) by simp
    moreover have "{r, d, c} \<inter> qheld w = {}" using v(6) preserved_qheld [OF w1(7)] by auto
    ultimately show ?thesis using preserved_touched [OF _ x(7)] by (simp add: zf(2))
  qed
  moreover have "map (\<lambda>q. capacity (queues z q)) (sync_queues (syncs z h)) = [7, 15, 15]"
    using v(8-10) x(7) by (simp add: zf(1,4) touched_def capacity_def)
  moreover have "set (sync_queues (syncs z h)) \<inter> qheld w = {}" using v(6) w1(10) by (auto simp: zf(4))
  moreover have "qheld x3 = qheld v4" using x(7) by (simp add: touched_def)
  then have "qheld z = set (sync_queues (syncs z h)) \<union> qheld w" using v(12) w1(10) by (auto simp: zf(4,7))
  moreover have "other_locks w x = None" if "other_locks w1 x = None" for x using w1(7) that by (metis preserved_def)
  then have "\<forall>x \<in> insert (cs_lock (syncs z h)) ((\<lambda>q. q_lock (queues z q)) ` set (sync_queues (syncs z h))). other_locks w x = None"
    using v(11) w1(9) x(7) by (simp add: zf(1,4,5) touched_def)
  ultimately show ?thesis using w1(3) nz zf(3,6) by (intro exI [of _ h] exI [of _ z]) simp
qed

subsection \<open>Destruction\<close>

text \<open>Steps that take away the handles \<open>H\<close> and the locks \<open>L\<close>, and nothing else of what a client sees.\<close>

definition removed :: "ptr set \<Rightarrow> ptr set \<Rightarrow> 'a capturesync_world_scheme \<Rightarrow> 'a capturesync_world_scheme \<Rightarrow> bool" where
  "removed H L w w' \<longleftrightarrow> queue_inv w' \<and> other_locks w' = (\<lambda>l. if l \<in> L then None else other_locks w l) \<and>
     other_handles {H_image, H_capture} w' = (\<lambda>x. if x \<in> H then None else other_handles {H_image, H_capture} w x) \<and>
     qheld w' = qheld w - H \<and> (\<forall>k. k \<notin> H \<longrightarrow> queues w' k = queues w k) \<and> client_refs w' = client_refs w \<and> outside w' = outside w \<and>
     syncs w' = syncs w \<and> capturesync_world.more w' = capturesync_world.more w"

lemma removed_trans:
  assumes "removed H L w w1" and "removed H' L' w1 w2"
  shows "removed (H \<union> H') (L \<union> L') w w2"
  using assms by (auto simp: removed_def fun_eq_iff)

lemma queue_destroy_removed:
  assumes "queue_inv w" and "q \<in> qheld w" and "queue_pop_blocked (queues w q) = 0"
  shows "\<exists>w'. queue_destroy others q w = Some w' \<and> removed {q} {q_lock (queues w q)} w w'"
proof -
  from queue_destroy_run [OF assms(1,2), of others] assms(3) obtain w' where
    w': "queue_destroy others q w = Some w'" "queue_inv w'" "client_refs w' = client_refs w" "qheld w' = qheld w - {q}"
      "\<forall>k. k \<noteq> q \<longrightarrow> queues w' k = queues w k" "queue_removed q w w'" by auto
  then show ?thesis using more_syncs [of w' w] by (auto simp: removed_def queue_removed_def fun_eq_iff)
qed

lemma queues_destroyed:
  assumes inv: "queue_inv w" and Q: "\<forall>q \<in> {a, b, c}. q \<in> qheld w \<and> queue_pop_blocked (queues w q) = 0" and d: "distinct [a, b, c]"
  shows "\<exists>w1 w2 w3. queue_destroy others1 a w = Some w1 \<and> queue_destroy others2 b w1 = Some w2 \<and> queue_destroy others3 c w2 = Some w3 \<and>
     syncs w1 = syncs w \<and> syncs w2 = syncs w \<and> removed {a, b, c} ((\<lambda>q. q_lock (queues w q)) ` {a, b, c}) w w3"
proof -
  from queue_destroy_removed [OF inv, of a others1] Q obtain w1 where
    w1: "queue_destroy others1 a w = Some w1" "removed {a} {q_lock (queues w a)} w w1" by auto
  have "queue_inv w1" "b \<in> qheld w1" "queues w1 b = queues w b" using w1(2) Q d by (auto simp: removed_def)
  from queue_destroy_removed [OF this(1,2), of others2] this(3) Q obtain w2 where
    w2: "queue_destroy others2 b w1 = Some w2" "removed {b} {q_lock (queues w b)} w1 w2" by auto
  have "queue_inv w2" "c \<in> qheld w2" "queues w2 c = queues w c" using w1(2) w2(2) Q d by (auto simp: removed_def)
  from queue_destroy_removed [OF this(1,2), of others3] this(3) Q obtain w3 where
    w3: "queue_destroy others3 c w2 = Some w3" "removed {c} {q_lock (queues w c)} w2 w3" by auto
  have "removed {a, b, c} ((\<lambda>q. q_lock (queues w q)) ` {a, b, c}) w w3"
    using removed_trans [OF removed_trans [OF w1(2) w2(2)] w3(2)] by (simp add: insert_commute)
  then show ?thesis using w1 w2 w3 by (auto simp: removed_def)
qed

text \<open>The lock and the handle of the synchroniser itself.\<close>

lemma sync_handle_destroyed:
  assumes inv: "queue_inv w" and live: "live H_capturesync w h" and l: "l \<noteq> 0" "other_locks w l = Some False" "\<forall>q \<in> qheld w. q_lock (queues w q) \<noteq> l"
  shows "\<exists>w1 w2. Lock_Deinit l w = Some (LOCK_OK, w1) \<and> handle_destroy h w1 = Some w2 \<and> removed {h} {l} w w2 \<and> htype w2 h = None"
proof -
  let ?w1 = "w\<lparr>locks := (locks w)(l := None)\<rparr>"
  let ?w2 = "?w1\<lparr>htype := (htype w)(h := None)\<rparr>"
  have lk: "locks w l = Some False" "l \<notin> (\<lambda>k. img_lock (images w k)) ` held w" using l(2) by (auto simp: other_locks_def split: if_splits)
  note cinv = queue_invD(1) [OF inv]
  note iinv = capture_invD(1) [OF cinv]
  have a: "alloc_inv ?w2" by (rule alloc_inv_other [OF image_invD(1) [OF iinv]]) (use alloc_invD(1) [OF image_invD(1) [OF iinv]] in \<open>auto simp: mem_ok_def\<close>)
  have lv: "live T ?w2 x = live T w x" if "T \<noteq> H_capturesync" for T x using live that by (auto simp: live_def)
  have lv2: "\<And>k. live H_image ?w2 k = live H_image w k" "\<And>k. live H_capture ?w2 k = live H_capture w k" by (simp_all add: lv)
  have ilk: "\<And>k. k \<in> held w \<Longrightarrow> locks ?w2 (img_lock (images w k)) = locks w (img_lock (images w k))" using lk(2) by (auto simp: image_iff)
  have img: "image_inv ?w2" "held ?w2 = held w" "image_refs ?w2 = image_refs w"
    using image_inv_frame [OF iinv a, OF _ _ lv2(1) ilk] by simp_all
  have cap: "capture_inv ?w2" "capture_refs ?w2 = capture_refs w" "outside ?w2 = outside w"
    using capture_inv_frame [OF cinv img(1,3) _ lv2(2)] by simp_all
  have qh: "qheld ?w2 = qheld w" using lv by (simp add: qheld_def)
  have ol: "other_locks ?w2 = (other_locks w)(l := None)" unfolding other_locks_def [abs_def] img(2) using lk(2) by (auto simp: fun_eq_iff)
  have cl: "client_refs ?w2 = client_refs w" by (simp add: client_refs_def [abs_def] qh cap(2))
  have "queue_inv ?w2" using inv cap(1) l(3) by (auto simp: queue_inv_def qh cl queue_ok_def ol)
  moreover have "h \<notin> qheld w" using live by (auto simp: qheld_def live_def)
  ultimately have "removed {h} {l} w ?w2"
    by (simp add: removed_def ol qh cl cap(3)) (auto simp: other_handles_def fun_eq_iff)
  then show ?thesis using l(1) lk(1) live by (auto simp: Lock_Deinit_def handle_destroy_def live_def)
qed

lemma capturesync_destroy_run:
  assumes inv: "sync_inv h w" and idle: "idle h w"
  shows "\<exists>w'. capturesync_destroy others h w = Some w' \<and> queue_inv w' \<and> htype w' h = None \<and>
     qheld w' = qheld w - set (sync_queues (syncs w h)) \<and> client_refs w' = user_refs h w \<and> outside w' = user_images h w \<and>
     other_locks w' = (\<lambda>l. if l \<in> insert (cs_lock (syncs w h)) ((\<lambda>q. q_lock (queues w q)) ` set (sync_queues (syncs w h))) then None else other_locks w l) \<and>
     other_handles {H_image, H_capture} w' =
       (\<lambda>x. if x \<in> insert h (set (sync_queues (syncs w h))) then None else other_handles {H_image, H_capture} w x) \<and>
     capturesync_world.more w' = capturesync_world.more w \<and> (\<forall>q \<in> qheld w'. q_lock (queues w' q) = q_lock (queues w q))"
proof -
  let ?s = "syncs w h"
  from capturesync_stop_run [OF inv idle, of others] obtain w1 where
    w1: "capturesync_stop others h w = Some w1" "sync_inv h w1" "\<forall>b. fi_capture (frame b h w1) = 0 \<and> fi_image (frame b h w1) = 0"
      "sync_queues (syncs w1 h) = sync_queues ?s" "user_refs h w1 = user_refs h w" "user_images h w1 = user_images h w" "idle h w1" "beside w w1"
      "\<forall>k. q_lock (queues w1 k) = q_lock (queues w k)" "cs_lock (syncs w1 h) = cs_lock ?s" by blast
  let ?t = "syncs w1 h"
  have core: "sync_core h w1" and own: "own_lock False h w1" using w1(2) by (simp_all add: sync_inv_def)
  have Q: "\<forall>q \<in> {fi_queue (cs_depth_ir ?t), fi_queue (cs_color ?t), cs_sync_queue ?t}. q \<in> qheld w1 \<and> queue_pop_blocked (queues w1 q) = 0"
    using idle_queues [OF core w1(7)] by (auto simp: sync_queues_def)
  have d: "distinct [fi_queue (cs_depth_ir ?t), fi_queue (cs_color ?t), cs_sync_queue ?t]" using core by (auto simp: sync_core_def sync_queues_def)
  from queues_destroyed [OF sync_coreD(1) [OF core] Q d, of "others (fi_queue (cs_depth_ir ?t))" "others (fi_queue (cs_color ?t))" "others (cs_sync_queue ?t)"]
  obtain w2 w3 w4 where
    w4: "queue_destroy (others (fi_queue (cs_depth_ir ?t))) (fi_queue (cs_depth_ir ?t)) w1 = Some w2"
      "queue_destroy (others (fi_queue (cs_color ?t))) (fi_queue (cs_color ?t)) w2 = Some w3"
      "queue_destroy (others (cs_sync_queue ?t)) (cs_sync_queue ?t) w3 = Some w4" "syncs w2 = syncs w1" "syncs w3 = syncs w1"
      "removed {fi_queue (cs_depth_ir ?t), fi_queue (cs_color ?t), cs_sync_queue ?t}
        ((\<lambda>q. q_lock (queues w1 q)) ` {fi_queue (cs_depth_ir ?t), fi_queue (cs_color ?t), cs_sync_queue ?t}) w1 w4" by blast
  have set: "{fi_queue (cs_depth_ir ?t), fi_queue (cs_color ?t), cs_sync_queue ?t} = set (sync_queues ?s)"
    using w1(4) by (auto simp: sync_queues_def)
  note rem = w4(6) [unfolded set]
  have sy4: "syncs w4 = syncs w1" using rem by (simp add: removed_def)
  have own': "cs_lock ?t \<noteq> 0" "other_locks w1 (cs_lock ?t) = Some False" "\<forall>q \<in> qheld w1. q_lock (queues w1 q) \<noteq> cs_lock ?t"
    using own by (simp_all add: own_lock_def)
  have sub: "set (sync_queues ?s) \<subseteq> qheld w1" using core w1(4) by (simp add: sync_core_def)
  have h: "h \<notin> set (sync_queues ?s)" using sub sync_coreD(2) [OF core] by (auto simp: qheld_def live_def)
  have "other_handles {H_image, H_capture} w4 h = other_handles {H_image, H_capture} w1 h" using rem h by (simp add: removed_def)
  then have live4: "live H_capturesync w4 h" using sync_coreD(2) [OF core] by (auto simp: live_def other_handles_def split: option.splits if_splits)
  have "queue_inv w4" "other_locks w4 (cs_lock ?t) = Some False" "\<forall>q \<in> qheld w4. q_lock (queues w4 q) \<noteq> cs_lock ?t"
    using rem own'(2,3) sub by (auto simp: removed_def)
  from sync_handle_destroyed [OF this(1) live4 own'(1) this(2,3)] obtain w5 w6 where
    w6: "Lock_Deinit (cs_lock ?t) w4 = Some (LOCK_OK, w5)" "handle_destroy h w5 = Some w6" "removed {h} {cs_lock ?t} w4 w6" "htype w6 h = None" by blast
  have nz: "fi_queue (cs_depth_ir ?t) \<noteq> 0" "fi_queue (cs_color ?t) \<noteq> 0" "cs_sync_queue ?t \<noteq> 0" using Q by (auto simp: qheld_def live_def)
  have "live H_capturesync w h" using inv by (simp add: sync_inv_def sync_core_def)
  then have "capturesync_destroy others h w = Some w6"
    using w1(1) w4(1-3) w6(1,2) nz by (simp add: capturesync_destroy_def destroy_if_any_def w4(4,5) sy4)
  moreover have all: "removed (set (sync_queues ?s) \<union> {h}) ((\<lambda>q. q_lock (queues w q)) ` set (sync_queues ?s) \<union> {cs_lock ?s}) w1 w6"
    using removed_trans [OF rem w6(3)] w1(9,10) by simp
  moreover have "client_refs w1 = user_refs h w" "outside w1 = user_images h w"
    using w1(3,5,6) by (simp_all add: user_refs_def [abs_def] user_images_def [abs_def] popped_def)
  moreover have "qheld w1 = qheld w"
    using w1(8) live_other [of "{H_image, H_capture}" w1 w H_queue] by (simp add: beside_def qheld_def)
  moreover have "h \<notin> qheld w1" using sync_coreD(2) [OF core] by (auto simp: qheld_def live_def)
  ultimately show ?thesis using w6(4) w1(8,9) by (intro exI [of _ w6]) (auto simp: removed_def beside_def)
qed

subsection \<open>Property\<close>

lemma one_sync_granted: "os_grants one_sync = (\<lambda>_. True)"
  by (simp add: one_sync_def)



end
