(* ===== verification/Zsa_Device_Spec.thy ===== *)
theory Zsa_Device_Spec
  imports Zsa_Device Color_mcu_Spec Capturesync_Life
begin

text \<open>
  How the components work together in a device: the steps of the USB component, of the camera and of the
  device itself leave the synchroniser alone, those of the synchroniser leave the others alone, so that
  starting and stopping the cameras keeps the invariant of all of them.
\<close>

subsection \<open>Steps above the synchroniser\<close>

lemma truncate_simps [simp]:
  "next_addr (capturesync_world.truncate w) = next_addr w" "os_grants (capturesync_world.truncate w) = os_grants w"
  "os_requests (capturesync_world.truncate w) = os_requests w" "htype (capturesync_world.truncate w) = htype w"
  "locks (capturesync_world.truncate w) = locks w" "conds (capturesync_world.truncate w) = conds w"
  "g_init_once (capturesync_world.truncate w) = g_init_once w" "g_lock (capturesync_world.truncate w) = g_lock w"
  "g_alloc (capturesync_world.truncate w) = g_alloc w" "g_free (capturesync_world.truncate w) = g_free w"
  "blocks (capturesync_world.truncate w) = blocks w" "images (capturesync_world.truncate w) = images w"
  "captures (capturesync_world.truncate w) = captures w" "queues (capturesync_world.truncate w) = queues w"
  "syncs (capturesync_world.truncate w) = syncs w"
  by (simp_all add: capturesync_world.defs)

lemma truncate_held [simp]:
  "live T (capturesync_world.truncate w) h = live T w h" "held (capturesync_world.truncate w) = held w"
  "cheld (capturesync_world.truncate w) = cheld w" "qheld (capturesync_world.truncate w) = qheld w"
  by (simp_all add: live_def held_def cheld_def qheld_def)

lemma truncate_refs [simp]:
  "image_refs (capturesync_world.truncate w) = image_refs w" "capture_refs (capturesync_world.truncate w) = capture_refs w"
  "outside (capturesync_world.truncate w) = outside w" "client_refs (capturesync_world.truncate w) = client_refs w"
  "other_locks (capturesync_world.truncate w) = other_locks w"
  by (simp_all add: image_refs_def [abs_def] capture_refs_def [abs_def] outside_def [abs_def] client_refs_def [abs_def] slot_count_def
      other_locks_def [abs_def] cong: if_cong)

lemma truncate_sync:
  "sync_inv h (capturesync_world.truncate w) = sync_inv h w" "idle h (capturesync_world.truncate w) = idle h w"
proof -
  have "image_inv (capturesync_world.truncate w) = image_inv w"
    by (simp add: image_inv_def alloc_inv_defs mem_ok_def images_ok_def image_wf_def buffer_ok_def)
  then have q: "queue_inv (capturesync_world.truncate w) = queue_inv w" by (simp add: capture_inv_def queue_inv_def queue_ok_def)
  show "sync_inv h (capturesync_world.truncate w) = sync_inv h w" "idle h (capturesync_world.truncate w) = idle h w"
    by (simp_all add: sync_inv_def sync_core_def q own_lock_def user_refs_def user_images_def frame_def stamped_def idle_def)
qed

definition above :: "'a capturesync_world_scheme \<Rightarrow> 'a capturesync_world_scheme \<Rightarrow> bool" where
  "above w w' \<longleftrightarrow> capturesync_world.truncate w' = capturesync_world.truncate w"

lemma above_sync:
  assumes "above w w'"
  shows "sync_inv h w' = sync_inv h w" and "idle h w' = idle h w" and "syncs w' = syncs w" and "queues w' = queues w"
    and "other_locks w' = other_locks w" and "live T w' x = live T w x"
  using assms unfolding above_def
  by (metis truncate_sync(1), metis truncate_sync(2), metis truncate_simps(15), metis truncate_simps(14), metis truncate_refs(5), metis truncate_held(1))

lemma above_trans: "above w w1 \<Longrightarrow> above w1 w2 \<Longrightarrow> above w w2"
  by (simp add: above_def)

lemma above_steps [simp]:
  "above w w" "usb_step u w w' \<Longrightarrow> above w w'" "above w (put_color c x w)" "above w (camera_call_of c k w)" "above w (put_device d y w)"
  "above w (w\<lparr>ticks := t\<rparr>)"
  by (auto simp: above_def capturesync_world.defs put_color_def camera_call_of_def put_device_def elim!: usb_stepE)

text \<open>The state of the components above the synchroniser.\<close>

lemma more_fields:
  assumes "capturesync_world.more w' = capturesync_world.more w"
  shows "usbcmds w' = usbcmds w" and "colormcus w' = colormcus w" and "ticks w' = ticks w" and "colors w' = colors w"
    and "camera_calls w' = camera_calls w" and "devices w' = devices w" and "libusb_calls w' = libusb_calls w"
  using assms by (cases w; cases w'; simp)+

subsection \<open>An open device\<close>

definition device_ok :: "ptr \<Rightarrow> 'a zsa_world_scheme \<Rightarrow> bool" where
  "device_ok h w \<longleftrightarrow> live H_device w h \<and>
     (let d = devices w h; u = mcu_usb_cmd (colormcus w (dev_colormcu d)); c = colors w (dev_color d) in
      sync_inv (dev_capturesync d) w \<and> idle (dev_capturesync d) w \<and>
      live H_colormcu w (dev_colormcu d) \<and> live H_usbcmd w u \<and> uc_lock (usbcmds w u) \<noteq> 0 \<and> other_locks w (uc_lock (usbcmds w u)) = Some False \<and>
      length (uc_serial_number (usbcmds w u)) = MAX_SERIAL_NUMBER_LENGTH \<and>
      live H_color w (dev_color d) \<and> col_camera_reader c \<and> col_tick c \<noteq> 0 \<and> ticks w (col_tick c) \<noteq> None)"

lemma device_okD:
  assumes "device_ok h w"
  shows "live H_device w h" and "sync_inv (dev_capturesync (devices w h)) w" and "idle (dev_capturesync (devices w h)) w"
    and "live H_colormcu w (dev_colormcu (devices w h))" and "usb_ready (mcu_usb_cmd (colormcus w (dev_colormcu (devices w h)))) w"
    and "live H_color w (dev_color (devices w h))" and "live H_capturesync w (dev_capturesync (devices w h))"
proof -
  show "live H_device w h" "sync_inv (dev_capturesync (devices w h)) w" "idle (dev_capturesync (devices w h)) w"
    "live H_colormcu w (dev_colormcu (devices w h))" "live H_color w (dev_color (devices w h))"
    using assms by (simp_all add: device_ok_def Let_def)
  then show "live H_capturesync w (dev_capturesync (devices w h))" by (simp add: sync_inv_def sync_core_def)
  show "usb_ready (mcu_usb_cmd (colormcus w (dev_colormcu (devices w h)))) w"
    using assms by (auto simp: device_ok_def Let_def usb_ready_def other_locks_def split: if_splits)
qed

text \<open>Steps of the synchroniser keep a device in order, as long as they keep the synchroniser in order.\<close>

lemma device_ok_beside:
  assumes ok: "device_ok h w" and b: "beside w w'" and s: "sync_inv (dev_capturesync (devices w h)) w'" "idle (dev_capturesync (devices w h)) w'"
  shows "device_ok h w'" and "devices w' = devices w"
proof -
  note m = more_fields [of w' w]
  have live: "live T w' x = live T w x" if "T \<notin> {H_image, H_capture}" for T x
    using b that live_other [of "{H_image, H_capture}" w' w T x] by (simp add: beside_def)
  have f: "usbcmds w' = usbcmds w" "colormcus w' = colormcus w" "ticks w' = ticks w" "colors w' = colors w" "devices w' = devices w" "other_locks w' = other_locks w"
    using b m by (simp_all add: beside_def)
  then show "devices w' = devices w" by simp
  show "device_ok h w'" using ok s by (simp add: device_ok_def Let_def f live)
qed

text \<open>So do steps above it that leave the fields alone on which the invariant rests.\<close>

lemma device_ok_above:
  assumes ok: "device_ok h w" and a: "above w w'" and d: "devices w' h = (devices w h)\<lparr>dev_color_started := b\<rparr>" and m: "colormcus w' = colormcus w"
    and u: "uc_lock (usbcmds w' u) = uc_lock (usbcmds w u)" "length (uc_serial_number (usbcmds w' u)) = length (uc_serial_number (usbcmds w u))"
      "u = mcu_usb_cmd (colormcus w (dev_colormcu (devices w h)))"
    and c: "col_camera_reader (colors w' c) = col_camera_reader (colors w c)" "col_tick (colors w' c) = col_tick (colors w c)" "c = dev_color (devices w h)"
    and t: "ticks w (col_tick (colors w c)) \<noteq> None \<longrightarrow> ticks w' (col_tick (colors w c)) \<noteq> None"
  shows "device_ok h w'"
  using ok c(1,2) t u(1,2) by (simp add: device_ok_def Let_def above_sync [OF a] d m u(3) c(3))

text \<open>
  What every call leaves as it is: the handles, but those of images and captures, with their types, the
  locks, which parts belong to the device, and the capabilities of its camera that have been read.
\<close>

definition caps_kept :: "color_context_t \<Rightarrow> color_context_t \<Rightarrow> bool" where
  "caps_kept c c' \<longleftrightarrow> (\<forall>k. cap_valid (col_control_cap c k) \<longrightarrow> col_control_cap c' k = col_control_cap c k)"

lemma caps_kept_refl [simp]: "caps_kept c c" "caps_kept c (c\<lparr>col_sensor_start_time_tick := t\<rparr>)"
  by (simp_all add: caps_kept_def)

lemma caps_kept_trans: "caps_kept c c1 \<Longrightarrow> caps_kept c1 c2 \<Longrightarrow> caps_kept c c2"
  by (simp add: caps_kept_def)

definition same_parts :: "ptr \<Rightarrow> 'a zsa_world_scheme \<Rightarrow> 'a zsa_world_scheme \<Rightarrow> bool" where
  "same_parts h w w' \<longleftrightarrow> other_locks w' = other_locks w \<and>
     other_handles {H_image, H_capture} w' = other_handles {H_image, H_capture} w \<and>
     (\<exists>b. devices w' h = (devices w h)\<lparr>dev_color_started := b\<rparr>) \<and>
     caps_kept (colors w (dev_color (devices w h))) (colors w' (dev_color (devices w h)))"

lemma same_parts_refl [simp]: "same_parts h w w"
  by (auto simp: same_parts_def intro: exI [of _ "dev_color_started (devices w h)"])

lemma same_parts_trans: "same_parts h w w1 \<Longrightarrow> same_parts h w1 w2 \<Longrightarrow> same_parts h w w2"
  by (auto simp: same_parts_def intro: caps_kept_trans)

lemma beside_same_parts:
  assumes "beside w w'"
  shows "same_parts h w w'"
proof -
  have "devices w' h = (devices w h)\<lparr>dev_color_started := dev_color_started (devices w h)\<rparr>" "colors w' = colors w"
    using assms more_fields(4,6) [of w' w] by (simp_all add: beside_def)
  then show ?thesis using assms caps_kept_refl(1) unfolding beside_def same_parts_def by metis
qed

lemma above_same_parts:
  assumes "above w w'" and "devices w' h = (devices w h)\<lparr>dev_color_started := b\<rparr>"
    and "caps_kept (colors w (dev_color (devices w h))) (colors w' (dev_color (devices w h)))"
  shows "same_parts h w w'"
proof -
  have "htype w' = htype w" using assms(1) truncate_simps(4) unfolding above_def by metis
  then show ?thesis using assms(2,3) by (auto simp: same_parts_def other_handles_def [abs_def] above_sync(5) [OF assms(1)])
qed

subsection \<open>Stopping the cameras\<close>

text \<open>What a stopped device looks like: no capture is on its way and none arrives.\<close>

definition cameras_off :: "ptr \<Rightarrow> 'a zsa_world_scheme \<Rightarrow> bool" where
  "cameras_off h w \<longleftrightarrow> (let s = syncs w (dev_capturesync (devices w h)) in
     \<not> dev_color_started (devices w h) \<and> \<not> cs_running s \<and> col_sensor_start_time_tick (colors w (dev_color (devices w h))) = 0 \<and>
     (\<forall>q \<in> set (sync_queues s). \<not> q_enabled (queues w q) \<and> contents (queues w q) = []) \<and>
     (\<forall>b. fi_capture (get_frame b s) = 0 \<and> fi_image (get_frame b s) = 0) \<and> camera_calls w \<noteq> [] \<and> last (camera_calls w) = (dev_color (devices w h), CAM_Stop))"

lemma color_stop_run:
  assumes "live H_color w c" and "col_camera_reader (colors w c)"
  shows "color_stop c w = Some (camera_call_of c CAM_Stop (put_color c ((colors w c)\<lparr>col_sensor_start_time_tick := 0\<rparr>) w))"
  using assms by (simp add: color_stop_def color_store.get_put)

lemma stop_cameras_run:
  assumes ok: "device_ok h w"
  shows "\<exists>w'. zsa_device_stop_cameras others h w = Some w' \<and> device_ok h w' \<and> cameras_off h w' \<and>
     devices w' h = (devices w h)\<lparr>dev_color_started := False\<rparr> \<and> same_parts h w w'"
proof -
  let ?s = "dev_capturesync (devices w h)" and ?c = "dev_color (devices w h)"
  note d = device_okD [OF ok]
  from capturesync_stop_run [OF d(2,3), of others] obtain w1 where
    w1: "capturesync_stop others ?s w = Some w1" "sync_inv ?s w1" "\<not> cs_running (syncs w1 ?s)"
      "\<forall>b. fi_capture (frame b ?s w1) = 0 \<and> fi_image (frame b ?s w1) = 0" "sync_queues (syncs w1 ?s) = sync_queues (syncs w ?s)"
      "\<forall>q \<in> set (sync_queues (syncs w ?s)). \<not> q_enabled (queues w1 q) \<and> contents (queues w1 q) = []" "idle ?s w1" "beside w w1" by blast
  note ok1 = device_ok_beside [OF ok w1(8,2,7)]
  have c1: "live H_color w1 ?c" "col_camera_reader (colors w1 ?c)" using ok1 by (simp_all add: device_ok_def Let_def)
  let ?w2 = "camera_call_of ?c CAM_Stop (put_color ?c ((colors w1 ?c)\<lparr>col_sensor_start_time_tick := 0\<rparr>) w1)"
  let ?w3 = "put_device h ((devices w h)\<lparr>dev_color_started := False\<rparr>) ?w2"
  have nz: "?s \<noteq> 0" "?c \<noteq> 0" using d(6,7) by (simp_all add: live_def)
  have dev: "devices ?w2 = devices w" using ok1(2) by (simp add: camera_call_of_def put_color_def)
  have "zsa_device_stop_cameras others h w = Some ?w3"
    using d(1) w1(1) nz ok1(2) color_stop_run [OF c1] dev by (simp add: zsa_device_stop_cameras_def)
  moreover have a: "above w1 ?w3" by (intro above_trans [OF _ above_steps(5)] above_trans [OF _ above_steps(4)] above_steps(3))
  moreover have "devices ?w3 h = (devices w1 h)\<lparr>dev_color_started := False\<rparr>" "devices ?w3 h = (devices w h)\<lparr>dev_color_started := False\<rparr>"
    using ok1(2) by (simp_all add: put_device_def)
  moreover have "device_ok h ?w3"
    by (rule device_ok_above [OF ok1(1) a, where b = False, OF _ _ _ _ refl _ _ refl])
       (simp_all add: put_device_def camera_call_of_def put_color_def ok1(2))
  moreover have "cameras_off h ?w3"
    using w1(3-6) by (simp add: cameras_off_def Let_def above_sync [OF a] frame_def) (simp add: put_device_def camera_call_of_def put_color_def)
  moreover have "same_parts h w ?w3"
    by (rule same_parts_trans [OF beside_same_parts [OF w1(8)] above_same_parts [OF a, of _ False]]) (simp_all add: put_device_def camera_call_of_def put_color_def ok1(2))
  ultimately show ?thesis by blast
qed

subsection \<open>Starting the cameras\<close>

text \<open>The clock has not run backwards since the tick counter was made, and not for longer than \<open>double\<close> is exact.\<close>

definition clock_ok :: "int \<Rightarrow> TICK_COUNTER_INSTANCE option \<Rightarrow> bool" where
  "clock_ok now t \<longleftrightarrow> now = INVALID_TIME_VALUE \<or>
     (case t of None \<Rightarrow> True | Some t \<Rightarrow> init_time_value t \<le> now \<and> (now - init_time_value t) * 1000 < 2 ^ 53)"

text \<open>A step of camera \<open>c\<close> that keeps its reader, its tick counter and its capabilities.\<close>

definition color_step :: "ptr \<Rightarrow> 'a zsa_world_scheme \<Rightarrow> 'a zsa_world_scheme \<Rightarrow> bool" where
  "color_step c w w' \<longleftrightarrow> above w w' \<and> devices w' = devices w \<and> colormcus w' = colormcus w \<and> usbcmds w' = usbcmds w \<and>
     libusb_calls w' = libusb_calls w \<and>
     col_camera_reader (colors w' c) = col_camera_reader (colors w c) \<and> col_tick (colors w' c) = col_tick (colors w c) \<and>
     (\<forall>t. ticks w t \<noteq> None \<longrightarrow> ticks w' t \<noteq> None) \<and> caps_kept (colors w c) (colors w' c)"

lemma color_step_trans: "color_step c w w1 \<Longrightarrow> color_step c w1 w2 \<Longrightarrow> color_step c w w2"
  by (auto simp: color_step_def intro: above_trans caps_kept_trans)

lemma color_steps [simp]:
  "color_step c w w" "color_step c w (camera_call_of c k w)" "color_step c w (put_color c ((colors w c)\<lparr>col_sensor_start_time_tick := ms\<rparr>) w)"
  "color_step c w (w\<lparr>ticks := (ticks w)(t \<mapsto> x)\<rparr>)"
  by (simp_all add: color_step_def) (simp_all add: camera_call_of_def put_color_def)

lemma device_ok_color:
  assumes "device_ok h w" and "color_step (dev_color (devices w h)) w w'"
  shows "device_ok h w'"
  using assms(2)
  by (intro device_ok_above [OF assms(1), where b = "dev_color_started (devices w h)", OF _ _ _ _ _ refl _ _ refl]) (auto simp: color_step_def)

definition color_started :: "zsa_device_configuration_t \<Rightarrow> ptr \<Rightarrow> camera_history \<Rightarrow> bool" where
  "color_started cfg c calls \<longleftrightarrow> (\<exists>width height fps. zsa_convert_resolution_to_width_height (cfg_color_resolution cfg) = Some (width, height) \<and>
     zsa_convert_fps_to_uint (cfg_camera_fps cfg) = Some (of_nat fps) \<and> calls = [(c, CAM_Start width height fps (cfg_color_format cfg))])"

lemma color_settings:
  "color_resolution_size r = zsa_convert_resolution_to_width_height r" "color_fps f = map_option unat (zsa_convert_fps_to_uint f)"
  by (cases r; simp) (cases f; simp)

lemma color_start_run:
  assumes live: "live H_color w c" "col_camera_reader (colors w c)" and t: "col_tick (colors w c) \<noteq> 0" "ticks w (col_tick (colors w c)) = Some t"
    and clock: "clock_ok now (Some t)"
  shows "\<exists>r w'. color_start reader now c (Some cfg) w = Some (r, w') \<and> color_step c w w' \<and>
     (r = ZSA_RESULT_SUCCEEDED \<longrightarrow> (\<exists>calls. camera_calls w' = camera_calls w @ calls \<and> color_started cfg c calls))"
proof (cases "color_resolution_size (cfg_color_resolution cfg) = None \<or> color_fps (cfg_camera_fps cfg) = None")
  case True
  then have "color_start reader now c (Some cfg) w = Some (ZSA_RESULT_FAILED, w)"
    using live(1) by (auto simp: color_start_def split: option.splits)
  then show ?thesis by simp
next
  case False
  then obtain width height fps where size: "color_resolution_size (cfg_color_resolution cfg) = Some (width, height)" and fps: "color_fps (cfg_camera_fps cfg) = Some fps"
    by auto
  have stop: "\<exists>w2. color_stop c w1 = Some w2 \<and> color_step c w w2" if "color_step c w w1" for w1
  proof -
    have "live H_color w1 c" "col_camera_reader (colors w1 c)" using that live above_sync(6) [of w w1 H_color c] by (simp_all add: color_step_def)
    note r = color_stop_run [OF this]
    show ?thesis using color_step_trans [OF that color_step_trans [OF color_steps(3) color_steps(2)]] by (auto simp: r)
  qed
  show ?thesis
  proof (cases "now = INVALID_TIME_VALUE")
    case True
    then show ?thesis using live(1) size fps t stop [of w] by (auto simp: color_start_def tickcounter_get_current_ms_def)
  next
    case False
    let ?ms = "(now - init_time_value t) * 1000"
    let ?w1 = "w\<lparr>ticks := (ticks w)(col_tick (colors w c) \<mapsto> t\<lparr>current_ms := word_of_int ?ms\<rparr>)\<rparr>"
    let ?w2 = "put_color c ((colors ?w1 c)\<lparr>col_sensor_start_time_tick := word_of_int ?ms\<rparr>) ?w1"
    let ?k = "CAM_Start width height fps (cfg_color_format cfg)"
    have ms: "tickcounter_get_current_ms now (col_tick (colors w c)) w = Some (Some (word_of_int ?ms), ?w1)"
      using False clock t by (simp add: tickcounter_get_current_ms_def clock_ok_def Let_def not_less)
    have rd: "col_camera_reader (colors ?w2 c)" "camera_calls ?w2 = camera_calls w" using live(2) by (simp_all add: put_color_def)
    have st: "color_step c w (camera_call_of c ?k ?w2)"
      by (rule color_step_trans [OF color_step_trans [OF color_steps(4) color_steps(3)] color_steps(2)])
    from stop [OF st] obtain w3 where w3: "color_stop c (camera_call_of c ?k ?w2) = Some w3" "color_step c w w3" by blast
    have "color_start reader now c (Some cfg) w = (if reader_Start reader (camera_calls w) width height fps (cfg_color_format cfg) = ZSA_RESULT_FAILED
        then Some (ZSA_RESULT_FAILED, w3) else Some (ZSA_RESULT_SUCCEEDED, camera_call_of c ?k ?w2))"
      using live(1) size fps ms rd w3(1) unfolding color_start_def
      by (cases "reader_Start reader (camera_calls w) width height fps (cfg_color_format cfg)") simp_all
    moreover have "color_started cfg c [(c, ?k)]"
      using size fps by (auto simp: color_started_def color_settings)
    ultimately show ?thesis using w3(2) st rd(2) by (auto simp: camera_call_of_def split: if_splits)
  qed
qed

text \<open>A configuration whose delays are exact in ticks and whose frame rate exists.\<close>

definition config_ok :: "zsa_device_configuration_t \<Rightarrow> bool" where
  "config_ok cfg \<longleftrightarrow> (\<exists>fps. zsa_convert_fps_to_uint (cfg_camera_fps cfg) = Some fps) \<and> is_int32 (cfg_depth_delay_off_color_usec cfg * 9) \<and>
     unat (cfg_subordinate_delay_off_master_usec cfg) * 9 < 2 ^ 32"

text \<open>
  What a successful start of device \<open>h\<close> leads to: the processor has been sent the configuration, the
  synchroniser runs with it and with enabled queues, and the camera, unless it is off, has been started
  with the resolution and the frame rate of the configuration.
\<close>

definition cameras_on :: "zsa_device_configuration_t \<Rightarrow> ptr \<Rightarrow> 'a zsa_world_scheme \<Rightarrow> 'a zsa_world_scheme \<Rightarrow> bool" where
  "cameras_on cfg h w w' \<longleftrightarrow>
     (let d = devices w h; s = dev_capturesync d; u = mcu_usb_cmd (colormcus w (dev_colormcu d)) in
      \<not> dev_color_started d \<and> devices w' h = d\<lparr>dev_color_started := True\<rparr> \<and>
      (\<exists>mode calls. external_sync_mode (cfg_wired_sync_mode cfg) = Some mode \<and> libusb_calls w' = libusb_calls w @ calls \<and>
         config_sent (usbcmds w u) cfg mode calls) \<and>
      (\<exists>fps. zsa_convert_fps_to_uint (cfg_camera_fps cfg) = Some fps \<and> started_with cfg fps (syncs w s) (syncs w' s)) \<and>
      (\<forall>q \<in> set (sync_queues (syncs w s)). q_enabled (queues w' q)) \<and>
      (if cfg_color_resolution cfg = ZSA_COLOR_RESOLUTION_OFF then camera_calls w' = camera_calls w
       else \<exists>calls. camera_calls w' = camera_calls w @ calls \<and> color_started cfg (dev_color d) calls))"

lemma device_ok_usb:
  assumes ok: "device_ok h w" and s: "usb_step u w w'" "usb_ready u w'" "u = mcu_usb_cmd (colormcus w (dev_colormcu (devices w h)))"
    and l: "uc_lock (usbcmds w' u) = uc_lock (usbcmds w u)"
  shows "device_ok h w'"
proof (rule device_ok_above [OF ok above_steps(2) [OF s(1)], where b = "dev_color_started (devices w h)", OF _ _ l _ s(3) _ _ refl])
  show "length (uc_serial_number (usbcmds w' u)) = length (uc_serial_number (usbcmds w u))"
    using s(2,3) ok by (simp add: usb_ready_def device_ok_def Let_def)
qed (use s(1) in \<open>auto elim!: usb_stepE\<close>)

lemma start_cameras_run:
  assumes api: "api_bounded api" and ok: "device_ok h w" and cfg: "config_ok cfg" and clock: "clock_ok now (ticks w (col_tick (colors w (dev_color (devices w h)))))"
  shows "\<exists>r w'. zsa_device_start_cameras api reader now others h (Some cfg) w = Some (r, w') \<and> device_ok h w' \<and>
     (if r = ZSA_RESULT_SUCCEEDED then cameras_on cfg h w w' else cameras_off h w') \<and> same_parts h w w'"
proof -
  let ?d = "devices w h"
  let ?s = "dev_capturesync ?d" and ?c = "dev_color ?d" and ?u = "mcu_usb_cmd (colormcus w (dev_colormcu ?d))"
  note d = device_okD [OF ok]
  have fail: "\<exists>w'. zsa_device_stop_cameras others h v = Some w' \<and> device_ok h w' \<and> cameras_off h w' \<and> same_parts h w w'"
    if "device_ok h v" "same_parts h w v" for v
    using stop_cameras_run [OF that(1), of others] same_parts_trans [OF that(2)] by blast
  have body: "zsa_device_start_cameras api reader now others h (Some cfg) w = do {
      (result, w) \<leftarrow> (if dev_color_started ?d then Some (ZSA_RESULT_FAILED, w) else colormcu_set_multi_device_mode api (dev_colormcu ?d) cfg w);
      (result, w) \<leftarrow> (if ZSA_SUCCEEDED result then capturesync_start (dev_capturesync (devices w h)) (Some cfg) w else Some (result, w));
      (result, w) \<leftarrow> (if ZSA_SUCCEEDED result then do {
          (result, w) \<leftarrow> (if cfg_color_resolution cfg \<noteq> ZSA_COLOR_RESOLUTION_OFF then color_start reader now (dev_color (devices w h)) (Some cfg) w
                          else Some (ZSA_RESULT_SUCCEEDED, w));
          Some (result, if ZSA_SUCCEEDED result then put_device h ((devices w h)\<lparr>dev_color_started := True\<rparr>) w else w)
        } else Some (result, w));
      w \<leftarrow> (if ZSA_FAILED result then zsa_device_stop_cameras others h w else Some w);
      Some (result, w) }"
    using d(1) by (simp add: zsa_device_start_cameras_def validate_configuration_def)
  show ?thesis
  proof (cases "dev_color_started ?d")
    case True
    then show ?thesis using fail [OF ok same_parts_refl] by (auto simp: body)
  next
    case False
    have c: "unat (cfg_subordinate_delay_off_master_usec cfg) * 9 < 2 ^ 32" "is_int32 (cfg_depth_delay_off_color_usec cfg * 9)"
        "is_int32 (cfg_depth_delay_off_color_usec cfg)" using cfg by (auto simp: config_ok_def is_int32_def)
    obtain fps where fps: "zsa_convert_fps_to_uint (cfg_camera_fps cfg) = Some fps" using cfg by (auto simp: config_ok_def)
    from multi_device_mode_run [OF api d(4,5) c(1,2)] obtain r1 w1 where
      w1: "colormcu_set_multi_device_mode api (dev_colormcu ?d) cfg w = Some (r1, w1)" "usb_ready ?u w1" "usb_step ?u w w1"
        "uc_lock (usbcmds w1 ?u) = uc_lock (usbcmds w ?u)"
        "r1 = ZSA_RESULT_SUCCEEDED \<longrightarrow> (\<exists>mode calls. external_sync_mode (cfg_wired_sync_mode cfg) = Some mode \<and>
          libusb_calls w1 = libusb_calls w @ calls \<and> config_sent (usbcmds w ?u) cfg mode calls)" by (elim exE conjE)
    note ok1 = device_ok_usb [OF ok w1(3,2) refl w1(4)]
    have f1: "devices w1 = devices w" "colors w1 = colors w" "ticks w1 = ticks w" "camera_calls w1 = camera_calls w" "syncs w1 = syncs w"
      using w1(3) by (auto elim!: usb_stepE)
    have p1: "same_parts h w w1" by (rule above_same_parts [OF above_steps(2) [OF w1(3)], of _ "dev_color_started ?d"]) (simp_all add: f1)
    show ?thesis
    proof (cases r1)
      case ZSA_RESULT_FAILED
      then show ?thesis using fail [OF ok1 p1] False w1(1) by (auto simp: body)
    next
      case ZSA_RESULT_SUCCEEDED
      have s1: "sync_inv ?s w1" "idle ?s w1" using device_okD(2,3) [OF ok1] by (simp_all add: f1)
      from capturesync_start_run [OF s1 fps c(3)] obtain w2 where
        w2: "capturesync_start ?s (Some cfg) w1 = Some (ZSA_RESULT_SUCCEEDED, w2)" "sync_inv ?s w2" "started_with cfg fps (syncs w ?s) (syncs w2 ?s)"
          "\<forall>q \<in> set (sync_queues (syncs w ?s)). q_enabled (queues w2 q)" "idle ?s w2" "beside w1 w2" by (auto simp: f1)
      have ok2: "device_ok h w2" "devices w2 = devices w"
        using device_ok_beside [OF ok1 w2(6)] w2(2,5) by (simp_all add: f1)
      have f2: "colors w2 = colors w" "ticks w2 = ticks w" "camera_calls w2 = camera_calls w" "libusb_calls w2 = libusb_calls w1"
        using w2(6) more_fields [of w2 w1] by (simp_all add: beside_def f1)
      note p2 = same_parts_trans [OF p1 beside_same_parts [OF w2(6)]]
      have p3: "same_parts h w v" if "color_step ?c w2 v" for v
        by (rule same_parts_trans [OF p2 above_same_parts [of w2 v h "dev_color_started ?d"]]) (use that in \<open>simp_all add: color_step_def ok2(2)\<close>)
      have finished: "device_ok h (put_device h ((devices v h)\<lparr>dev_color_started := True\<rparr>) v) \<and>
          cameras_on cfg h w (put_device h ((devices v h)\<lparr>dev_color_started := True\<rparr>) v) \<and>
          same_parts h w (put_device h ((devices v h)\<lparr>dev_color_started := True\<rparr>) v)"
        if v: "color_step ?c w2 v" and k: "if cfg_color_resolution cfg = ZSA_COLOR_RESOLUTION_OFF then camera_calls v = camera_calls w
            else \<exists>calls. camera_calls v = camera_calls w @ calls \<and> color_started cfg ?c calls" for v
      proof -
        have a: "above w2 v" "devices v = devices w" "libusb_calls v = libusb_calls w1" using v by (simp_all add: color_step_def ok2(2) f2)
        have "device_ok h v" by (rule device_ok_color [OF ok2(1)]) (simp add: ok2(2) v)
        from device_ok_above [OF this above_steps(5), where b = True, OF _ _ _ _ refl _ _ refl]
        have "device_ok h (put_device h ((devices v h)\<lparr>dev_color_started := True\<rparr>) v)" by (simp add: put_device_def)
        moreover have "cameras_on cfg h w (put_device h ((devices v h)\<lparr>dev_color_started := True\<rparr>) v)"
          using False k w1(5) ZSA_RESULT_SUCCEEDED fps w2(3,4)
          by (simp add: cameras_on_def Let_def above_sync [OF above_steps(5)] above_sync [OF a(1)] a(2)) (simp add: put_device_def a)
        moreover have "same_parts h w (put_device h ((devices v h)\<lparr>dev_color_started := True\<rparr>) v)"
          by (rule same_parts_trans [OF p3 [OF v] above_same_parts [OF above_steps(5), of _ _ _ _ True]]) (simp_all add: put_device_def)
        ultimately show ?thesis by blast
      qed
      show ?thesis
      proof (cases "cfg_color_resolution cfg = ZSA_COLOR_RESOLUTION_OFF")
        case True
        then show ?thesis using finished [of w2] False w1(1) ZSA_RESULT_SUCCEEDED w2(1) ok2(2) f1(1) f2(3) by (simp add: body)
      next
        case on: False
        have "live H_color w2 ?c" "col_camera_reader (colors w2 ?c)" "col_tick (colors w2 ?c) \<noteq> 0" "ticks w2 (col_tick (colors w2 ?c)) \<noteq> None"
          using ok2 by (simp_all add: device_ok_def Let_def)
        then obtain t where t: "ticks w2 (col_tick (colors w2 ?c)) = Some t" by blast
        from color_start_run [OF \<open>live H_color w2 ?c\<close> \<open>col_camera_reader (colors w2 ?c)\<close> \<open>col_tick (colors w2 ?c) \<noteq> 0\<close> t, of now reader cfg] clock t
        obtain r3 w3 where w3: "color_start reader now ?c (Some cfg) w2 = Some (r3, w3)" "color_step ?c w2 w3"
            "r3 = ZSA_RESULT_SUCCEEDED \<longrightarrow> (\<exists>calls. camera_calls w3 = camera_calls w @ calls \<and> color_started cfg ?c calls)" by (auto simp: f2)
        have ok3: "device_ok h w3" by (rule device_ok_color [OF ok2(1)]) (simp add: ok2(2) w3(2))
        show ?thesis using finished [OF w3(2)] fail [OF ok3 p3 [OF w3(2)]] on False w1(1) ZSA_RESULT_SUCCEEDED w2(1) w3(1,3) ok2(2) f1(1) by (cases r3) (auto simp: body)
      qed
    qed
  qed
qed

subsection \<open>Example\<close>

text \<open>
  A device (handle 71) with the synchroniser of the examples, which runs, the processor on the USB device of
  the examples, and a camera (handle 67) that has not been started.
\<close>

definition demo_reader :: camera_reader where
  "demo_reader = \<lparr>reader_new = (\<lambda>_. True), reader_Init = (\<lambda>_ _. ZSA_RESULT_SUCCEEDED), reader_Start = (\<lambda>_ _ _ _ _. ZSA_RESULT_SUCCEEDED),
     reader_GetCameraControlCapabilities = (\<lambda>_ _ c. (ZSA_RESULT_SUCCEEDED, c)), reader_GetCameraControl = (\<lambda>_ _ x. (ZSA_RESULT_SUCCEEDED, x)),
     reader_SetCameraControl = (\<lambda>_ _ _ _. ZSA_RESULT_SUCCEEDED)\<rparr>"

definition one_device :: zsa_world where
  "one_device = color_world.extend
     (colormcu_world.extend (one_mcu\<lparr>htype := (htype one_mcu)(67 \<mapsto> H_color, 71 \<mapsto> H_device)\<rparr>)
        (color_world.fields [69 \<mapsto> \<lparr>init_time_value = 5, current_ms = 0\<rparr>] (\<lambda>_. color_zero\<lparr>col_tick := 69, col_camera_reader := True\<rparr>) []))
     (zsa_world.fields (\<lambda>_. \<lparr>dev_tick_handle = 69, dev_colormcu = 65, dev_capturesync = 41, dev_color = 67, dev_color_started = False\<rparr>))"

lemma one_device_above:
  "devices one_device h = \<lparr>dev_tick_handle = 69, dev_colormcu = 65, dev_capturesync = 41, dev_color = 67, dev_color_started = False\<rparr>"
  "colors one_device h = color_zero\<lparr>col_tick := 69, col_camera_reader := True\<rparr>" "camera_calls one_device = []"
  "ticks one_device = [69 \<mapsto> \<lparr>init_time_value = 5, current_ms = 0\<rparr>]"
  by (simp_all add: one_device_def color_world.defs colormcu_world.defs zsa_world.defs)

lemma extend_device:
  fixes w :: colormcu_world
  shows "colormcus (color_world.extend (colormcu_world.extend w x) y) = colormcus w" "usbcmds (color_world.extend (colormcu_world.extend w x) y) = usbcmds w"
    "capturesync_world.truncate (color_world.extend (colormcu_world.extend w x) y) = capturesync_world.truncate w"
  by (simp_all add: color_world.defs colormcu_world.defs capturesync_world.defs)

lemma one_device_below: "colormcus one_device = colormcus one_mcu" "usbcmds one_device = usbcmds one_mcu"
  by (simp_all only: one_device_def extend_device) simp_all

lemma one_device_truncate:
  "capturesync_world.truncate one_device = one_sync\<lparr>locks := (locks one_sync)(63 \<mapsto> False),
     htype := (htype one_sync)(61 \<mapsto> H_usbcmd, 65 \<mapsto> H_colormcu, 67 \<mapsto> H_color, 71 \<mapsto> H_device)\<rparr>"
  by (simp only: one_device_def extend_device) (simp add: one_mcu_def one_usb_def usb_world.defs colormcu_world.defs capturesync_world.defs)

lemma one_device_sync: "sync_inv 41 one_device" "idle 41 one_device"
proof -
  define w1 where "w1 = one_sync\<lparr>locks := (locks one_sync)(63 \<mapsto> False)\<rparr>"
  define w2 where "w2 = w1\<lparr>htype := (htype w1)(61 \<mapsto> H_usbcmd)\<rparr>"
  define w3 where "w3 = w2\<lparr>htype := (htype w2)(65 \<mapsto> H_colormcu)\<rparr>"
  define w4 where "w4 = w3\<lparr>htype := (htype w3)(67 \<mapsto> H_color)\<rparr>"
  have f: "locks one_sync 63 = None" "next_addr one_sync = 200" "htype one_sync 61 = None" "htype one_sync 65 = None" "htype one_sync 67 = None"
      "htype one_sync 71 = None" by (simp_all add: one_sync_def)
  have 1: "sync_inv 41 w1" "idle 41 w1"
    unfolding w1_def using sync_inv_new_lock [OF one_sync_inv, of 63] one_sync_idle by (simp_all add: f)
  have 2: "sync_inv 41 w2" "idle 41 w2" unfolding w2_def using sync_inv_new_handle [OF 1(1), of 61 H_usbcmd] 1(2) by (simp_all add: w1_def f)
  have 3: "sync_inv 41 w3" "idle 41 w3"
    unfolding w3_def using sync_inv_new_handle [OF 2(1), of 65 H_colormcu] 2(2) by (simp_all add: w2_def w1_def f)
  have 4: "sync_inv 41 w4" "idle 41 w4"
    unfolding w4_def using sync_inv_new_handle [OF 3(1), of 67 H_color] 3(2) by (simp_all add: w3_def w2_def w1_def f)
  have "capturesync_world.truncate one_device = w4\<lparr>htype := (htype w4)(71 \<mapsto> H_device)\<rparr>"
    by (simp add: one_device_truncate w4_def w3_def w2_def w1_def)
  then show "sync_inv 41 one_device" "idle 41 one_device"
    using truncate_sync [of 41 one_device] sync_inv_new_handle [OF 4(1), of 71 H_device] 4(2)
    by (simp_all add: w4_def w3_def w2_def w1_def f)
qed

lemma one_device_ok: "device_ok 71 one_device"
proof -
  have h: "htype one_device = (htype one_sync)(61 \<mapsto> H_usbcmd, 65 \<mapsto> H_colormcu, 67 \<mapsto> H_color, 71 \<mapsto> H_device)"
    using truncate_simps(4) [of one_device] by (simp add: one_device_truncate)
  have "images one_device = images one_sync" "locks one_device = (locks one_sync)(63 \<mapsto> False)"
    using truncate_simps(5,12) [of one_device] by (simp_all add: one_device_truncate)
  moreover from this(1) have "held one_device = held one_sync" by (auto simp: held_def live_def h one_sync_def split: if_splits)
  ultimately have "other_locks one_device 63 = Some False" by (simp add: other_locks_def one_sync_held one_sync_context image_zero_def)
  then show ?thesis using one_device_sync by (simp add: device_ok_def one_device_above one_device_below one_mcu_context one_mcu_simps live_def h usbcmd_zero_def)
qed

subsection \<open>Properties\<close>

text \<open>
  (C3) Starting the cameras of an open device always returns and is all or nothing. When it succeeds, the
  processor has been sent exactly one command with the configuration, the synchroniser runs with that
  configuration on enabled queues, and the camera, unless it is off, has been started once with the
  resolution, the frame rate and the format of the configuration. When any step fails, because the device
  does not answer, the mode does not exist, the clock or the camera fails, or the cameras were running
  already, everything is stopped: the synchroniser does not run, its queues are disabled and empty, it holds
  no capture, and the last call to the camera stops it. Either way the invariant of the device, with the one
  of its synchroniser, is kept.
\<close>

theorem start_cameras_all_or_nothing:
  assumes "api_bounded api" and "device_ok h w" and "config_ok cfg" and "clock_ok now (ticks w (col_tick (colors w (dev_color (devices w h)))))"
  shows "\<exists>r w'. zsa_device_start_cameras api reader now others h (Some cfg) w = Some (r, w') \<and> device_ok h w' \<and>
     (if r = ZSA_RESULT_SUCCEEDED then cameras_on cfg h w w' else cameras_off h w')"
  using start_cameras_run [OF assms] by blast

theorem start_cameras_all_or_nothing_witness:
  "\<exists>r w'. zsa_device_start_cameras demo_api demo_reader 6 (\<lambda>_ _ w. w) 71
       (Some (ZSA_DEVICE_CONFIG_INIT_DISABLE_ALL\<lparr>cfg_color_resolution := ZSA_COLOR_RESOLUTION_720P\<rparr>)) one_device = Some (r, w') \<and> device_ok 71 w'"
proof -
  let ?cfg = "ZSA_DEVICE_CONFIG_INIT_DISABLE_ALL\<lparr>cfg_color_resolution := ZSA_COLOR_RESOLUTION_720P\<rparr>"
  have c: "config_ok ?cfg" "clock_ok 6 (ticks one_device (col_tick (colors one_device (dev_color (devices one_device 71)))))"
    by (simp_all add: config_ok_def ZSA_DEVICE_CONFIG_INIT_DISABLE_ALL_def is_int32_def clock_ok_def one_device_above)
  from start_cameras_all_or_nothing [OF demo_api_ok(1) one_device_ok c, of demo_reader "\<lambda>_ _ w. w"] show ?thesis by blast
qed

text \<open>
  (C39) No device can be opened: whatever the USB library, the camera, the clock, the environment and the
  memory do, no call of \<open>zsa_device_open\<close> succeeds, since it passes a null container to \<open>color_create\<close>, which
  refuses it. When the call returns, it reports the failure and leaves the out parameter as it was.
\<close>

theorem device_open_never_succeeds:
  "case zsa_device_open api reader getenv now serial ready index device_handle w of
     None \<Rightarrow> True
   | Some (r, out, w') \<Rightarrow> r = ZSA_RESULT_FAILED \<and> out = device_handle"
proof -
  have color: "color_create reader t None s cb c x v = Some (r, y, v') \<Longrightarrow> r = ZSA_RESULT_FAILED" for t s cb c x r y and v v' :: "'a zsa_world_scheme"
    by (auto simp: color_create_def split: if_splits option.splits)
  have "r = ZSA_RESULT_FAILED \<and> out = device_handle"
    if run: "zsa_device_open api reader getenv now serial ready index device_handle w = Some (r, out, w')" for r out w'
    using that unfolding zsa_device_open_def
    by (cases r) (auto simp: failed_iff succeeded_iff bind_eq_Some_conv Let_def split: if_splits prod.splits dest: color)
  then show ?thesis by (auto split: option.split)
qed

end
