(* ===== verification/Zsa_Device_Run.thy ===== *)
theory Zsa_Device_Run
  imports Zsa_Device_Spec
begin

text \<open>
  An open device in use: the calls of the user, of the camera and of a depth sensor in any order. Each of them
  returns and keeps the invariant of the device, so that no sequence of them runs into a fault or a deadlock.
\<close>

subsection \<open>Taking a capture\<close>

lemma level_beside: "level w w' \<Longrightarrow> beside w w'"
  by (simp add: level_def beside_def)

lemma touched_beside: "touched P Q w w' \<Longrightarrow> beside w w'"
  by (simp add: touched_def beside_def)

lemma level_idle:
  assumes "level w w'" and "kept (syncs w h) (syncs w' h)"
  shows "idle h w' = idle h w"
proof -
  have "sync_queues (syncs w' h) = sync_queues (syncs w h)"
    using assms(2) by (simp add: sync_queues_def kept_def get_frame_def all_bool_eq)
  then show ?thesis using levelD(5) [OF assms(1)] by (simp add: idle_def same_setup_def)
qed

text \<open>A step that only moves references between the users and the world, or takes a capture from a queue.\<close>

lemma calm_sync_inv:
  assumes inv: "sync_inv h w" and c: "calm w w'" "outside w' = outside w" and u: "\<forall>k. 0 \<le> user_refs h w' k"
  shows "sync_inv h w'" and "user_images h w' = user_images h w" and "idle h w' = idle h w" and "beside w w'"
proof -
  note l = calmD(1) [OF c(1)] and s = calmD(2) [OF c(1)]
  have f: "frame b h w' = frame b h w" for b by (simp add: frame_def s)
  show i: "user_images h w' = user_images h w" by (simp add: user_images_def c(2) f fun_eq_iff)
  have "sync_core h w'"
    using inv u levelD(1,2,6) [OF l] by (simp add: sync_inv_def sync_core_def s f i)
  moreover have "own_lock False h w'" using inv own_lock_level [OF l, of h False] by (simp add: s sync_inv_def)
  ultimately show "sync_inv h w'" using inv by (simp add: sync_inv_def stamped_def f s)
  show "idle h w' = idle h w" by (rule level_idle [OF l]) (simp add: s kept_def)
  show "beside w w'" by (rule level_beside [OF l])
qed

lemma get_capture_run:
  fixes h :: ptr and w :: "'a capturesync_world_scheme"
  assumes inv: "sync_inv h w"
  defines "q \<equiv> cs_sync_queue (syncs w h)"
  defines "c \<equiv> (if q_enabled (queues w q) \<and> contents (queues w q) \<noteq> [] then hd (contents (queues w q)) else 0)"
  shows "\<exists>r w'. capturesync_get_capture others outcome h (Some x) 0 w = Some (r, Some (if c = 0 then x else c), w') \<and> calm w w' \<and>
     sync_inv h w' \<and> idle h w' = idle h w \<and> user_refs h w' = (\<lambda>k. user_refs h w k + popped c k) \<and> user_images h w' = user_images h w \<and>
     (r = ZSA_WAIT_RESULT_SUCCEEDED \<longleftrightarrow> c \<noteq> 0) \<and> (r = ZSA_WAIT_RESULT_FAILED \<longleftrightarrow> \<not> q_enabled (queues w q)) \<and>
     (\<forall>k. k \<noteq> q \<longrightarrow> queues w' k = queues w k) \<and>
     contents (queues w' q) = (if q_enabled (queues w q) then tl (contents (queues w q)) else contents (queues w q))"
proof -
  have core: "sync_core h w" using inv by (simp add: sync_inv_def)
  from sync_pop [OF sync_coreD(1) [OF core] sync_coreD(3) [OF core], folded q_def, folded c_def, of others outcome 0] obtain w' r where
    w': "queue_pop others outcome q 0 (Some 0) w = Some (r, Some c, w')" "calm w w'" "client_refs w' = (\<lambda>k. client_refs w k + popped c k)"
      "outside w' = outside w" "\<forall>k. k \<noteq> q \<longrightarrow> queues w' k = queues w k" "r = ZSA_WAIT_RESULT_SUCCEEDED \<longleftrightarrow> c \<noteq> 0"
      "r = ZSA_WAIT_RESULT_FAILED \<longleftrightarrow> \<not> q_enabled (queues w q)"
      "contents (queues w' q) = (if q_enabled (queues w q) then tl (contents (queues w q)) else contents (queues w q))" by blast
  have u: "user_refs h w' = (\<lambda>k. user_refs h w k + popped c k)"
    by (simp add: user_refs_def [abs_def] w'(3) frame_def calmD(2) [OF w'(2)] fun_eq_iff)
  have "\<forall>k. 0 \<le> user_refs h w' k" using sync_coreD(9) [OF core] popped_nonneg by (simp add: u)
  note s = calm_sync_inv [OF inv w'(2,4) this]
  have "capturesync_get_capture others outcome h (Some x) 0 w = Some (r, Some (if c = 0 then x else c), w')"
    using sync_coreD(2) [OF core] w'(1,6) by (simp add: capturesync_get_capture_def q_def [symmetric])
  then show ?thesis using w' s u by blast
qed

subsection \<open>The calls\<close>

text \<open>
  What can happen to an open device: its cameras are started at a time \<open>now\<close> or stopped; the camera delivers a
  capture or reports an error; a depth capture arrives; the user polls for a capture, which writes to a variable
  holding \<open>x\<close>, takes or gives back a reference to a capture, reads or writes a control of the camera, or asks for the
  capabilities of one.
\<close>

datatype device_call =
    Start zsa_device_configuration_t int
  | Stop
  | Color_frame ptr
  | Color_error
  | Depth_frame ptr
  | Poll ptr
  | Keep ptr
  | Release ptr
  | Get_control zsa_color_control_command_t zsa_color_control_mode_t int
  | Set_control zsa_color_control_command_t zsa_color_control_mode_t int
  | Get_capabilities zsa_color_control_command_t control_cap_out

fun device_exec ::
  "libusb_api \<Rightarrow> camera_reader \<Rightarrow> (ptr \<Rightarrow> nat \<Rightarrow> 'a zsa_world_scheme \<Rightarrow> 'a zsa_world_scheme) \<Rightarrow> ptr \<Rightarrow> device_call \<Rightarrow>
     'a zsa_world_scheme \<Rightarrow> 'a zsa_world_scheme option" where
  "device_exec api reader others h (Start cfg now) w = map_option snd (zsa_device_start_cameras api reader now others h (Some cfg) w)"
| "device_exec api reader others h Stop w = zsa_device_stop_cameras others h w"
| "device_exec api reader others h (Color_frame n) w = color_capture_ready others ZSA_RESULT_SUCCEEDED n h w"
| "device_exec api reader others h Color_error w = color_capture_ready others ZSA_RESULT_FAILED 0 h w"
| "device_exec api reader others h (Depth_frame n) w =
     capturesync_add_capture others (dev_capturesync (devices w h)) ZSA_RESULT_SUCCEEDED n DEPTH_CAPTURE w"
| "device_exec api reader others h (Poll x) w =
     map_option (snd \<circ> snd) (capturesync_get_capture id COND_OK (dev_capturesync (devices w h)) (Some x) 0 w)"
| "device_exec api reader others h (Keep n) w = capture_inc_ref n w"
| "device_exec api reader others h (Release n) w = capture_dec_ref n w"
| "device_exec api reader others h (Get_control c m v) w =
     map_option (snd \<circ> snd \<circ> snd) (color_get_control reader (dev_color (devices w h)) c (Some m) (Some v) w)"
| "device_exec api reader others h (Set_control c m v) w = map_option snd (color_set_control reader (dev_color (devices w h)) c m v w)"
| "device_exec api reader others h (Get_capabilities c out) w =
     map_option (snd \<circ> snd) (color_get_control_capabilities reader (dev_color (devices w h)) c out w)"

text \<open>
  What the callers have to observe: a configuration of the interface, a clock that has not run backwards, and
  captures that the caller holds a reference to, with time stamps of less than 62 bits.
\<close>

fun device_allowed :: "ptr \<Rightarrow> device_call \<Rightarrow> 'a zsa_world_scheme \<Rightarrow> bool" where
  "device_allowed h (Start cfg now) w \<longleftrightarrow> config_ok cfg \<and> clock_ok now (ticks w (col_tick (colors w (dev_color (devices w h)))))"
| "device_allowed h (Color_frame n) w \<longleftrightarrow> stamps_bounded w \<and> (n = 0 \<or> 0 < user_refs (dev_capturesync (devices w h)) w n)"
| "device_allowed h (Depth_frame n) w \<longleftrightarrow> stamps_bounded w \<and> (n = 0 \<or> 0 < user_refs (dev_capturesync (devices w h)) w n)"
| "device_allowed h (Keep n) w \<longleftrightarrow> 0 < user_refs (dev_capturesync (devices w h)) w n"
| "device_allowed h (Release n) w \<longleftrightarrow> 0 < user_refs (dev_capturesync (devices w h)) w n"
| "device_allowed h _ w \<longleftrightarrow> True"

subsection \<open>Every call returns and keeps the device in order\<close>

lemma frame_keeps_device:
  assumes ok: "device_ok h w" and bd: "stamps_bounded w" and n: "n = 0 \<or> 0 < user_refs (dev_capturesync (devices w h)) w n"
  shows "\<exists>w'. capturesync_add_capture others (dev_capturesync (devices w h)) ZSA_RESULT_SUCCEEDED n b w = Some w' \<and> device_ok h w' \<and> same_parts h w w'"
proof -
  note d = device_okD [OF ok]
  from add_capture_run [OF d(2) bd n, of others b] obtain w' where
    w': "capturesync_add_capture others (dev_capturesync (devices w h)) ZSA_RESULT_SUCCEEDED n b w = Some w'" "sync_inv (dev_capturesync (devices w h)) w'"
      "level w w'" "kept (syncs w (dev_capturesync (devices w h))) (syncs w' (dev_capturesync (devices w h)))" by blast
  have "idle (dev_capturesync (devices w h)) w'" using level_idle [OF w'(3,4)] d(3) by simp
  from device_ok_beside(1) [OF ok level_beside [OF w'(3)] w'(2) this] beside_same_parts [OF level_beside [OF w'(3)]] w'(1) show ?thesis by blast
qed

lemma error_keeps_device:
  assumes ok: "device_ok h w"
  shows "\<exists>w'. capturesync_add_capture others (dev_capturesync (devices w h)) ZSA_RESULT_FAILED n b w = Some w' \<and> device_ok h w' \<and> same_parts h w w'"
proof -
  note d = device_okD [OF ok]
  from add_capture_error_run [OF d(2,3), of others n b] obtain w' where
    w': "capturesync_add_capture others (dev_capturesync (devices w h)) ZSA_RESULT_FAILED n b w = Some w'"
      "shut (set (sync_queues (syncs w (dev_capturesync (devices w h))))) w w'" "sync_inv (dev_capturesync (devices w h)) w'" by blast
  have "idle (dev_capturesync (devices w h)) w'" using touched_core(7) [OF w'(2)] d(2,3) by (simp add: sync_inv_def)
  from device_ok_beside(1) [OF ok touched_beside [OF w'(2)] w'(3) this] beside_same_parts [OF touched_beside [OF w'(2)]] w'(1) show ?thesis by blast
qed

text \<open>A reference taken or given back by the user.\<close>

lemma reference_keeps_device:
  assumes ok: "device_ok h w" and n: "0 < user_refs (dev_capturesync (devices w h)) w n"
  shows "\<exists>w'. capture_dec_ref n w = Some w' \<and> device_ok h w' \<and> same_parts h w w'" and "\<exists>w'. capture_inc_ref n w = Some w' \<and> device_ok h w' \<and> same_parts h w w'"
proof -
  let ?s = "dev_capturesync (devices w h)"
  note d = device_okD [OF ok]
  have core: "sync_core ?s w" using d(2) by (simp add: sync_inv_def)
  have pos: "0 < client_refs w n"
    using n popped_nonneg [of "fi_capture (frame True ?s w)" n] popped_nonneg [of "fi_capture (frame False ?s w)" n] by (simp add: user_refs_def)
  have keeps: "device_ok h w' \<and> same_parts h w w'" if w': "calm w w'" "client_refs w' = (client_refs w)(n := client_refs w n + i)" "outside w' = outside w" and i: "- 1 \<le> i"
    for w' i
  proof -
    have "0 \<le> user_refs ?s w' k" for k
      using sync_coreD(9) [OF core, of k] n i by (auto simp: user_refs_def w'(2) frame_def calmD(2) [OF w'(1)])
    with calm_sync_inv [OF d(2) w'(1,3)] d(3) device_ok_beside(1) [OF ok] beside_same_parts [of w w' h] show ?thesis by blast
  qed
  from sync_capture_ref [OF sync_coreD(1) [OF core] pos] obtain w1 w2 where
    w1: "capture_dec_ref n w = Some w1" "calm w w1" "client_refs w1 = (client_refs w)(n := client_refs w n - 1)" "outside w1 = outside w" and
    w2: "capture_inc_ref n w = Some w2" "calm w w2" "client_refs w2 = (client_refs w)(n := client_refs w n + 1)" "outside w2 = outside w" by blast
  show "\<exists>w'. capture_dec_ref n w = Some w' \<and> device_ok h w' \<and> same_parts h w w'" "\<exists>w'. capture_inc_ref n w = Some w' \<and> device_ok h w' \<and> same_parts h w w'"
    using w1 w2 keeps [of w1 "- 1"] keeps [of w2 1] by simp_all
qed

lemma poll_keeps_device:
  assumes ok: "device_ok h w"
  shows "\<exists>r out w'. capturesync_get_capture others outcome (dev_capturesync (devices w h)) (Some x) 0 w = Some (r, out, w') \<and> device_ok h w' \<and> same_parts h w w'"
proof -
  note d = device_okD [OF ok]
  from get_capture_run [OF d(2), of others outcome x] obtain r out w' where
    w': "capturesync_get_capture others outcome (dev_capturesync (devices w h)) (Some x) 0 w = Some (r, out, w')" "calm w w'"
      "sync_inv (dev_capturesync (devices w h)) w'" "idle (dev_capturesync (devices w h)) w' = idle (dev_capturesync (devices w h)) w" by blast
  from device_ok_beside(1) [OF ok level_beside [OF calmD(1) [OF w'(2)]] w'(3)] w'(4) d(3) have "device_ok h w'" by simp
  then show ?thesis using w'(1) beside_same_parts [OF level_beside [OF calmD(1) [OF w'(2)]]] by blast
qed

lemma color_step_keeps_device:
  assumes "device_ok h w" and "color_step (dev_color (devices w h)) w w'"
  shows "device_ok h w' \<and> same_parts h w w'"
  using device_ok_color [OF assms] above_same_parts [of w w' h "dev_color_started (devices w h)"] assms(2) by (simp add: color_step_def)

text \<open>The capabilities of a control are read from the camera once and then taken from the context.\<close>

definition with_cap :: "ptr \<Rightarrow> zsa_color_control_command_t \<Rightarrow> color_control_cap_t \<Rightarrow> 'a color_world_scheme \<Rightarrow> 'a color_world_scheme" where
  "with_cap c k cap w = put_color c ((colors w c)\<lparr>col_control_cap := (col_control_cap (colors w c))(k := cap)\<rparr>)
     (camera_call_of c (CAM_GetCapabilities k) w)"

definition cap_values :: "color_control_cap_t \<Rightarrow> control_cap_out" where
  "cap_values cap = (Some (supportAuto cap), Some (minValue cap), Some (maxValue cap), Some (stepValue cap), Some (defaultValue cap), Some (defaultMode cap))"

lemma with_cap_colors: "colors (with_cap c k cap w) c = (colors w c)\<lparr>col_control_cap := (col_control_cap (colors w c))(k := cap)\<rparr>"
  by (simp add: with_cap_def put_color_def)

lemma color_step_with_cap:
  assumes "\<not> cap_valid (col_control_cap (colors w c) k)"
  shows "color_step c w (with_cap c k cap w)"
proof -
  have "above w (with_cap c k cap w)" unfolding with_cap_def by (rule above_trans [OF above_steps(4) above_steps(3)])
  moreover have "caps_kept (colors w c) (colors (with_cap c k cap w) c)" using assms by (auto simp: caps_kept_def with_cap_colors)
  ultimately show ?thesis by (simp add: color_step_def) (simp add: with_cap_def put_color_def camera_call_of_def)
qed

lemma capabilities_run:
  assumes "live H_color w c" and "col_camera_reader (colors w c)"
  shows "color_get_control_capabilities reader c k out w =
    (if command_out_of_range k \<or> \<not> control_cap_out_complete out then Some (ZSA_RESULT_FAILED, out, w)
     else if cap_valid (col_control_cap (colors w c) k) then Some (ZSA_RESULT_SUCCEEDED, cap_values (col_control_cap (colors w c) k), w)
     else case reader_GetCameraControlCapabilities reader (camera_calls w) k (col_control_cap (colors w c) k) of (r, cap) \<Rightarrow>
       Some (r, if ZSA_SUCCEEDED r then cap_values cap else out, with_cap c k cap w))"
proof -
  have "camera_calls w = camera_calls w" "colors (camera_call_of c x w) = colors w" for x by (simp_all add: camera_call_of_def)
  then show ?thesis
    using assms with_cap_colors [of c k _ w]
    by (auto simp: color_get_control_capabilities_def Let_def cap_values_def with_cap_def split: prod.split)
qed

lemma control_keeps_device:
  assumes ok: "device_ok h w"
  shows "\<exists>w'. map_option (snd \<circ> snd \<circ> snd) (color_get_control reader (dev_color (devices w h)) c (Some m) (Some v) w) = Some w' \<and>
      device_ok h w' \<and> same_parts h w w'"
    and "\<exists>w'. map_option snd (color_set_control reader (dev_color (devices w h)) c m v w) = Some w' \<and> device_ok h w' \<and> same_parts h w w'"
    and "\<exists>w'. map_option (snd \<circ> snd) (color_get_control_capabilities reader (dev_color (devices w h)) c out w) = Some w' \<and>
      device_ok h w' \<and> same_parts h w w'"
proof -
  let ?c = "dev_color (devices w h)"
  have l: "live H_color w ?c" "col_camera_reader (colors w ?c)" using ok by (simp_all add: device_ok_def Let_def)
  note call = color_step_keeps_device [OF ok color_steps(2)]
  show "\<exists>w'. map_option (snd \<circ> snd \<circ> snd) (color_get_control reader ?c c (Some m) (Some v) w) = Some w' \<and> device_ok h w' \<and> same_parts h w w'"
    "\<exists>w'. map_option snd (color_set_control reader ?c c m v w) = Some w' \<and> device_ok h w' \<and> same_parts h w w'"
    using l ok call by (simp_all add: color_get_control_def color_set_control_def split: prod.split)
  obtain r cap where e: "reader_GetCameraControlCapabilities reader (camera_calls w) c (col_control_cap (colors w ?c) c) = (r, cap)" by fastforce
  show "\<exists>w'. map_option (snd \<circ> snd) (color_get_control_capabilities reader ?c c out w) = Some w' \<and> device_ok h w' \<and> same_parts h w w'"
    using ok color_step_keeps_device [OF ok color_step_with_cap [of w ?c c cap]] by (cases out) (simp add: capabilities_run [OF l] e cap_values_def)
qed

lemma device_call_returns:
  assumes "api_bounded api" and ok: "device_ok h w" and "device_allowed h c w"
  shows "\<exists>w'. device_exec api reader others h c w = Some w' \<and> device_ok h w' \<and> same_parts h w w'"
proof -
  have live: "zsa_device_t_get_context h w = Some (Some (devices w h))" using device_okD(1) [OF ok] by simp
  show ?thesis
  proof (cases c)
    case (Start cfg now)
    from start_cameras_run [OF assms(1) ok, of cfg now reader others] assms(3) Start show ?thesis by auto
  next
    case Stop
    from stop_cameras_run [OF ok, of others] Stop show ?thesis by auto
  next
    case (Poll x)
    from poll_keeps_device [OF ok, of id COND_OK x] Poll show ?thesis by auto
  next
    case (Color_frame n)
    then show ?thesis using assms(3) frame_keeps_device [OF ok, of n others COLOR_CAPTURE] by (simp add: color_capture_ready_def live)
  next
    case Color_error
    then show ?thesis using error_keeps_device [OF ok, of others 0 COLOR_CAPTURE] by (simp add: color_capture_ready_def live)
  qed (use assms(3) frame_keeps_device [OF ok] reference_keeps_device [OF ok] control_keeps_device [OF ok] in simp_all)
qed

lemma device_call_keeps:
  assumes "api_bounded api" and "device_ok h w" and "device_allowed h c w" and "device_exec api reader others h c w = Some w'"
  shows "device_ok h w'" and "same_parts h w w'"
  using device_call_returns [OF assms(1-3), of reader others] assms(4) by simp_all

text \<open>The states of a device that the calls lead to.\<close>

inductive device_reach ::
  "libusb_api \<Rightarrow> camera_reader \<Rightarrow> (ptr \<Rightarrow> nat \<Rightarrow> 'a zsa_world_scheme \<Rightarrow> 'a zsa_world_scheme) \<Rightarrow> ptr \<Rightarrow> 'a zsa_world_scheme \<Rightarrow>
     'a zsa_world_scheme \<Rightarrow> bool" for api reader others h w0 where
  here: "device_reach api reader others h w0 w0"
| call: "device_reach api reader others h w0 w \<Longrightarrow> device_allowed h c w \<Longrightarrow> device_exec api reader others h c w = Some w' \<Longrightarrow>
    device_reach api reader others h w0 w'"

lemma device_reach_ok:
  assumes "device_reach api reader others h w0 w" and "api_bounded api" and "device_ok h w0"
  shows "device_ok h w \<and> same_parts h w0 w"
  using assms(1)
proof induction
  case here
  then show ?case using assms(3) by simp
next
  case (call w c w')
  note ok = call.IH [THEN conjunct1]
  from device_call_keeps [OF assms(2) ok call.hyps(2,3)] same_parts_trans [OF call.IH [THEN conjunct2]] show ?case by blast
qed

subsection \<open>From the sensor to the user\<close>

text \<open>
  The color and the depth capture of a pair, of which \<open>n\<close> arrives and \<open>p\<close> waits.
\<close>

abbreviation color_of :: "bool \<Rightarrow> ptr \<Rightarrow> ptr \<Rightarrow> ptr" where "color_of b n p \<equiv> (if b then n else p)"
abbreviation depth_of :: "bool \<Rightarrow> ptr \<Rightarrow> ptr \<Rightarrow> ptr" where "depth_of b n p \<equiv> (if b then p else n)"

lemma sync_queue_capacity:
  assumes "sync_core h w"
  shows "0 < capacity (queues w (cs_sync_queue (syncs w h)))"
proof -
  have "ring_ok (queues w (cs_sync_queue (syncs w h)))"
    using queue_invD(4) [OF sync_coreD(1) [OF assms] sync_coreD(3) [OF assms]] by (simp add: queue_ok_def)
  from ring_okD(1) [OF this] show ?thesis by (simp add: capacity_def)
qed

lemma pair_reaches_output:
  fixes b :: bool and s :: ptr and w :: "'a capturesync_world_scheme"
  assumes inv: "sync_inv s w" and i: "in_step s w" and run: "cs_running (syncs w s)" "cs_sync_captures (syncs w s)" "\<not> cs_disable_sync (syncs w s)"
    and g: "b \<or> \<not> cs_waiting_for_clean_depth_ts (syncs w s)"
    and n: "n \<noteq> 0" "0 < user_refs s w n" "capture_slots w n (sensor_slot b) \<noteq> 0"
    and st: "sensor_stream b s w = []" "sensor_stream (\<not> b) s w = p # ps" "n \<notin> set (p # ps)"
    and win: "in_window (cs_depth_delay_off_color_usec (syncs w s)) (uint (cs_fps_period (syncs w s))) (uint (cs_fps_1_quarter_period (syncs w s)))
        (uint (stamp True w (color_of b n p))) (uint (stamp False w (depth_of b n p)))"
    and out: "contents (queues w (cs_sync_queue (syncs w s))) = []"
  shows "\<exists>w'. capturesync_add_capture others s ZSA_RESULT_SUCCEEDED n b w = Some w' \<and> in_step s w' \<and>
     sensor_stream b s w' = [] \<and> sensor_stream (\<not> b) s w' = ps \<and>
     contents (queues w' (cs_sync_queue (syncs w s))) = [depth_of b n p] \<and>
     capture_slots w' = link_images (capture_slots w) (Pair (color_of b n p) (depth_of b n p))"
proof -
  have core: "sync_core s w" using inv by (simp add: sync_inv_def)
  have link: "decide_of s w (color_of b n p) (depth_of b n p) = Link" using win by (simp add: decide_of_def ideal_link)
  have a: "arrive b (sensor_capacity b s w) (sensor_stream b s w) n = ([], [n])" by (simp add: arrive_def st(1))
  have "b \<or> \<not> cs_waiting_for_clean_depth_ts (syncs w s) \<or> stamp b w n div cs_fps_period (syncs w s) \<le> 10" using g by blast
  from add_capture_refines [OF inv i run this n _ a, of others] st(2,3) obtain w' out' where
    w': "capturesync_add_capture others s ZSA_RESULT_SUCCEEDED n b w = Some w'" "in_step s w'"
      "pair_up (decide_of s w) (arrived b [n] True s w) (arrived b [n] False s w) = (sensor_stream True s w', sensor_stream False s w', out')"
      "loop_output (cs_synchronized_images_only (syncs w s)) s out' w w'" by auto
  have e: "out' = [Pair (color_of b n p) (depth_of b n p)]" "sensor_stream b s w' = []" "sensor_stream (\<not> b) s w' = ps"
    using w'(3) link st(2) by (cases b; simp add: arrived_def; cases ps; simp)+
  show ?thesis
    using w'(1,2,4) e sync_queue_capacity [OF core] by (simp add: loop_output_def out push_newest_def)
qed

text \<open>The state in which a capture completes a pair: its partner is the next one of the other sensor.\<close>

definition completes_pair :: "ptr \<Rightarrow> bool \<Rightarrow> ptr \<Rightarrow> ptr \<Rightarrow> ptr list \<Rightarrow> 'a capturesync_world_scheme \<Rightarrow> bool" where
  "completes_pair s b n p ps w \<longleftrightarrow> in_step s w \<and> cs_running (syncs w s) \<and> cs_sync_captures (syncs w s) \<and> \<not> cs_disable_sync (syncs w s) \<and>
     (b \<or> \<not> cs_waiting_for_clean_depth_ts (syncs w s)) \<and> n \<noteq> 0 \<and> 0 < user_refs s w n \<and> capture_slots w n (sensor_slot b) \<noteq> 0 \<and>
     sensor_stream b s w = [] \<and> sensor_stream (\<not> b) s w = p # ps \<and> n \<notin> set (p # ps) \<and>
     in_window (cs_depth_delay_off_color_usec (syncs w s)) (uint (cs_fps_period (syncs w s))) (uint (cs_fps_1_quarter_period (syncs w s)))
       (uint (stamp True w (color_of b n p))) (uint (stamp False w (depth_of b n p))) \<and>
     contents (queues w (cs_sync_queue (syncs w s))) = []"

lemma pair_reaches_user:
  assumes ok: "device_ok h w" and s: "s = dev_capturesync (devices w h)" and c: "completes_pair s b n p ps w"
  shows "\<exists>w1 w2. device_exec api reader others h (if b then Color_frame n else Depth_frame n) w = Some w1 \<and> device_ok h w1 \<and>
     capturesync_get_capture others' outcome s (Some x) 0 w1 = Some (ZSA_WAIT_RESULT_SUCCEEDED, Some (depth_of b n p), w2) \<and> device_ok h w2 \<and>
     capture_slots w2 = link_images (capture_slots w) (Pair (color_of b n p) (depth_of b n p)) \<and>
     user_refs s w2 = (user_refs s w)(depth_of b n p := user_refs s w (depth_of b n p) + 1) \<and>
     sensor_stream b s w2 = [] \<and> sensor_stream (\<not> b) s w2 = ps \<and> contents (queues w2 (cs_sync_queue (syncs w2 s))) = []"
proof -
  note d = device_okD [OF ok, folded s]
  have c': "in_step s w" "cs_running (syncs w s)" "cs_sync_captures (syncs w s)" "\<not> cs_disable_sync (syncs w s)"
    "b \<or> \<not> cs_waiting_for_clean_depth_ts (syncs w s)" "n \<noteq> 0" "0 < user_refs s w n" "capture_slots w n (sensor_slot b) \<noteq> 0"
    "sensor_stream b s w = []" "sensor_stream (\<not> b) s w = p # ps" "n \<notin> set (p # ps)"
    "in_window (cs_depth_delay_off_color_usec (syncs w s)) (uint (cs_fps_period (syncs w s))) (uint (cs_fps_1_quarter_period (syncs w s)))
       (uint (stamp True w (color_of b n p))) (uint (stamp False w (depth_of b n p)))"
    "contents (queues w (cs_sync_queue (syncs w s))) = []" using c unfolding completes_pair_def by blast+
  from pair_reaches_output [OF d(2) c', of others] obtain w1 where
    w1: "capturesync_add_capture others s ZSA_RESULT_SUCCEEDED n b w = Some w1" "in_step s w1" "sensor_stream b s w1 = []"
      "sensor_stream (\<not> b) s w1 = ps" "contents (queues w1 (cs_sync_queue (syncs w s))) = [depth_of b n p]"
      "capture_slots w1 = link_images (capture_slots w) (Pair (color_of b n p) (depth_of b n p))" by blast
  from add_capture_run [OF d(2) in_stepD(2) [OF c'(1)], of n others b] c'(7) w1(1) have
    r1: "sync_inv s w1" "user_refs s w1 = user_refs s w" "level w w1" "kept (syncs w s) (syncs w1 s)" by auto
  have q: "cs_sync_queue (syncs w1 s) = cs_sync_queue (syncs w s)" using r1(4) by (simp add: kept_def)
  note ok1 = device_ok_beside [OF ok level_beside [OF r1(3)], folded s, OF r1(1)]
  have dev1: "device_ok h w1" "dev_capturesync (devices w1 h) = s" using ok1 level_idle [OF r1(3,4)] d(3) by (simp_all add: s)
  have ex: "device_exec api reader others h (if b then Color_frame n else Depth_frame n) w = Some w1"
    using w1(1) d(1) by (cases b) (simp_all add: color_capture_ready_def s)
  have nz: "depth_of b n p \<noteq> 0" "q_enabled (queues w1 (cs_sync_queue (syncs w1 s)))"
    using c'(6) stream_Cons(2) [OF in_stepD(4) [OF c'(1)] c'(10)] in_stepD(5) [OF w1(2)] by simp_all
  from get_capture_run [OF r1(1), of others' outcome x] w1(5) nz obtain w2 where
    w2: "capturesync_get_capture others' outcome s (Some x) 0 w1 = Some (ZSA_WAIT_RESULT_SUCCEEDED, Some (depth_of b n p), w2)"
      "calm w1 w2" "sync_inv s w2" "idle s w2 = idle s w1" "user_refs s w2 = (\<lambda>k. user_refs s w1 k + popped (depth_of b n p) k)"
      "\<forall>k. k \<noteq> cs_sync_queue (syncs w1 s) \<longrightarrow> queues w2 k = queues w1 k" "contents (queues w2 (cs_sync_queue (syncs w1 s))) = []"
    by (auto simp: q)
  have "device_ok h w2"
    using device_ok_beside(1) [OF dev1(1) level_beside [OF calmD(1) [OF w2(2)]]] w2(3,4) dev1 device_okD(3) [OF dev1(1)] by simp
  moreover have "sensor_stream x s w2 = sensor_stream x s w1" for x
    using w2(6) sync_coreD(5) [OF in_stepD(1) [OF w1(2)]] by (simp add: sensor_stream_def frame_def calmD(2) [OF w2(2)])
  moreover have "user_refs s w2 = (user_refs s w)(depth_of b n p := user_refs s w (depth_of b n p) + 1)"
    using nz(1) by (auto simp: w2(5) r1(2) popped_def fun_eq_iff)
  ultimately show ?thesis
    using ex dev1(1) w1(3,4,6) w2(1,7) calmD(2,4) [OF w2(2)] by (intro exI [of _ w1] exI [of _ w2]) simp
qed

subsection \<open>Properties\<close>

lemma one_device_fields:
  "syncs one_device = syncs one_sync" "queues one_device = queues one_sync" "images one_device = images one_sync" "captures one_device = captures one_sync"
  "htype one_device = (htype one_sync)(61 \<mapsto> H_usbcmd, 65 \<mapsto> H_colormcu, 67 \<mapsto> H_color, 71 \<mapsto> H_device)"
  using truncate_simps(4,12-15) [of one_device] by (simp_all add: one_device_truncate)

lemma one_device_same:
  "frame b h one_device = frame b h one_sync" "image_stamps one_device = image_stamps one_sync" "capture_slots one_device = capture_slots one_sync"
  "sensor_stream b h one_device = sensor_stream b h one_sync" "stamp b one_device c = stamp b one_sync c"
  by (simp_all add: frame_def image_stamps_def [abs_def] capture_slots_def [abs_def] sensor_stream_def stamp_def one_device_fields)

lemma one_device_refs: "user_refs h one_device c = user_refs h one_sync c"
proof -
  have "live T one_device x = live T one_sync x" if "T = H_capture \<or> T = H_queue" for T x
    using that by (auto simp: live_def one_device_fields) (auto simp: one_sync_def)
  then have "cheld one_device = cheld one_sync" "qheld one_device = qheld one_sync"
    by (simp_all add: cheld_def qheld_def one_device_fields)
  then show ?thesis
    by (simp add: user_refs_def client_refs_def capture_refs_def one_device_fields one_device_same)
qed

lemma one_device_completes: "completes_pair 41 False 19 9 [] one_device"
proof -
  have "in_step 41 one_device"
    using one_sync_in_step one_device_sync by (simp add: in_step_def sync_inv_def stream_ok_def stamps_bounded_def one_device_same one_device_fields)
  then show ?thesis
    by (simp add: completes_pair_def one_device_fields one_device_same one_device_refs one_sync_frames one_sync_streams one_sync_user one_sync_slots
        one_sync_rings sensor_slot_def in_window_def stamp_def)
qed

text \<open>
  (C2) An open device never gets stuck. In every state that calls of the user, of the camera and of the depth sensor
  lead to from an open device, in any order and number, as long as each caller observes its contract, every
  further call that observes it returns, without a fault or a deadlock, and the device is in order again: its
  synchroniser, queues, captures, images and buffers keep their invariants.
\<close>

theorem device_never_stuck:
  assumes "api_bounded api" and "device_ok h w0" and "device_reach api reader others h w0 w"
  shows "device_ok h w \<and> (\<forall>c. device_allowed h c w \<longrightarrow> (\<exists>w'. device_exec api reader others h c w = Some w' \<and> device_ok h w'))"
  using device_reach_ok [OF assms(3,1,2)] device_call_returns [OF assms(1)] by blast

theorem device_never_stuck_witness:
  "\<exists>w1 w2. device_exec demo_api demo_reader (\<lambda>_ _ w. w) 71 (Depth_frame 19) one_device = Some w1 \<and>
     device_exec demo_api demo_reader (\<lambda>_ _ w. w) 71 Stop w1 = Some w2 \<and> device_ok 71 w2"
proof -
  have "device_allowed 71 (Depth_frame 19) one_device"
    using in_stepD(2) one_device_completes by (auto simp: completes_pair_def one_device_above one_device_refs one_sync_user)
  with device_never_stuck [OF demo_api_ok(1) one_device_ok device_reach.here] obtain w1 where
    w1: "device_exec demo_api demo_reader (\<lambda>_ _ w. w) 71 (Depth_frame 19) one_device = Some w1" by blast
  have "device_reach demo_api demo_reader (\<lambda>_ _ w. w) 71 one_device w1"
    by (rule device_reach.call [OF device_reach.here \<open>device_allowed 71 (Depth_frame 19) one_device\<close> w1])
  from device_never_stuck [OF demo_api_ok(1) one_device_ok this] w1 show ?thesis by (metis device_allowed.simps(6))
qed



lemma capabilities_stay:
  assumes "api_bounded api" and ok: "device_ok h w" and c: "c = dev_color (devices w h)"
    and first: "color_get_control_capabilities reader c k out w = Some (ZSA_RESULT_SUCCEEDED, answer, w1)"
    and valid: "cap_valid (col_control_cap (colors w1 c) k)"
    and used: "device_reach api reader others h w1 w2" and again: "control_cap_out_complete out'"
  shows "color_get_control_capabilities reader c k out' w2 = Some (ZSA_RESULT_SUCCEEDED, answer, w2)"
proof -
  have part: "live H_color v c" "col_camera_reader (colors v c)" if "device_ok h v" "same_parts h w v" for v
    using that c by (auto simp: device_ok_def Let_def same_parts_def)
  note l = part [OF ok same_parts_refl]
  obtain r cap where e: "reader_GetCameraControlCapabilities reader (camera_calls w) k (col_control_cap (colors w c) k) = (r, cap)" by fastforce
  have a: "\<not> command_out_of_range k" "answer = cap_values (col_control_cap (colors w1 c) k)"
    using first by (auto simp: capabilities_run [OF l] e with_cap_colors split: if_splits)
  have w1: "device_ok h w1" "same_parts h w w1"
    using control_keeps_device(3) [OF ok, of reader k out] first c by auto
  have w2: "device_ok h w2" "same_parts h w1 w2" using device_reach_ok [OF used assms(1) w1(1)] by simp_all
  have "dev_color (devices w1 h) = c" using w1(2) c by (auto simp: same_parts_def)
  then have "col_control_cap (colors w2 c) k = col_control_cap (colors w1 c) k"
    using w2(2) valid by (simp add: same_parts_def caps_kept_def)
  with a valid again show ?thesis by (simp add: capabilities_run [OF part [OF w2(1) same_parts_trans [OF w1(2) w2(2)]]])
qed

text \<open>
  (C20) The capabilities of a control are read from the camera once. After an answer that the camera marked as valid, the
  device may be used in any way: asked again for the same control, with any complete set of out parameters, it
  gives the same answer, without a call to the camera and without changing anything.
\<close>

theorem capabilities_read_once:
  assumes "api_bounded api" and "device_ok h w" and "c = dev_color (devices w h)"
    and "color_get_control_capabilities reader c k out w = Some (ZSA_RESULT_SUCCEEDED, answer, w1)"
    and "cap_valid (col_control_cap (colors w1 c) k)"
    and "device_reach api reader others h w1 w2" and "control_cap_out_complete out'"
  shows "color_get_control_capabilities reader c k out' w2 = Some (ZSA_RESULT_SUCCEEDED, answer, w2)"
  using assms by (rule capabilities_stay)

definition wide_reader :: camera_reader where
  "wide_reader = demo_reader\<lparr>reader_GetCameraControlCapabilities := (\<lambda>calls _ cap.
     (ZSA_RESULT_SUCCEEDED, cap\<lparr>cap_valid := True, maxValue := 100 + int (length calls)\<rparr>))\<rparr>"

theorem capabilities_read_once_witness:
  "\<exists>answer w1 w2. color_get_control_capabilities wide_reader 67 ZSA_COLOR_CONTROL_BRIGHTNESS
        (Some False, Some 0, Some 0, Some 0, Some 0, Some ZSA_COLOR_CONTROL_MODE_AUTO) one_device = Some (ZSA_RESULT_SUCCEEDED, answer, w1) \<and>
     device_exec demo_api wide_reader (\<lambda>_ _ w. w) 71 Stop w1 = Some w2 \<and>
     color_get_control_capabilities wide_reader 67 ZSA_COLOR_CONTROL_BRIGHTNESS
        (Some False, Some 0, Some 0, Some 0, Some 0, Some ZSA_COLOR_CONTROL_MODE_AUTO) w2 = Some (ZSA_RESULT_SUCCEEDED, answer, w2)"
proof -
  let ?k = ZSA_COLOR_CONTROL_BRIGHTNESS and ?o = "(Some False, Some 0, Some 0, Some 0, Some 0, Some ZSA_COLOR_CONTROL_MODE_AUTO) :: control_cap_out"
  have c: "67 = dev_color (devices one_device 71)" by (simp add: one_device_above)
  have l: "live H_color one_device 67" "col_camera_reader (colors one_device 67)"
    using device_okD(6) [OF one_device_ok] by (simp_all add: one_device_above)
  have "\<exists>w1 answer. color_get_control_capabilities wide_reader 67 ?k ?o one_device = Some (ZSA_RESULT_SUCCEEDED, answer, w1) \<and>
      cap_valid (col_control_cap (colors w1 67) ?k)"
    by (simp add: capabilities_run [OF l] with_cap_colors wide_reader_def one_device_above color_zero_def color_control_cap_zero_def cap_values_def)
  then obtain w1 answer where w1: "color_get_control_capabilities wide_reader 67 ?k ?o one_device = Some (ZSA_RESULT_SUCCEEDED, answer, w1)"
      "cap_valid (col_control_cap (colors w1 67) ?k)" by blast
  have ok1: "device_ok 71 w1" using control_keeps_device(3) [OF one_device_ok, of wide_reader ?k ?o] w1(1) by (auto simp flip: c)
  from device_call_returns [OF demo_api_ok(1) ok1, of Stop wide_reader "\<lambda>_ _ w. w"] obtain w2 where
    w2: "device_exec demo_api wide_reader (\<lambda>_ _ w. w) 71 Stop w1 = Some w2" by auto
  have "device_reach demo_api wide_reader (\<lambda>_ _ w. w) 71 w1 w2" by (rule device_reach.call [OF device_reach.here _ w2]) simp
  from capabilities_read_once [OF demo_api_ok(1) one_device_ok c w1 this, of ?o]
  have "color_get_control_capabilities wide_reader 67 ?k ?o w2 = Some (ZSA_RESULT_SUCCEEDED, answer, w2)" by simp
  with w1(1) w2 show ?thesis by blast
qed

end
