(* ===== verification/Zsa_Device_Life.thy ===== *)
theory Zsa_Device_Life
  imports Zsa_Device_Run
begin

text \<open>
  The end of a device: \<open>zsa_device_close\<close> takes apart what the device owns, component by component, and leaves
  everything else as it is.
\<close>

subsection \<open>Handles and locks that go\<close>

text \<open>
  Steps of the components above the queues that take away the handles \<open>H\<close> and the locks \<open>L\<close>, and leave the
  captures, the images and the queues alone.
\<close>

definition released :: "ptr set \<Rightarrow> ptr set \<Rightarrow> 'a capturesync_world_scheme \<Rightarrow> 'a capturesync_world_scheme \<Rightarrow> bool" where
  "released H L w w' \<longleftrightarrow> queue_inv w' \<and> other_locks w' = (\<lambda>l. if l \<in> L then None else other_locks w l) \<and>
     other_handles {H_image, H_capture} w' = (\<lambda>x. if x \<in> H then None else other_handles {H_image, H_capture} w x) \<and>
     qheld w' = qheld w \<and> queues w' = queues w \<and> client_refs w' = client_refs w \<and> outside w' = outside w \<and> syncs w' = syncs w"

lemma released_trans:
  assumes "released H L w w1" and "released H' L' w1 w2"
  shows "released (H \<union> H') (L \<union> L') w w2"
  using assms by (auto simp: released_def fun_eq_iff)

lemma above_queue: "above w w' \<Longrightarrow> queue_inv w' = queue_inv w"
proof -
  have "queue_inv (capturesync_world.truncate v) = queue_inv v" for v :: "'a capturesync_world_scheme"
    by (simp add: queue_inv_def queue_ok_def capture_inv_def image_inv_def alloc_inv_defs mem_ok_def images_ok_def image_wf_def buffer_ok_def)
  then show "above w w' \<Longrightarrow> queue_inv w' = queue_inv w" unfolding above_def by metis
qed

lemma above_refs:
  assumes "above w w'"
  shows "client_refs w' = client_refs w" and "outside w' = outside w" and "qheld w' = qheld w" and "htype w' = htype w"
  using assms unfolding above_def
  by (metis truncate_refs(4), metis truncate_refs(3), metis truncate_held(4), metis truncate_simps(4))

lemma released_above:
  assumes "queue_inv w" and "above w w'"
  shows "released {} {} w w'"
  using assms above_queue [OF assms(2)] above_sync(3-5) [OF assms(2)] above_refs [OF assms(2)] by (simp add: released_def other_handles_def [abs_def])

lemma released_put [simp]: "released H L w (put_device h d w') = released H L w w'"
proof -
  have a: "above w' (put_device h d w')" by simp
  show ?thesis using above_queue [OF a] above_sync(3-5) [OF a] above_refs [OF a] by (simp add: released_def other_handles_def [abs_def])
qed

lemma released_session: "queue_inv w \<Longrightarrow> released {} {} w (allocator_deinitialize w)"
proof -
  assume inv: "queue_inv w"
  let ?v = "allocator_deinitialize w"
  have lv: "live S ?v y = live S w y" for S y by (simp add: live_def allocator_deinitialize_def)
  have h: "held ?v = held w" "cheld ?v = cheld w" "qheld ?v = qheld w"
    by (simp_all add: held_def cheld_def qheld_def lv) (simp_all add: allocator_deinitialize_def)
  have "image_inv ?v" using capture_invD(1) [OF queue_invD(1) [OF inv]]
    by (simp add: image_inv_def alloc_inv_defs mem_ok_def images_ok_def image_wf_def buffer_ok_def h lv) (simp add: allocator_deinitialize_def)
  moreover have r: "outside ?v = outside w" "client_refs ?v = client_refs w" "other_locks ?v = other_locks w"
    by (simp_all add: image_refs_def [abs_def] capture_refs_def [abs_def] outside_def [abs_def] client_refs_def [abs_def] slot_count_def
      other_locks_def [abs_def] h cong: if_cong) (simp_all add: allocator_deinitialize_def cong: if_cong)
  ultimately have "queue_inv ?v"
    using inv by (simp add: queue_inv_def capture_inv_def queue_ok_def h r) (simp add: allocator_deinitialize_def)
  then show ?thesis by (simp add: released_def h r) (simp add: allocator_deinitialize_def other_handles_def [abs_def])
qed

lemma released_handle:
  assumes inv: "queue_inv w" and live: "live T w x" and T: "T \<notin> {H_image, H_capture, H_queue}"
  shows "released {x} {} w (w\<lparr>htype := (htype w)(x := None)\<rparr>)" (is "released _ _ _ ?v")
proof -
  have lv: "live S ?v y = live S w y" if "S \<noteq> T" for S y using live that by (auto simp: live_def)
  note cinv = queue_invD(1) [OF inv]
  note iinv = capture_invD(1) [OF cinv]
  have img: "image_inv ?v" "held ?v = held w" "image_refs ?v = image_refs w"
    using image_inv_destroy_other [OF iinv live] T by simp_all
  have cap: "capture_inv ?v" "capture_refs ?v = capture_refs w" "outside ?v = outside w"
    using capture_inv_frame [OF cinv img(1,3) _ lv] T by auto
  have qh: "qheld ?v = qheld w" using lv T by (auto simp: qheld_def)
  have ol: "other_locks ?v = other_locks w" by (simp add: other_locks_def [abs_def] img(2) cong: if_cong)
  have q: "queue_inv ?v" "client_refs ?v = client_refs w" using queue_inv_same [OF inv cap(1,2) qh] by (simp_all add: ol)
  then show ?thesis by (simp add: released_def ol qh cap(3)) (simp add: other_handles_def [abs_def] fun_eq_iff)
qed

lemma released_lock:
  assumes inv: "queue_inv w" and l: "other_locks w l = Some False" "\<forall>q \<in> qheld w. q_lock (queues w q) \<noteq> l"
  shows "released {} {l} w (w\<lparr>locks := (locks w)(l := None)\<rparr>)" (is "released _ _ _ ?v")
proof -
  have lk: "locks w l = Some False" "l \<notin> (\<lambda>k. img_lock (images w k)) ` held w" using l(1) by (auto simp: other_locks_def split: if_splits)
  note cinv = queue_invD(1) [OF inv]
  note iinv = capture_invD(1) [OF cinv]
  have a: "alloc_inv ?v" by (rule alloc_inv_other [OF image_invD(1) [OF iinv]]) (use alloc_invD(1) [OF image_invD(1) [OF iinv]] in \<open>auto simp: mem_ok_def\<close>)
  have lv: "live S ?v y = live S w y" for S y by (simp add: live_def)
  have ilk: "\<And>k. k \<in> held w \<Longrightarrow> locks ?v (img_lock (images w k)) = locks w (img_lock (images w k))" using lk(2) by (auto simp: image_iff)
  have img: "image_inv ?v" "held ?v = held w" "image_refs ?v = image_refs w"
    using image_inv_frame [OF iinv a, OF _ _ lv ilk] by simp_all
  have cap: "capture_inv ?v" "capture_refs ?v = capture_refs w" "outside ?v = outside w"
    using capture_inv_frame [OF cinv img(1,3) _ lv] by simp_all
  have qh: "qheld ?v = qheld w" using lv by (simp add: qheld_def)
  have ol: "other_locks ?v = (other_locks w)(l := None)" unfolding other_locks_def [abs_def] img(2) using lk(2) by (auto simp: fun_eq_iff)
  have cl: "client_refs ?v = client_refs w" by (simp add: client_refs_def [abs_def] qh cap(2))
  have "queue_inv ?v" using inv cap(1) l(2) by (auto simp: queue_inv_def qh cl queue_ok_def ol)
  then show ?thesis by (simp add: released_def ol qh cl cap(3)) (simp add: other_handles_def [abs_def] fun_eq_iff)
qed

lemma released_sync:
  assumes inv: "sync_inv s w" and r: "released H L w w'" and "s \<notin> H" and "cs_lock (syncs w s) \<notin> L"
  shows "sync_inv s w'" and "idle s w' = idle s w" and "user_refs s w' = user_refs s w" and "user_images s w' = user_images s w"
proof -
  have f: "syncs w' = syncs w" "queues w' = queues w" "qheld w' = qheld w" "queue_inv w'" "client_refs w' = client_refs w" "outside w' = outside w"
    using r by (simp_all add: released_def)
  show u: "user_refs s w' = user_refs s w" "user_images s w' = user_images s w" "idle s w' = idle s w"
    by (simp_all add: user_refs_def [abs_def] user_images_def [abs_def] frame_def idle_def f)
  have live: "live H_capturesync w s" using inv by (simp add: sync_inv_def sync_core_def)
  then have "other_handles {H_image, H_capture} w' s = Some H_capturesync" using r assms(3) by (simp add: released_def other_handles_def live_def)
  then have "live H_capturesync w' s" using live by (auto simp: other_handles_def live_def split: option.splits if_splits)
  then show "sync_inv s w'"
    using inv r assms(4) by (simp add: sync_inv_def sync_core_def u f frame_def stamped_def own_lock_def) (simp add: released_def)
qed

subsection \<open>The components of a device\<close>

text \<open>The camera is stopped, then shut down.\<close>

lemma color_destroy_run:
  assumes inv: "queue_inv w" and live: "live H_color w c" and r: "col_camera_reader (colors w c)"
  shows "\<exists>w'. color_destroy c w = Some w' \<and> released {c} {} w w' \<and> camera_calls w' = camera_calls w @ [(c, CAM_Stop), (c, CAM_Shutdown)] \<and>
     usbcmds w' = usbcmds w \<and> colormcus w' = colormcus w \<and> ticks w' = ticks w \<and> devices w' = devices w \<and> libusb_calls w' = libusb_calls w \<and> locks w' = locks w"
proof -
  define v where "v = put_color c ((colors w c)\<lparr>col_sensor_start_time_tick := 0, col_camera_reader := False\<rparr>)
    (camera_call_of c CAM_Shutdown (camera_call_of c CAM_Stop w))"
  have a: "above w v" unfolding v_def by (intro above_trans [OF _ above_steps(3)] above_trans [OF _ above_steps(4)] above_steps(1))
  have lv: "live H_color v c" using live above_sync(6) [OF a] by simp
  have "color_destroy c w = handle_destroy c v"
    using live r color_stop_run [OF live r]
    by (simp add: color_destroy_def v_def put_color_def camera_call_of_def Let_def)
  also have "\<dots> = Some (v\<lparr>htype := (htype v)(c := None)\<rparr>)" using lv by (simp add: handle_destroy_live)
  finally have run: "color_destroy c w = Some (v\<lparr>htype := (htype v)(c := None)\<rparr>)" .
  have "released {c} {} w (v\<lparr>htype := (htype v)(c := None)\<rparr>)"
    using released_trans [OF released_above [OF inv a] released_handle [OF _ lv]] above_queue [OF a] inv by simp
  then show ?thesis using run by (simp add: v_def put_color_def camera_call_of_def)
qed

text \<open>The processor closes its USB device, whose lock goes with it.\<close>

lemma colormcu_destroy_run:
  fixes w :: "'a zsa_world_scheme" and m :: ptr
  defines "u \<equiv> mcu_usb_cmd (colormcus w m)"
  assumes inv: "queue_inv w" and live: "live H_colormcu w m" "live H_usbcmd w u"
    and l: "uc_lock (usbcmds w u) \<noteq> 0" "other_locks w (uc_lock (usbcmds w u)) = Some False" "\<forall>q \<in> qheld w. q_lock (queues w q) \<noteq> uc_lock (usbcmds w u)"
    and idle: "uc_stream_handle (usbcmds w u) = 0" and bal: "balanced hs cs u w"
  shows "\<exists>w'. colormcu_destroy thread m w = Some w' \<and> released {m, u} {uc_lock (usbcmds w u)} w w' \<and>
     open_handles (libusb_calls w') = hs \<and> open_contexts (libusb_calls w') = cs \<and>
     camera_calls w' = camera_calls w \<and> ticks w' = ticks w \<and> devices w' = devices w"
proof -
  let ?l = "uc_lock (usbcmds w u)"
  have "locks w ?l = Some False" using l(2) by (auto simp: other_locks_def split: if_splits)
  from usb_cmd_destroy_run [OF live(2) _ idle bal, of thread] this obtain w1 where
    w1: "usb_cmd_destroy thread u w = Some w1" "usb_gone u w w1" "open_handles (libusb_calls w1) = hs" "open_contexts (libusb_calls w1) = cs" by blast
  from w1(2) obtain c calls where eq: "w1 = w\<lparr>usbcmds := (usbcmds w)(u := c), libusb_calls := libusb_calls w @ calls, htype := (htype w)(u := None),
      locks := (locks w)(?l := None)\<rparr>" using l(1) by (auto simp: usb_gone_def)
  define v where "v = w\<lparr>usbcmds := (usbcmds w)(u := c), libusb_calls := libusb_calls w @ calls\<rparr>"
  have a: "above w v" by (rule above_steps(2)) (simp add: v_def usb_step_def, blast)
  have qv: "queue_inv v" using inv above_queue [OF a] by simp
  have "released {u} {} w (v\<lparr>htype := (htype v)(u := None)\<rparr>)" (is "released _ _ _ ?v1")
    using released_trans [OF released_above [OF inv a] released_handle [OF qv]] live(2) above_sync(6) [OF a] by simp
  moreover from this have "released {} {?l} ?v1 (?v1\<lparr>locks := (locks ?v1)(?l := None)\<rparr>)"
    using l(2,3) by (intro released_lock) (simp_all add: released_def)
  ultimately have r1: "released {u} {?l} w w1"
    using released_trans [of "{u}" "{}" w ?v1 "{}" "{?l}"] by (simp add: eq v_def)
  define w2 where "w2 = put_colormcu m ((colormcus w1 m)\<lparr>mcu_usb_cmd := 0\<rparr>) w1"
  have a2: "above w1 w2" by (simp add: above_def w2_def put_colormcu_def capturesync_world.defs)
  have m: "live H_colormcu w2 m" "u \<noteq> 0"
    using live by (auto simp: w2_def put_colormcu_def eq live_def)
  have q1: "queue_inv w1" using r1 by (simp add: released_def)
  have "released {m} {} w1 (w2\<lparr>htype := (htype w2)(m := None)\<rparr>)"
    using released_trans [OF released_above [OF q1 a2] released_handle [OF _ m(1)]] above_queue [OF a2] q1 by simp
  from released_trans [OF r1 this] have r2: "released {m, u} {?l} w (w2\<lparr>htype := (htype w2)(m := None)\<rparr>)" by (simp add: insert_commute)
  have "colormcu_destroy thread m w = Some (w2\<lparr>htype := (htype w2)(m := None)\<rparr>)"
    using live(1) w1(1) m by (simp add: colormcu_destroy_def u_def [symmetric] w2_def [symmetric] handle_destroy_live)
  then show ?thesis using r2 w1(3,4) by (simp add: w2_def put_colormcu_def) (simp add: eq)
qed

subsection \<open>Closing\<close>

text \<open>
  What a device is made of, and what else its closing relies on: its IMU does not stream, its USB handle and context
  are the ones opened last, before \<open>hs\<close> and \<open>cs\<close>, no one shares the lock of its USB device, and its clock is there.
\<close>

definition device_handles :: "ptr \<Rightarrow> 'a zsa_world_scheme \<Rightarrow> ptr set" where
  "device_handles h w = (let d = devices w h; s = dev_capturesync d; m = dev_colormcu d in
     {h, dev_color d, s, m, mcu_usb_cmd (colormcus w m)} \<union> set (sync_queues (syncs w s)))"

definition device_locks :: "ptr \<Rightarrow> 'a zsa_world_scheme \<Rightarrow> ptr set" where
  "device_locks h w = (let d = devices w h; s = syncs w (dev_capturesync d); m = dev_colormcu d in
     {cs_lock s, uc_lock (usbcmds w (mcu_usb_cmd (colormcus w m)))} \<union> (\<lambda>q. q_lock (queues w q)) ` set (sync_queues s))"

definition closable :: "ptr list \<Rightarrow> ptr list \<Rightarrow> ptr \<Rightarrow> 'a zsa_world_scheme \<Rightarrow> bool" where
  "closable hs cs h w \<longleftrightarrow>
     (let d = devices w h; u = mcu_usb_cmd (colormcus w (dev_colormcu d)); l = uc_lock (usbcmds w u) in
      uc_stream_handle (usbcmds w u) = 0 \<and> balanced hs cs u w \<and> l \<noteq> cs_lock (syncs w (dev_capturesync d)) \<and>
      (\<forall>q \<in> qheld w. q_lock (queues w q) \<noteq> l) \<and> dev_tick_handle d \<noteq> 0 \<and> ticks w (dev_tick_handle d) \<noteq> None)"

text \<open>First the way of the captures: the synchroniser stops, the camera and then the synchroniser go.\<close>

lemma close_captures:
  fixes h :: ptr and w :: "'a zsa_world_scheme"
  defines "d \<equiv> devices w h"
  defines "s \<equiv> dev_capturesync d" and "c \<equiv> dev_color d"
  defines "Q \<equiv> set (sync_queues (syncs w s))"
  assumes ok: "device_ok h w"
  shows "\<exists>w1 w2 w3. capturesync_stop others s w = Some w1 \<and> devices w1 = devices w \<and> color_destroy c w1 = Some w2 \<and> devices w2 = devices w \<and>
     capturesync_destroy others s (put_device h (d\<lparr>dev_color := 0\<rparr>) w2) = Some w3 \<and> devices w3 = (devices w)(h := d\<lparr>dev_color := 0\<rparr>) \<and>
     queue_inv w3 \<and> client_refs w3 = user_refs s w \<and> outside w3 = user_images s w \<and>
     other_locks w3 = (\<lambda>l. if l \<in> insert (cs_lock (syncs w s)) ((\<lambda>q. q_lock (queues w q)) ` Q) then None else other_locks w l) \<and>
     other_handles {H_image, H_capture} w3 = (\<lambda>x. if x \<in> {c, s} \<union> Q then None else other_handles {H_image, H_capture} w x) \<and>
     (\<forall>q \<in> qheld w3. q \<in> qheld w \<and> q_lock (queues w3 q) = q_lock (queues w q)) \<and>
     usbcmds w3 = usbcmds w \<and> colormcus w3 = colormcus w \<and> ticks w3 = ticks w \<and> libusb_calls w3 = libusb_calls w \<and>
     camera_calls w3 = camera_calls w @ [(c, CAM_Stop), (c, CAM_Shutdown)]"
proof -
  note dv = device_okD [OF ok, folded d_def, folded s_def c_def]
  from capturesync_stop_run [OF dv(2,3), of others] obtain w1 where
    w1: "capturesync_stop others s w = Some w1" "sync_inv s w1" "sync_queues (syncs w1 s) = sync_queues (syncs w s)" "user_refs s w1 = user_refs s w"
      "user_images s w1 = user_images s w" "idle s w1" "beside w w1" "\<forall>k. q_lock (queues w1 k) = q_lock (queues w k)"
      "cs_lock (syncs w1 s) = cs_lock (syncs w s)" by blast
  have m1: "usbcmds w1 = usbcmds w" "colormcus w1 = colormcus w" "ticks w1 = ticks w" "camera_calls w1 = camera_calls w"
      "devices w1 = devices w" "libusb_calls w1 = libusb_calls w" using w1(7) more_fields [of w1 w] by (simp_all add: beside_def)
  have ok1: "device_ok h w1" using device_ok_beside(1) [OF ok w1(7)] w1(2,6) by (simp add: d_def s_def)
  have q1: "queue_inv w1" using w1(2) by (simp add: sync_inv_def sync_core_def)
  have h1: "other_handles {H_image, H_capture} w1 = other_handles {H_image, H_capture} w" "other_locks w1 = other_locks w" "qheld w1 = qheld w"
    using w1(7) live_other [of "{H_image, H_capture}" w1 w H_queue] by (simp_all add: beside_def qheld_def)
  have "live H_color w1 c" "col_camera_reader (colors w1 c)" using ok1 by (simp_all add: device_ok_def Let_def m1 d_def c_def)
  from color_destroy_run [OF q1 this] obtain w2 where
    w2: "color_destroy c w1 = Some w2" "released {c} {} w1 w2" "camera_calls w2 = camera_calls w @ [(c, CAM_Stop), (c, CAM_Shutdown)]"
      "usbcmds w2 = usbcmds w" "colormcus w2 = colormcus w" "ticks w2 = ticks w" "devices w2 = devices w" "libusb_calls w2 = libusb_calls w"
    by (auto simp: m1)
  define v2 where "v2 = put_device h (d\<lparr>dev_color := 0\<rparr>) w2"
  have r2: "released {c} {} w1 v2" using w2(2) by (simp add: v2_def)
  have "s \<noteq> c" using dv(6,7) by (auto simp: live_def)
  note s2 = released_sync [OF w1(2) r2, simplified, OF this]
  have f2: "syncs v2 = syncs w1" "queues v2 = queues w1" "qheld v2 = qheld w" using r2 h1 by (simp_all add: released_def)
  from capturesync_destroy_run [OF s2(1), of others] s2(2) w1(6) obtain w3 where
    w3: "capturesync_destroy others s v2 = Some w3" "queue_inv w3" "client_refs w3 = user_refs s w" "outside w3 = user_images s w"
      "other_locks w3 = (\<lambda>l. if l \<in> insert (cs_lock (syncs w s)) ((\<lambda>q. q_lock (queues w q)) ` Q) then None else other_locks v2 l)"
      "other_handles {H_image, H_capture} w3 = (\<lambda>x. if x \<in> insert s Q then None else other_handles {H_image, H_capture} v2 x)"
      "capturesync_world.more w3 = capturesync_world.more v2" "\<forall>q \<in> qheld w3. q_lock (queues w3 q) = q_lock (queues w q)" "qheld w3 = qheld w - Q"
    using w1(3-5,8,9) s2(3,4) f2 unfolding Q_def by auto
  have "other_locks w3 = (\<lambda>l. if l \<in> insert (cs_lock (syncs w s)) ((\<lambda>q. q_lock (queues w q)) ` Q) then None else other_locks w l)"
    "other_handles {H_image, H_capture} w3 = (\<lambda>x. if x \<in> {c, s} \<union> Q then None else other_handles {H_image, H_capture} w x)"
    using r2 by (auto simp: w3(5,6) released_def h1 fun_eq_iff)
  then show ?thesis
    using w1(1) w2 w3(1-4,8,9) more_fields [OF w3(7)] m1(5) by (intro exI [of _ w1] exI [of _ w2] exI [of _ w3]) (simp add: v2_def put_device_def)
qed

text \<open>Then the processor with its USB device, the clock and the device itself.\<close>

lemma close_rest:
  fixes h :: ptr and w :: "'a zsa_world_scheme" and m :: ptr
  defines "d \<equiv> devices w h"
  defines "u \<equiv> mcu_usb_cmd (colormcus w m)"
  defines "l \<equiv> uc_lock (usbcmds w u)"
  assumes inv: "queue_inv w" and live: "live H_device w h" "live H_colormcu w m" "live H_usbcmd w u"
    and l: "l \<noteq> 0" "other_locks w l = Some False" "\<forall>q \<in> qheld w. q_lock (queues w q) \<noteq> l"
    and u: "uc_stream_handle (usbcmds w u) = 0" "balanced hs cs u w"
    and t: "m = dev_colormcu d" "dev_tick_handle d \<noteq> 0" "ticks w (dev_tick_handle d) \<noteq> None"
  shows "\<exists>w1 w2 w3. colormcu_destroy thread m w = Some w1 \<and> devices w1 = devices w \<and>
     tickcounter_destroy (dev_tick_handle d) (put_device h (d\<lparr>dev_colormcu := 0\<rparr>) w1) = Some w2 \<and> devices w2 h = d\<lparr>dev_colormcu := 0\<rparr> \<and>
     handle_destroy h (put_device h (d\<lparr>dev_colormcu := 0, dev_tick_handle := 0\<rparr>) w2) = Some w3 \<and>
     released {m, u, h} {l} w (allocator_deinitialize w3) \<and>
     (let w' = allocator_deinitialize w3 in open_handles (libusb_calls w') = hs \<and> open_contexts (libusb_calls w') = cs \<and>
        camera_calls w' = camera_calls w \<and> ticks w' = (ticks w)(dev_tick_handle d := None))"
proof -
  let ?t = "dev_tick_handle d"
  from colormcu_destroy_run [where m = m and w = w and hs = hs and cs = cs and thread = thread, folded u_def, folded l_def, OF inv live(2,3) l u]
  obtain w1 where
    w1: "colormcu_destroy thread m w = Some w1" "released {m, u} {l} w w1" "open_handles (libusb_calls w1) = hs" "open_contexts (libusb_calls w1) = cs"
      "camera_calls w1 = camera_calls w" "ticks w1 = ticks w" "devices w1 = devices w" by blast
  define w2 where "w2 = (put_device h (d\<lparr>dev_colormcu := 0\<rparr>) w1)\<lparr>ticks := (ticks w)(?t := None)\<rparr>"
  define v2 where "v2 = put_device h (d\<lparr>dev_colormcu := 0, dev_tick_handle := 0\<rparr>) w2"
  define w3 where "w3 = v2\<lparr>htype := (htype v2)(h := None)\<rparr>"
  have a: "above w1 v2" unfolding v2_def w2_def by (intro above_trans [OF _ above_steps(5)] above_trans [OF _ above_steps(6)] above_steps(1))
  have q1: "queue_inv w1" using w1(2) by (simp add: released_def)
  have r2: "released {m, u} {l} w v2" using released_trans [OF w1(2) released_above [OF q1 a]] by simp
  have "h \<notin> {m, u}" using live by (auto simp: live_def)
  then have "other_handles {H_image, H_capture} v2 h = other_handles {H_image, H_capture} w h" using r2 by (simp add: released_def)
  then have live2: "live H_device v2 h" using live(1) by (auto simp: live_def other_handles_def split: option.splits if_splits)
  have q2: "queue_inv v2" using r2 by (simp add: released_def)
  have r3: "released {h} {} v2 w3" unfolding w3_def by (rule released_handle [OF q2 live2]) simp
  have q3: "queue_inv w3" using r3 by (simp add: released_def)
  have "released {m, u, h} {l} w (allocator_deinitialize w3)"
    using released_trans [OF released_trans [OF r2 r3] released_session [OF q3]] by (simp add: insert_commute)
  moreover have "tickcounter_destroy ?t (put_device h (d\<lparr>dev_colormcu := 0\<rparr>) w1) = Some w2"
    using t(2,3) w1(6) by (simp add: tickcounter_destroy_def w2_def put_device_def)
  moreover have "handle_destroy h v2 = Some w3" using live2 by (simp add: handle_destroy_live w3_def)
  ultimately show ?thesis
    using w1 by (intro exI [of _ w1] exI [of _ w2] exI [of _ w3])
      (simp add: v2_def [symmetric], simp add: w3_def v2_def w2_def put_device_def allocator_deinitialize_def Let_def)
qed

lemma device_close_run:
  fixes h :: ptr and w :: "'a zsa_world_scheme"
  defines "d \<equiv> devices w h"
  assumes ok: "device_ok h w" and cl: "closable hs cs h w"
  shows "\<exists>w'. zsa_device_close others thread h w = Some w' \<and> queue_inv w' \<and>
     client_refs w' = user_refs (dev_capturesync d) w \<and> outside w' = user_images (dev_capturesync d) w \<and>
     other_handles {H_image, H_capture} w' = (\<lambda>x. if x \<in> device_handles h w then None else other_handles {H_image, H_capture} w x) \<and>
     other_locks w' = (\<lambda>l. if l \<in> device_locks h w then None else other_locks w l) \<and>
     open_handles (libusb_calls w') = hs \<and> open_contexts (libusb_calls w') = cs \<and>
     camera_calls w' = camera_calls w @ [(dev_color d, CAM_Stop), (dev_color d, CAM_Shutdown)] \<and> ticks w' = (ticks w)(dev_tick_handle d := None)"
proof -
  let ?s = "dev_capturesync d" and ?c = "dev_color d" and ?m = "dev_colormcu d" and ?t = "dev_tick_handle d"
  let ?u = "mcu_usb_cmd (colormcus w ?m)" and ?Q = "set (sync_queues (syncs w ?s))"
  let ?l = "uc_lock (usbcmds w ?u)"
  note dv = device_okD [OF ok, folded d_def]
  have cl': "uc_stream_handle (usbcmds w ?u) = 0" "balanced hs cs ?u w" "?l \<noteq> cs_lock (syncs w ?s)" "\<forall>q \<in> qheld w. q_lock (queues w q) \<noteq> ?l"
      "?t \<noteq> 0" "ticks w ?t \<noteq> None"
    using cl by (simp_all add: closable_def Let_def d_def)
  have l: "?l \<noteq> 0" "other_locks w ?l = Some False" "live H_usbcmd w ?u" using ok by (simp_all add: device_ok_def Let_def d_def)
  have nz: "?s \<noteq> 0" "?c \<noteq> 0" "?m \<noteq> 0" using dv(4,6,7) by (simp_all add: live_def)
  from close_captures [OF ok, folded d_def, of others] obtain w1 w2 v3 where
    w1: "capturesync_stop others ?s w = Some w1" "devices w1 = devices w" and w2: "color_destroy ?c w1 = Some w2" "devices w2 = devices w" and
    v3: "capturesync_destroy others ?s (put_device h (d\<lparr>dev_color := 0\<rparr>) w2) = Some v3" "devices v3 = (devices w)(h := d\<lparr>dev_color := 0\<rparr>)"
      "queue_inv v3" "client_refs v3 = user_refs ?s w" "outside v3 = user_images ?s w"
      "other_locks v3 = (\<lambda>l. if l \<in> insert (cs_lock (syncs w ?s)) ((\<lambda>q. q_lock (queues w q)) ` ?Q) then None else other_locks w l)"
      "other_handles {H_image, H_capture} v3 = (\<lambda>x. if x \<in> {?c, ?s} \<union> ?Q then None else other_handles {H_image, H_capture} w x)"
      "\<forall>q \<in> qheld v3. q \<in> qheld w \<and> q_lock (queues v3 q) = q_lock (queues w q)"
      "usbcmds v3 = usbcmds w" "colormcus v3 = colormcus w" "ticks v3 = ticks w" "libusb_calls v3 = libusb_calls w"
      "camera_calls v3 = camera_calls w @ [(?c, CAM_Stop), (?c, CAM_Shutdown)]" by (elim exE conjE)
  define w3 where "w3 = put_device h (d\<lparr>dev_color := 0, dev_capturesync := 0\<rparr>) v3"
  have a3: "above v3 w3" by (simp add: w3_def)
  have f3: "usbcmds w3 = usbcmds w" "colormcus w3 = colormcus w" "libusb_calls w3 = libusb_calls w" "ticks w3 = ticks w" "camera_calls w3 = camera_calls v3"
      "devices w3 h = d\<lparr>dev_color := 0, dev_capturesync := 0\<rparr>"
    by (simp_all add: w3_def put_device_def v3)
  have sub: "?Q \<subseteq> qheld w" using dv(2) by (simp add: sync_inv_def sync_core_def)
  have keep: "live T w3 x" if "live T w x" "T \<in> {H_colormcu, H_usbcmd, H_device}" for T x
  proof -
    have "x \<notin> {?c, ?s} \<union> ?Q" using that sub dv(6,7) by (auto simp: live_def qheld_def)
    then have "other_handles {H_image, H_capture} v3 x = other_handles {H_image, H_capture} w x" by (simp add: v3(7))
    then have "live T v3 x" using that by (auto simp: live_def other_handles_def split: option.splits if_splits)
    then show ?thesis using above_sync(6) [OF a3] by simp
  qed
  have q3: "queue_inv w3" "qheld w3 = qheld v3" "queues w3 = queues v3" "other_locks w3 = other_locks v3"
    using v3(3) above_queue [OF a3] above_refs(3) [OF a3] above_sync(4,5) [OF a3] by simp_all
  have l3: "other_locks w3 ?l = Some False" "\<forall>q \<in> qheld w3. q_lock (queues w3 q) \<noteq> ?l"
    using l(2) cl'(3,4) sub v3(8) by (auto simp: q3 v3(6))
  have bal: "balanced hs cs ?u w3" using cl'(2) by (simp add: balanced_def f3)
  have lv: "live H_device w3 h" "live H_colormcu w3 ?m" "live H_usbcmd w3 ?u" using keep dv(1,4) l(3) by simp_all
  from close_rest [where h = h and w = w3 and m = ?m and hs = hs and cs = cs and thread = thread, unfolded f3, OF q3(1) lv l(1) l3 cl'(1) bal] cl'(5,6)
  obtain w4 w5 w6 where
    w4: "colormcu_destroy thread ?m w3 = Some w4" "devices w4 = devices w3" and
    w5: "tickcounter_destroy ?t (put_device h (d\<lparr>dev_color := 0, dev_capturesync := 0, dev_colormcu := 0\<rparr>) w4) = Some w5"
      "devices w5 h = d\<lparr>dev_color := 0, dev_capturesync := 0, dev_colormcu := 0\<rparr>" and
    w6: "handle_destroy h (put_device h (d\<lparr>dev_color := 0, dev_capturesync := 0, dev_colormcu := 0, dev_tick_handle := 0\<rparr>) w5) = Some w6"
      "released {?m, ?u, h} {?l} w3 (allocator_deinitialize w6)" "open_handles (libusb_calls (allocator_deinitialize w6)) = hs"
      "open_contexts (libusb_calls (allocator_deinitialize w6)) = cs" "camera_calls (allocator_deinitialize w6) = camera_calls v3"
      "ticks (allocator_deinitialize w6) = (ticks w)(?t := None)" by (auto simp: Let_def)
  have "zsa_device_close others thread h w = Some (allocator_deinitialize w6)"
    using dv(1) nz cl'(5) w1 w2 v3(1,2) w4 w5 w6(1) f3(6)
    by (simp add: zsa_device_close_def d_def [symmetric] w3_def [symmetric] put_device_def [symmetric])
       (simp add: put_device_def d_def [symmetric] w3_def)
  moreover have "device_handles h w = {?c, ?s} \<union> ?Q \<union> {?m, ?u, h}"
      "device_locks h w = insert (cs_lock (syncs w ?s)) ((\<lambda>q. q_lock (queues w q)) ` ?Q) \<union> {?l}"
    by (auto simp: device_handles_def device_locks_def Let_def d_def)
  moreover note released_above [OF v3(3) a3]
  ultimately show ?thesis using w6(2-6) v3(4-7,13) by (simp add: released_def fun_eq_iff)
qed

subsection \<open>Property\<close>

lemma extend_device_calls:
  fixes w :: colormcu_world
  shows "libusb_calls (color_world.extend (colormcu_world.extend w x) y) = libusb_calls w"
  by (simp add: color_world.defs colormcu_world.defs)

lemma one_device_calls: "libusb_calls one_device = [LU_init 0 73, LU_open 75 0 175]"
  by (simp only: one_device_def extend_device_calls) (simp add: one_mcu_simps)

lemma one_device_closable: "closable [] [] 71 one_device"
proof -
  have "live H_queue one_device x = live H_queue one_sync x" for x
    by (auto simp: live_def one_device_fields) (auto simp: one_sync_def)
  then have "qheld one_device = {11, 21, 31}" using one_sync_held by (simp add: qheld_def)
  then show ?thesis
    by (simp add: closable_def Let_def one_device_fields one_device_above one_device_below one_mcu_simps one_mcu_context usbcmd_zero_def balanced_def
        one_device_calls open_handles_def open_contexts_def one_sync_rings one_sync_frames)
qed

text \<open>
  (C5) Closing a device that is not in the middle of a call returns and takes away exactly what the device owns: the
  handles and locks of the device, its camera, its synchroniser with the three queues, its processor and its USB
  device; the camera has been stopped and then shut down, the handle and the context of the USB library are closed, the
  clock is freed. The synchroniser has given back every reference it held, so that the users are left with their own,
  and all other handles and locks are as before.
\<close>

theorem device_close_releases_all:
  assumes "device_ok h w" and "closable hs cs h w"
  shows "\<exists>w'. zsa_device_close others thread h w = Some w' \<and> queue_inv w' \<and>
     client_refs w' = user_refs (dev_capturesync (devices w h)) w \<and> outside w' = user_images (dev_capturesync (devices w h)) w \<and>
     other_handles {H_image, H_capture} w' = (\<lambda>x. if x \<in> device_handles h w then None else other_handles {H_image, H_capture} w x) \<and>
     other_locks w' = (\<lambda>l. if l \<in> device_locks h w then None else other_locks w l) \<and>
     open_handles (libusb_calls w') = hs \<and> open_contexts (libusb_calls w') = cs \<and>
     camera_calls w' = camera_calls w @ [(dev_color (devices w h), CAM_Stop), (dev_color (devices w h), CAM_Shutdown)] \<and>
     ticks w' = (ticks w)(dev_tick_handle (devices w h) := None)"
  by (rule device_close_run [OF assms])

theorem device_close_releases_all_witness:
  "\<exists>w'. zsa_device_close (\<lambda>_ _ w. w) (\<lambda>w. w) 71 one_device = Some w' \<and> open_handles (libusb_calls w') = [] \<and>
     camera_calls w' = [(67, CAM_Stop), (67, CAM_Shutdown)] \<and> ticks w' = Map.empty \<and> other_handles {H_image, H_capture} w' 41 = None"
  using device_close_releases_all [OF one_device_ok one_device_closable, of "\<lambda>_ _ w. w" "\<lambda>w. w"]
  by (auto simp: one_device_above device_handles_def Let_def)

end
