(* ===== verification/Handle_Types.thy ===== *)
theory Handle_Types
  imports Zsa_Device_Life
begin

section \<open>The types of handles\<close>

text \<open>
  A handle is an untyped pointer whose wrapper carries its type (\<open>handle.h\<close>). Two things make the types safe: the
  functions of a component refuse a handle of another component, and the handles of a device keep their types
  while it is in use.
\<close>

subsection \<open>The calls that take a handle\<close>

text \<open>One constructor for each function that changes the object of a handle, with the other arguments of the function.\<close>

datatype handle_call =
    Image_inc_ref | Image_dec_ref | Image_set_size u64 | Image_apply_system_timestamp
  | Capture_inc_ref | Capture_dec_ref | Capture_set_image image_type_index_t ptr | Capture_set_temperature c_float
  | Queue_push ptr | Queue_enable | Queue_disable | Queue_destroy
  | Sync_add_capture ptr bool | Sync_start "zsa_device_configuration_t option" | Sync_stop | Sync_destroy
  | Usb_write u32 "bytes option" u64 "bytes option" u64 | Usb_register ptr ptr | Usb_stream_start u64 | Usb_stream_stop | Usb_destroy
  | Mcu_set_mode zsa_device_configuration_t | Mcu_reset | Mcu_imu_register ptr ptr | Mcu_imu_start | Mcu_imu_stop | Mcu_destroy
  | Color_start int "zsa_device_configuration_t option" | Color_set zsa_color_control_command_t zsa_color_control_mode_t int
  | Color_stop | Color_destroy
  | Device_frame zsa_result_t ptr | Device_start int "zsa_device_configuration_t option" | Device_stop | Device_close

fun expects :: "handle_call \<Rightarrow> handle_type" where
  "expects Image_inc_ref = H_image" | "expects Image_dec_ref = H_image" | "expects (Image_set_size n) = H_image"
| "expects Image_apply_system_timestamp = H_image"
| "expects Capture_inc_ref = H_capture" | "expects Capture_dec_ref = H_capture" | "expects (Capture_set_image x i) = H_capture"
| "expects (Capture_set_temperature t) = H_capture"
| "expects (Queue_push n) = H_queue" | "expects Queue_enable = H_queue" | "expects Queue_disable = H_queue" | "expects Queue_destroy = H_queue"
| "expects (Sync_add_capture n b) = H_capturesync" | "expects (Sync_start cfg) = H_capturesync" | "expects Sync_stop = H_capturesync"
| "expects Sync_destroy = H_capturesync"
| "expects (Usb_write c p n q m) = H_usbcmd" | "expects (Usb_register f x) = H_usbcmd" | "expects (Usb_stream_start n) = H_usbcmd"
| "expects Usb_stream_stop = H_usbcmd" | "expects Usb_destroy = H_usbcmd"
| "expects (Mcu_set_mode cfg) = H_colormcu" | "expects Mcu_reset = H_colormcu" | "expects (Mcu_imu_register f x) = H_colormcu"
| "expects Mcu_imu_start = H_colormcu" | "expects Mcu_imu_stop = H_colormcu" | "expects Mcu_destroy = H_colormcu"
| "expects (Color_start now cfg) = H_color" | "expects (Color_set c m v) = H_color" | "expects Color_stop = H_color" | "expects Color_destroy = H_color"
| "expects (Device_frame r n) = H_device" | "expects (Device_start now cfg) = H_device" | "expects Device_stop = H_device" | "expects Device_close = H_device"

text \<open>A function without a result gives \<open>None\<close> for it.\<close>

abbreviation returns_nothing :: "'w option \<Rightarrow> (zsa_result_t option \<times> 'w) option" where
  "returns_nothing \<equiv> map_option (\<lambda>w. (None, w))"

abbreviation returns_result :: "(zsa_result_t \<times> 'w) option \<Rightarrow> (zsa_result_t option \<times> 'w) option" where
  "returns_result \<equiv> map_option (\<lambda>(r, w). (Some r, w))"

fun handle_exec ::
  "libusb_api \<Rightarrow> camera_reader \<Rightarrow> (ptr \<Rightarrow> nat \<Rightarrow> 'a zsa_world_scheme \<Rightarrow> 'a zsa_world_scheme) \<Rightarrow> ('a zsa_world_scheme \<Rightarrow> 'a zsa_world_scheme) \<Rightarrow>
     handle_call \<Rightarrow> ptr \<Rightarrow> 'a zsa_world_scheme \<Rightarrow> (zsa_result_t option \<times> 'a zsa_world_scheme) option" where
  "handle_exec api reader others thread Image_inc_ref h w = returns_nothing (image_inc_ref h w)"
| "handle_exec api reader others thread Image_dec_ref h w = returns_nothing (image_dec_ref h w)"
| "handle_exec api reader others thread (Image_set_size n) h w = returns_nothing (image_set_size h n w)"
| "handle_exec api reader others thread Image_apply_system_timestamp h w = returns_result (image_apply_system_timestamp h w)"
| "handle_exec api reader others thread Capture_inc_ref h w = returns_nothing (capture_inc_ref h w)"
| "handle_exec api reader others thread Capture_dec_ref h w = returns_nothing (capture_dec_ref h w)"
| "handle_exec api reader others thread (Capture_set_image x i) h w = returns_nothing (capture_set_image x h i w)"
| "handle_exec api reader others thread (Capture_set_temperature t) h w = returns_nothing (capture_set_temperature_c h t w)"
| "handle_exec api reader others thread (Queue_push n) h w = returns_nothing (queue_push h n w)"
| "handle_exec api reader others thread Queue_enable h w = returns_nothing (queue_enable h w)"
| "handle_exec api reader others thread Queue_disable h w = returns_nothing (queue_disable (others h) h w)"
| "handle_exec api reader others thread Queue_destroy h w = returns_nothing (queue_destroy (others h) h w)"
| "handle_exec api reader others thread (Sync_add_capture n b) h w =
     returns_nothing (capturesync_add_capture others h ZSA_RESULT_SUCCEEDED n b w)"
| "handle_exec api reader others thread (Sync_start cfg) h w = returns_result (capturesync_start h cfg w)"
| "handle_exec api reader others thread Sync_stop h w = returns_nothing (capturesync_stop others h w)"
| "handle_exec api reader others thread Sync_destroy h w = returns_nothing (capturesync_destroy others h w)"
| "handle_exec api reader others thread (Usb_write c p n q m) h w = returns_result (usb_cmd_write api h c p n q m w)"
| "handle_exec api reader others thread (Usb_register f x) h w = returns_result (usb_cmd_stream_register_cb h f x w)"
| "handle_exec api reader others thread (Usb_stream_start n) h w = returns_result (usb_cmd_stream_start h n w)"
| "handle_exec api reader others thread Usb_stream_stop h w = returns_result (usb_cmd_stream_stop thread h w)"
| "handle_exec api reader others thread Usb_destroy h w = returns_nothing (usb_cmd_destroy thread h w)"
| "handle_exec api reader others thread (Mcu_set_mode cfg) h w = returns_result (colormcu_set_multi_device_mode api h cfg w)"
| "handle_exec api reader others thread Mcu_reset h w = returns_result (colormcu_reset_device api h w)"
| "handle_exec api reader others thread (Mcu_imu_register f x) h w = returns_result (colormcu_imu_register_stream_cb h f x w)"
| "handle_exec api reader others thread Mcu_imu_start h w = returns_result (colormcu_imu_start_streaming api h w)"
| "handle_exec api reader others thread Mcu_imu_stop h w = returns_nothing (colormcu_imu_stop_streaming api thread h w)"
| "handle_exec api reader others thread Mcu_destroy h w = returns_nothing (colormcu_destroy thread h w)"
| "handle_exec api reader others thread (Color_start now cfg) h w = returns_result (color_start reader now h cfg w)"
| "handle_exec api reader others thread (Color_set c m v) h w = returns_result (color_set_control reader h c m v w)"
| "handle_exec api reader others thread Color_stop h w = returns_nothing (color_stop h w)"
| "handle_exec api reader others thread Color_destroy h w = returns_nothing (color_destroy h w)"
| "handle_exec api reader others thread (Device_frame r n) h w = returns_nothing (color_capture_ready others r n h w)"
| "handle_exec api reader others thread (Device_start now cfg) h w = returns_result (zsa_device_start_cameras api reader now others h cfg w)"
| "handle_exec api reader others thread Device_stop h w = returns_nothing (zsa_device_stop_cameras others h w)"
| "handle_exec api reader others thread Device_close h w = returns_nothing (zsa_device_close others thread h w)"

subsection \<open>A handle of another type\<close>

definition wrong_type :: "handle_type \<Rightarrow> ptr \<Rightarrow> 'a mem_scheme \<Rightarrow> bool" where
  "wrong_type T h w \<longleftrightarrow> h = 0 \<or> (htype w h \<noteq> None \<and> htype w h \<noteq> Some T)"

lemma get_context_wrong_type: "wrong_type T h w \<Longrightarrow> handle_get_context T get h w = Some None"
  by (auto simp: wrong_type_def handle_get_context_def)

lemma live_not_wrong_type: "live T w h \<Longrightarrow> \<not> wrong_type T h w"
  by (simp add: live_def wrong_type_def)

lemmas image_ops = image_inc_ref_def image_dec_ref_def image_set_size_def image_apply_system_timestamp_def image_write_def image_read_def
lemmas capture_ops = capture_inc_ref_def capture_dec_ref_def capture_set_image_def capture_set_temperature_c_def
lemmas queue_ops = queue_push_def queue_push_w_dropped_def queue_enable_def queue_disable_def queue_destroy_def
lemmas sync_ops = capturesync_add_capture_def capturesync_start_def capturesync_stop_def capturesync_destroy_def
lemmas usb_ops = usb_cmd_write_def usb_cmd_io_def usb_cmd_stream_register_cb_def usb_cmd_stream_start_def usb_cmd_stream_stop_def usb_cmd_destroy_def
lemmas mcu_ops = colormcu_set_multi_device_mode_def colormcu_reset_device_def colormcu_imu_register_stream_cb_def colormcu_imu_start_streaming_def
  colormcu_imu_stop_streaming_def colormcu_destroy_def
lemmas color_ops = color_start_def color_set_control_def color_stop_def color_destroy_def
lemmas device_ops = color_capture_ready_def zsa_device_start_cameras_def zsa_device_stop_cameras_def zsa_device_close_def validate_configuration_def

lemma wrong_type_refused:
  assumes "wrong_type (expects c) h w"
  shows "\<exists>r. handle_exec api reader others thread c h w = Some (r, w) \<and> r \<noteq> Some ZSA_RESULT_SUCCEEDED"
  using assms
  by (cases c)
     (simp_all add: get_context_wrong_type image_ops capture_ops queue_ops sync_ops usb_ops mcu_ops color_ops device_ops Let_def
       split: option.split)

text \<open>
  The two exceptions: \<open>queue_stop\<close> and the error path of \<open>capturesync_add_capture\<close> use the context without a check.
\<close>

lemma wrong_type_not_refused:
  "wrong_type H_queue h w \<Longrightarrow> queue_stop others h w = None"
  "wrong_type H_capturesync h w \<Longrightarrow> capturesync_add_capture others' h ZSA_RESULT_FAILED n b w = None"
  by (simp_all add: get_context_wrong_type queue_stop_def capturesync_add_capture_def)

subsection \<open>Properties\<close>

lemma reached_types:
  assumes "api_bounded api" and "device_ok h w0" and "device_reach api reader others h w0 w"
  shows "T \<notin> {H_image, H_capture} \<Longrightarrow> live T w x = live T w0 x"
  using device_reach_ok [OF assms(3,1,2)] live_other [of "{H_image, H_capture}" w w0 T x] by (simp add: same_parts_def)

lemma reached_parts:
  assumes "api_bounded api" and "device_ok h w0" and "device_reach api reader others h w0 w"
  shows "live H_device w h \<and> live H_capturesync w (dev_capturesync (devices w0 h)) \<and> live H_color w (dev_color (devices w0 h)) \<and>
    live H_colormcu w (dev_colormcu (devices w0 h))"
proof -
  have r: "device_ok h w" "same_parts h w0 w" using device_reach_ok [OF assms(3,1,2)] by simp_all
  obtain b where "devices w h = (devices w0 h)\<lparr>dev_color_started := b\<rparr>" using r(2) by (auto simp: same_parts_def)
  then show ?thesis using device_okD(1,4,6,7) [OF r(1)] by simp
qed



end
