(* ===== verification/Comcommand.thy ===== *)
theory Comcommand
  imports Usbstreaming
begin

section \<open>COM commands\<close>

text \<open>
  \<open>src/comcommand/comcommand.c\<close> and \<open>comstreaming.c\<close>: the module for sensors on a serial line. Its transactions
  are not written yet, so that a command only checks its arguments, and its thread ends at once; handles, locks and
  the life of the stream are complete. \<open>populate_serialnumber\<close> is called but defined nowhere: it is a parameter,
  a function on the context it is given. A local variable that is read before it is set has an arbitrary value,
  which is an argument too.
\<close>

datatype com_command_device_type_t = COM_DEVICE_DEPTH_PROCESSOR | COM_DEVICE_COLOR_PROCESSOR | COM_DEVICE_TYPE_OTHER u32

record comcmd_context_t =
  cc_source :: allocation_source_t
  cc_index :: u8
  cc_pid :: u16
  cc_interface :: u8
  cc_cmd_tx_endpoint :: u8
  cc_cmd_rx_endpoint :: u8
  cc_stream_endpoint :: u8
  cc_transaction_id :: u32
  cc_serial_number :: bytes
  cc_container_id :: guid_t
  cc_callback :: ptr
  cc_stream_context :: ptr
  cc_stream_going :: bool
  cc_transfer_list :: "ptr list"
  cc_stream_size :: u64
  cc_lock :: ptr
  cc_stream_handle :: ptr

abbreviation COM_CMD_MAX_XFR_COUNT :: nat where "COM_CMD_MAX_XFR_COUNT \<equiv> 8"

definition comcmd_zero :: comcmd_context_t where
  "comcmd_zero = \<lparr>cc_source = ALLOCATION_SOURCE_USER, cc_index = 0, cc_pid = 0, cc_interface = 0, cc_cmd_tx_endpoint = 0,
     cc_cmd_rx_endpoint = 0, cc_stream_endpoint = 0, cc_transaction_id = 0, cc_serial_number = replicate MAX_SERIAL_NUMBER_LENGTH 0,
     cc_container_id = \<lparr>guid_id = replicate 16 0\<rparr>, cc_callback = 0, cc_stream_context = 0, cc_stream_going = False,
     cc_transfer_list = replicate COM_CMD_MAX_XFR_COUNT 0, cc_stream_size = 0, cc_lock = 0, cc_stream_handle = 0\<rparr>"

record com_world = mem +
  comcmds :: "ptr \<Rightarrow> comcmd_context_t"

definition put_comcmd :: "ptr \<Rightarrow> comcmd_context_t \<Rightarrow> 'a com_world_scheme \<Rightarrow> 'a com_world_scheme" where
  "put_comcmd h c w = w\<lparr>comcmds := (comcmds w)(h := c)\<rparr>"

definition comcmd_t_create :: "'a com_world_scheme \<Rightarrow> ptr \<times> 'a com_world_scheme" where
  "comcmd_t_create w =
     (case handle_create H_comcmd w of (h, w) \<Rightarrow> (h, if h = 0 then w else put_comcmd h comcmd_zero w))"

abbreviation comcmd_t_get_context :: "ptr \<Rightarrow> 'a com_world_scheme \<Rightarrow> comcmd_context_t option option" where
  "comcmd_t_get_context h w \<equiv> handle_get_context H_comcmd comcmds h w"

interpretation comcmd_store: context_store H_comcmd comcmds put_comcmd
  by unfold_locales (simp_all add: put_comcmd_def)

subsection \<open>Streams\<close>

text \<open>The thread of a stream only logs and ends, with the success it starts with.\<close>

definition com_cmd_lib_com_thread :: "'a com_world_scheme \<Rightarrow> zsa_result_t \<times> 'a com_world_scheme" where
  "com_cmd_lib_com_thread w = (ZSA_RESULT_SUCCEEDED, w)"

definition com_cmd_stream_start :: "ptr \<Rightarrow> u64 \<Rightarrow> 'a com_world_scheme \<Rightarrow> (zsa_result_t \<times> 'a com_world_scheme) option" where
  "com_cmd_stream_start h payload_size w = do {
     ctx \<leftarrow> comcmd_t_get_context h w;
     if ctx = None \<or> payload_size = 0 then Some (ZSA_RESULT_FAILED, w)
     else do {
       (_, w) \<leftarrow> Lock (cc_lock (comcmds w h)) w;
       let (result, w) =
         (if cc_stream_going (comcmds w h) then (ZSA_RESULT_FAILED, w)
          else let w = put_comcmd h ((comcmds w h)\<lparr>cc_stream_size := payload_size, cc_stream_going := True\<rparr>) w in
            case ThreadAPI_Create w of (thread, w) \<Rightarrow>
              if thread = 0 then (ZSA_RESULT_FAILED, put_comcmd h ((comcmds w h)\<lparr>cc_stream_going := False\<rparr>) w)
              else (ZSA_RESULT_SUCCEEDED, put_comcmd h ((comcmds w h)\<lparr>cc_stream_handle := thread\<rparr>) w));
       (_, w) \<leftarrow> Unlock (cc_lock (comcmds w h)) w;
       Some (result, w)
     }
   }"

text \<open>\<open>ThreadAPI_Join\<close> waits until the thread has ended; what the thread does is done by then.\<close>

definition com_cmd_stream_stop :: "ptr \<Rightarrow> 'a com_world_scheme \<Rightarrow> (zsa_result_t \<times> 'a com_world_scheme) option" where
  "com_cmd_stream_stop h w = do {
     ctx \<leftarrow> comcmd_t_get_context h w;
     case ctx of
       None \<Rightarrow> Some (ZSA_RESULT_FAILED, w)
     | Some _ \<Rightarrow> do {
         (_, w) \<leftarrow> Lock (cc_lock (comcmds w h)) w;
         let w = put_comcmd h ((comcmds w h)\<lparr>cc_stream_going := False\<rparr>) w;
         let w = (if cc_stream_handle (comcmds w h) \<noteq> 0
                  then (case com_cmd_lib_com_thread w of (_, w) \<Rightarrow> put_comcmd h ((comcmds w h)\<lparr>cc_stream_handle := 0\<rparr>) w) else w);
         (_, w) \<leftarrow> Unlock (cc_lock (comcmds w h)) w;
         Some (ZSA_RESULT_SUCCEEDED, w)
       }
   }"

subsection \<open>Devices\<close>

definition com_cmd_destroy :: "ptr \<Rightarrow> 'a com_world_scheme \<Rightarrow> 'a com_world_scheme option" where
  "com_cmd_destroy h w = do {
     ctx \<leftarrow> comcmd_t_get_context h w;
     case ctx of
       None \<Rightarrow> Some w
     | Some _ \<Rightarrow> do {
         (_, w) \<leftarrow> com_cmd_stream_stop h w;
         handle_destroy h w
       }
   }"

definition find_libcom_device :: "u32 \<Rightarrow> guid_t option \<Rightarrow> comcmd_context_t \<Rightarrow> zsa_result_t" where
  "find_libcom_device device_index container_id comcmd = ZSA_RESULT_SUCCEEDED"

definition com_device_settings :: "com_command_device_type_t \<Rightarrow> comcmd_context_t \<Rightarrow> comcmd_context_t" where
  "com_device_settings device_type c =
     (if device_type = COM_DEVICE_DEPTH_PROCESSOR
      then c\<lparr>cc_pid := ZSA_DEPTH_PID, cc_interface := 0, cc_cmd_tx_endpoint := 0x02, cc_cmd_rx_endpoint := 0x81,
             cc_stream_endpoint := 0x83, cc_source := ALLOCATION_SOURCE_COM_DEPTH\<rparr>
      else c\<lparr>cc_pid := ZSA_RGB_PID, cc_interface := 2, cc_cmd_tx_endpoint := 0x04, cc_cmd_rx_endpoint := 0x83,
             cc_stream_endpoint := 0x82, cc_source := ALLOCATION_SOURCE_COM_IMU\<rparr>)"

text \<open>\<open>populate\<close> stands for \<open>populate_serialnumber\<close>.\<close>

definition com_cmd_create ::
  "(comcmd_context_t \<Rightarrow> zsa_result_t \<times> comcmd_context_t) \<Rightarrow> com_command_device_type_t \<Rightarrow> u32 \<Rightarrow> guid_t option \<Rightarrow> ptr \<Rightarrow>
     'a com_world_scheme \<Rightarrow> (zsa_result_t \<times> ptr \<times> 'a com_world_scheme) option" where
  "com_cmd_create populate device_type device_index container_id comcmd_handle w =
     (case device_type of
        COM_DEVICE_TYPE_OTHER _ \<Rightarrow> Some (ZSA_RESULT_FAILED, comcmd_handle, w)
      | _ \<Rightarrow>
        (case comcmd_t_create w of (h, w) \<Rightarrow>
         let (result, w) =
               (if h = 0 then (ZSA_RESULT_FAILED, w)
                else let w = put_comcmd h ((comcmds w h)\<lparr>cc_stream_going := False\<rparr>) w in
                  case Lock_Init w of (lock, w) \<Rightarrow>
                    (ZSA_RESULT_FROM_BOOL (lock \<noteq> 0), put_comcmd h ((comcmds w h)\<lparr>cc_lock := lock\<rparr>) w));
             (result, w) =
               (if ZSA_SUCCEEDED result
                then let w = put_comcmd h (com_device_settings device_type (comcmds w h)) w
                     in (find_libcom_device device_index container_id (comcmds w h), w)
                else (result, w));
             (result, w) =
               (if ZSA_SUCCEEDED result
                then case populate (comcmds w h) of (result, c) \<Rightarrow> (result, put_comcmd h c w)
                else (result, w))
         in if ZSA_FAILED result then do { w \<leftarrow> com_cmd_destroy h w; Some (result, 0, w) }
            else Some (result, h, w)))"

definition com_cmd_get_serial_number ::
  "ptr \<Rightarrow> bytes option \<Rightarrow> u64 option \<Rightarrow> 'a com_world_scheme \<Rightarrow> (zsa_buffer_result_t \<times> bytes option \<times> u64 option) option" where
  "com_cmd_get_serial_number h serial_number serial_number_size w = do {
     ctx \<leftarrow> comcmd_t_get_context h w;
     Some (if ctx = None \<or> serial_number_size = None then ZSA_BUFFER_RESULT_FAILED else ZSA_BUFFER_RESULT_SUCCEEDED,
       serial_number, serial_number_size)
   }"

text \<open>There is one count of devices in the code, which never reaches the caller.\<close>

definition com_cmd_get_device_count :: "u32 option \<Rightarrow> zsa_result_t \<times> u32 option" where
  "com_cmd_get_device_count p_device_count = (ZSA_RESULT_SUCCEEDED, p_device_count)"

definition com_cmd_get_container_id :: "ptr \<Rightarrow> 'a com_world_scheme \<Rightarrow> guid_t option option" where
  "com_cmd_get_container_id h w = do { ctx \<leftarrow> comcmd_t_get_context h w; Some (map_option cc_container_id ctx) }"

definition com_cmd_stream_register_cb ::
  "ptr \<Rightarrow> ptr \<Rightarrow> ptr \<Rightarrow> 'a com_world_scheme \<Rightarrow> (zsa_result_t \<times> 'a com_world_scheme) option" where
  "com_cmd_stream_register_cb h capture_ready_cb context_ptr w = do {
     ctx \<leftarrow> comcmd_t_get_context h w;
     Some (case ctx of
             None \<Rightarrow> (ZSA_RESULT_FAILED, w)
           | Some c \<Rightarrow> (ZSA_RESULT_SUCCEEDED, put_comcmd h (c\<lparr>cc_callback := capture_ready_cb, cc_stream_context := context_ptr\<rparr>) w))
   }"

subsection \<open>Transactions\<close>

text \<open>
  A transaction sends nothing: it checks its arguments, leaves the buffer that is read into, the count and the
  status as they are, and succeeds. \<open>com_cmd_read\<close> and \<open>com_cmd_write\<close> then test a status that nobody has set.
\<close>

definition com_cmd_io ::
  "ptr \<Rightarrow> u32 \<Rightarrow> bytes option \<Rightarrow> u64 \<Rightarrow> bytes option \<Rightarrow> u64 \<Rightarrow> bytes option \<Rightarrow> u64 \<Rightarrow> u64 option \<Rightarrow> u32 option \<Rightarrow> 'a com_world_scheme \<Rightarrow>
     (zsa_result_t \<times> bytes option \<times> u64 option \<times> u32 option) option" where
  "com_cmd_io h cmd p_cmd_data cmd_data_size p_rx_data rx_data_size p_tx_data tx_data_size transfer_count cmd_status w = do {
     ctx \<leftarrow> comcmd_t_get_context h w;
     Some (if ctx = None \<or> cmd_status = None \<or> (p_rx_data \<noteq> None \<and> p_tx_data \<noteq> None) then ZSA_RESULT_FAILED
           else ZSA_RESULT_SUCCEEDED, p_rx_data, transfer_count, cmd_status)
   }"

definition com_cmd_read ::
  "u32 \<Rightarrow> ptr \<Rightarrow> u32 \<Rightarrow> bytes option \<Rightarrow> u64 \<Rightarrow> bytes option \<Rightarrow> u64 \<Rightarrow> u64 option \<Rightarrow> 'a com_world_scheme \<Rightarrow>
     (zsa_result_t \<times> bytes option \<times> u64 option) option" where
  "com_cmd_read cmd_status h cmd p_cmd_data cmd_data_size p_data data_size bytes_read w = do {
     (result, p_data, bytes_read, status) \<leftarrow>
       com_cmd_io h cmd p_cmd_data cmd_data_size p_data data_size None 0 bytes_read (Some cmd_status) w;
     Some (if ZSA_SUCCEEDED result \<and> status \<noteq> Some 0 then ZSA_RESULT_FAILED else result, p_data, bytes_read)
   }"

definition com_cmd_read_with_status ::
  "ptr \<Rightarrow> u32 \<Rightarrow> bytes option \<Rightarrow> u64 \<Rightarrow> bytes option \<Rightarrow> u64 \<Rightarrow> u64 option \<Rightarrow> u32 option \<Rightarrow> 'a com_world_scheme \<Rightarrow>
     (zsa_result_t \<times> bytes option \<times> u64 option \<times> u32 option) option" where
  "com_cmd_read_with_status h cmd p_cmd_data cmd_data_size p_data data_size bytes_read cmd_status w =
     (if cmd_status = None then Some (ZSA_RESULT_FAILED, p_data, bytes_read, cmd_status)
      else com_cmd_io h cmd p_cmd_data cmd_data_size p_data data_size None 0 bytes_read cmd_status w)"

definition com_cmd_write ::
  "u32 \<Rightarrow> ptr \<Rightarrow> u32 \<Rightarrow> bytes option \<Rightarrow> u64 \<Rightarrow> bytes option \<Rightarrow> u64 \<Rightarrow> 'a com_world_scheme \<Rightarrow> zsa_result_t option" where
  "com_cmd_write cmd_status h cmd p_cmd_data cmd_data_size p_data data_size w = do {
     (result, _, _, status) \<leftarrow> com_cmd_io h cmd p_cmd_data cmd_data_size None 0 p_data data_size None (Some cmd_status) w;
     Some (if ZSA_SUCCEEDED result \<and> status \<noteq> Some 0 then ZSA_RESULT_FAILED else result)
   }"

definition com_cmd_write_with_status ::
  "ptr \<Rightarrow> u32 \<Rightarrow> bytes option \<Rightarrow> u64 \<Rightarrow> bytes option \<Rightarrow> u64 \<Rightarrow> u32 option \<Rightarrow> 'a com_world_scheme \<Rightarrow>
     (zsa_result_t \<times> u32 option) option" where
  "com_cmd_write_with_status h cmd p_cmd_data cmd_data_size p_data data_size cmd_status w = do {
     (result, _, _, status) \<leftarrow> com_cmd_io h cmd p_cmd_data cmd_data_size None 0 p_data data_size None cmd_status w;
     Some (result, status)
   }"

subsection \<open>The life of a device\<close>

definition com_ready :: "ptr \<Rightarrow> 'a com_world_scheme \<Rightarrow> bool" where
  "com_ready h w \<longleftrightarrow> live H_comcmd w h \<and> cc_lock (comcmds w h) \<noteq> 0 \<and> locks w (cc_lock (comcmds w h)) = Some False"

lemma com_ready_live: "com_ready h w \<Longrightarrow> live H_comcmd w h"
  by (simp add: com_ready_def)

lemma put_comcmd_simps [simp]:
  "comcmds (put_comcmd h c w) = (comcmds w)(h := c)" "htype (put_comcmd h c w) = htype w" "locks (put_comcmd h c w) = locks w"
  "next_addr (put_comcmd h c w) = next_addr w" "os_grants (put_comcmd h c w) = os_grants w" "os_requests (put_comcmd h c w) = os_requests w"
  "live T (put_comcmd h c w) x = live T w x"
  by (simp_all add: put_comcmd_def live_def)

lemma put_comcmd_locks:
  "put_comcmd h c (w\<lparr>locks := x\<rparr>) = (put_comcmd h c w)\<lparr>locks := x\<rparr>" "put_comcmd h c (put_comcmd h d w) = put_comcmd h c w"
  by (simp_all add: put_comcmd_def)

lemma live_counters [simp]: "live T (w\<lparr>next_addr := a, os_requests := r\<rparr>) h = live T w h"
  by (simp add: live_def)

lemma section_runs:
  assumes "l \<noteq> 0" and "locks w l = Some False"
  shows "Lock l w = Some (LOCK_OK, w\<lparr>locks := (locks w)(l := Some True)\<rparr>)"
    and "Unlock l (w\<lparr>locks := (locks w)(l := Some True)\<rparr>) = Some (LOCK_OK, w)"
  using assms by (simp_all add: Lock_def Unlock_def fun_upd_idem)

text \<open>Stopping is a single write to the context, whether or not a stream runs.\<close>

lemma com_stream_stop_run:
  assumes "com_ready h w"
  shows "com_cmd_stream_stop h w =
    Some (ZSA_RESULT_SUCCEEDED, put_comcmd h ((comcmds w h)\<lparr>cc_stream_going := False, cc_stream_handle := 0\<rparr>) w)"
proof -
  let ?c = "comcmds w h" and ?l = "cc_lock (comcmds w h)"
  have r: "live H_comcmd w h" "?l \<noteq> 0" "locks w ?l = Some False" using assms by (simp_all add: com_ready_def)
  have U: "Unlock ?l ((put_comcmd h c w)\<lparr>locks := (locks w)(?l := Some True)\<rparr>) = Some (LOCK_OK, put_comcmd h c w)" for c
    using section_runs(2) [of ?l "put_comcmd h c w"] r by simp
  have eq: "?c\<lparr>cc_stream_going := False, cc_stream_handle := 0\<rparr> = ?c\<lparr>cc_stream_going := False\<rparr>" if "cc_stream_handle ?c = 0"
    using that by (cases ?c) simp
  show ?thesis
    by (cases "cc_stream_handle ?c = 0")
       (simp_all add: com_cmd_stream_stop_def com_cmd_lib_com_thread_def r section_runs(1) put_comcmd_locks U eq Let_def)
qed

lemma com_destroy_run:
  assumes "com_ready h w"
  shows "\<exists>w'. com_cmd_destroy h w = Some w' \<and> htype w' = (htype w)(h := None) \<and> locks w' = locks w"
proof -
  have "handle_destroy h (put_comcmd h c w) = Some ((put_comcmd h c w)\<lparr>htype := (htype w)(h := None)\<rparr>)" for c
    using handle_destroy_live [of H_comcmd "put_comcmd h c w" h] assms by (simp add: com_ready_def)
  then show ?thesis using assms by (simp add: com_cmd_destroy_def com_stream_stop_run com_ready_live)
qed

lemma com_stream_start_again:
  assumes "com_ready h w" and "cc_stream_going (comcmds w h)"
  shows "com_cmd_stream_start h n w = Some (ZSA_RESULT_FAILED, w)"
  using assms by (simp add: com_ready_def com_cmd_stream_start_def section_runs)

lemma com_stream_start_run:
  assumes "com_ready h w" and "\<not> cc_stream_going (comcmds w h)" and "n \<noteq> 0" and "mem_ok w" and "\<forall>n. os_grants w n"
  shows "\<exists>t w'. com_cmd_stream_start h n w = Some (ZSA_RESULT_SUCCEEDED, w') \<and> com_ready h w' \<and> htype w' = htype w \<and> locks w' = locks w \<and>
    comcmds w' h = (comcmds w h)\<lparr>cc_stream_size := n, cc_stream_going := True, cc_stream_handle := t\<rparr>"
proof -
  let ?c = "(comcmds w h)\<lparr>cc_stream_size := n, cc_stream_going := True\<rparr>" and ?l = "cc_lock (comcmds w h)"
  let ?w = "\<lambda>w. w\<lparr>next_addr := next_addr w + 2, os_requests := os_requests w + 2\<rparr>"
  have r: "live H_comcmd w h" "?l \<noteq> 0" "locks w ?l = Some False" using assms(1) by (simp_all add: com_ready_def)
  have "0 < next_addr w" using assms(4) by (simp add: mem_ok_def)
  then have T: "ThreadAPI_Create ((put_comcmd h ?c w)\<lparr>locks := x\<rparr>) = (next_addr w, (?w (put_comcmd h ?c w))\<lparr>locks := x\<rparr>)" for x
    using assms(5) by (simp add: ThreadAPI_Create_def c_malloc_def os_request_def)
  have U: "Unlock ?l ((put_comcmd h c (?w w'))\<lparr>locks := (locks w)(?l := Some True)\<rparr>) = Some (LOCK_OK, put_comcmd h c (?w w'))"
    if "locks w' = locks w" for c w'
    using section_runs(2) [of ?l "put_comcmd h c (?w w')"] r that by simp
  show ?thesis
    using assms(2,3) r \<open>0 < next_addr w\<close> U [of "put_comcmd h ?c w" "?c\<lparr>cc_stream_handle := next_addr w\<rparr>"]
    by (intro exI [of _ "next_addr w"] exI [of _ "put_comcmd h (?c\<lparr>cc_stream_handle := next_addr w\<rparr>) (?w (put_comcmd h ?c w))"])
       (simp add: com_cmd_stream_start_def section_runs(1) put_comcmd_locks T Let_def com_ready_def)
qed

text \<open>The serial number is all that \<open>populate\<close> writes.\<close>

definition fills_serial_number :: "(comcmd_context_t \<Rightarrow> zsa_result_t \<times> comcmd_context_t) \<Rightarrow> bool" where
  "fills_serial_number populate \<longleftrightarrow> (\<forall>c. \<exists>s. snd (populate c) = c\<lparr>cc_serial_number := s\<rparr>)"

lemma com_create_run:
  assumes w: "mem_ok w" "\<forall>n. os_grants w n" and p: "fills_serial_number populate" and d: "\<forall>x. device_type \<noteq> COM_DEVICE_TYPE_OTHER x"
  shows "\<exists>h r w0. com_cmd_create populate device_type i cid p w =
      (if ZSA_FAILED r then do { w \<leftarrow> com_cmd_destroy h w0; Some (r, 0, w) } else Some (r, h, w0)) \<and>
    r \<in> range (\<lambda>c. fst (populate c)) \<and> com_ready h w0 \<and> \<not> cc_stream_going (comcmds w0 h) \<and> cc_stream_handle (comcmds w0 h) = 0 \<and> mem_ok w0 \<and> os_grants w0 = os_grants w \<and>
    htype w h = None \<and> htype w0 = (htype w)(h := Some H_comcmd) \<and>
    locks w (cc_lock (comcmds w0 h)) = None \<and> locks w0 = (locks w)(cc_lock (comcmds w0 h) := Some False)"
proof -
  let ?h = "next_addr w" and ?l = "next_addr w + 2"
  let ?c = "com_device_settings device_type (comcmd_zero\<lparr>cc_lock := ?l\<rparr>)"
  let ?w = "w\<lparr>htype := (htype w)(?h := Some H_comcmd), next_addr := next_addr w + 4, os_requests := os_requests w + 3,
              locks := (locks w)(?l := Some False)\<rparr>"
  obtain s where s: "snd (populate ?c) = ?c\<lparr>cc_serial_number := s\<rparr>" using p by (auto simp: fills_serial_number_def)
  have n: "0 < next_addr w" "htype w ?h = None" "locks w ?l = None" using w(1) by (auto simp: mem_ok_def)
  have zero: "comcmd_zero\<lparr>cc_stream_going := False\<rparr> = comcmd_zero" by (simp add: comcmd_zero_def)
  let ?w0 = "put_comcmd ?h (?c\<lparr>cc_serial_number := s\<rparr>) (?w\<lparr>comcmds := comcmds w\<rparr>)"
  have "com_cmd_create populate device_type i cid p w =
      (if ZSA_FAILED (fst (populate ?c)) then do { w \<leftarrow> com_cmd_destroy ?h ?w0; Some (fst (populate ?c), 0, w) } else Some (fst (populate ?c), ?h, ?w0))"
    using d n(1) w(2) s
    by (cases device_type; cases "populate ?c")
       (simp_all add: com_cmd_create_def comcmd_t_create_def handle_create_def Lock_Init_def c_malloc_def os_request_def find_libcom_device_def
          put_comcmd_def zero eval_nat_numeral Let_def)
  moreover have "cc_lock ?c = ?l" "\<not> cc_stream_going ?c" "cc_stream_handle ?c = 0"
    by (simp_all add: com_device_settings_def comcmd_zero_def)
  moreover have "mem_ok ?w0"
    using w(1) by (auto simp: mem_ok_def put_comcmd_def trans_less_add1)
  ultimately show ?thesis
    using n by (intro exI [of _ ?h] exI [of _ "fst (populate ?c)"] exI [of _ ?w0]) (auto simp: com_ready_def live_def)
qed


definition empty_com :: com_world where
  "empty_com = \<lparr>next_addr = 1, os_grants = (\<lambda>_. True), os_requests = 0, htype = (\<lambda>_. None), locks = (\<lambda>_. None), conds = (\<lambda>_. False),
     comcmds = (\<lambda>_. comcmd_zero)\<rparr>"


end
