(* ===== verification/Zsa_Math.thy ===== *)
theory Zsa_Math
  imports Main
begin

section \<open>Small matrices\<close>

text \<open>
  \<open>src/math/math.c\<close>: operations on vectors and on matrices stored by rows, through pointers that may point into
  each other. The memory maps addresses to values; the values only need the operations \<open>+\<close>, \<open>*\<close> and \<open>-\<close>, without
  any law, so that everything holds for the rounded arithmetic of \<open>float\<close>. The order of the reads and writes is
  the one of the code.
\<close>

type_synonym 'f memory = "nat \<Rightarrow> 'f"

definition transpose_swap :: "nat \<Rightarrow> nat \<Rightarrow> nat \<Rightarrow> nat \<Rightarrow> 'f memory \<Rightarrow> 'f memory" where
  "transpose_swap inp out i j m =
     (let upper = i * 3 + j; lower = j * 3 + i; tmp = m (inp + upper); m = m(out + upper := m (inp + lower))
      in m(out + lower := tmp))"

definition transpose_row :: "nat \<Rightarrow> nat \<Rightarrow> nat \<Rightarrow> 'f memory \<Rightarrow> 'f memory" where
  "transpose_row inp out i m = fold (transpose_swap inp out i) [i + 1..<3] (m(out + i * (3 + 1) := m (inp + i * (3 + 1))))"

definition math_transpose_3x3 :: "nat \<Rightarrow> nat \<Rightarrow> 'f memory \<Rightarrow> 'f memory" where
  "math_transpose_3x3 inp out m = fold (transpose_row inp out) [0..<3] m"

definition math_negate_3 :: "nat \<Rightarrow> nat \<Rightarrow> 'f :: uminus memory \<Rightarrow> 'f memory" where
  "math_negate_3 inp out m =
     (let m = m(out := - m inp); m = m(out + 1 := - m (inp + 1)) in m(out + 2 := - m (inp + 2)))"

definition math_add_3 :: "nat \<Rightarrow> nat \<Rightarrow> nat \<Rightarrow> 'f :: plus memory \<Rightarrow> 'f memory" where
  "math_add_3 a b out m =
     (let m = m(out := m a + m b); m = m(out + 1 := m (a + 1) + m (b + 1)) in m(out + 2 := m (a + 2) + m (b + 2)))"

definition math_scale_3 :: "nat \<Rightarrow> 'f \<Rightarrow> nat \<Rightarrow> 'f :: times memory \<Rightarrow> 'f memory" where
  "math_scale_3 inp s out m =
     (let m = m(out := m inp * s); m = m(out + 1 := m (inp + 1) * s) in m(out + 2 := m (inp + 2) * s))"

definition math_add_scaled_3 :: "nat \<Rightarrow> 'f \<Rightarrow> nat \<Rightarrow> 'f :: {plus, times} memory \<Rightarrow> 'f memory" where
  "math_add_scaled_3 inp s out m =
     (let m = m(out := m out + m inp * s); m = m(out + 1 := m (out + 1) + m (inp + 1) * s)
      in m(out + 2 := m (out + 2) + m (inp + 2) * s))"

definition math_dot_3 :: "nat \<Rightarrow> nat \<Rightarrow> 'f :: {plus, times} memory \<Rightarrow> 'f" where
  "math_dot_3 a b m = m a * m b + m (a + 1) * m (b + 1) + m (a + 2) * m (b + 2)"

definition math_mult_Ax_3x3 :: "nat \<Rightarrow> nat \<Rightarrow> nat \<Rightarrow> 'f :: {plus, times} memory \<Rightarrow> 'f memory" where
  "math_mult_Ax_3x3 A x out m =
     (let y0 = math_dot_3 A x m; y1 = math_dot_3 (A + 3) x m; y2 = math_dot_3 (A + 6) x m
      in m(out := y0, out + 1 := y1, out + 2 := y2))"

definition math_mult_Atx_3x3 :: "nat \<Rightarrow> nat \<Rightarrow> nat \<Rightarrow> 'f :: {plus, times} memory \<Rightarrow> 'f memory" where
  "math_mult_Atx_3x3 A x out m =
     (let x0 = m x; x1 = m (x + 1); x2 = m (x + 2); m = math_scale_3 A x0 out m; m = math_add_scaled_3 (A + 3) x1 out m
      in math_add_scaled_3 (A + 6) x2 out m)"

definition math_mult_AB_3x3x3 :: "nat \<Rightarrow> nat \<Rightarrow> nat \<Rightarrow> 'f :: {plus, times} memory \<Rightarrow> 'f memory" where
  "math_mult_AB_3x3x3 A B out m =
     (let m = math_mult_Atx_3x3 B A out m; m = math_mult_Atx_3x3 B (A + 3) (out + 3) m
      in math_mult_Atx_3x3 B (A + 6) (out + 6) m)"

definition math_eval_poly_3 :: "'f :: {plus, times} \<Rightarrow> nat \<Rightarrow> 'f memory \<Rightarrow> 'f" where
  "math_eval_poly_3 x coef m = m coef + x * (m (coef + 1) + x * (m (coef + 2) + x * m (coef + 3)))"

definition math_affine_transform_3 :: "nat \<Rightarrow> nat \<Rightarrow> nat \<Rightarrow> nat \<Rightarrow> 'f :: {plus, times} memory \<Rightarrow> 'f memory" where
  "math_affine_transform_3 A x b out m = (let m = math_mult_Ax_3x3 A x out m in math_add_3 out b out m)"

text \<open>The local arrays \<open>x2\<close> and \<open>temp\<close> lie at \<open>sp\<close> and behind it, in the frame of the call.\<close>

definition math_quadratic_transform_3 :: "nat \<Rightarrow> nat \<Rightarrow> nat \<Rightarrow> nat \<Rightarrow> nat \<Rightarrow> nat \<Rightarrow> 'f :: {plus, times} memory \<Rightarrow> 'f memory" where
  "math_quadratic_transform_3 sp A B x b out m =
     (let x2 = sp; temp = sp + 3;
          m = math_affine_transform_3 A x b temp m;
          m = fold (\<lambda>i m. m(x2 + i := m (x + i) * m (x + i))) [0..<3] m
      in math_affine_transform_3 B x2 temp out m)"

subsection \<open>What they compute\<close>

text \<open>Arrays of \<open>m\<close> and of \<open>n\<close> elements that do not overlap.\<close>

definition disjoint :: "nat \<Rightarrow> nat \<Rightarrow> nat \<Rightarrow> nat \<Rightarrow> bool" where
  "disjoint p m q n \<longleftrightarrow> p + m \<le> q \<or> q + n \<le> p"

abbreviation less3 :: "nat \<Rightarrow> bool" where "less3 i \<equiv> i < 3"

lemma less3_cases: "i < (3 :: nat) \<Longrightarrow> i = 0 \<or> i = 1 \<or> i = 2"
  by auto

text \<open>The reference: entries of matrices and the expressions of the linear algebra, each in the order of the code.\<close>

definition mat :: "'f memory \<Rightarrow> nat \<Rightarrow> nat \<Rightarrow> nat \<Rightarrow> 'f" where
  "mat m p i j = m (p + 3 * i + j)"

definition row_times :: "(nat \<Rightarrow> 'f :: {plus, times}) \<Rightarrow> (nat \<Rightarrow> 'f) \<Rightarrow> 'f" where
  "row_times r v = r 0 * v 0 + r 1 * v 1 + r 2 * v 2"

lemma row_times_cong:
  "(\<And>k. k < 3 \<Longrightarrow> r k = r' k) \<Longrightarrow> (\<And>k. k < 3 \<Longrightarrow> v k = v' k) \<Longrightarrow> row_times r v = row_times r' v'"
  by (simp add: row_times_def)

lemma transpose_swap_eq:
  "transpose_swap inp out i j m =
     m(out + (i * 3 + j) := m (inp + (j * 3 + i)), out + (j * 3 + i) := m (inp + (i * 3 + j)))"
  by (simp add: transpose_swap_def Let_def)

lemmas transpose_eq = math_transpose_3x3_def transpose_row_def transpose_swap_eq upt_conv_Cons mat_def

lemma transpose_in_place: "i < 3 \<Longrightarrow> j < 3 \<Longrightarrow> mat (math_transpose_3x3 p p m) p i j = mat m p j i"
  by (drule less3_cases, drule less3_cases, elim disjE; simp add: transpose_eq add.commute)

lemma transpose_above: "i < 3 \<Longrightarrow> j < 3 \<Longrightarrow> mat (math_transpose_3x3 p (p + 9 + d) m) (p + 9 + d) i j = mat m p j i"
  by (drule less3_cases, drule less3_cases, elim disjE; simp add: transpose_eq add.commute)

lemma transpose_below: "i < 3 \<Longrightarrow> j < 3 \<Longrightarrow> mat (math_transpose_3x3 (p + 9 + d) p m) p i j = mat m (p + 9 + d) j i"
  by (drule less3_cases, drule less3_cases, elim disjE; simp add: transpose_eq add.commute)

lemma transpose_entry:
  assumes "inp = out \<or> disjoint inp 9 out 9" and "i < 3" "j < 3"
  shows "mat (math_transpose_3x3 inp out m) out i j = mat m inp j i"
  using assms transpose_in_place transpose_above [where p = inp] transpose_below [where p = out]
  by (auto simp: disjoint_def le_iff_add)

lemma mult_Ax_entry: "i < 3 \<Longrightarrow> math_mult_Ax_3x3 A x out m (out + i) = row_times (mat m A i) (\<lambda>k. m (x + k))"
  by (drule less3_cases) (auto simp: math_mult_Ax_3x3_def math_dot_3_def row_times_def mat_def Let_def)

lemma mult_Ax_else: "disjoint p 1 out 3 \<Longrightarrow> math_mult_Ax_3x3 A x out m p = m p"
  by (auto simp: math_mult_Ax_3x3_def disjoint_def Let_def)

lemma scale_entry: "disjoint inp 3 out 3 \<Longrightarrow> j < 3 \<Longrightarrow> math_scale_3 inp s out m (out + j) = m (inp + j) * s"
  by (drule less3_cases) (auto simp: math_scale_3_def disjoint_def Let_def)

lemma scale_else: "disjoint p 1 out 3 \<Longrightarrow> math_scale_3 inp s out m p = m p"
  by (auto simp: math_scale_3_def disjoint_def Let_def)

lemma add_scaled_entry:
  "disjoint inp 3 out 3 \<Longrightarrow> j < 3 \<Longrightarrow> math_add_scaled_3 inp s out m (out + j) = m (out + j) + m (inp + j) * s"
  by (drule less3_cases) (auto simp: math_add_scaled_3_def disjoint_def Let_def)

lemma add_scaled_else: "disjoint p 1 out 3 \<Longrightarrow> math_add_scaled_3 inp s out m p = m p"
  by (auto simp: math_add_scaled_3_def disjoint_def Let_def)

lemma disjoint_part: "disjoint p m q n \<Longrightarrow> i + m' \<le> m \<Longrightarrow> j + n' \<le> n \<Longrightarrow> disjoint (p + i) m' (q + j) n'"
  by (auto simp: disjoint_def)

lemmas disjoint_part0 = disjoint_part [where i = 0, simplified]
  disjoint_part [where j = 0, simplified] disjoint_part [where i = 0 and j = 0, simplified]

lemma mult_Atx_entry:
  assumes "disjoint A 9 out 3" and "j < 3"
  shows "math_mult_Atx_3x3 A x out m (out + j) = row_times (\<lambda>k. mat m A k j) (\<lambda>k. m (x + k))"
  using assms
  by (simp add: math_mult_Atx_3x3_def Let_def add_scaled_entry scale_entry add_scaled_else scale_else row_times_def
      mat_def add.assoc disjoint_part0)

lemma mult_Atx_else: "disjoint p 1 out 3 \<Longrightarrow> math_mult_Atx_3x3 A x out m p = m p"
  by (simp add: math_mult_Atx_3x3_def Let_def add_scaled_else scale_else)

lemma mult_AB_row:
  assumes A: "A = out \<or> disjoint A 9 out 9" and B: "disjoint B 9 out 9" and r: "r < 3" and j: "j < 3"
    and same: "\<And>p. disjoint p 1 out (3 * r) \<Longrightarrow> m' p = m p"
  shows "math_mult_Atx_3x3 B (A + 3 * r) (out + 3 * r) m' (out + 3 * r + j) = row_times (\<lambda>k. mat m B k j) (mat m A r)"
proof -
  have "m' (B + q) = m (B + q)" if "q < 9" for q
    using B r that by (intro same) (auto simp: disjoint_def)
  then have "mat m' B k j = mat m B k j" if "k < 3" for k using j that by (simp add: mat_def add.assoc)
  moreover have "m' (A + 3 * r + k) = mat m A r k" if "k < 3" for k
    unfolding mat_def using A r that by (intro same) (auto simp: disjoint_def)
  moreover have "disjoint B 9 (out + 3 * r) 3" using B r by (auto simp: disjoint_def)
  ultimately show ?thesis
    using mult_Atx_entry [of B "out + 3 * r" j "A + 3 * r" m'] j by (simp cong: row_times_cong)
qed

lemma mult_AB_entry:
  assumes A: "A = out \<or> disjoint A 9 out 9" and B: "disjoint B 9 out 9" and i: "i < 3" and j: "j < 3"
  shows "mat (math_mult_AB_3x3x3 A B out m) out i j = row_times (\<lambda>k. mat m B k j) (mat m A i)"
proof -
  define m1 where "m1 = math_mult_Atx_3x3 B A out m"
  define m2 where "m2 = math_mult_Atx_3x3 B (A + 3) (out + 3) m1"
  have m1: "m1 p = m p" if "disjoint p 1 out 3" for p using that by (simp add: m1_def mult_Atx_else)
  have m2: "m2 p = m p" if "disjoint p 1 out 6" for p
    using that m1 [of p] by (auto simp: m2_def mult_Atx_else disjoint_def)
  note row = mult_AB_row [OF A B _ j]
  have r0: "m1 (out + j) = row_times (\<lambda>k. mat m B k j) (mat m A 0)" using row [of 0 m] by (simp add: m1_def)
  have r1: "m2 (out + 3 + j) = row_times (\<lambda>k. mat m B k j) (mat m A 1)" using row [of 1 m1] m1 by (simp add: m2_def)
  have r2: "math_mult_Atx_3x3 B (A + 6) (out + 6) m2 (out + 6 + j) = row_times (\<lambda>k. mat m B k j) (mat m A 2)"
    using row [of 2 m2] m2 by simp
  have "m2 (out + j) = m1 (out + j)" using j by (simp add: m2_def mult_Atx_else disjoint_def)
  then show ?thesis
    using less3_cases [OF i] j r0 r1 r2
    by (auto simp: math_mult_AB_3x3x3_def Let_def mat_def mult_Atx_else disjoint_def simp flip: m1_def m2_def)
qed

lemma add_in_place_entry:
  "disjoint b 3 out 3 \<or> b = out \<Longrightarrow> i < 3 \<Longrightarrow> math_add_3 out b out m (out + i) = m (out + i) + m (b + i)"
  by (drule less3_cases) (auto simp: math_add_3_def disjoint_def Let_def)

lemma add_else: "disjoint p 1 out 3 \<Longrightarrow> math_add_3 a b out m p = m p"
  by (auto simp: math_add_3_def disjoint_def Let_def)

lemma affine_entry:
  assumes "disjoint b 3 out 3" and "i < 3"
  shows "math_affine_transform_3 A x b out m (out + i) = row_times (mat m A i) (\<lambda>k. m (x + k)) + m (b + i)"
  using assms by (simp add: math_affine_transform_3_def Let_def add_in_place_entry mult_Ax_entry mult_Ax_else disjoint_part0)

lemma affine_else: "disjoint p 1 out 3 \<Longrightarrow> math_affine_transform_3 A x b out m p = m p"
  by (simp add: math_affine_transform_3_def Let_def add_else mult_Ax_else)

lemma affine_onto_offset:
  assumes "i < 3"
  shows "math_affine_transform_3 A x out out m (out + i) = row_times (mat m A i) (\<lambda>k. m (x + k)) + row_times (mat m A i) (\<lambda>k. m (x + k))"
  using assms by (simp add: math_affine_transform_3_def Let_def add_in_place_entry mult_Ax_entry)

definition squares :: "nat \<Rightarrow> nat \<Rightarrow> 'f :: times memory \<Rightarrow> 'f memory" where
  "squares x2 x = fold (\<lambda>i m. m(x2 + i := m (x + i) * m (x + i))) [0..<3]"

lemma squares_entry: "disjoint x 3 x2 3 \<Longrightarrow> i < 3 \<Longrightarrow> squares x2 x m (x2 + i) = m (x + i) * m (x + i)"
  by (drule less3_cases) (auto simp: squares_def upt_conv_Cons disjoint_def)

lemma squares_else: "disjoint p 1 x2 3 \<Longrightarrow> squares x2 x m p = m p"
  by (auto simp: squares_def upt_conv_Cons disjoint_def)

lemma quadratic_entry:
  assumes A: "disjoint A 9 sp 6" and B: "disjoint B 9 sp 6" and x: "disjoint x 3 sp 6" and b: "disjoint b 3 sp 6"
    and out: "disjoint out 3 sp 6" and i: "i < 3"
  shows "math_quadratic_transform_3 sp A B x b out m (out + i) =
     row_times (mat m B i) (\<lambda>k. m (x + k) * m (x + k)) + (row_times (mat m A i) (\<lambda>k. m (x + k)) + m (b + i))"
proof -
  define m1 where "m1 = math_affine_transform_3 A x b (sp + 3) m"
  define m2 where "m2 = squares sp x m1"
  have m1: "m1 (sp + 3 + i) = row_times (mat m A i) (\<lambda>k. m (x + k)) + m (b + i)"
    unfolding m1_def using b i by (intro affine_entry) (auto simp: disjoint_def)
  have m1_else: "m1 p = m p" if "disjoint p 1 sp 6" for p
    unfolding m1_def using that by (intro affine_else) (auto simp: disjoint_def)
  have m2_B: "mat m2 B i k = mat m B i k" if "k < 3" for k
  proof -
    have "disjoint (B + 3 * i + k) 1 sp 6" using B i that by (auto simp: disjoint_def)
    then show ?thesis by (simp add: mat_def m2_def squares_else m1_else disjoint_part0)
  qed
  have m2_x: "m2 (sp + k) = m (x + k) * m (x + k)" if "k < 3" for k
    using squares_entry [of x sp k m1] m1_else [of "x + k"] x that by (simp add: m2_def disjoint_part0)
  have m2_temp: "m2 (sp + 3 + i) = row_times (mat m A i) (\<lambda>k. m (x + k)) + m (b + i)"
    using m1 i by (simp add: m2_def squares_else disjoint_def)
  have "math_quadratic_transform_3 sp A B x b out m (out + i) = math_affine_transform_3 B sp (sp + 3) out m2 (out + i)"
    by (simp add: math_quadratic_transform_3_def Let_def m1_def m2_def squares_def)
  also have "\<dots> = row_times (mat m2 B i) (\<lambda>k. m2 (sp + k)) + m2 (sp + 3 + i)"
    using out i by (intro affine_entry) (auto simp: disjoint_def)
  finally show ?thesis using m2_B m2_x [of 0] m2_x [of 1] m2_x [of 2] m2_temp i by (simp add: row_times_def)
qed

text \<open>
  (C16) The matrix operations compute what their names say, on every overlap of the arguments they allow: the transpose
  in place or into a separate matrix, the product with a vector whatever \<open>out\<close> overlaps, the product of matrices
  with the left factor in place, and the quadratic transform \<open>B x\<^sup>2 + A x + b\<close> whatever its arguments overlap.
  Only the affine transform onto its own offset loses the offset and gives \<open>A x + A x\<close>.
\<close>

theorem matrix_operations_in_place:
  fixes m :: "'f :: {plus, times} memory"
  assumes "i < 3" and "j < 3"
  shows "(inp = out \<or> disjoint inp 9 out 9 \<longrightarrow> mat (math_transpose_3x3 inp out m) out i j = mat m inp j i) \<and>
    math_mult_Ax_3x3 A x out m (out + i) = row_times (mat m A i) (\<lambda>k. m (x + k)) \<and>
    ((A = out \<or> disjoint A 9 out 9) \<and> disjoint B 9 out 9 \<longrightarrow>
      mat (math_mult_AB_3x3x3 A B out m) out i j = row_times (\<lambda>k. mat m B k j) (mat m A i)) \<and>
    (disjoint b 3 out 3 \<longrightarrow>
      math_affine_transform_3 A x b out m (out + i) = row_times (mat m A i) (\<lambda>k. m (x + k)) + m (b + i)) \<and>
    math_affine_transform_3 A x out out m (out + i) =
      row_times (mat m A i) (\<lambda>k. m (x + k)) + row_times (mat m A i) (\<lambda>k. m (x + k)) \<and>
    (disjoint A 9 sp 6 \<and> disjoint B 9 sp 6 \<and> disjoint x 3 sp 6 \<and> disjoint b 3 sp 6 \<and> disjoint out 3 sp 6 \<longrightarrow>
      math_quadratic_transform_3 sp A B x b out m (out + i) =
        row_times (mat m B i) (\<lambda>k. m (x + k) * m (x + k)) + (row_times (mat m A i) (\<lambda>k. m (x + k)) + m (b + i)))"
  using assms by (simp add: transpose_entry mult_Ax_entry mult_AB_entry affine_entry affine_onto_offset quadratic_entry)

text \<open>In place on the matrix of the addresses 0 to 8, whose values are the integers 0 to 8.\<close>

theorem matrix_operations_in_place_witness:
  "mat (math_transpose_3x3 0 0 int) 0 0 1 = 3 \<and> math_mult_Ax_3x3 0 0 0 int 0 = 5 \<and>
   mat (math_mult_AB_3x3x3 0 9 0 int) 0 0 1 = 45 \<and> math_affine_transform_3 0 0 9 0 int 0 = 14 \<and>
   math_affine_transform_3 0 0 0 0 int 0 = 10 \<and> math_quadratic_transform_3 20 0 9 0 9 0 int 0 = 68"
  using matrix_operations_in_place [where i = 0 and j = 1 and inp = 0 and out = 0 and m = int and A = 0 and x = 0 and
      B = 9 and b = 9 and sp = 20]
  by (simp add: mat_def row_times_def disjoint_def)

end
