(* ===== verification/Spec2Isabelle.thy ===== *)
theory Spec2Isabelle
  imports Handle_Types Usbstreaming_Spec Comcommand Zsa_Math
begin

text \<open>
  \<^bold>\<open>Verification of the core of the zsa sensor SDK.\<close>

  \<^bold>\<open>The program.\<close> The SDK (\<open>src/src\<close>, \<open>src/include\<close>) drives a depth camera with a color sensor. A device
  (\<open>sdk/zsa.c\<close>) owns a processor (\<open>color_mcu\<close>) that it commands over USB (\<open>usbcommand\<close>), a color camera (\<open>color\<close>)
  whose frames arrive in a callback, and a synchroniser (\<open>capturesync\<close>) that pairs the captures of the two sensors by
  their time stamps and hands the pairs to the user through a queue (\<open>queue\<close>). A capture (\<open>allocator.c\<close>) is a reference
  counted set of images (\<open>image\<close>), an image a reference counted buffer, a buffer comes from the allocator
  (\<open>allocator\<close>) with a header in front of it. Every object is named by a handle (\<open>handle.h\<close>), global state is
  initialised once (\<open>global\<close>, \<open>rwlock\<close>), and threads meet at the locks, condition variables, threads and clocks of
  the adapters of \<open>extern/azure_c_shared\<close>.

  \<^bold>\<open>How it is modelled.\<close> The state of the program is one record, built in layers by extension, one layer per
  component: memory, handles and locks (\<open>mem\<close>), then allocator, images, captures, queues, synchronisers, USB, processor,
  camera and device. An operation of a layer is polymorphic in the layers above it, as the C functions are, and takes
  and returns the world. \<open>None\<close> means that the call does not return: undefined behaviour (a null or stale
  pointer), a failed assertion, or waiting for ever; the results of the program, errors included, are values. An out
  parameter is an option, \<open>None\<close> for a null pointer. Integers have the width of the source where it matters (sizes and
  time stamps are words; \<open>int\<close> values carry their range). A point at which the code waits takes what the other
  threads do meanwhile as an argument, so that a theorem holds for every interference its hypotheses allow.

  \<^bold>\<open>The theories, in the order of the components.\<close>

  \<^item> \<open>Prelude\<close>: lemmas on lists, options and sums, and the collections of rules the proofs share.
  \<^item> \<open>Zsa_Types\<close>: \<open>zsatypes.h\<close> and \<open>common.h\<close>: results, enumerations, the configuration, the conversions.
  \<^item> \<open>Platform\<close>: memory and grants of the operating system, \<open>lock_pthreads.c\<close>, \<open>condition_pthreads.c\<close>,
    \<open>rwlock_linux.c\<close>, \<open>global.c\<close>.
  \<^item> \<open>Handles\<close>: \<open>handle.h\<close>. The interface \<open>context_store\<close> states what a table of contexts promises; it is interpreted
    for images, captures, queues, synchronisers, USB devices, processors, cameras and devices. The interface
    \<open>refcounted\<close> states what taking and releasing a reference promises.
  \<^item> \<open>Allocator\<close>: \<open>allocator.c\<close>. Buffers with headers, per-source counts, hooks and sessions. The counts are exact in every
    reachable state; a release calls the hook that was set when the buffer was made; buffers fit; the wrap-around
    of the size check.
  \<^item> \<open>Image\<close>: \<open>image.c\<close>. Every live image owns its buffer alone, the last release frees it once, the sizes computed for
    each format suffice, and the failure paths are stated as they are. \<open>image_rc\<close> interprets \<open>refcounted\<close>.
  \<^item> \<open>Capture\<close>: the captures of \<open>allocator.c\<close>. Set and get of the slots, ownership of the images, release. \<open>capture_rc\<close>
    interprets \<open>refcounted\<close>.
  \<^item> \<open>Queue\<close>: \<open>queue.c\<close>. The ring buffer implements the interface \<open>bounded_queue\<close>; pushing to a full queue drops the
    oldest capture, popping takes the oldest or waits, disabling waits for the consumers and empties the queue.
    \<open>client_rc\<close> and \<open>outside_rc\<close> interpret \<open>refcounted\<close> for the references not held by queues and captures.
  \<^item> \<open>Capturesync\<close>, \<open>Capturesync_Spec\<close>, \<open>Capturesync_Life\<close>: \<open>capturesync.c\<close>. The window of a pair in wrapping arithmetic, the
    loop that drops and pairs, start and stop, creation and destruction. The code refines an abstract pairing of two
    streams of captures, and its loop terminates because every round takes a capture from a queue.
  \<^item> \<open>Libusb\<close>, \<open>Usbcommand\<close>, \<open>Usbcommand_Spec\<close>: \<open>usbcommand.c\<close>. Finding, claiming and closing a device; the protocol of a command:
    packet, data and response, and its errors; serial numbers, container ids and their text.
  \<^item> \<open>Usbstreaming\<close>, \<open>Usbstreaming_Spec\<close>: \<open>usbstreaming.c\<close>. The transfers of a stream, the completion callback, the service
    thread, starting and stopping: a completed transfer is submitted again or released with its image, the memory of
    the transfers is bounded, a stopped stream releases them.
  \<^item> \<open>Comcommand\<close>: \<open>comcommand.c\<close> and \<open>comstreaming.c\<close>, the module for a serial line whose transactions are still stubs: the
    life of its devices and streams. It works on the memory and its own contexts only.
  \<^item> \<open>Color_mcu\<close>, \<open>Color_mcu_Spec\<close>: \<open>color_mcu.c\<close> over the USB component; the bytes of the synchronisation command.
  \<^item> \<open>Color\<close>: \<open>tickcounter_linux.c\<close> and \<open>color.cpp\<close>: camera, controls and their cached capabilities.
  \<^item> \<open>Zsa_Device\<close>, \<open>Zsa_Device_Spec\<close>: \<open>sdk/zsa.c\<close>. The device composes all components. Starting the cameras is all or nothing and
    keeps the invariant of the device; opening a device never succeeds.
  \<^item> \<open>Zsa_Device_Run\<close>: an open device in use. The user, the camera and the depth sensor call it in any order; no call that
    observes its contract gets stuck, a frame that completes a pair reaches the user's next poll, and the
    capabilities of a control are read from the camera once.
  \<^item> \<open>Zsa_Device_Life\<close>: closing a device takes away exactly the handles, locks and USB objects that it owns.
  \<^item> \<open>Handle_Types\<close>: the functions of all components refuse handles of another type, and the handles of a device keep
    their types while it is in use.
  \<^item> \<open>Zsa_Math\<close>: \<open>math.c\<close>, on a memory in which the arrays may overlap.

  \<^bold>\<open>Shape of the lemmas.\<close> Each component has an invariant (\<open>alloc_inv\<close>, \<open>image_inv\<close>, \<open>capture_inv\<close>, \<open>queue_inv\<close>, \<open>sync_inv\<close>,
  \<open>device_ok\<close>), each operation a lemma that it returns from such a state, with what result, that it keeps the
  invariant and what it leaves alone. The properties rest on these. Reachability of allocator and image states is
  by rule induction over the steps \<open>alloc_step\<close> and \<open>image_step\<close>, that of device states over the calls of \<open>device_reach\<close>.

  \<^bold>\<open>Parameters and their hypotheses.\<close> \<open>libusb\<close> is a record of functions from the history of its calls to its
  answers; the only hypothesis on it (\<open>api_bounded\<close>) is that a transfer moves at most the bytes it was asked for. The
  camera reader is such a record without a hypothesis. The environment (\<open>getenv\<close>), the clock, the callbacks of
  the user and the memory that the system grants are arguments. \<open>populate_serialnumber\<close>, which \<open>comcommand.c\<close> calls and
  no file defines, is a function on the context, assumed to write the serial number only.

  \<^bold>\<open>Loops and bounds.\<close> The loop that pairs captures (\<open>sync_loop\<close>), the one that empties a queue (\<open>queue_release_all\<close>) and the
  wait for the consumers of a disabled queue (\<open>queue_wait_for_consumers\<close>) are partial functions into \<open>option\<close>, so that a
  loop without end is \<open>None\<close>; the properties show that they return, the first two by the number of captures
  queued, the third when the other threads drain the waiting consumers. A consumer that waits is given one
  wake-up, as in the code, which pops once after \<open>Condition_Wait\<close>. The service loop of a stream takes the
  events of its rounds as a list; when the list is used up and the stream still runs, the thread has not ended, and
  this is \<open>None\<close>. The loops over fixed arrays (slots of a capture, transfers of a stream, rows of a matrix) are
  recursion over a list of indices.

  \<^bold>\<open>Not modelled.\<close> The vendored libraries, logging (no result depends on it), the camera readers (C++ over libuvc and
  Media Foundation, a parameter of the model), the Windows variants of the lock and of the library entry, the copy of
  the processor in \<open>laser_mcu\<close> (the same bytes as \<open>color_mcu\<close>, built by no target). The structures of \<open>zsatypes.h\<close> for calibration, IMU samples and versions belong to parts that the repository
  does not contain.
\<close>

end
